(* ===== verification/Prelude.thy ===== *)
theory Prelude
  imports Main "HOL-Library.Sublist"
begin

text \<open>
  Shared vocabulary of the development: the parts of Rust's standard library that the
  modelled code calls (results, three-way comparison, slice binary search, ranges and
  bounds), the collections of facts the component theories extend, and generic lemmas on
  lists.

  A Rust \<open>Result<A, E>\<close> is the sum \<open>'e + 'a\<close>, written with \<open>Err\<close> and \<open>Ok\<close>. A panic is
  \<open>None\<close> of an \<open>option\<close>, and so is a loop that does not return. Unsigned machine integers
  are natural numbers; where the code checks or saturates an overflow, the bound is written
  out with the constants below.
\<close>

section \<open>Collections of facts\<close>

named_theorems stats_simps \<open>rewrite rules for the model of the statistics service\<close>
named_theorems stats_splits \<open>rewrite rules that expose the branches of an operation\<close>

section \<open>Results\<close>

type_synonym ('e, 'a) result = "'e + 'a"

abbreviation Err :: "'e \<Rightarrow> ('e, 'a) result" where "Err \<equiv> Inl"
abbreviation Ok :: "'a \<Rightarrow> ('e, 'a) result" where "Ok \<equiv> Inr"

text \<open>The \<open>?\<close> operator: stop with the error, otherwise go on with the value.\<close>

definition try_bind :: "('e, 'a) result \<Rightarrow> ('a \<Rightarrow> ('e, 'b) result) \<Rightarrow> ('e, 'b) result" where
  "try_bind r f = (case r of Inl e \<Rightarrow> Inl e | Inr x \<Rightarrow> f x)"

lemma try_bind_simps [simp]:
  "try_bind (Err e) f = Err e"
  "try_bind (Ok x) f = f x"
  by (simp_all add: try_bind_def)

lemma try_bind_Ok_iff: "try_bind r f = Ok y \<longleftrightarrow> (\<exists>x. r = Ok x \<and> f x = Ok y)"
  by (cases r) auto

lemma try_bind_Err_iff: "try_bind r f = Err e \<longleftrightarrow> r = Err e \<or> (\<exists>x. r = Ok x \<and> f x = Err e)"
  by (cases r) auto

section \<open>Machine integer bounds\<close>

definition u32_max :: nat where "u32_max = 2 ^ 32 - 1"
definition u64_max :: nat where "u64_max = 2 ^ 64 - 1"
definition i32_max :: int where "i32_max = 2 ^ 31 - 1"
definition i32_min :: int where "i32_min = - (2 ^ 31)"

section \<open>Three-way comparison\<close>

datatype ordering = Less | Equal | Greater

definition cmp :: "'a::linorder \<Rightarrow> 'a \<Rightarrow> ordering" where
  "cmp a b = (if a < b then Less else if a = b then Equal else Greater)"

lemma cmp_simps [simp]:
  "cmp a b = Less \<longleftrightarrow> a < b"
  "cmp a b = Equal \<longleftrightarrow> a = b"
  "cmp a b = Greater \<longleftrightarrow> b < a"
  by (auto simp: cmp_def)

lemma cmp_eval [simp]:
  "a < b \<Longrightarrow> cmp a b = Less"
  "cmp a a = Equal"
  "b < a \<Longrightarrow> cmp a b = Greater"
  by (auto simp: cmp_def)

section \<open>Slice binary search\<close>

text \<open>
  \<open>slice::binary_search_by\<close>: halve the window \<open>[base, base + sz)\<close> until one element is
  left, then compare it. \<open>Ok i\<close> is the index of a match and \<open>Err i\<close> the index at which a
  match could be inserted.
\<close>

function bs_loop :: "('a \<Rightarrow> ordering) \<Rightarrow> 'a list \<Rightarrow> nat \<Rightarrow> nat \<Rightarrow> nat" where
  "bs_loop f xs sz base =
     (if 1 < sz
      then let half = sz div 2; mid = base + half
           in bs_loop f xs (sz - half) (if f (xs ! mid) = Greater then base else mid)
      else base)"
  by pat_completeness auto
termination
  by (relation "measure (\<lambda>(f, xs, sz, base). sz)") auto

declare bs_loop.simps [simp del]

definition binary_search_by :: "('a \<Rightarrow> ordering) \<Rightarrow> 'a list \<Rightarrow> (nat, nat) result" where
  "binary_search_by f xs =
     (if xs = [] then Err 0
      else let base = bs_loop f xs (length xs) 0
           in case f (xs ! base) of
                Equal \<Rightarrow> Ok base
              | Less \<Rightarrow> Err (base + 1)
              | Greater \<Rightarrow> Err base)"

definition binary_search_by_key :: "'k::linorder \<Rightarrow> ('a \<Rightarrow> 'k) \<Rightarrow> 'a list \<Rightarrow> (nat, nat) result" where
  "binary_search_by_key k key xs = binary_search_by (\<lambda>p. cmp (key p) k) xs"

text \<open>\<open>unwrap_or_else(|i| i)\<close> on the result of a search.\<close>

definition search_index :: "(nat, nat) result \<Rightarrow> nat" where
  "search_index r = (case r of Inl i \<Rightarrow> i | Inr i \<Rightarrow> i)"

text \<open>The loop keeps everything right of its window greater than the key.\<close>

lemma bs_loop_invariant:
  assumes "0 < sz" "base + sz \<le> length xs"
    and "\<And>j. base + sz \<le> j \<Longrightarrow> j < length xs \<Longrightarrow> f (xs ! j) = Greater"
    and "base = 0 \<or> f (xs ! base) \<noteq> Greater"
    and "\<And>i j. i \<le> j \<Longrightarrow> j < length xs \<Longrightarrow> f (xs ! i) = Greater \<Longrightarrow> f (xs ! j) = Greater"
  shows "bs_loop f xs sz base < length xs
    \<and> (\<forall>j. bs_loop f xs sz base < j \<and> j < length xs \<longrightarrow> f (xs ! j) = Greater)
    \<and> (bs_loop f xs sz base = 0 \<or> f (xs ! bs_loop f xs sz base) \<noteq> Greater)"
  using assms
proof (induction f xs sz base rule: bs_loop.induct)
  case (1 f xs sz base)
  show ?case
  proof (cases "1 < sz")
    case True
    let ?half = "sz div 2"
    let ?mid = "base + ?half"
    let ?base = "if f (xs ! ?mid) = Greater then base else ?mid"
    have unfold: "bs_loop f xs sz base = bs_loop f xs (sz - ?half) ?base"
      using True by (subst bs_loop.simps) (simp add: Let_def)
    have bound: "?base + (sz - ?half) \<le> length xs"
      using "1.prems"(2) by auto
    have right: "f (xs ! j) = Greater" if "?base + (sz - ?half) \<le> j" "j < length xs" for j
    proof (cases "f (xs ! ?mid) = Greater")
      case True
      with that have "?mid \<le> j" by auto
      with True that(2) show ?thesis by (metis "1.prems"(5))
    next
      case False
      with that have "base + sz \<le> j" by auto
      with that(2) "1.prems"(3) show ?thesis by blast
    qed
    have left: "?base = 0 \<or> f (xs ! ?base) \<noteq> Greater"
      using "1.prems"(4) by auto
    have pos: "0 < sz - ?half" using True by auto
    show ?thesis
      unfolding unfold
      by (rule "1.IH"[OF True refl refl pos bound right left "1.prems"(5)])
  next
    case False
    then have "bs_loop f xs sz base = base" by (subst bs_loop.simps) simp
    moreover from False "1.prems"(1) have "sz = 1" by simp
    ultimately show ?thesis using "1.prems"(2-4) by simp
  qed
qed

text \<open>On strictly sorted data the index is the number of smaller keys, found or not.\<close>

lemma sorted_wrt_less_nth:
  "sorted_wrt (<) (map key xs) \<Longrightarrow> i < j \<Longrightarrow> j < length xs \<Longrightarrow> key (xs ! i) < key (xs ! j)"
  by (simp add: sorted_wrt_iff_nth_less)

lemma takeWhile_length_eqI:
  assumes "n \<le> length xs" "\<And>i. i < n \<Longrightarrow> P (xs ! i)" "n < length xs \<Longrightarrow> \<not> P (xs ! n)"
  shows "length (takeWhile P xs) = n"
  using takeWhile_eq_take_P_nth[of n xs P] assms by simp

lemma binary_search_by_key_base:
  assumes sorted: "sorted_wrt (<) (map key xs)" and "xs \<noteq> []"
    and base: "base = bs_loop (\<lambda>p. cmp (key p) k) xs (length xs) 0"
  shows "base < length xs"
    and "base < j \<Longrightarrow> j < length xs \<Longrightarrow> k < key (xs ! j)"
    and "base = 0 \<or> key (xs ! base) \<le> k"
proof -
  let ?f = "\<lambda>p. cmp (key p) k"
  have mono: "?f (xs ! j) = Greater" if "i \<le> j" "j < length xs" "?f (xs ! i) = Greater" for i j
    using that sorted_wrt_less_nth[OF sorted, of i j] by (cases "i = j") auto
  have pos: "0 < length xs" using \<open>xs \<noteq> []\<close> by simp
  have "base < length xs \<and> (\<forall>j. base < j \<and> j < length xs \<longrightarrow> k < key (xs ! j))
      \<and> (base = 0 \<or> \<not> k < key (xs ! base))"
    unfolding base
    using bs_loop_invariant[of "length xs" 0 xs ?f, OF pos _ _ _ mono] by simp
  then show "base < length xs"
    and "base < j \<Longrightarrow> j < length xs \<Longrightarrow> k < key (xs ! j)"
    and "base = 0 \<or> key (xs ! base) \<le> k"
    by auto
qed

lemma binary_search_by_key_cases:
  assumes "xs \<noteq> []" and base: "base = bs_loop (\<lambda>p. cmp (key p) k) xs (length xs) 0"
  shows "binary_search_by_key k key xs =
    (if key (xs ! base) = k then Ok base
     else if key (xs ! base) < k then Err (base + 1) else Err base)"
proof -
  have "binary_search_by_key k key xs =
      (case cmp (key (xs ! base)) k of Equal \<Rightarrow> Ok base | Less \<Rightarrow> Err (base + 1) | Greater \<Rightarrow> Err base)"
    using assms(1) unfolding base
    by (simp add: binary_search_by_key_def binary_search_by_def Let_def)
  then show ?thesis by (auto simp: cmp_def)
qed

lemma search_index_eq:
  assumes sorted: "sorted_wrt (<) (map key xs)"
  shows "search_index (binary_search_by_key k key xs) = length (takeWhile (\<lambda>p. key p < k) xs)"
proof (cases "xs = []")
  case False
  define base where "base = bs_loop (\<lambda>p. cmp (key p) k) xs (length xs) 0"
  note b = binary_search_by_key_base[OF sorted False base_def]
  have below: "key (xs ! i) < key (xs ! base)" if "i < base" for i
    using that b(1) sorted_wrt_less_nth[OF sorted] by blast
  consider (lt) "key (xs ! base) < k" | (eq) "key (xs ! base) = k" | (gt) "k < key (xs ! base)"
    by fastforce
  then show ?thesis
  proof cases
    case lt
    then have "search_index (binary_search_by_key k key xs) = base + 1"
      by (simp add: binary_search_by_key_cases[OF False base_def] search_index_def)
    moreover have "key (xs ! i) < k" if "i < base + 1" for i
      using that lt below[of i] by (cases "i = base") auto
    then have "length (takeWhile (\<lambda>p. key p < k) xs) = base + 1"
      by (intro takeWhile_length_eqI) (use b(1) b(2)[of "base + 1"] in auto)
    ultimately show ?thesis by simp
  next
    case eq
    then have "search_index (binary_search_by_key k key xs) = base"
      by (simp add: binary_search_by_key_cases[OF False base_def] search_index_def)
    moreover have "length (takeWhile (\<lambda>p. key p < k) xs) = base"
      by (intro takeWhile_length_eqI) (use b eq below in auto)
    ultimately show ?thesis by simp
  next
    case gt
    then have "search_index (binary_search_by_key k key xs) = base"
      by (auto simp: binary_search_by_key_cases[OF False base_def] search_index_def dest: less_asym)
    moreover have "length (takeWhile (\<lambda>p. key p < k) xs) = base"
      by (intro takeWhile_length_eqI) (use b gt below in auto)
    ultimately show ?thesis by simp
  qed
qed (simp add: binary_search_by_key_def binary_search_by_def search_index_def)

lemma binary_search_by_key_Ok_iff:
  assumes sorted: "sorted_wrt (<) (map key xs)"
  shows "(\<exists>i. binary_search_by_key k key xs = Ok i) \<longleftrightarrow> k \<in> key ` set xs"
proof (cases "xs = []")
  case False
  define base where "base = bs_loop (\<lambda>p. cmp (key p) k) xs (length xs) 0"
  note b = binary_search_by_key_base[OF sorted False base_def]
  have "k \<in> key ` set xs \<longleftrightarrow> key (xs ! base) = k"
  proof
    assume "k \<in> key ` set xs"
    then obtain i where i: "i < length xs" "key (xs ! i) = k" by (auto simp: in_set_conv_nth)
    with b(2)[of i] have "i \<le> base" by fastforce
    with sorted_wrt_less_nth[OF sorted, of i base] b(1,3) i show "key (xs ! base) = k"
      by (cases "i = base") auto
  next
    assume "key (xs ! base) = k"
    with b(1) show "k \<in> key ` set xs" by force
  qed
  moreover have "(\<exists>i. binary_search_by_key k key xs = Ok i) \<longleftrightarrow> key (xs ! base) = k"
    by (simp add: binary_search_by_key_cases[OF False base_def])
  ultimately show ?thesis by simp
qed (simp add: binary_search_by_key_def binary_search_by_def)

section \<open>Ranges and bounds\<close>

text \<open>\<open>std::ops::Range\<close> (end excluded), \<open>RangeInclusive\<close> and \<open>Bound\<close>.\<close>

datatype 'a range = Range (range_start: 'a) (range_end: 'a)
datatype 'a range_inclusive = RangeInclusive (incl_start: 'a) (incl_end: 'a)
datatype 'a bound = Included 'a | Excluded 'a | Unbounded

text \<open>The elements each of them contains.\<close>

definition range_set :: "'a::linorder range \<Rightarrow> 'a set" where
  "range_set r = {range_start r ..< range_end r}"

definition incl_set :: "'a::linorder range_inclusive \<Rightarrow> 'a set" where
  "incl_set r = {incl_start r .. incl_end r}"

primrec bound_above :: "'a::linorder bound \<Rightarrow> 'a \<Rightarrow> bool" where
  "bound_above (Included e) x = (x \<le> e)"
| "bound_above (Excluded e) x = (x < e)"
| "bound_above Unbounded x = True"

section \<open>Lists\<close>

lemma strict_sorted_distinct: "sorted_wrt (<) (xs :: 'a::linorder list) \<Longrightarrow> distinct xs"
  by (simp add: strict_sorted_iff)

lemma takeWhile_less_filter:
  "sorted_wrt (<) (map key xs) \<Longrightarrow>
     takeWhile (\<lambda>p. key p < (k::'k::linorder)) xs = filter (\<lambda>p. key p < k) xs"
  by (induction xs) (auto intro!: filter_False[symmetric] dest: order_less_trans)

lemma dropWhile_less_filter:
  "sorted_wrt (<) (map key xs) \<Longrightarrow>
     dropWhile (\<lambda>p. key p < (k::'k::linorder)) xs = filter (\<lambda>p. k \<le> key p) xs"
  by (induction xs) (auto intro!: filter_True[symmetric])

lemma filter_eq_ConsD: "filter P xs = q # qs \<Longrightarrow> q \<in> set xs \<and> P q"
  by (auto simp: filter_eq_Cons_iff)

text \<open>\<open>slice::chunks\<close>: consecutive pieces of the given length, the last one may be shorter.\<close>

function chunks :: "nat \<Rightarrow> 'a list \<Rightarrow> 'a list list" where
  "chunks n xs = (if xs = [] \<or> n = 0 then [] else take n xs # chunks n (drop n xs))"
  by auto
termination by (relation "measure (\<lambda>(n, xs). length xs)") auto

declare chunks.simps [simp del]

lemma chunks_concat: "0 < n \<Longrightarrow> concat (chunks n xs) = xs"
  by (induction n xs rule: chunks.induct) (simp add: chunks.simps)

lemma chunks_nonempty: "[] \<notin> set (chunks n xs)"
  by (induction n xs rule: chunks.induct) (auto simp: chunks.simps)

end
