(* ===== verification/Chrono.thy ===== *)
theory Chrono
  imports Prelude
begin

text \<open>
  The calendar of the \<open>chrono\<close> crate, a third-party dependency of the repository. It is a
  parameter of the model: a record with one field per operation the statistics service
  calls, and a locale whose assumptions are the documented behaviour of these operations.

  The last section gives one calendar that satisfies the locale, so that facts proved from
  it are not empty: dates are day numbers and timestamps are nanosecond counts, both
  within the range that the crate documents.
\<close>

section \<open>The operations the service calls\<close>

text \<open>
  \<open>'d\<close> stands for \<open>NaiveDate\<close> and \<open>'s\<close> for \<open>DateTime<Utc>\<close>. \<open>checked_add_days d n\<close> is
  \<open>d.checked_add_days(Days::new(n))\<close>, \<open>with_day_1 d\<close> is \<open>d.with_day(1)\<close>, \<open>year_of\<close> and
  \<open>month_of\<close> are \<open>Datelike::year\<close> and \<open>Datelike::month\<close>,
  \<open>from_yo_1 y\<close> is \<open>NaiveDate::from_yo_opt(y, 1)\<close>, \<open>week_first_day d\<close> and
  \<open>week_last_day d\<close> are \<open>checked_first_day\<close> and \<open>checked_last_day\<close> of
  \<open>d.week(Weekday::Mon)\<close>, \<open>midnight d\<close> is \<open>d.and_time(00:00:00).and_utc()\<close> and
  \<open>add_nanosecond\<close> is \<open>checked_add_signed(Duration::nanoseconds(1))\<close>.
\<close>

record ('d, 's) chrono =
  num_days_from_ce :: "'d \<Rightarrow> int"
  NaiveDate_MIN :: 'd
  NaiveDate_MAX :: 'd
  checked_add_days :: "'d \<Rightarrow> nat \<Rightarrow> 'd option"
  checked_sub_days :: "'d \<Rightarrow> nat \<Rightarrow> 'd option"
  with_day_1 :: "'d \<Rightarrow> 'd option"
  checked_add_months :: "'d \<Rightarrow> nat \<Rightarrow> 'd option"
  checked_sub_months :: "'d \<Rightarrow> nat \<Rightarrow> 'd option"
  year_of :: "'d \<Rightarrow> int"
  month_of :: "'d \<Rightarrow> int"
  from_yo_1 :: "int \<Rightarrow> 'd option"
  week_first_day :: "'d \<Rightarrow> 'd option"
  week_last_day :: "'d \<Rightarrow> 'd option"
  midnight :: "'d \<Rightarrow> 's"
  date_naive :: "'s \<Rightarrow> 'd"
  MIN_UTC :: 's
  MAX_UTC :: 's
  add_nanosecond :: "'s \<Rightarrow> 's option"
  sub_nanosecond :: "'s \<Rightarrow> 's option"
  sub_one_day :: "'s \<Rightarrow> 's option"

section \<open>Documented behaviour\<close>

text \<open>
  Dates are the days of a finite interval, numbered without gaps; adding days adds to the
  number and fails outside the interval. A timestamp belongs to the day whose midnight is
  the last one not after it, and timestamps move in steps of one nanosecond.
\<close>

locale chrono_days =
  fixes C :: "('d::linorder, 's::linorder) chrono"
  assumes num_less: "num_days_from_ce C a < num_days_from_ce C b \<longleftrightarrow> a < b"
    and date_min: "NaiveDate_MIN C \<le> d"
    and date_max: "d \<le> NaiveDate_MAX C"
    and date_min_max: "NaiveDate_MIN C < NaiveDate_MAX C"
    and num_onto: "num_days_from_ce C (NaiveDate_MIN C) \<le> k \<Longrightarrow>
      k \<le> num_days_from_ce C (NaiveDate_MAX C) \<Longrightarrow> \<exists>d. num_days_from_ce C d = k"
    and add_days: "checked_add_days C a n = Some b \<longleftrightarrow>
      num_days_from_ce C b = num_days_from_ce C a + int n"
    and sub_days: "checked_sub_days C a n = Some b \<longleftrightarrow>
      num_days_from_ce C b = num_days_from_ce C a - int n"
    and midnight_le: "midnight C d \<le> s \<longleftrightarrow> d \<le> date_naive C s"
    and midnight_date: "date_naive C (midnight C d) = d"
    and time_max: "s \<le> MAX_UTC C"
    and time_min: "MIN_UTC C \<le> s"
    and add_ns_None: "add_nanosecond C s = None \<longleftrightarrow> s = MAX_UTC C"
    and add_ns_Some: "add_nanosecond C s = Some t \<Longrightarrow> s < t \<and> (\<forall>u. s < u \<longrightarrow> t \<le> u)"
    and sub_ns_None: "sub_nanosecond C s = None \<longleftrightarrow> s = MIN_UTC C"
    and sub_ns_Some: "sub_nanosecond C s = Some t \<Longrightarrow> t < s \<and> (\<forall>u. u < s \<longrightarrow> u \<le> t)"
begin

lemma num_le: "num_days_from_ce C a \<le> num_days_from_ce C b \<longleftrightarrow> a \<le> b"
  by (meson linorder_not_le num_less)

lemma num_eq: "num_days_from_ce C a = num_days_from_ce C b \<longleftrightarrow> a = b"
  by (metis num_le order_antisym order_refl)

lemma add_days_None:
  "checked_add_days C d n = None \<longleftrightarrow>
     num_days_from_ce C (NaiveDate_MAX C) < num_days_from_ce C d + int n"
proof (cases "checked_add_days C d n")
  case None
  have "\<not> num_days_from_ce C d + int n \<le> num_days_from_ce C (NaiveDate_MAX C)"
  proof
    assume le: "num_days_from_ce C d + int n \<le> num_days_from_ce C (NaiveDate_MAX C)"
    have "num_days_from_ce C (NaiveDate_MIN C) \<le> num_days_from_ce C d + int n"
      using num_le date_min by (meson le_add_same_cancel1 of_nat_0_le_iff order_trans)
    from num_onto[OF this le] add_days None show False by (metis option.distinct(1))
  qed
  with None show ?thesis by simp
next
  case (Some e)
  then have "num_days_from_ce C e = num_days_from_ce C d + int n" by (simp add: add_days)
  with Some num_le[of e "NaiveDate_MAX C"] date_max[of e] show ?thesis by simp
qed

lemma sub_days_None:
  "checked_sub_days C d n = None \<longleftrightarrow>
     num_days_from_ce C d - int n < num_days_from_ce C (NaiveDate_MIN C)"
proof (cases "checked_sub_days C d n")
  case None
  have "\<not> num_days_from_ce C (NaiveDate_MIN C) \<le> num_days_from_ce C d - int n"
  proof
    assume le: "num_days_from_ce C (NaiveDate_MIN C) \<le> num_days_from_ce C d - int n"
    have "num_days_from_ce C d - int n \<le> num_days_from_ce C (NaiveDate_MAX C)"
      using num_le[of d "NaiveDate_MAX C"] date_max[of d] by simp
    from num_onto[OF le this] sub_days None show False by (metis option.distinct(1))
  qed
  with None show ?thesis by simp
next
  case (Some e)
  then have "num_days_from_ce C e = num_days_from_ce C d - int n" by (simp add: sub_days)
  with Some num_le[of "NaiveDate_MIN C" e] date_min[of e] show ?thesis by simp
qed

lemma add_one_day_Some:
  assumes "d \<noteq> NaiveDate_MAX C"
  obtains e where "checked_add_days C d 1 = Some e"
proof (cases "checked_add_days C d 1")
  case None
  then have "num_days_from_ce C (NaiveDate_MAX C) \<le> num_days_from_ce C d"
    using add_days_None[of d 1] by simp
  with assms date_max[of d] num_le show thesis by (meson order_antisym)
qed (use that in blast)

lemma midnight_less: "midnight C a < midnight C b \<longleftrightarrow> a < b"
  by (metis linorder_not_le midnight_date midnight_le)

lemma midnight_mono: "midnight C a \<le> midnight C b \<longleftrightarrow> a \<le> b"
  by (simp add: midnight_date midnight_le)

lemma midnight_eq: "midnight C a = midnight C b \<longleftrightarrow> a = b"
  by (metis midnight_date)

lemma date_naive_mono: "s \<le> t \<Longrightarrow> date_naive C s \<le> date_naive C t"
  by (meson midnight_le order_refl order_trans)

lemma date_naive_less: "s < midnight C d \<longleftrightarrow> date_naive C s < d"
  by (meson linorder_not_le midnight_le)

lemma two_dates: "\<exists>x y :: 'd. x \<noteq> y"
  using date_min_max by (metis less_irrefl)

lemma two_times: "\<exists>x y :: 's. x \<noteq> y"
  using two_dates midnight_eq by metis

lemma finite_dates: "finite {a..b :: 'd}"
proof -
  have inj: "inj_on (num_days_from_ce C) {a..b}" by (auto simp: inj_on_def num_eq)
  have "num_days_from_ce C ` {a..b} \<subseteq> {num_days_from_ce C a..num_days_from_ce C b}"
    by (auto simp: num_le)
  then have "finite (num_days_from_ce C ` {a..b})" by (rule finite_subset) simp
  then show ?thesis using inj by (rule finite_imageD)
qed

end

section \<open>Weeks, months and years\<close>

text \<open>Months counted across years.\<close>

definition month_number :: "('d, 's) chrono \<Rightarrow> 'd \<Rightarrow> int" where
  "month_number C d = 12 * year_of C d + month_of C d - 1"

text \<open>
  Day 1 is a Monday. Month numbers grow with the date, the first of a month is its least
  date, and adding months fails only past the last month. A year is in range when its
  first day is, and has that day as its least date.
\<close>

locale chrono_calendar = chrono_days C for C :: "('d::linorder, 's::linorder) chrono" +
  assumes date_span: "num_days_from_ce C (NaiveDate_MIN C) + 7 \<le> num_days_from_ce C (NaiveDate_MAX C)"
    and week_first: "week_first_day C d = Some f \<longleftrightarrow>
      num_days_from_ce C f = num_days_from_ce C d - (num_days_from_ce C d - 1) mod 7"
    and week_last: "week_last_day C d = Some l \<longleftrightarrow>
      num_days_from_ce C l = num_days_from_ce C d - (num_days_from_ce C d - 1) mod 7 + 6"
    and month_mono: "a \<le> b \<Longrightarrow> month_number C a \<le> month_number C b"
    and month_day_1: "with_day_1 C d = Some f \<Longrightarrow>
      month_number C f = month_number C d \<and> (\<forall>e. month_number C e = month_number C d \<longrightarrow> f \<le> e)"
    and month_no_day_1: "with_day_1 C d = None \<Longrightarrow> month_number C d = month_number C (NaiveDate_MIN C)"
    and add_months: "checked_add_months C d n = Some e \<Longrightarrow> month_number C e = month_number C d + int n"
    and add_months_None: "checked_add_months C d n = None \<Longrightarrow>
      month_number C (NaiveDate_MAX C) < month_number C d + int n"
    and sub_months: "checked_sub_months C d n = Some e \<Longrightarrow> month_number C e = month_number C d - int n"
    and sub_months_None: "checked_sub_months C d n = None \<Longrightarrow>
      month_number C d - int n < month_number C (NaiveDate_MIN C)"
    and year_mono: "a \<le> b \<Longrightarrow> year_of C a \<le> year_of C b"
    and year_first: "from_yo_1 C y = Some f \<Longrightarrow> y \<le> year_of C d \<longleftrightarrow> f \<le> d"
    and year_of_first: "from_yo_1 C y = Some f \<Longrightarrow> year_of C f = y"
    and year_first_None: "from_yo_1 C y = None \<longleftrightarrow>
      y < year_of C (NaiveDate_MIN C) \<or> year_of C (NaiveDate_MAX C) < y"
    and year_sign: "year_of C (NaiveDate_MIN C) \<le> 0" "0 < year_of C (NaiveDate_MAX C)"
    and year_width: "i32_min < year_of C (NaiveDate_MIN C)" "year_of C (NaiveDate_MAX C) < i32_max"

end
