(* ===== verification/Civil.thy ===== *)
theory Civil
  imports Chrono
begin

text \<open>
  A calendar that satisfies the interface of the previous theory: the proleptic Gregorian
  calendar over the years \<open>-262143\<close> to \<open>262142\<close>, the documented range of \<open>NaiveDate\<close>,
  with day \<open>1\<close> the first of January of year 1, and timestamps counted in nanoseconds.
  It shows that the assumptions on \<open>chrono\<close> can hold together, and witnesses are
  evaluated on it.
\<close>

section \<open>Years and months as day numbers\<close>

definition year_start :: "int \<Rightarrow> int" where
  "year_start y = 365 * (y - 1) + (y - 1) div 4 - (y - 1) div 100 + (y - 1) div 400 + 1"

definition leap_year :: "int \<Rightarrow> bool" where
  "leap_year y \<longleftrightarrow> y mod 4 = 0 \<and> (y mod 100 \<noteq> 0 \<or> y mod 400 = 0)"

definition civil_year :: "int \<Rightarrow> int" where
  "civil_year n =
     (let y = (400 * (n - 1)) div 146097 + 1
      in if n < year_start y then y - 1 else if year_start (y + 1) \<le> n then y + 1 else y)"

definition month_offset :: "bool \<Rightarrow> nat \<Rightarrow> int" where
  "month_offset leap m =
     [0, 31, 59, 90, 120, 151, 181, 212, 243, 273, 304, 334] ! m
       + (if leap \<and> 2 \<le> m then 1 else 0)"

text \<open>Months are numbered across years: \<open>12 * year + month - 1\<close>.\<close>

definition month_first :: "int \<Rightarrow> int" where
  "month_first i = year_start (i div 12) + month_offset (leap_year (i div 12)) (nat (i mod 12))"

definition month_index :: "int \<Rightarrow> int" where
  "month_index n =
     (let y = civil_year n; ofs = n - year_start y
      in 12 * y + int (length (filter (\<lambda>m. month_offset (leap_year y) m \<le> ofs) [1..<12])))"

section \<open>Dates and timestamps of the bounded range\<close>

definition civil_min :: int where "civil_min = -95746129"
definition civil_max :: int where "civil_max = 95745399"
definition day_ns :: int where "day_ns = 86400000000000"

typedef civil_date = "{n. civil_min \<le> n \<and> n \<le> civil_max}"
  morphisms day_no of_day
  by (rule exI[of _ 0]) (simp add: civil_min_def civil_max_def)

typedef civil_time = "{n. civil_min * day_ns \<le> n \<and> n < (civil_max + 1) * day_ns}"
  morphisms ns_no of_ns
  by (rule exI[of _ 0]) (simp add: civil_min_def civil_max_def day_ns_def)

setup_lifting type_definition_civil_date
setup_lifting type_definition_civil_time

instantiation civil_date :: linorder
begin
lift_definition less_eq_civil_date :: "civil_date \<Rightarrow> civil_date \<Rightarrow> bool" is "(\<le>)" .
lift_definition less_civil_date :: "civil_date \<Rightarrow> civil_date \<Rightarrow> bool" is "(<)" .
instance by standard (transfer; auto)+
end

instantiation civil_time :: linorder
begin
lift_definition less_eq_civil_time :: "civil_time \<Rightarrow> civil_time \<Rightarrow> bool" is "(\<le>)" .
lift_definition less_civil_time :: "civil_time \<Rightarrow> civil_time \<Rightarrow> bool" is "(<)" .
instance by standard (transfer; auto)+
end

definition date_of :: "int \<Rightarrow> civil_date option" where
  "date_of n = (if civil_min \<le> n \<and> n \<le> civil_max then Some (of_day n) else None)"

definition time_of :: "int \<Rightarrow> civil_time option" where
  "time_of n =
     (if civil_min * day_ns \<le> n \<and> n < (civil_max + 1) * day_ns then Some (of_ns n) else None)"

definition civil_shift_months :: "civil_date \<Rightarrow> int \<Rightarrow> civil_date option" where
  "civil_shift_months d k =
     (let i = month_index (day_no d); j = i + k;
          day = min (day_no d - month_first i) (month_first (j + 1) - month_first j - 1)
      in date_of (month_first j + day))"

definition civil :: "(civil_date, civil_time) chrono" where
  "civil = \<lparr>
     num_days_from_ce = day_no,
     NaiveDate_MIN = of_day civil_min,
     NaiveDate_MAX = of_day civil_max,
     checked_add_days = (\<lambda>d n. date_of (day_no d + int n)),
     checked_sub_days = (\<lambda>d n. date_of (day_no d - int n)),
     with_day_1 = (\<lambda>d. date_of (month_first (month_index (day_no d)))),
     checked_add_months = (\<lambda>d n. civil_shift_months d (int n)),
     checked_sub_months = (\<lambda>d n. civil_shift_months d (- int n)),
     year_of = (\<lambda>d. civil_year (day_no d)),
     month_of = (\<lambda>d. month_index (day_no d) - 12 * civil_year (day_no d) + 1),
     from_yo_1 = (\<lambda>y. date_of (year_start y)),
     week_first_day = (\<lambda>d. date_of (day_no d - (day_no d - 1) mod 7)),
     week_last_day = (\<lambda>d. date_of (day_no d - (day_no d - 1) mod 7 + 6)),
     midnight = (\<lambda>d. of_ns (day_no d * day_ns)),
     date_naive = (\<lambda>s. of_day (ns_no s div day_ns)),
     MIN_UTC = of_ns (civil_min * day_ns),
     MAX_UTC = of_ns ((civil_max + 1) * day_ns - 1),
     add_nanosecond = (\<lambda>s. time_of (ns_no s + 1)),
     sub_nanosecond = (\<lambda>s. time_of (ns_no s - 1)),
     sub_one_day = (\<lambda>s. time_of (ns_no s - day_ns))
   \<rparr>"

section \<open>The instance\<close>

lemma day_no_bounds: "civil_min \<le> day_no d" "day_no d \<le> civil_max"
  using day_no[of d] by auto

lemma ns_no_bounds: "civil_min * day_ns \<le> ns_no s" "ns_no s < (civil_max + 1) * day_ns"
  using ns_no[of s] by auto

lemma day_no_of_day: "civil_min \<le> n \<Longrightarrow> n \<le> civil_max \<Longrightarrow> day_no (of_day n) = n"
  by (simp add: of_day_inverse)

lemma ns_no_of_ns:
  "civil_min * day_ns \<le> n \<Longrightarrow> n < (civil_max + 1) * day_ns \<Longrightarrow> ns_no (of_ns n) = n"
  by (simp add: of_ns_inverse)

lemma date_of_Some: "date_of n = Some d \<longleftrightarrow> day_no d = n"
  using day_no_bounds[of d] by (auto simp: date_of_def day_no_of_day day_no_inverse)

lemma time_of_Some: "time_of n = Some s \<longleftrightarrow> ns_no s = n"
  using ns_no_bounds[of s] by (auto simp: time_of_def ns_no_of_ns ns_no_inverse)

lemma day_of_ns_bounds: "civil_min \<le> ns_no s div day_ns" "ns_no s div day_ns \<le> civil_max"
  using ns_no_bounds[of s] by (auto simp: day_ns_def)

lemmas civil_ns_simps = ns_no_of_ns day_no_of_day civil_min_def civil_max_def day_ns_def

lemma midnight_ns: "ns_no (of_ns (day_no d * day_ns)) = day_no d * day_ns"
  using day_no_bounds[of d] by (intro ns_no_of_ns) (auto simp: day_ns_def)

interpretation civil: chrono_days civil
proof unfold_locales
  fix a b d :: civil_date and s t :: civil_time and n :: nat and k :: int
  show "num_days_from_ce civil a < num_days_from_ce civil b \<longleftrightarrow> a < b"
    by (simp add: civil_def less_civil_date.rep_eq)
  show "NaiveDate_MIN civil \<le> d" "d \<le> NaiveDate_MAX civil"
    using day_no_bounds[of d]
    by (simp_all add: civil_def less_eq_civil_date.rep_eq day_no_of_day)
  show "NaiveDate_MIN civil < NaiveDate_MAX civil"
    by (simp add: civil_def less_civil_date.rep_eq day_no_of_day civil_min_def civil_max_def)
  show "\<exists>d. num_days_from_ce civil d = k"
    if "num_days_from_ce civil (NaiveDate_MIN civil) \<le> k"
      "k \<le> num_days_from_ce civil (NaiveDate_MAX civil)"
    using that
    by (intro exI[of _ "of_day k"]) (simp add: civil_def day_no_of_day civil_min_def civil_max_def)
  show "checked_add_days civil a n = Some b \<longleftrightarrow>
      num_days_from_ce civil b = num_days_from_ce civil a + int n"
    "checked_sub_days civil a n = Some b \<longleftrightarrow>
      num_days_from_ce civil b = num_days_from_ce civil a - int n"
    by (simp_all add: civil_def date_of_Some)
  show "midnight civil d \<le> s \<longleftrightarrow> d \<le> date_naive civil s"
    using day_of_ns_bounds[of s]
    by (simp add: civil_def less_eq_civil_date.rep_eq less_eq_civil_time.rep_eq midnight_ns
        day_no_of_day) (auto simp: day_ns_def)
  show "date_naive civil (midnight civil d) = d"
    by (simp add: civil_def midnight_ns) (simp add: day_no_inverse day_ns_def)
  show "s \<le> MAX_UTC civil" "MIN_UTC civil \<le> s"
    using ns_no_bounds[of s]
    by (simp_all add: civil_def less_eq_civil_time.rep_eq civil_ns_simps)
  show "add_nanosecond civil s = None \<longleftrightarrow> s = MAX_UTC civil"
    "sub_nanosecond civil s = None \<longleftrightarrow> s = MIN_UTC civil"
    using ns_no_bounds[of s]
    by (auto simp: civil_def time_of_def ns_no_inject[symmetric] civil_ns_simps)
  show "s < t \<and> (\<forall>u. s < u \<longrightarrow> t \<le> u)" if "add_nanosecond civil s = Some t"
    using that by (auto simp: civil_def time_of_Some less_civil_time.rep_eq less_eq_civil_time.rep_eq)
  show "t < s \<and> (\<forall>u. u < s \<longrightarrow> u \<le> t)" if "sub_nanosecond civil s = Some t"
    using that by (auto simp: civil_def time_of_Some less_civil_time.rep_eq less_eq_civil_time.rep_eq)
qed

text \<open>Evaluation of the operations on given dates.\<close>

lemmas civil_eval = civil_def date_of_def time_of_def day_no_of_day ns_no_of_ns civil_min_def
  civil_max_def day_ns_def less_civil_date.rep_eq less_eq_civil_date.rep_eq less_civil_time.rep_eq
  less_eq_civil_time.rep_eq of_day_inject of_ns_inject

section \<open>Years and months cover the days\<close>

lemma year_start_bounds:
  "146097 * (y - 1) - 800 < 400 * (year_start y - 1)" "400 * (year_start y - 1) < 146097 * (y - 1) + 400"
proof -
  let ?z = "y - 1"
  have "4 * (?z div 4) \<le> ?z" "?z < 4 * (?z div 4) + 4" "100 * (?z div 100) \<le> ?z" "?z < 100 * (?z div 100) + 100"
    "400 * (?z div 400) \<le> ?z" "?z < 400 * (?z div 400) + 400"
    by auto
  then show "146097 * (y - 1) - 800 < 400 * (year_start y - 1)" "400 * (year_start y - 1) < 146097 * (y - 1) + 400"
    unfolding year_start_def by auto
qed

lemma civil_year_start: "year_start (civil_year n) \<le> n" "n < year_start (civil_year n + 1)"
proof -
  define q where "q = (400 * (n - 1)) div 146097 + 1"
  have q: "146097 * (q - 1) \<le> 400 * (n - 1)" "400 * (n - 1) < 146097 * (q - 1) + 146097"
    unfolding q_def by auto
  have "400 * (year_start q - n) < 400" using year_start_bounds(2)[of q] q(1) by (simp only: right_diff_distrib)
  then have low: "year_start q \<le> n" by simp
  have "n < year_start (q + 2)" using year_start_bounds(1)[of "q + 2"] q by simp
  with low show "year_start (civil_year n) \<le> n" "n < year_start (civil_year n + 1)"
    unfolding civil_year_def q_def[symmetric] Let_def by (auto simp: add.commute)
qed

lemma year_start_Suc: "year_start (y + 1) = year_start y + (if leap_year y then 366 else 365)"
proof -
  have step: "y div k - (y - 1) div k = (if y mod k = 0 then 1 else 0)" if "1 < k" for k :: int
  proof -
    have y: "y = k * (y div k) + y mod k" by simp
    have r: "0 \<le> y mod k" "y mod k < k" using that by simp_all
    show ?thesis
    proof (cases "y mod k = 0")
      case True
      with y that int_div_pos_eq[of "y - 1" k "y div k - 1" "k - 1"] show ?thesis
        by (simp add: right_diff_distrib)
    next
      case False
      with r have "0 < y mod k" "y mod k - 1 < k" by linarith+
      with y that int_div_pos_eq[of "y - 1" k "y div k" "y mod k - 1"] show ?thesis by simp
    qed
  qed
  have "y mod 400 = 0 \<Longrightarrow> y mod 100 = 0" "y mod 100 = 0 \<Longrightarrow> y mod 4 = 0"
    using dvd_trans[of 100 400 y] dvd_trans[of 4 100 y] by (simp_all add: mod_eq_0_iff_dvd)
  moreover have "year_start (y + 1) - year_start y =
      365 + (y div 4 - (y - 1) div 4) - (y div 100 - (y - 1) div 100) + (y div 400 - (y - 1) div 400)"
    by (simp add: year_start_def)
  then have "year_start (y + 1) - year_start y = 365 + (if y mod 4 = 0 then 1 else 0)
      - (if y mod 100 = 0 then 1 else 0) + (if y mod 400 = 0 then 1 else 0)"
    by (simp only: step)
  ultimately show ?thesis by (auto simp: leap_year_def split: if_splits)
qed

lemma year_start_less: "y < z \<Longrightarrow> year_start y < year_start z"
proof (induction z rule: int_gr_induct)
  case base
  then show ?case by (simp add: year_start_Suc)
next
  case (step z)
  then show ?case using year_start_Suc[of z] by (auto split: if_splits)
qed

lemma step_le_iff:
  fixes f :: "int \<Rightarrow> int"
  assumes mono: "\<And>i j. i < j \<Longrightarrow> f i < f j" and "f c \<le> n" "n < f (c + 1)"
  shows "f y \<le> n \<longleftrightarrow> y \<le> c"
proof (cases "y \<le> c")
  case True
  then have "f y \<le> f c" using mono[of y c] by (cases "y = c") auto
  with True assms(2) show ?thesis by simp
next
  case False
  then have "f (c + 1) \<le> f y" using mono[of "c + 1" y] by (cases "y = c + 1") auto
  with False assms(3) show ?thesis by simp
qed

lemma year_le_iff: "year_start y \<le> n \<longleftrightarrow> y \<le> civil_year n"
  by (rule step_le_iff[OF year_start_less civil_year_start])

lemma count_below:
  fixes f :: "nat \<Rightarrow> int"
  assumes "strict_mono_on {..<N} f" "f 0 \<le> k" "0 < N"
  defines "c \<equiv> length (filter (\<lambda>m. f m \<le> k) [1..<N])"
  shows "c < N \<and> f c \<le> k \<and> (Suc c < N \<longrightarrow> k < f (Suc c))"
  using assms(1,3) unfolding c_def
proof (induction N)
  case (Suc N)
  show ?case
  proof (cases "N = 0")
    case True
    then show ?thesis using assms(2) by simp
  next
    case False
    have mono: "strict_mono_on {..<N} f"
      using Suc.prems(1) by (rule monotone_on_subset) auto
    show ?thesis
    proof (cases "f N \<le> k")
      case True
      have "f m \<le> k" if "m < N" for m
        using strict_mono_onD[OF Suc.prems(1), of m N] True that by simp
      then have "filter (\<lambda>m. f m \<le> k) [1..<Suc N] = [1..<Suc N]"
        using True by (intro filter_True) (auto simp: less_Suc_eq)
      with True False show ?thesis by simp
    next
      case k: False
      with Suc.IH[OF mono] False show ?thesis
        by (auto simp: not_le) (metis Suc_lessI)
    qed
  qed
qed simp

lemma month_offset_mono: "strict_mono_on {..<12} (month_offset leap)"
proof (rule strict_mono_onI)
  fix i j :: nat assume "i \<in> {..<12}" "j \<in> {..<12}" "i < j"
  moreover have "month_offset leap m < month_offset leap (Suc m)" if "m < 11" for m
  proof -
    have "list_all (\<lambda>m. month_offset leap m < month_offset leap (Suc m)) [0, 1, 2, 3, 4, 5, 6, 7, 8, 9, 10]"
      by (simp add: month_offset_def)
    moreover have "[0, 1, 2, 3, 4, 5, 6, 7, 8, 9, 10] = [0..<11]" by (simp add: upt_rec)
    ultimately have "list_all (\<lambda>m. month_offset leap m < month_offset leap (Suc m)) [0..<11]" by metis
    with that show ?thesis unfolding list_all_iff set_upt by auto
  qed
  ultimately show "month_offset leap i < month_offset leap j"
    by (induction j) (auto simp: less_Suc_eq intro: less_trans)
qed

lemma month_first_year: "m < 12 \<Longrightarrow> month_first (12 * y + int m) = year_start y + month_offset (leap_year y) m"
  by (simp add: month_first_def)

lemma month_first_step:
  assumes "m < 12"
  shows "month_first (12 * y + int m + 1) =
    (if m = 11 then year_start (y + 1) else year_start y + month_offset (leap_year y) (Suc m))"
proof (cases "m = 11")
  case True
  then show ?thesis using month_first_year[of 0 "y + 1"] by (simp add: month_offset_def add.commute)
next
  case False
  then show ?thesis using assms month_first_year[of "Suc m" y] by (simp add: ac_simps)
qed

lemma month_index_first: "month_first (month_index n) \<le> n" "n < month_first (month_index n + 1)"
proof -
  define y c where "y = civil_year n"
    and "c = length (filter (\<lambda>m. month_offset (leap_year y) m \<le> n - year_start y) [1..<12])"
  have idx: "month_index n = 12 * y + int c" by (simp add: month_index_def y_def c_def Let_def)
  have "c < 12 \<and> month_offset (leap_year y) c \<le> n - year_start y
      \<and> (Suc c < 12 \<longrightarrow> n - year_start y < month_offset (leap_year y) (Suc c))"
    unfolding c_def
    by (rule count_below[OF month_offset_mono])
      (use civil_year_start(1)[of n] in \<open>simp_all add: month_offset_def y_def\<close>)
  then show "month_first (month_index n) \<le> n" "n < month_first (month_index n + 1)"
    using civil_year_start(2)[of n] month_first_year[of c y] month_first_step[of c y]
    by (auto simp: idx y_def)
qed

lemma month_first_less: "i < j \<Longrightarrow> month_first i < month_first j"
proof (induction j rule: int_gr_induct)
  have succ: "month_first k < month_first (k + 1)" for k
  proof -
    define y m where "y = k div 12" and "m = nat (k mod 12)"
    have k: "k = 12 * y + int m" "m < 12" by (simp_all add: y_def m_def)
    have "month_offset (leap_year y) m < month_offset (leap_year y) (Suc m)" if "m \<noteq> 11"
      using that k(2) by (intro strict_mono_onD[OF month_offset_mono]) auto
    moreover have "month_offset (leap_year y) 11 < 336" by (simp add: month_offset_def)
    ultimately show ?thesis
      using month_first_year[OF k(2), of y] month_first_step[OF k(2), of y] year_start_Suc[of y]
      by (auto simp: k(1) split: if_splits)
  qed
  case base
  show ?case by (rule succ)
  case (step j)
  then show ?case using succ[of j] by simp
qed

lemma month_le_iff: "month_first i \<le> n \<longleftrightarrow> i \<le> month_index n"
  by (rule step_le_iff[OF month_first_less month_index_first])

section \<open>The calendar instance\<close>

lemma civil_month_number: "month_number civil d = month_index (day_no d)"
  by (simp add: month_number_def civil_def)

lemma month_index_mono: "a \<le> b \<Longrightarrow> month_index a \<le> month_index b"
  using month_index_first(1)[of a] month_le_iff[of "month_index a" b] by linarith

lemma month_index_unique: "month_first i \<le> n \<Longrightarrow> n < month_first (i + 1) \<Longrightarrow> month_index n = i"
  using month_le_iff[of i n] month_le_iff[of "i + 1" n] by linarith

lemma civil_years: "civil_year civil_min = -262143" "civil_year civil_max = 262142"
proof -
  have "year_start (-262143) = civil_min" "year_start 262143 = civil_max + 1"
    "year_start (-262142) = civil_min + 365" "year_start 262142 = civil_max - 364"
    by (simp_all add: year_start_def civil_min_def civil_max_def)
  then show "civil_year civil_min = -262143" "civil_year civil_max = 262142"
    using year_le_iff[of "-262143" civil_min] year_le_iff[of "-262142" civil_min]
      year_le_iff[of 262142 civil_max] year_le_iff[of 262143 civil_max]
    by simp_all
qed

lemma civil_month_ends:
  "month_first (month_index civil_min) = civil_min"
  "month_first (month_index civil_max + 1) = civil_max + 1"
proof -
  have f: "month_first (12 * (-262143)) = civil_min" "month_first (12 * (-262143) + 1) = civil_min + 31"
    "month_first (12 * 262142 + 11) = civil_max - 30" "month_first (12 * 262142 + 11 + 1) = civil_max + 1"
    by (simp_all add: month_first_def year_start_def month_offset_def leap_year_def civil_min_def civil_max_def)
  then have "month_index civil_min = 12 * (-262143)" "month_index civil_max = 12 * 262142 + 11"
    using month_index_unique[of "12 * (-262143)" civil_min] month_index_unique[of "12 * 262142 + 11" civil_max]
    by linarith+
  with f show "month_first (month_index civil_min) = civil_min"
    "month_first (month_index civil_max + 1) = civil_max + 1" by simp_all
qed

lemma civil_shift_Some: "civil_shift_months d k = Some e \<Longrightarrow> month_index (day_no e) = month_index (day_no d) + k"
  using month_index_first[of "day_no d"] month_first_less[of "month_index (day_no d) + k" "month_index (day_no d) + k + 1"]
  by (intro month_index_unique) (auto simp: civil_shift_months_def Let_def date_of_Some)

lemma civil_shift_None:
  assumes "civil_shift_months d k = None"
  shows "0 \<le> k \<Longrightarrow> month_index civil_max < month_index (day_no d) + k"
    and "k \<le> 0 \<Longrightarrow> month_index (day_no d) + k < month_index civil_min"
proof -
  define i j where "i = month_index (day_no d)" and "j = i + k"
  define r where "r = month_first j + min (day_no d - month_first i) (month_first (j + 1) - month_first j - 1)"
  note idx = month_index_first[of "day_no d", folded i_def]
  note b = day_no_bounds[of d]
  have out: "r < civil_min \<or> civil_max < r"
    using assms by (auto simp: civil_shift_months_def date_of_def Let_def i_def j_def r_def split: if_splits)
  have rj: "month_first j \<le> r" "r < month_first (j + 1)"
    using idx month_first_less[of j "j + 1"] by (auto simp: r_def)
  have same: "r = day_no d" if "i = j" using idx that by (auto simp: r_def)
  show "month_index civil_max < month_index (day_no d) + k" if "0 \<le> k"
  proof -
    have "i \<le> j" using that by (simp add: j_def)
    have "civil_min \<le> r"
    proof (cases "i = j")
      case False
      have "month_first (i + 1) \<le> month_first j"
      proof (cases "i + 1 = j")
        case neq: False
        with False \<open>i \<le> j\<close> show ?thesis by (intro less_imp_le month_first_less) linarith
      qed simp
      with b(1) rj(1) idx(2) show ?thesis by linarith
    qed (simp add: same b)
    with out have "civil_max < r" by simp
    then have "month_index civil_max < j"
      using rj civil_month_ends(2) month_first_less[of "j + 1" "month_index civil_max + 1"]
      by (cases j "month_index civil_max" rule: linorder_cases) auto
    then show ?thesis by (simp add: j_def i_def)
  qed
  show "month_index (day_no d) + k < month_index civil_min" if "k \<le> 0"
  proof -
    have "j \<le> i" using that by (simp add: j_def)
    have "r \<le> civil_max"
    proof (cases "i = j")
      case False
      have "month_first (j + 1) \<le> month_first i"
      proof (cases "j + 1 = i")
        case neq: False
        with False \<open>j \<le> i\<close> show ?thesis by (intro less_imp_le month_first_less) linarith
      qed simp
      with b(2) rj(2) idx(1) show ?thesis by linarith
    qed (simp add: same b)
    with out have "r < civil_min" by simp
    then have "j < month_index civil_min"
      using rj civil_month_ends(1) month_first_less[of "month_index civil_min" j]
      by (cases j "month_index civil_min" rule: linorder_cases) auto
    then show ?thesis by (simp add: j_def i_def)
  qed
qed

interpretation civil_calendar: chrono_calendar civil
proof unfold_locales
  fix a b d e f l :: civil_date and n :: nat and y :: int
  have mn: "day_no (NaiveDate_MIN civil) = civil_min" and mx: "day_no (NaiveDate_MAX civil) = civil_max"
    by (simp_all add: civil_def day_no_of_day civil_min_def civil_max_def)
  show "num_days_from_ce civil (NaiveDate_MIN civil) + 7 \<le> num_days_from_ce civil (NaiveDate_MAX civil)"
    by (simp add: civil_eval)
  show "week_first_day civil d = Some f \<longleftrightarrow>
      num_days_from_ce civil f = num_days_from_ce civil d - (num_days_from_ce civil d - 1) mod 7"
    "week_last_day civil d = Some l \<longleftrightarrow>
      num_days_from_ce civil l = num_days_from_ce civil d - (num_days_from_ce civil d - 1) mod 7 + 6"
    by (simp_all add: civil_def date_of_Some)
  show "month_number civil a \<le> month_number civil b" if "a \<le> b"
    using that month_index_mono by (simp add: civil_month_number less_eq_civil_date.rep_eq)
  show "month_number civil f = month_number civil d \<and> (\<forall>e. month_number civil e = month_number civil d \<longrightarrow> f \<le> e)"
    if "with_day_1 civil d = Some f"
  proof -
    have f: "day_no f = month_first (month_index (day_no d))" using that by (simp add: civil_def date_of_Some)
    then have "month_index (day_no f) = month_index (day_no d)"
      using month_first_less[of "month_index (day_no d)" "month_index (day_no d) + 1"]
      by (intro month_index_unique) auto
    then show ?thesis
      using f month_index_first(1) by (metis civil_month_number less_eq_civil_date.rep_eq)
  qed
  show "month_number civil d = month_number civil (NaiveDate_MIN civil)" if "with_day_1 civil d = None"
  proof -
    have "month_first (month_index (day_no d)) < civil_min"
      using that month_index_first(1)[of "day_no d"] day_no_bounds[of d]
      by (auto simp: civil_def date_of_def split: if_splits)
    then have "month_index (day_no d) \<le> month_index civil_min" using month_le_iff by fastforce
    then show ?thesis
      using month_index_mono[OF day_no_bounds(1)[of d]] by (simp add: civil_month_number mn)
  qed
  show "month_number civil e = month_number civil d + int n" if "checked_add_months civil d n = Some e"
    using that civil_shift_Some by (simp add: civil_month_number) (simp add: civil_def)
  show "month_number civil (NaiveDate_MAX civil) < month_number civil d + int n"
    if "checked_add_months civil d n = None"
    using that civil_shift_None(1)[of d "int n"] by (simp add: civil_month_number mx) (simp add: civil_def)
  show "month_number civil e = month_number civil d - int n" if "checked_sub_months civil d n = Some e"
    using that civil_shift_Some[of d "- int n" e] by (simp add: civil_month_number) (simp add: civil_def)
  show "month_number civil d - int n < month_number civil (NaiveDate_MIN civil)"
    if "checked_sub_months civil d n = None"
    using that civil_shift_None(2)[of d "- int n"] by (simp add: civil_month_number mn) (simp add: civil_def)
  show "year_of civil a \<le> year_of civil b" if "a \<le> b"
    using that year_le_iff[of "civil_year (day_no a)" "day_no b"] civil_year_start(1)[of "day_no a"]
    by (simp add: civil_def less_eq_civil_date.rep_eq)
  show "y \<le> year_of civil d \<longleftrightarrow> f \<le> d" if "from_yo_1 civil y = Some f"
    using that year_le_iff by (simp add: civil_def date_of_Some less_eq_civil_date.rep_eq)
  show "year_of civil f = y" if "from_yo_1 civil y = Some f"
  proof -
    have "y \<le> civil_year (year_start y)" "\<not> y + 1 \<le> civil_year (year_start y)"
      using year_le_iff[of y "year_start y"] year_le_iff[of "y + 1" "year_start y"]
        year_start_less[of y "y + 1"] by simp_all
    then show ?thesis using that by (simp add: civil_def date_of_Some)
  qed
  have yr: "year_of civil (NaiveDate_MIN civil) = -262143" "year_of civil (NaiveDate_MAX civil) = 262142"
    using civil_years mn mx by (simp_all add: civil_def)
  have "year_start (-262143) = civil_min" by (simp add: year_start_def civil_min_def)
  then show "from_yo_1 civil y = None \<longleftrightarrow>
      y < year_of civil (NaiveDate_MIN civil) \<or> year_of civil (NaiveDate_MAX civil) < y"
    unfolding yr using year_le_iff[of y civil_max] civil_years year_start_less[of y "-262143"]
      year_start_less[of "-262143" y]
    by (cases y "-262143 :: int" rule: linorder_cases) (auto simp: civil_def date_of_def)
  show "year_of civil (NaiveDate_MIN civil) \<le> 0" "0 < year_of civil (NaiveDate_MAX civil)"
    "i32_min < year_of civil (NaiveDate_MIN civil)" "year_of civil (NaiveDate_MAX civil) < i32_max"
    by (simp_all add: yr i32_min_def i32_max_def)
qed

end
