(* ===== verification/Stats_Timespan.thy ===== *)
theory Stats_Timespan
  imports Civil
begin

text \<open>
  Time intervals of the statistics service
  (\<^verbatim>\<open>stats/stats/src/charts/types\<close>): the trait \<open>Timespan\<close> as a record of its methods, the
  points \<open>TimespanValue\<close> and \<open>ExtendedTimespanValue\<close>, and the implementation of the trait for
  \<open>NaiveDate\<close>.

  Every implementation of \<open>Ord\<close> and \<open>PartialEq\<close> for a timespan type compares one key of the
  two values (the date itself, the first day of the week or month, the year number). The
  record therefore carries that key, and \<open>==\<close>, \<open><\<close> and \<open><=\<close> of the source are comparisons of
  keys. The interface \<open>discrete_timespan\<close> states what the generic algorithms rely on.
\<close>

section \<open>Points\<close>

record ('t, 'v) timespan_value =
  timespan :: 't
  tv_value :: 'v

record ('t, 'v) extended_timespan_value = "('t, 'v) timespan_value" +
  is_approximate :: bool

definition from_date_value ::
  "('t, 'v) timespan_value \<Rightarrow> bool \<Rightarrow> ('t, 'v) extended_timespan_value" where
  "from_date_value dv approx =
     \<lparr>timespan = timespan dv, tv_value = tv_value dv, is_approximate = approx\<rparr>"

definition into_timespan_value ::
  "('t, 'v) extended_timespan_value \<Rightarrow> ('t, 'v) timespan_value" where
  "into_timespan_value dv = \<lparr>timespan = timespan dv, tv_value = tv_value dv\<rparr>"

lemma point_eta [simp]: "\<lparr>timespan = timespan p, tv_value = tv_value p\<rparr> = p"
  by (cases p) simp

lemma into_from_date_value [simp]: "into_timespan_value (from_date_value dv b) = dv"
  by (simp add: from_date_value_def into_timespan_value_def)

section \<open>The trait\<close>

datatype resolution_kind = Day | Week | Month | Year

record ('d, 's, 'k, 't) timespan_impl =
  ord_key :: "'t \<Rightarrow> 'k"
  from_date :: "'d \<Rightarrow> 't"
  into_date :: "'t \<Rightarrow> 'd"
  saturating_start_timestamp :: "'t \<Rightarrow> 's"
  checked_add :: "'t \<Rightarrow> nat \<Rightarrow> 't option"
  checked_sub :: "'t \<Rightarrow> nat \<Rightarrow> 't option"
  ts_max :: 't
  ts_min :: 't
  saturating_add :: "'t \<Rightarrow> nat \<Rightarrow> 't"
  saturating_sub :: "'t \<Rightarrow> nat \<Rightarrow> 't"
  saturating_next_timespan :: "'t \<Rightarrow> 't"
  saturating_previous_timespan :: "'t \<Rightarrow> 't"
  enum_variant :: resolution_kind

text \<open>Default methods of the trait, used by implementations that do not override them.\<close>

definition default_saturating_add :: "('t \<Rightarrow> nat \<Rightarrow> 't option) \<Rightarrow> 't \<Rightarrow> 't \<Rightarrow> nat \<Rightarrow> 't" where
  "default_saturating_add add mx t n = (case add t n of Some r \<Rightarrow> r | None \<Rightarrow> mx)"

definition default_saturating_sub :: "('t \<Rightarrow> nat \<Rightarrow> 't option) \<Rightarrow> 't \<Rightarrow> 't \<Rightarrow> nat \<Rightarrow> 't" where
  "default_saturating_sub sub mn t n = (case sub t n of Some r \<Rightarrow> r | None \<Rightarrow> mn)"

definition into_time_range :: "('d, 's, 'k, 't) timespan_impl \<Rightarrow> 't \<Rightarrow> 's range" where
  "into_time_range T t =
     Range (saturating_start_timestamp T t)
       (saturating_start_timestamp T (saturating_next_timespan T t))"

text \<open>\<open>ZeroTimespanValue\<close>: \<open>zero\<close> is the zero of the value type (\<open>"0"\<close> for strings).\<close>

definition with_zero_value :: "'v \<Rightarrow> 't \<Rightarrow> ('t, 'v) timespan_value" where
  "with_zero_value zero t = \<lparr>timespan = t, tv_value = zero\<rparr>"

definition relevant_or_zero ::
  "('d, 's, 'k::linorder, 't) timespan_impl \<Rightarrow> 'v \<Rightarrow> ('t, 'v) timespan_value \<Rightarrow> 't
     \<Rightarrow> ('t, 'v) timespan_value" where
  "relevant_or_zero T zero p current =
     (if ord_key T (timespan p) < ord_key T current then with_zero_value zero current else p)"

section \<open>Dates\<close>

definition day_start :: "('d, 's) chrono \<Rightarrow> 'd \<Rightarrow> 's" where
  "day_start C d = midnight C d"

definition day_timespan :: "('d, 's) chrono \<Rightarrow> ('d, 's, 'd, 'd) timespan_impl" where
  "day_timespan C = \<lparr>
     ord_key = (\<lambda>d. d),
     from_date = (\<lambda>d. d),
     into_date = (\<lambda>d. d),
     saturating_start_timestamp = day_start C,
     checked_add = checked_add_days C,
     checked_sub = checked_sub_days C,
     ts_max = NaiveDate_MAX C,
     ts_min = NaiveDate_MIN C,
     saturating_add = default_saturating_add (checked_add_days C) (NaiveDate_MAX C),
     saturating_sub = default_saturating_sub (checked_sub_days C) (NaiveDate_MIN C),
     saturating_next_timespan =
       (\<lambda>d. case checked_add_days C d 1 of Some e \<Rightarrow> e | None \<Rightarrow> NaiveDate_MAX C),
     saturating_previous_timespan =
       (\<lambda>d. case checked_sub_days C d 1 of Some e \<Rightarrow> e | None \<Rightarrow> NaiveDate_MIN C),
     enum_variant = Day
   \<rparr>"

section \<open>The interface of the generic algorithms\<close>

definition between_keys :: "('d, 's, 'k::linorder, 't) timespan_impl \<Rightarrow> 't \<Rightarrow> 't \<Rightarrow> 'k set" where
  "between_keys T a b = {k. k \<in> range (ord_key T) \<and> ord_key T a \<le> k \<and> k \<le> ord_key T b}"

definition keys_between :: "('d, 's, 'k::linorder, 't) timespan_impl \<Rightarrow> 't \<Rightarrow> 't \<Rightarrow> 'k list" where
  "keys_between T a b = sorted_list_of_set (between_keys T a b)"

text \<open>
  Timespans are totally ordered, \<open>ts_max\<close> is the last one, the next timespan of any other is
  its immediate successor, and only finitely many lie between two of them.
\<close>

locale discrete_timespan =
  fixes T :: "('d, 's, 'k::linorder, 't) timespan_impl"
  assumes key_le_max: "ord_key T t \<le> ord_key T (ts_max T)"
    and key_le_next: "ord_key T t \<le> ord_key T (saturating_next_timespan T t)"
    and key_less_next: "ord_key T t < ord_key T (ts_max T) \<Longrightarrow>
      ord_key T t < ord_key T (saturating_next_timespan T t)"
    and key_next_le: "ord_key T t < ord_key T u \<Longrightarrow>
      ord_key T (saturating_next_timespan T t) \<le> ord_key T u"
    and finite_between: "finite (between_keys T a b)"
begin

lemma key_next_max:
  "ord_key T t = ord_key T (ts_max T) \<Longrightarrow> ord_key T (saturating_next_timespan T t) = ord_key T t"
  by (metis key_le_max key_le_next order_antisym)

lemma key_next_gt_iff:
  assumes "ord_key T t < ord_key T (ts_max T)"
  shows "ord_key T u < ord_key T (saturating_next_timespan T t) \<longleftrightarrow> ord_key T u \<le> ord_key T t"
proof
  assume "ord_key T u < ord_key T (saturating_next_timespan T t)"
  then have "\<not> ord_key T t < ord_key T u" using key_next_le[of t u] by auto
  then show "ord_key T u \<le> ord_key T t" by simp
next
  assume "ord_key T u \<le> ord_key T t"
  also note key_less_next[OF assms]
  finally show "ord_key T u < ord_key T (saturating_next_timespan T t)" .
qed

lemma between_next:
  assumes "ord_key T a \<le> ord_key T b" "ord_key T b < ord_key T (ts_max T)"
  shows "between_keys T a b = insert (ord_key T a) (between_keys T (saturating_next_timespan T a) b)"
    and "\<forall>k \<in> between_keys T (saturating_next_timespan T a) b. ord_key T a < k"
proof -
  have lt: "ord_key T a < ord_key T (ts_max T)" using assms by simp
  show "between_keys T a b = insert (ord_key T a) (between_keys T (saturating_next_timespan T a) b)"
    using assms key_le_next[of a] key_next_le[of a]
    by (auto simp: between_keys_def le_less intro: order_trans)
  show "\<forall>k \<in> between_keys T (saturating_next_timespan T a) b. ord_key T a < k"
    using key_less_next[OF lt] by (auto simp: between_keys_def)
qed

lemma keys_between_next:
  assumes "ord_key T a \<le> ord_key T b" "ord_key T b < ord_key T (ts_max T)"
  shows "keys_between T a b = ord_key T a # keys_between T (saturating_next_timespan T a) b"
proof -
  let ?A = "between_keys T (saturating_next_timespan T a) b"
  have ne: "ord_key T a \<notin> ?A" using between_next(2)[OF assms] by auto
  have "keys_between T a b = insort (ord_key T a) (sorted_list_of_set ?A)"
    unfolding keys_between_def between_next(1)[OF assms]
    using finite_between ne by (simp add: sorted_list_of_set_insert_remove)
  also have "\<dots> = ord_key T a # sorted_list_of_set ?A"
    by (rule insort_is_Cons)
      (use between_next(2)[OF assms] finite_between in \<open>auto intro: less_imp_le\<close>)
  finally show ?thesis by (simp add: keys_between_def)
qed

lemma keys_between_empty: "ord_key T b < ord_key T a \<Longrightarrow> keys_between T a b = []"
proof -
  assume "ord_key T b < ord_key T a"
  then have "between_keys T a b = {}" by (auto simp: between_keys_def)
  then show ?thesis by (simp add: keys_between_def)
qed

text \<open>Counting up to a bound below the last timespan ends.\<close>

lemma until_induct [consumes 1, case_names step]:
  assumes "ord_key T to < ord_key T (ts_max T)"
    and step: "\<And>cur. (ord_key T cur \<le> ord_key T to \<Longrightarrow> P (saturating_next_timespan T cur)) \<Longrightarrow> P cur"
  shows "P cur"
proof (induction "card (between_keys T cur to)" arbitrary: cur rule: less_induct)
  case less
  show ?case
  proof (rule step)
    assume le: "ord_key T cur \<le> ord_key T to"
    let ?A = "between_keys T (saturating_next_timespan T cur) to"
    have "ord_key T cur \<notin> ?A" using between_next(2)[OF le assms(1)] by auto
    then have "card (between_keys T cur to) = Suc (card ?A)"
      using between_next(1)[OF le assms(1)] finite_between by simp
    then show "P (saturating_next_timespan T cur)" by (intro less) simp
  qed
qed

end

section \<open>Dates are discrete\<close>

context chrono_days
begin

lemma next_day_cases:
  obtains (last) "d = NaiveDate_MAX C" "saturating_next_timespan (day_timespan C) d = d"
  | (inner) e where "saturating_next_timespan (day_timespan C) d = e"
      "num_days_from_ce C e = num_days_from_ce C d + 1"
proof (cases "checked_add_days C d 1")
  case None
  then have "num_days_from_ce C (NaiveDate_MAX C) \<le> num_days_from_ce C d"
    using add_days_None[of d 1] by simp
  then have "d = NaiveDate_MAX C" using date_max[of d] num_le by (meson order_antisym)
  with None show ?thesis by (intro last) (simp_all add: day_timespan_def)
next
  case (Some e)
  then have "num_days_from_ce C e = num_days_from_ce C d + 1" using add_days[of d 1 e] by simp
  with Some show ?thesis by (intro inner[of e]) (simp_all add: day_timespan_def)
qed

lemma day_discrete: "discrete_timespan (day_timespan C)"
proof
  fix t u a b :: 'd
  let ?T = "day_timespan C"
  have key: "ord_key ?T = (\<lambda>d. d)" and mx: "ts_max ?T = NaiveDate_MAX C"
    by (simp_all add: day_timespan_def)
  show "ord_key ?T t \<le> ord_key ?T (ts_max ?T)" by (simp add: key mx date_max)
  show "ord_key ?T t \<le> ord_key ?T (saturating_next_timespan ?T t)"
    by (rule next_day_cases[of t]) (auto simp: key num_le[symmetric])
  show "ord_key ?T t < ord_key ?T (saturating_next_timespan ?T t)"
    if "ord_key ?T t < ord_key ?T (ts_max ?T)"
    using that by (rule_tac next_day_cases[of t]) (auto simp: key mx num_less[symmetric])
  show "ord_key ?T (saturating_next_timespan ?T t) \<le> ord_key ?T u"
    if "ord_key ?T t < ord_key ?T u"
    using that
    by (rule_tac next_day_cases[of t]) (auto simp: key num_less[symmetric] num_le[symmetric])
  show "finite (between_keys ?T a b)"
    using finite_dates[of a b] by (simp add: between_keys_def key atLeastAtMost_def atLeast_def
        atMost_def Collect_conj_eq)
qed

end

sublocale chrono_days \<subseteq> day: discrete_timespan "day_timespan C"
  by (rule day_discrete)

interpretation civil_day: discrete_timespan "day_timespan civil"
  by (rule civil.day_discrete)

end
