(* ===== verification/Stats_Data.thy ===== *)
theory Stats_Data
  imports Stats_Timespan
begin

text \<open>
  Processing of chart data (\<^verbatim>\<open>stats/stats/src/data_processing.rs\<close>): running sums and
  differences, the total of a chart, its last point, and the merge of two charts by
  timespan. The value type is any type with the operations the Rust bounds ask for; the
  laws hold over a commutative group, which wrapping machine integers and exact decimals
  are.
\<close>

section \<open>Errors and policies\<close>

record chart_key =
  ck_name :: string
  ck_resolution :: resolution_kind

datatype 'db chart_error =
    BlockscoutDB 'db
  | StatsDB 'db
  | ChartNotFound chart_key
  | NoCounterData chart_key
  | IntervalTooLarge nat
  | Internal string

datatype 'db read_error =
    ReadDB 'db
  | ReadChartNotFound chart_key
  | ReadIntervalTooLarge nat

fun chart_error_of_read :: "'db read_error \<Rightarrow> 'db chart_error" where
  "chart_error_of_read (ReadDB db) = StatsDB db"
| "chart_error_of_read (ReadChartNotFound k) = ChartNotFound k"
| "chart_error_of_read (ReadIntervalTooLarge limit) = IntervalTooLarge limit"

datatype missing_date_policy = FillZero | FillPrevious

section \<open>Running sums and differences\<close>

text \<open>The loop over \<open>data.iter_mut()\<close>, which rewrites every item in place.\<close>

fun cumsum_loop :: "('t, 'v::plus) timespan_value list \<Rightarrow> 'v \<Rightarrow> ('t, 'v) timespan_value list" where
  "cumsum_loop [] prev_sum = []"
| "cumsum_loop (p # ps) prev_sum =
     (let s = prev_sum + tv_value p
      in \<lparr>timespan = timespan p, tv_value = s\<rparr> # cumsum_loop ps s)"

definition cumsum ::
  "('t, 'v::plus) timespan_value list \<Rightarrow> 'v
     \<Rightarrow> ('db chart_error, ('t, 'v) timespan_value list) result" where
  "cumsum data prev_sum = Ok (cumsum_loop data prev_sum)"

fun deltas_loop :: "('t, 'v::minus) timespan_value list \<Rightarrow> 'v \<Rightarrow> ('t, 'v) timespan_value list" where
  "deltas_loop [] prev_value = []"
| "deltas_loop (p # ps) prev_value =
     \<lparr>timespan = timespan p, tv_value = tv_value p - prev_value\<rparr> # deltas_loop ps (tv_value p)"

definition deltas ::
  "('t, 'v::minus) timespan_value list \<Rightarrow> 'v
     \<Rightarrow> ('db chart_error, ('t, 'v) timespan_value list) result" where
  "deltas data prev_value = Ok (deltas_loop data prev_value)"

section \<open>Total and last point\<close>

fun sum_loop ::
  "('d, 's, 'k::linorder, 't) timespan_impl \<Rightarrow> ('t, 'v::plus) timespan_value list \<Rightarrow> 't \<Rightarrow> 'v
     \<Rightarrow> ('t, 'v) timespan_value" where
  "sum_loop T [] max_timespan partial_sum = \<lparr>timespan = max_timespan, tv_value = partial_sum\<rparr>"
| "sum_loop T (p # ps) max_timespan partial_sum =
     sum_loop T ps
       (if ord_key T (timespan p) < ord_key T max_timespan then max_timespan else timespan p)
       (partial_sum + tv_value p)"

definition sum_points ::
  "('d, 's) chrono \<Rightarrow> ('d, 's, 'k::linorder, 't) timespan_impl \<Rightarrow> ('t, 'v::plus) timespan_value list
     \<Rightarrow> 'v \<Rightarrow> ('db chart_error, ('t, 'v) timespan_value) result" where
  "sum_points C T data partial_sum =
     Ok (sum_loop T data (from_date T (NaiveDate_MIN C)) partial_sum)"

text \<open>
  \<open>into_iter().max()\<close> on dates and strings: the derived order compares the date first and
  then the value, and the last of several maxima is returned.
\<close>

definition point_le :: "('t::linorder, 'v::linorder) timespan_value \<Rightarrow> ('t, 'v) timespan_value \<Rightarrow> bool" where
  "point_le p q \<longleftrightarrow>
     timespan p < timespan q \<or> (timespan p = timespan q \<and> tv_value p \<le> tv_value q)"

fun last_point :: "('t::linorder, 'v::linorder) timespan_value list \<Rightarrow> ('t, 'v) timespan_value option" where
  "last_point [] = None"
| "last_point (p # ps) = Some (foldl (\<lambda>m q. if point_le m q then q else m) p ps)"

section \<open>Merging two charts\<close>

datatype ('l, 'r) either_or_both = Both 'l 'r | LeftOnly 'l | RightOnly 'r

fun zip_same_timespan ::
  "('d, 's, 'k::linorder, 't) timespan_impl \<Rightarrow> ('t, 'l) timespan_value list
     \<Rightarrow> ('t, 'r) timespan_value list \<Rightarrow> ('t \<times> ('l, 'r) either_or_both) list" where
  "zip_same_timespan T [] [] = []"
| "zip_same_timespan T ls [] = map (\<lambda>p. (timespan p, LeftOnly (tv_value p))) ls"
| "zip_same_timespan T [] rs = map (\<lambda>p. (timespan p, RightOnly (tv_value p))) rs"
| "zip_same_timespan T (l # ls) (r # rs) =
     (case cmp (ord_key T (timespan l)) (ord_key T (timespan r)) of
        Equal \<Rightarrow> (timespan l, Both (tv_value l) (tv_value r)) # zip_same_timespan T ls rs
      | Less \<Rightarrow> (timespan l, LeftOnly (tv_value l)) # zip_same_timespan T ls (r # rs)
      | Greater \<Rightarrow> (timespan r, RightOnly (tv_value r)) # zip_same_timespan T (l # ls) rs)"

section \<open>Properties of sums and differences\<close>

lemma cumsum_loop_timespans [simp]: "map timespan (cumsum_loop data s) = map timespan data"
  by (induction data s rule: cumsum_loop.induct) (auto simp: Let_def)

lemma deltas_loop_timespans [simp]: "map timespan (deltas_loop data s) = map timespan data"
  by (induction data s rule: deltas_loop.induct) auto

lemma cumsum_loop_length [simp]: "length (cumsum_loop data s) = length data"
  by (induction data s rule: cumsum_loop.induct) (auto simp: Let_def)

lemma cumsum_loop_nth:
  fixes s :: "'v::comm_monoid_add"
  shows "i < length data \<Longrightarrow>
    tv_value (cumsum_loop data s ! i) = s + sum_list (map tv_value (take (Suc i) data))"
proof (induction data s arbitrary: i rule: cumsum_loop.induct)
  case (2 p ps prev_sum)
  then show ?case by (cases i) (auto simp: Let_def add.assoc)
qed simp

lemma deltas_cumsum:
  fixes s :: "'v::ab_group_add"
  shows "deltas_loop (cumsum_loop data s) s = data"
  by (induction data s rule: cumsum_loop.induct) (auto simp: Let_def)

lemma cumsum_deltas:
  fixes s :: "'v::ab_group_add"
  shows "cumsum_loop (deltas_loop data s) s = data"
  by (induction data s rule: deltas_loop.induct) (auto simp: Let_def)

lemma sum_loop_value:
  fixes v :: "'v::comm_monoid_add"
  shows "tv_value (sum_loop T data m v) = v + sum_list (map tv_value data)"
  by (induction T data m v rule: sum_loop.induct) (auto simp: add.assoc)

lemma Max_insert_absorb: "finite S \<Longrightarrow> b \<le> a \<Longrightarrow> Max (insert a (insert b S)) = Max (insert a S)"
  by (cases "S = {}") (auto simp: max_def)

lemma sum_loop_key:
  "ord_key T (timespan (sum_loop T data m v)) =
     Max (insert (ord_key T m) (ord_key T ` timespan ` set data))"
proof (induction T data m v rule: sum_loop.induct)
  case (2 T p ps m v)
  let ?S = "ord_key T ` timespan ` set ps"
  show ?case
  proof (cases "ord_key T (timespan p) < ord_key T m")
    case True
    then show ?thesis using "2.IH" by (simp add: Max_insert_absorb less_imp_le del: Max_insert)
  next
    case False
    then show ?thesis using "2.IH" Max_insert_absorb[of ?S "ord_key T m" "ord_key T (timespan p)"]
      by (simp add: insert_commute del: Max_insert)
  qed
qed simp

section \<open>Properties of the merge\<close>

text \<open>What is left of a merge when one side is forgotten.\<close>

fun left_part :: "('t \<times> ('l, 'r) either_or_both) list \<Rightarrow> ('t \<times> 'l) list" where
  "left_part [] = []"
| "left_part ((t, Both l r) # xs) = (t, l) # left_part xs"
| "left_part ((t, LeftOnly l) # xs) = (t, l) # left_part xs"
| "left_part ((t, RightOnly r) # xs) = left_part xs"

fun right_part :: "('t \<times> ('l, 'r) either_or_both) list \<Rightarrow> ('t \<times> 'r) list" where
  "right_part [] = []"
| "right_part ((t, Both l r) # xs) = (t, r) # right_part xs"
| "right_part ((t, LeftOnly l) # xs) = right_part xs"
| "right_part ((t, RightOnly r) # xs) = (t, r) # right_part xs"

lemma left_part_map [simp]:
  "left_part (map (\<lambda>p. (timespan p, LeftOnly (tv_value p))) ls) = map (\<lambda>p. (timespan p, tv_value p)) ls"
  "left_part (map (\<lambda>p. (timespan p, RightOnly (tv_value p))) rs) = []"
  by (induction ls) (auto, induction rs, auto)

lemma right_part_map [simp]:
  "right_part (map (\<lambda>p. (timespan p, LeftOnly (tv_value p))) ls) = []"
  "right_part (map (\<lambda>p. (timespan p, RightOnly (tv_value p))) rs) = map (\<lambda>p. (timespan p, tv_value p)) rs"
  by (induction ls) (auto, induction rs, auto)

lemma zip_left_part:
  "left_part (zip_same_timespan T ls rs) = map (\<lambda>p. (timespan p, tv_value p)) ls"
  by (induction T ls rs rule: zip_same_timespan.induct) (auto split: ordering.splits simp: cmp_def)

lemma zip_right_part:
  "map (\<lambda>(t, v). (ord_key T t, v)) (right_part (zip_same_timespan T ls rs)) =
     map (\<lambda>p. (ord_key T (timespan p), tv_value p)) rs"
  by (induction T ls rs rule: zip_same_timespan.induct) (auto split: ordering.splits simp: cmp_def)

lemma zip_keys:
  "ord_key T ` fst ` set (zip_same_timespan T ls rs) =
     ord_key T ` timespan ` set ls \<union> ord_key T ` timespan ` set rs"
  by (induction T ls rs rule: zip_same_timespan.induct)
    (force split: ordering.splits simp: cmp_def image_image)+

abbreviation strict_keys :: "('d, 's, 'k::linorder, 't) timespan_impl \<Rightarrow> 't list \<Rightarrow> bool" where
  "strict_keys T ts \<equiv> sorted_wrt (\<lambda>a b. ord_key T a < ord_key T b) ts"

lemma zip_above:
  assumes "\<forall>p \<in> set ls. x < ord_key T (timespan p)" "\<forall>p \<in> set rs. x < ord_key T (timespan p)"
  shows "\<forall>e \<in> set (zip_same_timespan T ls rs). x < ord_key T (fst e)"
proof
  fix e assume "e \<in> set (zip_same_timespan T ls rs)"
  then have "ord_key T (fst e) \<in> ord_key T ` fst ` set (zip_same_timespan T ls rs)" by simp
  with assms show "x < ord_key T (fst e)" unfolding zip_keys by auto
qed

lemma zip_sorted:
  "strict_keys T (map timespan ls) \<Longrightarrow> strict_keys T (map timespan rs) \<Longrightarrow>
     strict_keys T (map fst (zip_same_timespan T ls rs))"
proof (induction T ls rs rule: zip_same_timespan.induct)
  case (4 T l ls r rs)
  let ?l = "ord_key T (timespan l)" and ?r = "ord_key T (timespan r)"
  consider (lt) "?l < ?r" | (eq) "?l = ?r" | (gt) "?r < ?l" by fastforce
  then show ?case
  proof cases
    case lt
    then have c: "cmp ?l ?r = Less" by simp
    have "\<forall>e \<in> set (zip_same_timespan T ls (r # rs)). ?l < ord_key T (fst e)"
      by (rule zip_above) (use 4(4,5) lt in \<open>auto intro: order_less_trans\<close>)
    with 4(1)[OF c] 4(4,5) lt show ?thesis by simp
  next
    case eq
    then have c: "cmp ?l ?r = Equal" by simp
    have "\<forall>e \<in> set (zip_same_timespan T ls rs). ?l < ord_key T (fst e)"
      by (rule zip_above) (use 4(4,5) eq in auto)
    with 4(2)[OF c] 4(4,5) eq show ?thesis by simp
  next
    case gt
    then have c: "cmp ?l ?r = Greater" by simp
    have "\<forall>e \<in> set (zip_same_timespan T (l # ls) rs). ?r < ord_key T (fst e)"
      by (rule zip_above) (use 4(4,5) gt in \<open>auto intro: order_less_trans\<close>)
    with 4(3)[OF c] 4(4,5) gt show ?thesis by simp
  qed
qed (auto simp: sorted_wrt_map comp_def)

section \<open>What the operations promise\<close>

text \<open>\<open>cumsum\<close> never fails, keeps the timespans, and replaces the value of the point at
  each index by the previous sum plus all values up to and including that point.\<close>

theorem cumsum_running_totals:
  fixes prev_sum :: "'v::comm_monoid_add"
  shows "\<exists>r. cumsum data prev_sum = Ok r \<and> map timespan r = map timespan data
    \<and> map tv_value r =
        map (\<lambda>i. prev_sum + sum_list (map tv_value (take (Suc i) data))) [0..<length data]"
proof -
  have "map tv_value (cumsum_loop data prev_sum) =
      map (\<lambda>i. prev_sum + sum_list (map tv_value (take (Suc i) data))) [0..<length data]"
    by (rule nth_equalityI) (simp_all add: cumsum_loop_nth)
  then show ?thesis by (simp add: cumsum_def)
qed

text \<open>\<open>cumsum\<close> and \<open>deltas\<close> with the same initial value undo each other, in both
  orders.\<close>

theorem cumsum_deltas_inverse:
  fixes s :: "'v::ab_group_add"
  shows "try_bind (cumsum data s) (\<lambda>r. deltas r s) = Ok data
    \<and> try_bind (deltas data s) (\<lambda>r. cumsum r s) = Ok data"
  by (simp add: cumsum_def deltas_def deltas_cumsum cumsum_deltas)

text \<open>\<open>sum\<close> adds all values to the initial one and reports the latest timespan of the
  chart, or the minimal date for an empty chart.\<close>

theorem sum_points_total:
  fixes s :: "'v::comm_monoid_add"
  shows "\<exists>p. sum_points C T data s = Ok p \<and> tv_value p = s + sum_list (map tv_value data)
    \<and> ord_key T (timespan p) =
        Max (insert (ord_key T (from_date T (NaiveDate_MIN C))) (ord_key T ` timespan ` set data))"
  by (simp add: sum_points_def sum_loop_value sum_loop_key del: Max_insert)

text \<open>merging two charts sorted by timespan gives a chart sorted by timespan with exactly
  the timespans of both; forgetting the right values gives back the left chart and
  forgetting the left values gives back the right one.\<close>

theorem zip_same_timespan_merges:
  assumes "strict_keys T (map timespan ls)" "strict_keys T (map timespan rs)"
  shows "strict_keys T (map fst (zip_same_timespan T ls rs))
    \<and> ord_key T ` fst ` set (zip_same_timespan T ls rs) =
        ord_key T ` timespan ` set ls \<union> ord_key T ` timespan ` set rs
    \<and> left_part (zip_same_timespan T ls rs) = map (\<lambda>p. (timespan p, tv_value p)) ls
    \<and> map (\<lambda>(t, v). (ord_key T t, v)) (right_part (zip_same_timespan T ls rs)) =
        map (\<lambda>p. (ord_key T (timespan p), tv_value p)) rs"
  using zip_sorted[OF assms] zip_keys[of T ls rs] zip_left_part[of T ls rs] zip_right_part[of T ls rs]
  by simp

theorem zip_same_timespan_merges_witness:
  defines "ls \<equiv> [\<lparr>timespan = of_day 1, tv_value = 10 :: int\<rparr>, \<lparr>timespan = of_day 3, tv_value = 30\<rparr>]"
    and "rs \<equiv> [\<lparr>timespan = of_day 2, tv_value = 5 :: int\<rparr>, \<lparr>timespan = of_day 3, tv_value = 6\<rparr>]"
  shows "strict_keys (day_timespan civil) (map timespan ls)
    \<and> strict_keys (day_timespan civil) (map timespan rs)
    \<and> strict_keys (day_timespan civil) (map fst (zip_same_timespan (day_timespan civil) ls rs))
    \<and> left_part (zip_same_timespan (day_timespan civil) ls rs) = [(of_day 1, 10), (of_day 3, 30)]"
proof -
  have "strict_keys (day_timespan civil) (map timespan ls)"
    "strict_keys (day_timespan civil) (map timespan rs)"
    by (simp_all add: ls_def rs_def day_timespan_def civil_eval)
  with zip_same_timespan_merges[of "day_timespan civil" ls rs] show ?thesis
    by (simp add: ls_def rs_def)
qed

end
