(* ===== verification/Stats_Missing.thy ===== *)
theory Stats_Missing
  imports Stats_Data
begin

text \<open>
  Missing points of a chart (\<^verbatim>\<open>stats/stats/src/missing_date.rs\<close>) and the limit on the
  number of requested points (\<^verbatim>\<open>charts/db_interaction/read/local_db.rs\<close>).

  A stored chart is sparse: a \<open>FillZero\<close> chart omits zeros, a \<open>FillPrevious\<close> chart omits points
  equal to their predecessor. \<open>chart_value\<close> is the value such a chart has at every timespan,
  and the lemmas say that fitting and filling keep it. The outer \<open>option\<close> of a result is
  \<open>None\<close> where the code panics or never returns.
\<close>

section \<open>Keys of points\<close>

abbreviation point_key :: "('d, 's, 'k, 't) timespan_impl \<Rightarrow> ('t, 'v) timespan_value \<Rightarrow> 'k" where
  "point_key T p \<equiv> ord_key T (timespan p)"

abbreviation sorted_points ::
  "('d, 's, 'k::linorder, 't) timespan_impl \<Rightarrow> ('t, 'v) timespan_value list \<Rightarrow> bool" where
  "sorted_points T data \<equiv> sorted_wrt (<) (map (point_key T) data)"

section \<open>Trimming and fitting\<close>

definition trim_out_of_range_sorted ::
  "('d, 's, 'k::linorder, 't) timespan_impl \<Rightarrow> ('t, 'v) timespan_value list \<Rightarrow> 't range_inclusive
     \<Rightarrow> ('t, 'v) timespan_value list option" where
  "trim_out_of_range_sorted T data r =
     (let keep_from_idx =
            search_index (binary_search_by_key (ord_key T (incl_start r)) (point_key T) data);
          trim_from_idx =
            search_index (binary_search_by_key
              (ord_key T (saturating_next_timespan T (incl_end r))) (point_key T) data);
          truncated = take trim_from_idx data
      in if keep_from_idx \<le> length truncated then Some (drop keep_from_idx truncated) else None)"

definition insert_at :: "nat \<Rightarrow> 'a \<Rightarrow> 'a list \<Rightarrow> 'a list" where
  "insert_at i x xs = take i xs @ x # drop i xs"

definition insert_previous ::
  "('d, 's, 'k::linorder, 't) timespan_impl \<Rightarrow> ('t, 'v) timespan_value list \<Rightarrow> 't
     \<Rightarrow> ('t, 'v) timespan_value list" where
  "insert_previous T data from =
     (case takeWhile (\<lambda>p. point_key T p < ord_key T from) data of
        [] \<Rightarrow> data
      | before \<Rightarrow>
          (case binary_search_by_key (ord_key T from) (point_key T) data of
             Inr _ \<Rightarrow> data
           | Inl insert_idx \<Rightarrow>
               insert_at insert_idx \<lparr>timespan = from, tv_value = tv_value (last before)\<rparr> data))"

definition fit_into_range ::
  "('d, 's) chrono \<Rightarrow> ('d, 's, 'k::linorder, 't) timespan_impl \<Rightarrow> ('t, 'v) timespan_value list
     \<Rightarrow> 't option \<Rightarrow> 't option \<Rightarrow> missing_date_policy \<Rightarrow> ('t, 'v) timespan_value list option" where
  "fit_into_range C T data from to policy =
     (let trim_range = RangeInclusive
            (case from of Some f \<Rightarrow> f | None \<Rightarrow> from_date T (NaiveDate_MIN C))
            (case to of Some t \<Rightarrow> t | None \<Rightarrow> from_date T (NaiveDate_MAX C))
      in case policy of
           FillZero \<Rightarrow> trim_out_of_range_sorted T data trim_range
         | FillPrevious \<Rightarrow>
             trim_out_of_range_sorted T
               (case from of Some f \<Rightarrow> insert_previous T data f | None \<Rightarrow> data) trim_range)"

section \<open>Filling\<close>

text \<open>\<open>data.get(i).filter(|v| v.timespan.eq(&current_timespan))\<close>\<close>

definition get_matching ::
  "('d, 's, 'k, 't) timespan_impl \<Rightarrow> ('t, 'v) timespan_value list \<Rightarrow> nat \<Rightarrow> 't
     \<Rightarrow> ('t, 'v) timespan_value option" where
  "get_matching T data i current =
     (if i < length data \<and> point_key T (data ! i) = ord_key T current then Some (data ! i) else None)"

partial_function (option) filled_zeros_loop ::
  "('d, 's, 'k::linorder, 't) timespan_impl \<Rightarrow> 'v \<Rightarrow> ('t, 'v) timespan_value list \<Rightarrow> 't \<Rightarrow> nat \<Rightarrow> 't
     \<Rightarrow> ('t, 'v) timespan_value list \<Rightarrow> ('t, 'v) timespan_value list option" where
  "filled_zeros_loop T zero data to i current new_data =
     (if ord_key T current \<le> ord_key T to
      then (case get_matching T data i current of
              Some v \<Rightarrow> filled_zeros_loop T zero data to (Suc i)
                         (saturating_next_timespan T current) (new_data @ [v])
            | None \<Rightarrow> filled_zeros_loop T zero data to i
                        (saturating_next_timespan T current)
                        (new_data @ [with_zero_value zero current]))
      else Some new_data)"

definition filled_zeros_data ::
  "('d, 's, 'k::linorder, 't) timespan_impl \<Rightarrow> 'v \<Rightarrow> ('t, 'v) timespan_value list \<Rightarrow> 't \<Rightarrow> 't
     \<Rightarrow> ('t, 'v) timespan_value list option" where
  "filled_zeros_data T zero data from to = filled_zeros_loop T zero data to 0 from []"

partial_function (option) filled_previous_loop ::
  "('d, 's, 'k::linorder, 't) timespan_impl \<Rightarrow> 'v \<Rightarrow> ('t, 'v) timespan_value list \<Rightarrow> 't \<Rightarrow> nat \<Rightarrow> 't
     \<Rightarrow> ('t, 'v) timespan_value list \<Rightarrow> ('t, 'v) timespan_value list option" where
  "filled_previous_loop T zero data to i current new_data =
     (if ord_key T current \<le> ord_key T to
      then (case get_matching T data i current of
              Some v \<Rightarrow> filled_previous_loop T zero data to (Suc i)
                         (saturating_next_timespan T current) (new_data @ [v])
            | None \<Rightarrow> filled_previous_loop T zero data to i
                        (saturating_next_timespan T current)
                        (new_data @
                          [if new_data = [] then with_zero_value zero current
                           else \<lparr>timespan = current, tv_value = tv_value (last new_data)\<rparr>]))
      else Some new_data)"

definition filled_previous_data ::
  "('d, 's, 'k::linorder, 't) timespan_impl \<Rightarrow> 'v \<Rightarrow> ('t, 'v) timespan_value list \<Rightarrow> 't \<Rightarrow> 't
     \<Rightarrow> ('t, 'v) timespan_value list option" where
  "filled_previous_data T zero data from to = filled_previous_loop T zero data to 0 from []"

datatype requested_points_limit = Points nat | NoLimit

definition approx_limit :: "requested_points_limit \<Rightarrow> nat option" where
  "approx_limit l = (case l of Points p \<Rightarrow> Some p | NoLimit \<Rightarrow> None)"

text \<open>\<open>diff a b\<close> is \<open>a.approx_unsigned_difference(b)\<close> of the trait \<open>ApproxUnsignedDiff\<close>.\<close>

definition fits_in_limit ::
  "('t \<Rightarrow> 't \<Rightarrow> nat option) \<Rightarrow> requested_points_limit \<Rightarrow> 't \<Rightarrow> 't \<Rightarrow> bool" where
  "fits_in_limit diff l from to =
     (case l of
        NoLimit \<Rightarrow> True
      | Points limit \<Rightarrow> (case diff to from of Some d \<Rightarrow> d \<le> limit | None \<Rightarrow> True))"

text \<open>\<open>vec![a, b].into_iter().flatten().min()\<close> and \<open>max()\<close>.\<close>

fun opt_min :: "('d, 's, 'k::linorder, 't) timespan_impl \<Rightarrow> 't option \<Rightarrow> 't option \<Rightarrow> 't option" where
  "opt_min T None b = b"
| "opt_min T a None = a"
| "opt_min T (Some a) (Some b) = Some (if ord_key T b < ord_key T a then b else a)"

fun opt_max :: "('d, 's, 'k::linorder, 't) timespan_impl \<Rightarrow> 't option \<Rightarrow> 't option \<Rightarrow> 't option" where
  "opt_max T None b = b"
| "opt_max T a None = a"
| "opt_max T (Some a) (Some b) = Some (if ord_key T b < ord_key T a then a else b)"

definition first_timespan :: "('t, 'v) timespan_value list \<Rightarrow> 't option" where
  "first_timespan data = (case data of [] \<Rightarrow> None | p # _ \<Rightarrow> Some (timespan p))"

definition last_timespan :: "('t, 'v) timespan_value list \<Rightarrow> 't option" where
  "last_timespan data = (if data = [] then None else Some (timespan (last data)))"

definition fill_missing_points ::
  "('d, 's, 'k::linorder, 't) timespan_impl \<Rightarrow> ('t \<Rightarrow> 't \<Rightarrow> nat option) \<Rightarrow> 'v
     \<Rightarrow> ('t, 'v) timespan_value list \<Rightarrow> missing_date_policy \<Rightarrow> 't option \<Rightarrow> 't option
     \<Rightarrow> requested_points_limit option
     \<Rightarrow> ('db read_error, ('t, 'v) timespan_value list) result option" where
  "fill_missing_points T diff zero data policy from to points_limit =
     (case (opt_min T from (first_timespan data), opt_max T to (last_timespan data)) of
        (Some f, Some t) \<Rightarrow>
          if ord_key T f \<le> ord_key T t then
            (case Option.bind points_limit (\<lambda>l. map_option (\<lambda>n. (l, n)) (approx_limit l)) of
               Some (l, limit_to_report) \<Rightarrow>
                 if \<not> fits_in_limit diff l f t then Some (Err (ReadIntervalTooLarge limit_to_report))
                 else map_option Ok
                   (case policy of FillZero \<Rightarrow> filled_zeros_data T zero data f t
                                 | FillPrevious \<Rightarrow> filled_previous_data T zero data f t)
             | None \<Rightarrow> map_option Ok
                   (case policy of FillZero \<Rightarrow> filled_zeros_data T zero data f t
                                 | FillPrevious \<Rightarrow> filled_previous_data T zero data f t))
          else Some (Ok data)
      | _ \<Rightarrow> Some (Ok data))"

definition filter_within_range ::
  "('d, 's, 'k::linorder, 't) timespan_impl \<Rightarrow> ('t, 'v) timespan_value list \<Rightarrow> 't option \<Rightarrow> 't option
     \<Rightarrow> ('t, 'v) timespan_value list" where
  "filter_within_range T data maybe_from maybe_to =
     filter (\<lambda>v.
       if (case maybe_from of Some f \<Rightarrow> point_key T v < ord_key T f | None \<Rightarrow> False) then False
       else if (case maybe_to of Some t \<Rightarrow> ord_key T t < point_key T v | None \<Rightarrow> False) then False
       else True) data"

definition fill_and_filter_chart ::
  "('d, 's, 'k::linorder, 't) timespan_impl \<Rightarrow> ('t \<Rightarrow> 't \<Rightarrow> nat option) \<Rightarrow> 'v
     \<Rightarrow> ('t, 'v) timespan_value list \<Rightarrow> 't option \<Rightarrow> 't option \<Rightarrow> missing_date_policy
     \<Rightarrow> requested_points_limit option
     \<Rightarrow> ('db read_error, ('t, 'v) timespan_value list) result option" where
  "fill_and_filter_chart T diff zero data from to policy point_limit =
     map_option (\<lambda>r. try_bind r (\<lambda>data_filled. Ok (filter_within_range T data_filled from to)))
       (fill_missing_points T diff zero data policy from to point_limit)"

section \<open>The chart a list of points stands for\<close>

definition last_value :: "'v \<Rightarrow> ('t, 'v) timespan_value list \<Rightarrow> 'v" where
  "last_value zero ps = (if ps = [] then zero else tv_value (last ps))"

definition chart_value ::
  "('d, 's, 'k::linorder, 't) timespan_impl \<Rightarrow> missing_date_policy \<Rightarrow> 'v
     \<Rightarrow> ('t, 'v) timespan_value list \<Rightarrow> 'k \<Rightarrow> 'v" where
  "chart_value T policy zero data k =
     (case policy of
        FillZero \<Rightarrow> last_value zero (filter (\<lambda>p. point_key T p = k) data)
      | FillPrevious \<Rightarrow> last_value zero (filter (\<lambda>p. point_key T p \<le> k) data))"

definition key_value :: "('d, 's, 'k, 't) timespan_impl \<Rightarrow> ('t, 'v) timespan_value \<Rightarrow> 'k \<times> 'v" where
  "key_value T p = (point_key T p, tv_value p)"

section \<open>Trimming\<close>

lemma search_point_index:
  assumes "sorted_points T data"
  shows "search_index (binary_search_by_key k (point_key T) data)
    = length (filter (\<lambda>p. point_key T p < k) data)"
  using search_index_eq[OF assms] takeWhile_less_filter[OF assms] by simp

lemma take_smaller:
  assumes "sorted_points T data"
  shows "take (length (filter (\<lambda>p. point_key T p < k) data)) data
    = filter (\<lambda>p. point_key T p < k) data"
  using takeWhile_less_filter[OF assms] takeWhile_eq_take by metis

lemma drop_smaller:
  assumes "sorted_points T data"
  shows "drop (length (filter (\<lambda>p. point_key T p < k) data)) data
    = filter (\<lambda>p. k \<le> point_key T p) data"
  using takeWhile_less_filter[OF assms] dropWhile_less_filter[OF assms] dropWhile_eq_drop by metis

lemma sorted_points_filter: "sorted_points T data \<Longrightarrow> sorted_points T (filter P data)"
  by (simp add: sorted_wrt_map sorted_wrt_filter)

lemma trim_eq:
  assumes sorted: "sorted_points T data"
  shows "trim_out_of_range_sorted T data (RangeInclusive a b) =
    (if \<exists>p \<in> set data. ord_key T (saturating_next_timespan T b) \<le> point_key T p \<and> point_key T p < ord_key T a
     then None
     else Some (filter (\<lambda>p. ord_key T a \<le> point_key T p
       \<and> point_key T p < ord_key T (saturating_next_timespan T b)) data))"
proof -
  let ?s = "ord_key T a" and ?e = "ord_key T (saturating_next_timespan T b)"
  let ?S = "filter (\<lambda>p. point_key T p < ?s) data" and ?E = "filter (\<lambda>p. point_key T p < ?e) data"
  have trim: "trim_out_of_range_sorted T data (RangeInclusive a b) =
      (if length ?S \<le> length ?E then Some (drop (length ?S) ?E) else None)"
    by (simp add: trim_out_of_range_sorted_def search_point_index[OF sorted] take_smaller[OF sorted])
  show ?thesis
  proof (cases "?s \<le> ?e")
    case True
    then have S: "?S = filter (\<lambda>p. point_key T p < ?s) ?E"
      by (auto intro!: filter_cong)
    have "drop (length ?S) ?E = filter (\<lambda>p. ?s \<le> point_key T p) ?E"
      unfolding S by (rule drop_smaller[OF sorted_points_filter[OF sorted]])
    moreover have "length ?S \<le> length ?E" unfolding S by (rule length_filter_le)
    moreover have "\<not> (\<exists>p \<in> set data. ?e \<le> point_key T p \<and> point_key T p < ?s)"
      using True by (meson leD order_trans)
    ultimately show ?thesis by (simp add: trim conj_commute)
  next
    case False
    then have E: "?E = filter (\<lambda>p. point_key T p < ?e) ?S" by (auto intro!: filter_cong)
    have len: "length ?S \<le> length ?E \<longleftrightarrow> \<not> (\<exists>p \<in> set data. ?e \<le> point_key T p \<and> point_key T p < ?s)"
    proof
      assume "length ?S \<le> length ?E"
      then have "length (filter (\<lambda>p. point_key T p < ?e) ?S) = length ?S"
        using E length_filter_le[of "\<lambda>p. point_key T p < ?e" ?S] by simp
      then have "\<forall>p \<in> set ?S. point_key T p < ?e"
        using length_filter_less[of _ ?S "\<lambda>p. point_key T p < ?e"] by (metis less_irrefl)
      then show "\<not> (\<exists>p \<in> set data. ?e \<le> point_key T p \<and> point_key T p < ?s)" by fastforce
    next
      assume "\<not> (\<exists>p \<in> set data. ?e \<le> point_key T p \<and> point_key T p < ?s)"
      then have "?S = ?E" using False by (auto intro!: filter_cong)
      then show "length ?S \<le> length ?E" by simp
    qed
    moreover have "filter (\<lambda>p. ?s \<le> point_key T p \<and> point_key T p < ?e) data = []"
      using False by (auto simp: filter_empty_conv)
    moreover have "length ?E \<le> length ?S" using False E length_filter_le by metis
    ultimately show ?thesis using trim by auto
  qed
qed

section \<open>Filling\<close>

text \<open>Points before the timespan, and the value carried over from them.\<close>

definition value_before ::
  "('d, 's, 'k::linorder, 't) timespan_impl \<Rightarrow> 'v \<Rightarrow> ('t, 'v) timespan_value list \<Rightarrow> 'k \<Rightarrow> 'v" where
  "value_before T zero data k = last_value zero (filter (\<lambda>p. point_key T p < k) data)"

text \<open>The loops keep \<open>i\<close> the number of points before the current timespan.\<close>

definition loop_index ::
  "('d, 's, 'k::linorder, 't) timespan_impl \<Rightarrow> ('t, 'v) timespan_value list \<Rightarrow> 't \<Rightarrow> nat" where
  "loop_index T data current = length (filter (\<lambda>p. point_key T p < ord_key T current) data)"

lemma filter_eq_singleton:
  assumes "sorted_points T data" "q \<in> set data"
  shows "filter (\<lambda>p. point_key T p = point_key T q) data = [q]"
  using assms
proof (induction data)
  case (Cons x xs)
  show ?case
  proof (cases "x = q")
    case True
    with Cons.prems(1) show ?thesis by (auto simp: filter_empty_conv)
  next
    case False
    with Cons show ?thesis by auto
  qed
qed simp

lemma filter_le_split:
  assumes "sorted_points T data"
  shows "filter (\<lambda>p. point_key T p \<le> k) data
    = filter (\<lambda>p. point_key T p < k) data @ filter (\<lambda>p. point_key T p = k) data"
  using assms
proof (induction data)
  case (Cons x xs)
  have none: "filter (\<lambda>p. point_key T p < k) xs = []" if "k = point_key T x"
    using Cons.prems that by (auto simp: filter_empty_conv)
  show ?case using Cons by (auto simp: le_less none)
qed simp

lemma get_matching_eq:
  assumes sorted: "sorted_points T data"
  shows "get_matching T data (loop_index T data current) current =
    (case filter (\<lambda>p. point_key T p = ord_key T current) data of [] \<Rightarrow> None | q # _ \<Rightarrow> Some q)"
proof -
  let ?k = "ord_key T current" and ?i = "loop_index T data current"
  have rest: "drop ?i data = filter (\<lambda>p. ?k \<le> point_key T p) data"
    unfolding loop_index_def by (rule drop_smaller[OF sorted])
  show ?thesis
  proof (cases "filter (\<lambda>p. point_key T p = ?k) data")
    case Nil
    have "\<not> (?i < length data \<and> point_key T (data ! ?i) = ?k)"
      using Nil nth_mem by (fastforce simp: filter_empty_conv)
    with Nil show ?thesis by (auto simp: get_matching_def)
  next
    case (Cons q qs)
    then have q: "q \<in> set data" "point_key T q = ?k"
      using filter_eq_ConsD by fastforce+
    have ge: "sorted_points T (filter (\<lambda>p. ?k \<le> point_key T p) data)"
      by (rule sorted_points_filter[OF sorted])
    obtain y ys where y: "filter (\<lambda>p. ?k \<le> point_key T p) data = y # ys"
      using q by (cases "filter (\<lambda>p. ?k \<le> point_key T p) data") (auto simp: filter_empty_conv)
    have "y = q"
    proof (rule ccontr)
      assume "y \<noteq> q"
      moreover have "q \<in> set (y # ys)" using q y[symmetric] by simp
      ultimately have "point_key T y < point_key T q" using ge y by auto
      moreover have "y \<in> set (filter (\<lambda>p. ?k \<le> point_key T p) data)" using y by simp
      ultimately show False using q(2) by auto
    qed
    with y rest have "?i < length data \<and> data ! ?i = q"
      by (metis drop_eq_Nil2 hd_drop_conv_nth leI list.discI list.sel(1))
    with q Cons show ?thesis by (simp add: get_matching_def)
  qed
qed

context discrete_timespan
begin

lemma less_next_iff:
  assumes "ord_key T cur \<le> ord_key T to" "ord_key T to < ord_key T (ts_max T)"
  shows "point_key T p < ord_key T (saturating_next_timespan T cur) \<longleftrightarrow> point_key T p \<le> ord_key T cur"
  using key_next_gt_iff[of cur "timespan p"] assms by simp

lemma loop_index_next:
  assumes "ord_key T cur \<le> ord_key T to" "ord_key T to < ord_key T (ts_max T)" "sorted_points T data"
  shows "loop_index T data (saturating_next_timespan T cur) =
    (case get_matching T data (loop_index T data cur) cur of
       Some _ \<Rightarrow> Suc (loop_index T data cur) | None \<Rightarrow> loop_index T data cur)"
proof -
  have "loop_index T data (saturating_next_timespan T cur) = loop_index T data cur
      + length (filter (\<lambda>p. point_key T p = ord_key T cur) data)"
    unfolding loop_index_def less_next_iff[OF assms(1,2)] filter_le_split[OF assms(3)] by simp
  moreover have "length (filter (\<lambda>p. point_key T p = ord_key T cur) data) \<le> 1"
  proof (cases "\<exists>q \<in> set data. point_key T q = ord_key T cur")
    case True
    then show ?thesis using filter_eq_singleton[OF assms(3)] by fastforce
  next
    case False
    then have "filter (\<lambda>p. point_key T p = ord_key T cur) data = []" by (auto simp: filter_empty_conv)
    then show ?thesis by simp
  qed
  ultimately show ?thesis
    unfolding get_matching_eq[OF assms(3)] by (auto split: list.splits)
qed

lemma filled_zeros_loop_eq:
  assumes "ord_key T to < ord_key T (ts_max T)" and sorted: "sorted_points T data"
  shows "\<exists>r. filled_zeros_loop T zero data to (loop_index T data cur) cur new_data = Some (new_data @ r)
    \<and> map (key_value T) r = map (\<lambda>k. (k, chart_value T FillZero zero data k)) (keys_between T cur to)"
  using assms(1)
proof (induction cur arbitrary: new_data rule: until_induct)
  case (step cur)
  show ?case
  proof (cases "ord_key T cur \<le> ord_key T to")
    case True
    note keys = keys_between_next[OF True assms(1)]
    note idx = loop_index_next[OF True assms(1) sorted]
    note chart = chart_value_def[of T FillZero zero data "ord_key T cur"]
    show ?thesis
    proof (cases "get_matching T data (loop_index T data cur) cur")
      case None
      then have "filter (\<lambda>p. point_key T p = ord_key T cur) data = []"
        unfolding get_matching_eq[OF sorted] by (simp split: list.splits)
      then have "key_value T (with_zero_value zero cur) =
          (ord_key T cur, chart_value T FillZero zero data (ord_key T cur))"
        by (simp add: chart key_value_def with_zero_value_def last_value_def)
      with step[OF True, of "new_data @ [with_zero_value zero cur]"] None idx keys True show ?thesis
        by (subst filled_zeros_loop.simps) fastforce
    next
      case (Some v)
      then obtain vs where vs: "filter (\<lambda>p. point_key T p = ord_key T cur) data = v # vs"
        unfolding get_matching_eq[OF sorted] by (auto split: list.splits)
      then have v: "v \<in> set data" "point_key T v = ord_key T cur"
        using filter_eq_ConsD by fastforce+
      then have "key_value T v = (ord_key T cur, chart_value T FillZero zero data (ord_key T cur))"
        using filter_eq_singleton[OF sorted v(1)] by (simp add: chart key_value_def last_value_def)
      with step[OF True, of "new_data @ [v]"] Some idx keys True show ?thesis
        by (subst filled_zeros_loop.simps) fastforce
    qed
  next
    case False
    then show ?thesis by (subst filled_zeros_loop.simps) (simp add: keys_between_empty)
  qed
qed

lemma filled_previous_loop_eq:
  assumes "ord_key T to < ord_key T (ts_max T)" and sorted: "sorted_points T data"
    and "last_value zero new_data = value_before T zero data (ord_key T cur)"
  shows "\<exists>r. filled_previous_loop T zero data to (loop_index T data cur) cur new_data = Some (new_data @ r)
    \<and> map (key_value T) r = map (\<lambda>k. (k, chart_value T FillPrevious zero data k)) (keys_between T cur to)"
  using assms(1,3)
proof (induction cur arbitrary: new_data rule: until_induct)
  case (step cur)
  show ?case
  proof (cases "ord_key T cur \<le> ord_key T to")
    case True
    note keys = keys_between_next[OF True assms(1)]
    note idx = loop_index_next[OF True assms(1) sorted]
    let ?k = "ord_key T cur" and ?next = "saturating_next_timespan T cur"
    have carry: "value_before T zero data (ord_key T ?next) = chart_value T FillPrevious zero data ?k"
      unfolding value_before_def chart_value_def less_next_iff[OF True assms(1)] by simp
    have chart: "chart_value T FillPrevious zero data ?k =
        last_value zero (filter (\<lambda>p. point_key T p < ?k) data @ filter (\<lambda>p. point_key T p = ?k) data)"
      by (simp add: chart_value_def filter_le_split[OF sorted])
    show ?thesis
    proof (cases "get_matching T data (loop_index T data cur) cur")
      case None
      let ?p = "if new_data = [] then with_zero_value zero cur
        else \<lparr>timespan = cur, tv_value = tv_value (last new_data)\<rparr>"
      from None have "filter (\<lambda>p. point_key T p = ?k) data = []"
        unfolding get_matching_eq[OF sorted] by (simp split: list.splits)
      then have c: "chart_value T FillPrevious zero data ?k = last_value zero new_data"
        using chart step.prems by (simp add: value_before_def)
      then have p: "key_value T ?p = (?k, chart_value T FillPrevious zero data ?k)"
        by (auto simp: key_value_def with_zero_value_def last_value_def)
      have "last_value zero (new_data @ [?p]) = value_before T zero data (ord_key T ?next)"
        using c carry by (simp add: last_value_def with_zero_value_def)
      from step.IH[OF True this] None idx keys True p show ?thesis
        by (subst filled_previous_loop.simps) fastforce
    next
      case (Some v)
      then obtain vs where vs: "filter (\<lambda>p. point_key T p = ?k) data = v # vs"
        unfolding get_matching_eq[OF sorted] by (auto split: list.splits)
      then have v: "v \<in> set data" "point_key T v = ?k" using filter_eq_ConsD by fastforce+
      then have c: "chart_value T FillPrevious zero data ?k = tv_value v"
        using filter_eq_singleton[OF sorted v(1)] chart by (simp add: last_value_def)
      then have p: "key_value T v = (?k, chart_value T FillPrevious zero data ?k)"
        using v by (simp add: key_value_def)
      have "last_value zero (new_data @ [v]) = value_before T zero data (ord_key T ?next)"
        using c carry by (simp add: last_value_def)
      from step.IH[OF True this] Some idx keys True p show ?thesis
        by (subst filled_previous_loop.simps) fastforce
    qed
  next
    case False
    then show ?thesis by (subst filled_previous_loop.simps) (simp add: keys_between_empty)
  qed
qed

lemma loop_index_start: "\<forall>p \<in> set data. ord_key T from \<le> point_key T p \<Longrightarrow> loop_index T data from = 0"
  by (auto simp: loop_index_def filter_empty_conv)

lemma filled_data:
  assumes "ord_key T to < ord_key T (ts_max T)" "sorted_points T data"
    and "\<forall>p \<in> set data. ord_key T from \<le> point_key T p"
  shows "\<exists>r. (case policy of FillZero \<Rightarrow> filled_zeros_data T zero data from to
                            | FillPrevious \<Rightarrow> filled_previous_data T zero data from to) = Some r
    \<and> map (key_value T) r = map (\<lambda>k. (k, chart_value T policy zero data k)) (keys_between T from to)"
proof (cases policy)
  case FillZero
  then show ?thesis
    using filled_zeros_loop_eq[OF assms(1,2), of zero "from" "[]"] loop_index_start[OF assms(3)]
    by (simp add: filled_zeros_data_def)
next
  case FillPrevious
  have "filter (\<lambda>p. point_key T p < ord_key T from) data = []"
    using assms(3) by (auto simp: filter_empty_conv)
  then have "last_value zero [] = value_before T zero data (ord_key T from)"
    by (simp add: value_before_def last_value_def)
  from filled_previous_loop_eq[OF assms(1,2) this] FillPrevious show ?thesis
    using loop_index_start[OF assms(3)] by (simp add: filled_previous_data_def)
qed

text \<open>Counting up to the last timespan never ends, because the next timespan saturates.\<close>

lemma filled_zeros_loop_diverges:
  assumes "ord_key T to = ord_key T (ts_max T)"
  shows "filled_zeros_loop T zero data to i cur new_data = None"
proof (rule ccontr)
  assume "filled_zeros_loop T zero data to i cur new_data \<noteq> None"
  then obtain r where ret: "filled_zeros_loop T zero data to i cur new_data = Some r" by blast
  have "T = T \<longrightarrow> ord_key T to \<noteq> ord_key T (ts_max T)"
  proof (rule filled_zeros_loop.raw_induct
      [where P = "\<lambda>T' zero data to i cur new r. T' = T \<longrightarrow> ord_key T to \<noteq> ord_key T (ts_max T)", OF _ ret])
  qed (auto split: if_splits option.splits simp: key_le_max)
  with assms show False by simp
qed

lemma filled_previous_loop_diverges:
  assumes "ord_key T to = ord_key T (ts_max T)"
  shows "filled_previous_loop T zero data to i cur new_data = None"
proof (rule ccontr)
  assume "filled_previous_loop T zero data to i cur new_data \<noteq> None"
  then obtain r where ret: "filled_previous_loop T zero data to i cur new_data = Some r" by blast
  have "T = T \<longrightarrow> ord_key T to \<noteq> ord_key T (ts_max T)"
  proof (rule filled_previous_loop.raw_induct
      [where P = "\<lambda>T' zero data to i cur new r. T' = T \<longrightarrow> ord_key T to \<noteq> ord_key T (ts_max T)", OF _ ret])
  qed (auto split: if_splits option.splits simp: key_le_max)
  with assms show False by simp
qed

lemma first_least: "sorted_points T data \<Longrightarrow> first_timespan data = Some f \<Longrightarrow>
    \<forall>p \<in> set data. ord_key T f \<le> point_key T p"
  by (cases data) (auto simp: first_timespan_def intro: less_imp_le)

lemma last_greatest: "sorted_points T data \<Longrightarrow> last_timespan data = Some l \<Longrightarrow>
    \<forall>p \<in> set data. point_key T p \<le> ord_key T l"
  by (induction data rule: rev_induct)
    (auto simp: last_timespan_def sorted_wrt_append intro: less_imp_le)

lemma opt_min_le: "opt_min T a b = Some m \<Longrightarrow> a = Some x \<or> b = Some x \<Longrightarrow> ord_key T m \<le> ord_key T x"
  by (cases a; cases b) (auto split: if_splits)

lemma opt_max_ge: "opt_max T a b = Some m \<Longrightarrow> a = Some x \<or> b = Some x \<Longrightarrow> ord_key T x \<le> ord_key T m"
  by (cases a; cases b) (auto split: if_splits)

lemma opt_max_cases: "opt_max T a b = Some m \<Longrightarrow> a = Some m \<or> b = Some m"
  by (cases a; cases b) (auto split: if_splits)

lemma filter_keys_between:
  "filter P (keys_between T a b) = sorted_list_of_set {k \<in> between_keys T a b. P k}"
  unfolding keys_between_def
  by (rule sorted_distinct_set_unique)
    (auto simp: finite_between finite_subset[OF _ finite_between] sorted_wrt_filter)

lemma keys_between_filter:
  assumes "ord_key T a' \<le> ord_key T a" "ord_key T b \<le> ord_key T b'"
  shows "filter (\<lambda>k. ord_key T a \<le> k \<and> k \<le> ord_key T b) (keys_between T a' b') = keys_between T a b"
proof -
  have "{k \<in> between_keys T a' b'. ord_key T a \<le> k \<and> k \<le> ord_key T b} = between_keys T a b"
    using assms by (auto simp: between_keys_def)
  then show ?thesis unfolding filter_keys_between by (simp add: keys_between_def)
qed

text \<open>Filling a bounded range returns exactly its timespans with the values of the chart.\<close>

lemma fill_and_filter_range:
  assumes sorted: "sorted_points T data" and "ord_key T a \<le> ord_key T b"
    and below: "ord_key T b < ord_key T (ts_max T)" "\<forall>p \<in> set data. point_key T p < ord_key T (ts_max T)"
    and fits: "\<And>l f t. limit = Some l \<Longrightarrow> opt_min T (Some a) (first_timespan data) = Some f \<Longrightarrow>
      opt_max T (Some b) (last_timespan data) = Some t \<Longrightarrow> fits_in_limit diff l f t"
  shows "\<exists>r. (fill_and_filter_chart T diff zero data (Some a) (Some b) policy limit
        :: ('db read_error, _) result option) = Some (Ok r)
    \<and> map (key_value T) r = map (\<lambda>k. (k, chart_value T policy zero data k)) (keys_between T a b)"
proof -
  obtain f where f: "opt_min T (Some a) (first_timespan data) = Some f"
    by (cases "first_timespan data") auto
  obtain t where t: "opt_max T (Some b) (last_timespan data) = Some t"
    by (cases "last_timespan data") auto
  have fa: "ord_key T f \<le> ord_key T a" and bt: "ord_key T b \<le> ord_key T t"
    using opt_min_le[OF f] opt_max_ge[OF t] by auto
  then have ft: "ord_key T f \<le> ord_key T t" using assms(2) by simp
  have tmax: "ord_key T t < ord_key T (ts_max T)"
    using opt_max_cases[OF t] below by (auto simp: last_timespan_def split: if_splits)
  have ge: "\<forall>p \<in> set data. ord_key T f \<le> point_key T p"
  proof (cases "first_timespan data")
    case (Some x)
    with first_least[OF sorted] opt_min_le[OF f, of x] show ?thesis by (auto intro: order_trans)
  qed (auto simp: first_timespan_def split: list.splits)
  from filled_data[OF tmax sorted ge, where policy = policy and zero = zero] obtain r where
    r: "(case policy of FillZero \<Rightarrow> filled_zeros_data T zero data f t
          | FillPrevious \<Rightarrow> filled_previous_data T zero data f t) = Some r"
    and kv: "map (key_value T) r = map (\<lambda>k. (k, chart_value T policy zero data k)) (keys_between T f t)"
    by blast
  have fill: "(fill_missing_points T diff zero data policy (Some a) (Some b) limit
      :: ('db read_error, _) result option) = Some (Ok r)"
  proof (cases limit)
    case (Some l)
    with fits[OF Some f t] f t ft r show ?thesis
      by (cases l) (simp_all add: fill_missing_points_def approx_limit_def)
  qed (use f t ft r in \<open>simp add: fill_missing_points_def\<close>)
  let ?r = "filter_within_range T r (Some a) (Some b)"
  have "map (key_value T) ?r = filter (\<lambda>(k, _). ord_key T a \<le> k \<and> k \<le> ord_key T b) (map (key_value T) r)"
    unfolding filter_within_range_def filter_map
    by (auto simp: key_value_def comp_def not_less intro!: arg_cong[where f = "map (key_value T)"] filter_cong)
  also have "\<dots> = map (\<lambda>k. (k, chart_value T policy zero data k)) (keys_between T a b)"
    unfolding kv filter_map comp_def using keys_between_filter[OF fa bt] by simp
  finally show ?thesis using fill by (auto simp: fill_and_filter_chart_def)
qed

text \<open>The limit on the requested interval is enforced before anything is filled.\<close>

lemma fill_missing_points_limit:
  assumes "opt_min T from (first_timespan data) = Some f" "opt_max T to (last_timespan data) = Some t"
    and "ord_key T f \<le> ord_key T t" "diff t f = Some n" "p < n"
  shows "fill_missing_points T diff zero data policy from to (Some (Points p))
    = Some (Err (ReadIntervalTooLarge p))"
  using assms by (simp add: fill_missing_points_def approx_limit_def fits_in_limit_def)

end

section \<open>Fitting keeps the chart\<close>

lemma insert_at_filter:
  assumes "sorted_points T data"
  shows "insert_at (length (filter (\<lambda>p. point_key T p < k) data)) x data
    = filter (\<lambda>p. point_key T p < k) data @ x # filter (\<lambda>p. k \<le> point_key T p) data"
  by (simp add: insert_at_def take_smaller[OF assms] drop_smaller[OF assms])

text \<open>After \<open>insert_previous\<close> a chart with points before \<open>from\<close> has a point at \<open>from\<close>.\<close>

lemma insert_previous_eq:
  assumes sorted: "sorted_points T data"
  shows "insert_previous T data from =
    (if filter (\<lambda>p. point_key T p < ord_key T from) data = [] \<or> ord_key T from \<in> point_key T ` set data
     then data
     else filter (\<lambda>p. point_key T p < ord_key T from) data
       @ \<lparr>timespan = from,
          tv_value = tv_value (last (filter (\<lambda>p. point_key T p < ord_key T from) data))\<rparr>
       # filter (\<lambda>p. ord_key T from \<le> point_key T p) data)"
proof -
  let ?k = "ord_key T from"
  let ?B = "filter (\<lambda>p. point_key T p < ?k) data"
  have tw: "takeWhile (\<lambda>p. point_key T p < ?k) data = ?B" by (rule takeWhile_less_filter[OF sorted])
  show ?thesis
  proof (cases "binary_search_by_key ?k (point_key T) data")
    case (Inl i)
    then have "?k \<notin> point_key T ` set data"
      using binary_search_by_key_Ok_iff[OF sorted, of ?k] by auto
    moreover have "i = length ?B" using search_point_index[OF sorted, of ?k] Inl
      by (simp add: search_index_def)
    then have "insert_at i x data = ?B @ x # filter (\<lambda>p. ?k \<le> point_key T p) data" for x
      using insert_at_filter[OF sorted, of ?k x] by simp
    ultimately show ?thesis
      by (cases ?B) (simp_all add: insert_previous_def tw Inl)
  next
    case (Inr i)
    then have "?k \<in> point_key T ` set data"
      using binary_search_by_key_Ok_iff[OF sorted, of ?k] by auto
    with Inr show ?thesis by (auto simp: insert_previous_def tw split: list.splits)
  qed
qed

lemma insert_previous_sorted:
  assumes sorted: "sorted_points T data"
  shows "sorted_points T (insert_previous T data from)"
proof (cases "ord_key T from \<in> point_key T ` set data")
  case False
  have "ord_key T from < point_key T p" if "p \<in> set data" "ord_key T from \<le> point_key T p" for p
    using that False by (metis image_eqI le_less)
  then show ?thesis
    using sorted_points_filter[OF sorted]
    by (auto simp: insert_previous_eq[OF sorted] sorted sorted_wrt_append)
qed (simp add: insert_previous_eq[OF sorted] sorted)

lemma last_value_append [simp]:
  "last_value z (xs @ ys) = (if ys = [] then last_value z xs else last_value z ys)"
  by (simp add: last_value_def)

lemma last_value_Cons [simp]: "last_value z (x # xs) = (if xs = [] then tv_value x else last_value z xs)"
  by (simp add: last_value_def)

lemma chart_value_split:
  assumes "sorted_points T data" "a \<le> k"
  shows "last_value zero (filter (\<lambda>p. point_key T p \<le> k) data) =
    (if filter (\<lambda>p. a \<le> point_key T p \<and> point_key T p \<le> k) data = []
     then value_before T zero data a
     else last_value zero (filter (\<lambda>p. a \<le> point_key T p \<and> point_key T p \<le> k) data))"
proof -
  have "filter (\<lambda>p. point_key T p \<le> k) data =
      filter (\<lambda>p. point_key T p < a) data @ filter (\<lambda>p. a \<le> point_key T p \<and> point_key T p \<le> k) data"
    using assms
  proof (induction data)
    case (Cons x xs)
    have "filter (\<lambda>p. point_key T p < a) xs = []" if "a \<le> point_key T x"
      using Cons.prems that by (fastforce simp: filter_empty_conv)
    with Cons show ?case by auto
  qed simp
  then show ?thesis by (simp add: value_before_def)
qed

lemma insert_previous_chart:
  assumes sorted: "sorted_points T data" and k: "ord_key T from \<le> k"
  shows "last_value zero
      (filter (\<lambda>p. ord_key T from \<le> point_key T p \<and> point_key T p \<le> k) (insert_previous T data from))
    = chart_value T FillPrevious zero data k"
proof -
  let ?a = "ord_key T from"
  let ?B = "filter (\<lambda>p. point_key T p < ?a) data"
  let ?M = "filter (\<lambda>p. ?a \<le> point_key T p \<and> point_key T p \<le> k) data"
  have chart: "chart_value T FillPrevious zero data k =
      (if ?M = [] then value_before T zero data ?a else last_value zero ?M)"
    by (simp add: chart_value_def chart_value_split[OF sorted k])
  consider (none) "?B = []" | (at) "?B \<noteq> []" "?a \<in> point_key T ` set data"
    | (ins) "?B \<noteq> []" "?a \<notin> point_key T ` set data" by blast
  then show ?thesis
  proof cases
    case none
    then show ?thesis
      by (simp add: insert_previous_eq[OF sorted] chart value_before_def last_value_def)
  next
    case at
    then have "?M \<noteq> []" using k by (force simp: filter_empty_conv)
    with at show ?thesis by (simp add: insert_previous_eq[OF sorted] chart)
  next
    case ins
    have "filter (\<lambda>p. ?a \<le> point_key T p \<and> point_key T p \<le> k) ?B = []"
      by (auto simp: filter_empty_conv)
    moreover have "filter (\<lambda>p. ?a \<le> point_key T p \<and> point_key T p \<le> k)
        (filter (\<lambda>p. ?a \<le> point_key T p) data) = ?M"
      by (auto intro!: filter_cong)
    ultimately show ?thesis
      using ins k by (simp add: insert_previous_eq[OF sorted] chart value_before_def last_value_def)
  qed
qed

context discrete_timespan
begin

lemma trim_inner:
  assumes "sorted_points T data" "ord_key T a \<le> ord_key T b" "ord_key T b < ord_key T (ts_max T)"
  shows "trim_out_of_range_sorted T data (RangeInclusive a b) =
    Some (filter (\<lambda>p. ord_key T a \<le> point_key T p \<and> point_key T p \<le> ord_key T b) data)"
proof -
  have next_iff: "point_key T p < ord_key T (saturating_next_timespan T b) \<longleftrightarrow> point_key T p \<le> ord_key T b" for p
    using key_next_gt_iff[OF assms(3)] by simp
  have "\<not> (\<exists>p \<in> set data. ord_key T (saturating_next_timespan T b) \<le> point_key T p \<and> point_key T p < ord_key T a)"
    using assms(2) next_iff by (meson leD order_le_less_trans order_less_imp_le order_trans)
  then show ?thesis unfolding trim_eq[OF assms(1)] next_iff by simp
qed

text \<open>
  Fitting to a range in proper order never panics, returns sorted points of the range and
  keeps the value of the chart at every timespan of the range, under both policies.
\<close>

lemma fit_into_range_chart:
  assumes sorted: "sorted_points T data" and ab: "ord_key T a \<le> ord_key T b"
    and mx: "ord_key T b < ord_key T (ts_max T)"
  shows "\<exists>r. fit_into_range C T data (Some a) (Some b) policy = Some r \<and> sorted_points T r
    \<and> (\<forall>p \<in> set r. ord_key T a \<le> point_key T p \<and> point_key T p \<le> ord_key T b)
    \<and> (\<forall>k. ord_key T a \<le> k \<longrightarrow> k \<le> ord_key T b \<longrightarrow>
          chart_value T policy zero r k = chart_value T policy zero data k)"
proof (cases policy)
  case FillZero
  let ?r = "filter (\<lambda>p. ord_key T a \<le> point_key T p \<and> point_key T p \<le> ord_key T b) data"
  have fit: "fit_into_range C T data (Some a) (Some b) policy = Some ?r"
    using FillZero trim_inner[OF sorted ab mx] by (simp add: fit_into_range_def Let_def)
  have "filter (\<lambda>p. point_key T p = k) ?r = filter (\<lambda>p. point_key T p = k) data"
    if "ord_key T a \<le> k" "k \<le> ord_key T b" for k
    using that by (auto intro!: filter_cong)
  with fit FillZero sorted_points_filter[OF sorted] show ?thesis
    by (auto simp: chart_value_def)
next
  case FillPrevious
  let ?d = "insert_previous T data a"
  let ?r = "filter (\<lambda>p. ord_key T a \<le> point_key T p \<and> point_key T p \<le> ord_key T b) ?d"
  have sorted': "sorted_points T ?d" by (rule insert_previous_sorted[OF sorted])
  have fit: "fit_into_range C T data (Some a) (Some b) policy = Some ?r"
    using FillPrevious trim_inner[OF sorted' ab mx] by (simp add: fit_into_range_def Let_def)
  have "filter (\<lambda>p. point_key T p \<le> k) ?r =
      filter (\<lambda>p. ord_key T a \<le> point_key T p \<and> point_key T p \<le> k) ?d"
    if "k \<le> ord_key T b" for k
    using that by (auto intro!: filter_cong)
  then have "chart_value T policy zero ?r k = chart_value T policy zero data k"
    if "ord_key T a \<le> k" "k \<le> ord_key T b" for k
    using that FillPrevious insert_previous_chart[OF sorted, of a k zero] by (simp add: chart_value_def)
  with fit sorted_points_filter[OF sorted'] show ?thesis by auto
qed

text \<open>With the ends the wrong way round a point between them makes \<open>drain\<close> panic.\<close>

lemma fit_into_range_panics:
  assumes sorted: "sorted_points T data" and p: "p \<in> set data"
    and "ord_key T b < point_key T p" "point_key T p < ord_key T a"
  shows "fit_into_range C T data (Some a) (Some b) FillZero = None"
proof -
  have "ord_key T (saturating_next_timespan T b) \<le> point_key T p"
    using key_next_le[of b "timespan p"] assms(3) by simp
  then show ?thesis
    using p assms(4) by (auto simp: fit_into_range_def trim_eq[OF sorted])
qed

end

section \<open>What fitting and filling promise\<close>

text \<open>A two-point chart of days 1 and 4, used by the instances below.\<close>

definition sample_chart :: "(civil_date, int) timespan_value list" where
  "sample_chart = [\<lparr>timespan = of_day 1, tv_value = 10\<rparr>, \<lparr>timespan = of_day 4, tv_value = 40\<rparr>]"

lemma sample_chart_sorted: "sorted_points (day_timespan civil) sample_chart"
  by (simp add: sample_chart_def day_timespan_def civil_eval)

lemmas sample_eval = sample_chart_def day_timespan_def civil_eval

text \<open>fitting sorted data to an ordered range that ends before the last timespan does not
  panic. The result is sorted, lies within the range, and stands for the same chart as the
  data at every timespan of the range: points before the range are not lost under
  \<open>FillPrevious\<close>.\<close>

theorem fit_into_range_keeps_chart:
  assumes "discrete_timespan T" "sorted_points T data" "ord_key T a \<le> ord_key T b"
    "ord_key T b < ord_key T (ts_max T)"
  shows "\<exists>r. fit_into_range C T data (Some a) (Some b) policy = Some r \<and> sorted_points T r
    \<and> (\<forall>p \<in> set r. ord_key T a \<le> point_key T p \<and> point_key T p \<le> ord_key T b)
    \<and> (\<forall>k. ord_key T a \<le> k \<longrightarrow> k \<le> ord_key T b \<longrightarrow>
          chart_value T policy zero r k = chart_value T policy zero data k)"
  by (rule discrete_timespan.fit_into_range_chart[OF assms])

theorem fit_into_range_keeps_chart_witness:
  "\<exists>r. fit_into_range civil (day_timespan civil) sample_chart (Some (of_day 2)) (Some (of_day 3)) FillPrevious = Some r
    \<and> sorted_points (day_timespan civil) r
    \<and> chart_value (day_timespan civil) FillPrevious 0 r (of_day 3) = 10"
proof -
  have "ord_key (day_timespan civil) (of_day 2) \<le> ord_key (day_timespan civil) (of_day 3)"
    "ord_key (day_timespan civil) (of_day 3) < ord_key (day_timespan civil) (ts_max (day_timespan civil))"
    by (simp_all add: sample_eval)
  from fit_into_range_keeps_chart[OF civil.day_discrete sample_chart_sorted this,
      of civil FillPrevious 0]
  obtain r where "fit_into_range civil (day_timespan civil) sample_chart (Some (of_day 2)) (Some (of_day 3)) FillPrevious = Some r"
    "sorted_points (day_timespan civil) r"
    "chart_value (day_timespan civil) FillPrevious 0 r (of_day 3)
       = chart_value (day_timespan civil) FillPrevious 0 sample_chart (of_day 3)"
    by (auto simp: sample_eval)
  moreover have "chart_value (day_timespan civil) FillPrevious 0 sample_chart (of_day 3) = 10"
    by (simp add: sample_eval chart_value_def last_value_def)
  ultimately show ?thesis by auto
qed

text \<open>the ends are not validated. If they are the wrong way round and the stored data has
  a point strictly between them, fitting panics (the \<open>drain\<close> of an inverted range).\<close>

theorem fit_into_inverted_range_panics:
  assumes "discrete_timespan T" "sorted_points T data" "p \<in> set data"
    "ord_key T b < point_key T p" "point_key T p < ord_key T a"
  shows "fit_into_range C T data (Some a) (Some b) FillZero = None"
  by (rule discrete_timespan.fit_into_range_panics[OF assms])

theorem fit_into_inverted_range_panics_witness:
  "fit_into_range civil (day_timespan civil) sample_chart (Some (of_day 5)) (Some (of_day 2)) FillZero = None"
  by (rule fit_into_inverted_range_panics[OF civil.day_discrete sample_chart_sorted,
        where p = "\<lparr>timespan = of_day 4, tv_value = 40\<rparr>"])
    (simp_all add: sample_eval)



text \<open>the filling loops do not return when the range reaches the last timespan of the
  type, because advancing saturates there and the loop condition stays true.\<close>

theorem filling_to_the_last_timespan_diverges:
  assumes "discrete_timespan T" "ord_key T to = ord_key T (ts_max T)"
  shows "filled_zeros_data T zero data from to = None \<and> filled_previous_data T zero data from to = None"
  by (simp add: filled_zeros_data_def filled_previous_data_def
      discrete_timespan.filled_zeros_loop_diverges[OF assms]
      discrete_timespan.filled_previous_loop_diverges[OF assms])

theorem filling_to_the_last_timespan_diverges_witness:
  "filled_zeros_data (day_timespan civil) 0 sample_chart (of_day 1) (NaiveDate_MAX civil) = None
    \<and> filled_previous_data (day_timespan civil) 0 sample_chart (of_day 1) (NaiveDate_MAX civil) = None"
  by (rule filling_to_the_last_timespan_diverges[OF civil.day_discrete])
    (simp add: day_timespan_def)

text \<open>with a limit on the number of points, a range whose approximate length exceeds it is
  refused with that limit, whatever the data and the policy, and no point is filled.\<close>

theorem too_large_interval_is_refused:
  assumes "opt_min T from (first_timespan data) = Some f" "opt_max T to (last_timespan data) = Some t"
    and "ord_key T f \<le> ord_key T t" "diff t f = Some n" "p < n"
  shows "fill_and_filter_chart T diff zero data from to policy (Some (Points p))
    = Some (Err (ReadIntervalTooLarge p))"
  using assms
  by (simp add: fill_and_filter_chart_def fill_missing_points_def approx_limit_def fits_in_limit_def)

theorem too_large_interval_is_refused_witness:
  "fill_and_filter_chart (day_timespan civil) (\<lambda>a b. Some (nat (day_no a - day_no b))) 0 sample_chart
      None (Some (of_day 200)) FillZero (Some (Points 100))
    = Some (Err (ReadIntervalTooLarge 100))"
  by (rule too_large_interval_is_refused[where n = 199 and f = "of_day 1" and t = "of_day 200"])
    (simp_all add: sample_eval first_timespan_def last_timespan_def)

end
