(* ===== verification/Stats_Range.thy ===== *)
theory Stats_Range
  imports Stats_Data
begin

text \<open>
  Ranges with optional bounds (\<^verbatim>\<open>stats/stats/src/range.rs\<close>): their construction, the
  conversions between inclusive and exclusive ends and the conversion to the range of a
  database statement. \<open>universal_set\<close> is the set of elements of a range; the conversions are
  shown to keep it. The traits \<open>Incrementable\<close> and \<open>Decrementable\<close> are a record of methods,
  and the locale \<open>steppable\<close> states that they move to the neighbouring element.
\<close>

section \<open>Steps\<close>

record 'a step_ops =
  saturating_inc :: "'a \<Rightarrow> 'a"
  checked_inc :: "'a \<Rightarrow> 'a option"
  saturating_dec :: "'a \<Rightarrow> 'a"
  checked_dec :: "'a \<Rightarrow> 'a option"

definition timespan_steps :: "('d, 's, 'k, 't) timespan_impl \<Rightarrow> 't step_ops" where
  "timespan_steps T = \<lparr>
     saturating_inc = saturating_next_timespan T,
     checked_inc = (\<lambda>t. checked_add T t 1),
     saturating_dec = saturating_previous_timespan T,
     checked_dec = (\<lambda>t. checked_sub T t 1)\<rparr>"

definition datetime_steps :: "('d, 's) chrono \<Rightarrow> 's step_ops" where
  "datetime_steps C = \<lparr>
     saturating_inc = (\<lambda>s. case add_nanosecond C s of Some t \<Rightarrow> t | None \<Rightarrow> MAX_UTC C),
     checked_inc = add_nanosecond C,
     saturating_dec = (\<lambda>s. case sub_nanosecond C s of Some t \<Rightarrow> t | None \<Rightarrow> MIN_UTC C),
     checked_dec = sub_nanosecond C\<rparr>"

section \<open>Conversions between inclusive and exclusive ranges\<close>

definition exclusive_range_to_inclusive :: "'a step_ops \<Rightarrow> 'a range \<Rightarrow> 'a range_inclusive" where
  "exclusive_range_to_inclusive S r =
     (case checked_dec S (range_end r) of
        Some new_end \<Rightarrow> RangeInclusive (range_start r) new_end
      | None \<Rightarrow>
          RangeInclusive
            (if checked_dec S (range_start r) = None then saturating_inc S (range_start r)
             else range_start r)
            (range_end r))"

definition inclusive_range_to_exclusive :: "'a step_ops \<Rightarrow> 'a range_inclusive \<Rightarrow> 'a range" where
  "inclusive_range_to_exclusive S r = Range (incl_start r) (saturating_inc S (incl_end r))"

section \<open>Ranges with optional bounds\<close>

record 'a universal_range =
  ur_start :: "'a option"
  ur_end :: "'a bound"

definition full_range :: "'a universal_range" where
  "full_range = \<lparr>ur_start = None, ur_end = Unbounded\<rparr>"

definition with_replaced_unbounded :: "'a universal_range \<Rightarrow> 'a range \<Rightarrow> 'a universal_range" where
  "with_replaced_unbounded r source =
     \<lparr>ur_start = (case ur_start r of Some s \<Rightarrow> Some s | None \<Rightarrow> Some (range_start source)),
      ur_end = (case ur_end r of Unbounded \<Rightarrow> Excluded (range_end source) | e \<Rightarrow> e)\<rparr>"

primrec map_bound :: "('a \<Rightarrow> 'b) \<Rightarrow> 'a bound \<Rightarrow> 'b bound" where
  "map_bound f (Included e) = Included (f e)"
| "map_bound f (Excluded e) = Excluded (f e)"
| "map_bound f Unbounded = Unbounded"

definition map_range :: "('a \<Rightarrow> 'b) \<Rightarrow> 'a universal_range \<Rightarrow> 'b universal_range" where
  "map_range f r = \<lparr>ur_start = map_option f (ur_start r), ur_end = map_bound f (ur_end r)\<rparr>"

definition universal_of_range :: "'a range \<Rightarrow> 'a universal_range" where
  "universal_of_range r = \<lparr>ur_start = Some (range_start r), ur_end = Excluded (range_end r)\<rparr>"

definition universal_of_option_range :: "'a option range \<Rightarrow> 'a universal_range" where
  "universal_of_option_range r =
     \<lparr>ur_start = range_start r,
      ur_end = (case range_end r of Some e \<Rightarrow> Excluded e | None \<Rightarrow> Unbounded)\<rparr>"

definition universal_of_inclusive :: "'a range_inclusive \<Rightarrow> 'a universal_range" where
  "universal_of_inclusive r = \<lparr>ur_start = Some (incl_start r), ur_end = Included (incl_end r)\<rparr>"

definition universal_of_option_inclusive :: "'a option range_inclusive \<Rightarrow> 'a universal_range" where
  "universal_of_option_inclusive r =
     \<lparr>ur_start = incl_start r,
      ur_end = (case incl_end r of Some e \<Rightarrow> Included e | None \<Rightarrow> Unbounded)\<rparr>"

definition into_exclusive_inner ::
  "'a step_ops \<Rightarrow> 'a universal_range \<Rightarrow> 'a range option \<Rightarrow> 'a range option" where
  "into_exclusive_inner S r backup =
     (case (case ur_start r of Some s \<Rightarrow> Some s | None \<Rightarrow> map_option range_start backup) of
        None \<Rightarrow> None
      | Some start \<Rightarrow>
          (case ur_end r of
             Included e \<Rightarrow> Some (inclusive_range_to_exclusive S (RangeInclusive start e))
           | Excluded e \<Rightarrow> Some (Range start e)
           | Unbounded \<Rightarrow> map_option (\<lambda>b. Range start (range_end b)) backup))"

definition try_into_exclusive :: "'a step_ops \<Rightarrow> 'a universal_range \<Rightarrow> 'a range option" where
  "try_into_exclusive S r = into_exclusive_inner S r None"

text \<open>The \<open>expect\<close> of the source panics on \<open>None\<close>.\<close>

definition into_exclusive_with_backup :: "'a step_ops \<Rightarrow> 'a universal_range \<Rightarrow> 'a range \<Rightarrow> 'a range option" where
  "into_exclusive_with_backup S r backup = into_exclusive_inner S r (Some backup)"

definition into_inclusive_inner ::
  "'a step_ops \<Rightarrow> 'a universal_range \<Rightarrow> 'a range_inclusive option \<Rightarrow> 'a range_inclusive option" where
  "into_inclusive_inner S r backup =
     (case (case ur_start r of Some s \<Rightarrow> Some s | None \<Rightarrow> map_option incl_start backup) of
        None \<Rightarrow> None
      | Some start \<Rightarrow>
          (case ur_end r of
             Included e \<Rightarrow> Some (RangeInclusive start e)
           | Excluded e \<Rightarrow> Some (exclusive_range_to_inclusive S (Range start e))
           | Unbounded \<Rightarrow> map_option (\<lambda>b. RangeInclusive start (incl_end b)) backup))"

definition try_into_inclusive :: "'a step_ops \<Rightarrow> 'a universal_range \<Rightarrow> 'a range_inclusive option" where
  "try_into_inclusive S r = into_inclusive_inner S r None"

definition into_inclusive_with_backup ::
  "'a step_ops \<Rightarrow> 'a universal_range \<Rightarrow> 'a range_inclusive \<Rightarrow> 'a range_inclusive option" where
  "into_inclusive_with_backup S r backup = into_inclusive_inner S r (Some backup)"

definition into_inclusive_pair :: "'a step_ops \<Rightarrow> 'a universal_range \<Rightarrow> 'a option \<times> 'a option" where
  "into_inclusive_pair S r =
     (case (ur_start r, ur_end r) of
        (start, Unbounded) \<Rightarrow> (start, None)
      | (start, Included e) \<Rightarrow> (start, Some e)
      | (None, Excluded e) \<Rightarrow> (None, Some (saturating_dec S e))
      | (Some s, Excluded e) \<Rightarrow>
          (let i = exclusive_range_to_inclusive S (Range s e)
           in (Some (incl_start i), Some (incl_end i))))"

text \<open>
  \<open>whole_range\<close> is the result of \<open>AllRangeSource::query_data\<close>, a query on the remote database.
  The outer \<open>option\<close> is the panic of \<open>into_exclusive_with_backup\<close>.
\<close>

definition data_source_query_range_to_db_statement_range ::
  "('d, 's) chrono \<Rightarrow> ('db chart_error, 's range) result \<Rightarrow> 's universal_range
     \<Rightarrow> ('db chart_error, 's range option) result option" where
  "data_source_query_range_to_db_statement_range C whole_range r =
     (case try_into_exclusive (datetime_steps C) r of
        Some x \<Rightarrow> Some (Ok (Some x))
      | None \<Rightarrow>
          if ur_start r = None \<and> ur_end r = Unbounded then Some (Ok None)
          else (case whole_range of
                  Inl e \<Rightarrow> Some (Err e)
                | Inr w \<Rightarrow> map_option (\<lambda>x. Ok (Some x))
                             (into_exclusive_with_backup (datetime_steps C) r w)))"

section \<open>Elements\<close>

definition universal_set :: "'a::linorder universal_range \<Rightarrow> 'a set" where
  "universal_set r =
     {x. (case ur_start r of Some s \<Rightarrow> s \<le> x | None \<Rightarrow> True) \<and> bound_above (ur_end r) x}"

definition pair_set :: "'a::linorder option \<times> 'a option \<Rightarrow> 'a set" where
  "pair_set p =
     {x. (case fst p of Some s \<Rightarrow> s \<le> x | None \<Rightarrow> True)
       \<and> (case snd p of Some e \<Rightarrow> x \<le> e | None \<Rightarrow> True)}"

locale steppable =
  fixes S :: "'a::linorder step_ops"
  assumes inc_Some: "checked_inc S x = Some y \<Longrightarrow> x < y \<and> (\<forall>z. x < z \<longrightarrow> y \<le> z)"
    and inc_None: "checked_inc S x = None \<Longrightarrow> z \<le> x"
    and dec_Some: "checked_dec S x = Some y \<Longrightarrow> y < x \<and> (\<forall>z. z < x \<longrightarrow> z \<le> y)"
    and dec_None: "checked_dec S x = None \<Longrightarrow> x \<le> z"
    and sat_inc: "saturating_inc S x = (case checked_inc S x of Some y \<Rightarrow> y | None \<Rightarrow> x)"
    and sat_dec: "saturating_dec S x = (case checked_dec S x of Some y \<Rightarrow> y | None \<Rightarrow> x)"
begin

lemma dec_le_iff: "checked_dec S e = Some d \<Longrightarrow> x \<le> d \<longleftrightarrow> x < e"
  using dec_Some by (meson order_le_less_trans)

lemma inc_less_iff: "checked_inc S e = Some i \<Longrightarrow> x < i \<longleftrightarrow> x \<le> e"
  using inc_Some by (meson leD leI order_le_less_trans)

lemma exclusive_to_inclusive_set:
  assumes "\<exists>x y :: 'a. x \<noteq> y"
  shows "incl_set (exclusive_range_to_inclusive S r) = range_set r"
proof (cases "checked_dec S (range_end r)")
  case (Some d)
  then show ?thesis
    by (auto simp: exclusive_range_to_inclusive_def incl_set_def range_set_def dec_le_iff)
next
  case None
  then have least: "range_end r \<le> z" for z by (rule dec_None)
  have "range_set r = {}" using least by (auto simp: range_set_def dest: leD)
  moreover have "incl_set (exclusive_range_to_inclusive S r) = {}"
  proof (cases "checked_dec S (range_start r)")
    case None
    then have start: "range_start r = range_end r"
      using least dec_None by (simp add: order_antisym)
    from assms obtain z where "z \<noteq> range_end r" by metis
    with least[of z] have z: "range_end r < z" by (auto simp: le_less)
    obtain i where i: "checked_inc S (range_start r) = Some i"
      using inc_None[of "range_start r" z] z start by (cases "checked_inc S (range_start r)") auto
    then have "range_end r < i" using inc_Some start by fastforce
    then show ?thesis
      using None \<open>checked_dec S (range_end r) = None\<close> i
      by (simp add: exclusive_range_to_inclusive_def incl_set_def sat_inc)
  next
    case (Some d)
    then have "range_end r < range_start r" using least[of d] dec_Some by (meson order_le_less_trans)
    then show ?thesis
      using Some \<open>checked_dec S (range_end r) = None\<close>
      by (simp add: exclusive_range_to_inclusive_def incl_set_def)
  qed
  ultimately show ?thesis by simp
qed

lemma inclusive_to_exclusive_set:
  "range_set (inclusive_range_to_exclusive S r) =
     {x \<in> incl_set r. checked_inc S (incl_end r) = None \<longrightarrow> x \<noteq> incl_end r}"
  by (cases "checked_inc S (incl_end r)")
    (auto simp: inclusive_range_to_exclusive_def range_set_def incl_set_def sat_inc inc_less_iff)

lemma inclusive_pair_set:
  assumes "\<exists>x y :: 'a. x \<noteq> y"
    and dec: "\<And>e. ur_start r = None \<Longrightarrow> ur_end r = Excluded e \<Longrightarrow> checked_dec S e \<noteq> None"
  shows "pair_set (into_inclusive_pair S r) = universal_set r"
proof (cases "ur_end r")
  case (Excluded e)
  show ?thesis
  proof (cases "ur_start r")
    case None
    from dec[OF this Excluded] obtain d where d: "checked_dec S e = Some d" by auto
    with None Excluded show ?thesis
      by (auto simp: into_inclusive_pair_def pair_set_def universal_set_def sat_dec dec_le_iff)
  next
    case (Some s)
    then show ?thesis
      using Excluded exclusive_to_inclusive_set[OF assms(1), of "Range s e"]
      by (auto simp: into_inclusive_pair_def pair_set_def universal_set_def incl_set_def
          range_set_def Let_def)
  qed
qed (auto simp: into_inclusive_pair_def pair_set_def universal_set_def split: option.splits)

text \<open>
  Restricting a range to the whole domain of the data: the exclusive range used in a
  statement has the elements of the requested one that the domain does not cut off.
\<close>

lemma exclusive_with_backup_set:
  assumes "into_exclusive_with_backup S r w = Some x"
    and "\<And>e. ur_end r = Included e \<Longrightarrow> checked_inc S e \<noteq> None"
  shows "range_set x = universal_set (with_replaced_unbounded r w)"
proof (cases "ur_end r")
  case (Included e)
  with assms(2) obtain i where "checked_inc S e = Some i" by blast
  with assms(1) Included show ?thesis
    by (cases "ur_start r") (auto simp: into_exclusive_with_backup_def into_exclusive_inner_def
        universal_set_def with_replaced_unbounded_def inclusive_range_to_exclusive_def range_set_def
        sat_inc inc_less_iff)
qed (use assms(1) in \<open>cases "ur_start r"; auto simp: into_exclusive_with_backup_def
    into_exclusive_inner_def universal_set_def with_replaced_unbounded_def range_set_def\<close>)+

end

lemma with_backup_total: "\<exists>x. into_exclusive_with_backup S r w = Some x"
  by (cases "ur_start r"; cases "ur_end r")
    (auto simp: into_exclusive_with_backup_def into_exclusive_inner_def)

lemma inclusive_with_backup_total: "\<exists>x. into_inclusive_with_backup S r w = Some x"
  by (cases "ur_start r"; cases "ur_end r")
    (auto simp: into_inclusive_with_backup_def into_inclusive_inner_def)

section \<open>Timestamps and dates move in steps\<close>

context chrono_days
begin

lemma datetime_steppable: "steppable (datetime_steps C)"
proof
  fix x y z :: 's
  show "x < y \<and> (\<forall>z. x < z \<longrightarrow> y \<le> z)" if "checked_inc (datetime_steps C) x = Some y"
    using that add_ns_Some by (simp add: datetime_steps_def)
  show "z \<le> x" if "checked_inc (datetime_steps C) x = None"
    using that add_ns_None time_max by (simp add: datetime_steps_def)
  show "y < x \<and> (\<forall>z. z < x \<longrightarrow> z \<le> y)" if "checked_dec (datetime_steps C) x = Some y"
    using that sub_ns_Some by (simp add: datetime_steps_def)
  show "x \<le> z" if "checked_dec (datetime_steps C) x = None"
    using that sub_ns_None time_min by (simp add: datetime_steps_def)
  show "saturating_inc (datetime_steps C) x =
      (case checked_inc (datetime_steps C) x of Some y \<Rightarrow> y | None \<Rightarrow> x)"
    using add_ns_None[of x] by (auto simp: datetime_steps_def split: option.splits)
  show "saturating_dec (datetime_steps C) x =
      (case checked_dec (datetime_steps C) x of Some y \<Rightarrow> y | None \<Rightarrow> x)"
    using sub_ns_None[of x] by (auto simp: datetime_steps_def split: option.splits)
qed

lemma day_steppable: "steppable (timespan_steps (day_timespan C))"
proof
  fix x y z :: 'd
  let ?S = "timespan_steps (day_timespan C)"
  have inc: "checked_inc ?S = (\<lambda>d. checked_add_days C d 1)"
    and dec: "checked_dec ?S = (\<lambda>d. checked_sub_days C d 1)"
    by (simp_all add: timespan_steps_def day_timespan_def)
  have inc_max: "x = NaiveDate_MAX C" if "checked_add_days C x 1 = None" for x
    using that add_one_day_Some[of x] by fastforce
  have dec_min: "x = NaiveDate_MIN C" if "checked_sub_days C x 1 = None" for x
  proof -
    have "num_days_from_ce C x \<le> num_days_from_ce C (NaiveDate_MIN C)"
      using that sub_days_None[of x 1] by simp
    then show ?thesis using date_min[of x] num_le by (meson order_antisym)
  qed
  show "x < y \<and> (\<forall>z. x < z \<longrightarrow> y \<le> z)" if "checked_inc ?S x = Some y"
    using that add_days[of x 1 y] by (simp add: inc num_less[symmetric] num_le[symmetric])
  show "z \<le> x" if "checked_inc ?S x = None" using that inc inc_max date_max by metis
  show "y < x \<and> (\<forall>z. z < x \<longrightarrow> z \<le> y)" if "checked_dec ?S x = Some y"
    using that sub_days[of x 1 y] by (simp add: dec num_less[symmetric] num_le[symmetric])
  show "x \<le> z" if "checked_dec ?S x = None" using that dec dec_min date_min by metis
  show "saturating_inc ?S x = (case checked_inc ?S x of Some y \<Rightarrow> y | None \<Rightarrow> x)"
    using inc_max[of x]
    by (auto simp: timespan_steps_def day_timespan_def split: option.splits)
  show "saturating_dec ?S x = (case checked_dec ?S x of Some y \<Rightarrow> y | None \<Rightarrow> x)"
    using dec_min[of x]
    by (auto simp: timespan_steps_def day_timespan_def split: option.splits)
qed

end

interpretation civil_time_steps: steppable "datetime_steps civil"
  by (rule civil.datetime_steppable)

interpretation civil_day_steps: steppable "timespan_steps (day_timespan civil)"
  by (rule civil.day_steppable)

section \<open>What the conversions promise\<close>

text \<open>an exclusive range of timestamps or of dates and the inclusive range it is converted
  to have the same elements; in particular an empty range that ends at the minimum stays
  empty.\<close>

theorem exclusive_to_inclusive_same:
  assumes "chrono_days C"
  shows "incl_set (exclusive_range_to_inclusive (datetime_steps C) r) = range_set r
    \<and> incl_set (exclusive_range_to_inclusive (timespan_steps (day_timespan C)) q) = range_set q"
  using steppable.exclusive_to_inclusive_set[OF chrono_days.datetime_steppable[OF assms]
      chrono_days.two_times[OF assms]]
    steppable.exclusive_to_inclusive_set[OF chrono_days.day_steppable[OF assms]
      chrono_days.two_dates[OF assms]]
  by blast

theorem exclusive_to_inclusive_same_witness:
  "chrono_days civil
    \<and> incl_set (exclusive_range_to_inclusive (datetime_steps civil) (Range (MIN_UTC civil) (MIN_UTC civil)))
        = range_set (Range (MIN_UTC civil) (MIN_UTC civil))
    \<and> incl_set (exclusive_range_to_inclusive (timespan_steps (day_timespan civil)) (Range (of_day 1) (of_day 4)))
        = range_set (Range (of_day 1) (of_day 4))"
  using exclusive_to_inclusive_same[OF civil.chrono_days_axioms] civil.chrono_days_axioms by blast

text \<open>the pair of optional inclusive ends into which a range of timestamps is converted
  for a read contains exactly the elements of the range. The one exception is an unbounded
  start with the minimal timestamp as excluded end: the range is empty and the pair
  contains that timestamp.\<close>

theorem into_inclusive_pair_same:
  assumes "chrono_days C"
  shows "pair_set (into_inclusive_pair (datetime_steps C) r) =
    (if ur_start r = None \<and> ur_end r = Excluded (MIN_UTC C) then {MIN_UTC C} else universal_set r)"
proof (cases "ur_start r = None \<and> ur_end r = Excluded (MIN_UTC C)")
  case True
  have "sub_nanosecond C (MIN_UTC C) = None" using chrono_days.sub_ns_None[OF assms] by blast
  moreover have "{x. x \<le> MIN_UTC C} = {MIN_UTC C}"
    using chrono_days.time_min[OF assms] by (auto intro: order_antisym)
  ultimately show ?thesis
    using True by (simp add: into_inclusive_pair_def pair_set_def datetime_steps_def)
next
  case False
  have "checked_dec (datetime_steps C) e \<noteq> None" if "ur_start r = None" "ur_end r = Excluded e" for e
    using False that chrono_days.sub_ns_None[OF assms, of e] by (auto simp: datetime_steps_def)
  with False steppable.inclusive_pair_set[OF chrono_days.datetime_steppable[OF assms]
      chrono_days.two_times[OF assms], of r]
  show ?thesis by auto
qed

theorem into_inclusive_pair_same_witness:
  "chrono_days civil
    \<and> pair_set (into_inclusive_pair (datetime_steps civil) \<lparr>ur_start = None, ur_end = Excluded (MIN_UTC civil)\<rparr>)
        = {MIN_UTC civil}
    \<and> pair_set (into_inclusive_pair (datetime_steps civil) full_range) = universal_set full_range"
  using into_inclusive_pair_same[OF civil.chrono_days_axioms, of full_range]
    into_inclusive_pair_same[OF civil.chrono_days_axioms,
      of "\<lparr>ur_start = None, ur_end = Excluded (MIN_UTC civil)\<rparr>"] civil.chrono_days_axioms
  by (simp add: full_range_def)

text \<open>the range bound to a database statement. When the query for the whole domain
  succeeds the conversion never panics and never fails; it leaves the statement without a
  range exactly for the unbounded request, and otherwise the exclusive range has exactly the
  elements of the request with its missing ends replaced by those of the domain.\<close>

theorem db_statement_range_exact:
  fixes whole :: "('db chart_error, 's::linorder range) result"
  assumes "chrono_days C" and w: "whole = Ok w" and mx: "ur_end r \<noteq> Included (MAX_UTC C)"
  shows "\<exists>x. data_source_query_range_to_db_statement_range C whole r = Some (Ok x)
    \<and> (x = None \<longleftrightarrow> ur_start r = None \<and> ur_end r = Unbounded)
    \<and> (\<forall>y. x = Some y \<longrightarrow> range_set y = universal_set (with_replaced_unbounded r w))"
proof -
  let ?S = "datetime_steps C"
  have inc: "checked_inc ?S e \<noteq> None" if "ur_end r = Included e" for e
    using that mx chrono_days.add_ns_None[OF assms(1), of e] by (auto simp: datetime_steps_def)
  obtain y where y: "into_exclusive_with_backup ?S r w = Some y" using with_backup_total by blast
  have set: "range_set y = universal_set (with_replaced_unbounded r w)"
    by (rule steppable.exclusive_with_backup_set[OF chrono_days.datetime_steppable[OF assms(1)] y inc])
  have "try_into_exclusive ?S r = None \<or> try_into_exclusive ?S r = Some y"
    using y by (auto simp: try_into_exclusive_def into_exclusive_with_backup_def
        into_exclusive_inner_def split: option.splits bound.splits)
  moreover have "try_into_exclusive ?S r = None"
    if "ur_start r = None" "ur_end r = Unbounded"
    using that by (simp add: try_into_exclusive_def into_exclusive_inner_def)
  ultimately show ?thesis
    using y w set
    by (cases "ur_start r = None \<and> ur_end r = Unbounded")
      (auto simp: data_source_query_range_to_db_statement_range_def)
qed

theorem db_statement_range_exact_witness:
  defines "r \<equiv> \<lparr>ur_start = None, ur_end = Included (of_ns 10)\<rparr> :: civil_time universal_range"
    and "w \<equiv> Range (of_ns 0) (of_ns 100)"
  shows "chrono_days civil \<and> ur_end r \<noteq> Included (MAX_UTC civil)
    \<and> (\<exists>x. data_source_query_range_to_db_statement_range civil (Ok w :: (unit chart_error, _) result) r = Some (Ok x)
      \<and> (x = None \<longleftrightarrow> ur_start r = None \<and> ur_end r = Unbounded)
      \<and> (\<forall>y. x = Some y \<longrightarrow> range_set y = universal_set (with_replaced_unbounded r w)))"
proof -
  have "ur_end r \<noteq> Included (MAX_UTC civil)"
    by (simp add: r_def civil_eval)
  with db_statement_range_exact[OF civil.chrono_days_axioms refl, of r w] civil.chrono_days_axioms
  show ?thesis by blast
qed

end
