(* ===== verification/Stats_Read.thy ===== *)
theory Stats_Read
  imports Stats_Missing Stats_Range
begin

text \<open>
  Reading a chart from the local database
  (\<^verbatim>\<open>stats/stats/src/charts/db_interaction/read/local_db.rs\<close>, the query behaviour of
  \<^verbatim>\<open>data_source/kinds/local_db/parameters/query.rs\<close> and the request range of
  \<^verbatim>\<open>stats-server/src/read_service.rs\<close>).

  The SQL queries are parameters, collected in the record \<open>stats_db\<close>: each field is one query
  of the source with the values bound to it. Everything the code does with the rows is
  modelled. Values of points are strings, and a missing value is \<open>''0''\<close>.
\<close>

section \<open>Queries\<close>

record 's chart_row =
  row_id :: int
  row_name :: string
  row_last_updated_at :: "'s option"

record ('d, 's, 'db) stats_db =
  find_chart_row :: "string \<Rightarrow> resolution_kind \<Rightarrow> ('db, 's chart_row option) result"
  chart_points :: "int \<Rightarrow> 'd option \<Rightarrow> 'd option \<Rightarrow> ('db, ('d, string) timespan_value list) result"
  latest_counter_point :: "string \<Rightarrow> 'd \<Rightarrow> ('db, ('d, string) timespan_value option) result"
  latest_min_block :: "int \<Rightarrow> ('db, int option option) result"

definition zero_string :: string where "zero_string = ''0''"

section \<open>Marking approximate points\<close>

definition mark_approximate ::
  "('d, 's, 'k::linorder, 't) timespan_impl \<Rightarrow> ('t, 'v) timespan_value list \<Rightarrow> 't \<Rightarrow> nat
     \<Rightarrow> ('t, 'v) extended_timespan_value list" where
  "mark_approximate T data last_updated_at approximate_until_updated =
     (let next_after_updated_at = saturating_next_timespan T last_updated_at;
          mark_from_timespan = saturating_sub T next_after_updated_at approximate_until_updated
      in map (\<lambda>dv. from_date_value dv (ord_key T mark_from_timespan \<le> ord_key T (timespan dv))) data)"

definition relevant_data_until ::
  "('d, 's) chrono \<Rightarrow> ('d, 's, 'k, 't) timespan_impl \<Rightarrow> 's option \<Rightarrow> 't option \<times> bool" where
  "relevant_data_until C T last_updated_at =
     (case last_updated_at of
        Some t \<Rightarrow>
          (let border = (saturating_start_timestamp T (from_date T (date_naive C t)) = t);
               inclusive_end = exclusive_range_to_inclusive (datetime_steps C) (Range (MIN_UTC C) t)
           in (Some (from_date T (date_naive C (incl_end inclusive_end))), border))
      | None \<Rightarrow> (None, False))"

section \<open>Line charts\<close>

definition get_raw_line_chart_data ::
  "('d, 's, 'k, 't) timespan_impl \<Rightarrow> ('d, 's, 'db) stats_db \<Rightarrow> int \<Rightarrow> 't option \<Rightarrow> 't option
     \<Rightarrow> ('db, ('t, string) timespan_value list) result" where
  "get_raw_line_chart_data T db chart_id from to =
     try_bind (chart_points db chart_id (map_option (into_date T) from) (map_option (into_date T) to))
       (\<lambda>data. Ok (map (\<lambda>p. \<lparr>timespan = from_date T (timespan p), tv_value = tv_value p\<rparr>) data))"

definition relevant_to ::
  "('d, 's, 'k::linorder, 't) timespan_impl \<Rightarrow> 't option \<Rightarrow> 't option \<Rightarrow> 't option" where
  "relevant_to T to relevant_until =
     (case (to, relevant_until) of
        (Some t, Some r) \<Rightarrow> Some (if ord_key T r < ord_key T t then r else t)
      | (None, Some r) \<Rightarrow> Some r
      | (_, None) \<Rightarrow> None)"

definition get_line_chart_data ::
  "('d, 's) chrono \<Rightarrow> ('d, 's, 'k::linorder, 't) timespan_impl \<Rightarrow> ('t \<Rightarrow> 't \<Rightarrow> nat option)
     \<Rightarrow> ('d, 's, 'db) stats_db \<Rightarrow> string \<Rightarrow> 't option \<Rightarrow> 't option \<Rightarrow> requested_points_limit option
     \<Rightarrow> missing_date_policy \<Rightarrow> bool \<Rightarrow> nat
     \<Rightarrow> ('db read_error, ('t, string) extended_timespan_value list) result option" where
  "get_line_chart_data C T diff db chart_name from to point_limit policy fill_missing_dates
     approximate_trailing_points =
     (case find_chart_row db chart_name (enum_variant T) of
        Inl e \<Rightarrow> Some (Err (ReadDB e))
      | Inr None \<Rightarrow>
          Some (Err (ReadChartNotFound \<lparr>ck_name = chart_name, ck_resolution = enum_variant T\<rparr>))
      | Inr (Some chart) \<Rightarrow>
          (case get_raw_line_chart_data T db (row_id chart) from to of
             Inl e \<Rightarrow> Some (Err (ReadDB e))
           | Inr db_data \<Rightarrow>
               (let (relevant_until, decrement_approx_points) =
                      relevant_data_until C T (row_last_updated_at chart);
                    to = relevant_to T to relevant_until;
                    approx = (if decrement_approx_points then approximate_trailing_points - 1
                              else approximate_trailing_points);
                    until = (case relevant_until of Some r \<Rightarrow> r
                             | None \<Rightarrow> from_date T (NaiveDate_MAX C))
                in case fit_into_range C T db_data from to policy of
                     None \<Rightarrow> None
                   | Some data_in_range \<Rightarrow>
                       map_option (\<lambda>r. try_bind r (\<lambda>data. Ok (mark_approximate T data until approx)))
                         (if fill_missing_dates
                          then fill_and_filter_chart T diff zero_string data_in_range from to policy
                                 point_limit
                          else Some (Ok data_in_range)))))"

section \<open>Counters\<close>

definition get_counter_data ::
  "('d::linorder, 's) chrono \<Rightarrow> ('d, 's, 'db) stats_db \<Rightarrow> 'd \<Rightarrow> string \<Rightarrow> 'd option \<Rightarrow> missing_date_policy
     \<Rightarrow> ('db read_error, ('d, string) timespan_value option) result" where
  "get_counter_data C db today name date policy =
     (let current_date = (case date of Some d \<Rightarrow> d | None \<Rightarrow> today)
      in case latest_counter_point db name current_date of
           Inl e \<Rightarrow> Err (ReadDB e)
         | Inr raw_data \<Rightarrow>
             Ok (map_option
               (\<lambda>p. if policy = FillZero
                    then relevant_or_zero (day_timespan C) zero_string p current_date
                    else p\<lparr>timespan := current_date\<rparr>) raw_data))"

section \<open>The last point that needs no recomputation\<close>

datatype chart_type = Counter | Line

definition get_chart_metadata ::
  "('d, 's, 'db) stats_db \<Rightarrow> chart_key \<Rightarrow> ('db read_error, 's chart_row) result" where
  "get_chart_metadata db key =
     (case find_chart_row db (ck_name key) (ck_resolution key) of
        Inl e \<Rightarrow> Err (ReadDB e)
      | Inr None \<Rightarrow> Err (ReadChartNotFound key)
      | Inr (Some chart) \<Rightarrow> Ok chart)"

fun find_accurate :: "('t, 'v) extended_timespan_value list \<Rightarrow> ('t, 'v) timespan_value option" where
  "find_accurate [] = None"
| "find_accurate (p # ps) = (if is_approximate p then find_accurate ps else Some (into_timespan_value p))"

definition no_accurate_data :: string where
  "no_accurate_data = ''Failure while reading chart data: did not return accurate data (with `fill_missing_dates`=true)''"

definition last_accurate_point ::
  "('d::linorder, 's) chrono \<Rightarrow> ('d, 's, 'k::linorder, 't) timespan_impl \<Rightarrow> ('t \<Rightarrow> 't \<Rightarrow> nat option)
     \<Rightarrow> ('d, 's, 'db) stats_db \<Rightarrow> 'd \<Rightarrow> string \<Rightarrow> chart_type \<Rightarrow> int \<Rightarrow> int \<Rightarrow> bool \<Rightarrow> nat
     \<Rightarrow> missing_date_policy \<Rightarrow> ('db chart_error, ('t, string) timespan_value option) result option" where
  "last_accurate_point C T diff db today name ctype chart_id min_blockscout_block force_full
     approximate_trailing_points policy =
     (if force_full then Some (Ok None)
      else case latest_min_block db chart_id of
        Inl e \<Rightarrow> Some (Err (StatsDB e))
      | Inr None \<Rightarrow> Some (Ok None)
      | Inr (Some None) \<Rightarrow> Some (Ok None)
      | Inr (Some (Some recorded)) \<Rightarrow>
          if recorded \<noteq> min_blockscout_block then Some (Ok None)
          else case get_chart_metadata db \<lparr>ck_name = name, ck_resolution = enum_variant T\<rparr> of
            Inl e \<Rightarrow> Some (Err (chart_error_of_read e))
          | Inr metadata \<Rightarrow>
             (case row_last_updated_at metadata of
                None \<Rightarrow> Some (Ok None)
              | Some last_updated_at \<Rightarrow>
                  (let last_updated_timespan = from_date T (date_naive C last_updated_at)
                   in case ctype of
                        Counter \<Rightarrow>
                          Some (case get_counter_data C db today name
                                       (Some (into_date T last_updated_timespan)) policy of
                                  Inl e \<Rightarrow> Err (chart_error_of_read e)
                                | Inr data \<Rightarrow>
                                    Ok (map_option (\<lambda>d. \<lparr>timespan = from_date T (timespan d),
                                                          tv_value = tv_value d\<rparr>) data))
                      | Line \<Rightarrow>
                          map_option (\<lambda>r. case r of
                              Inl e \<Rightarrow> Err (chart_error_of_read e)
                            | Inr data \<Rightarrow>
                                (case find_accurate (rev data) of
                                   None \<Rightarrow> Err (Internal no_accurate_data)
                                 | Some p \<Rightarrow> Ok (Some p)))
                            (get_line_chart_data C T diff db name
                               (Some (saturating_sub T last_updated_timespan approximate_trailing_points))
                               (Some last_updated_timespan) None policy True
                               approximate_trailing_points))))"

section \<open>Requests\<close>

definition inclusive_date_range_to_query_range ::
  "('d, 's) chrono \<Rightarrow> 'd option \<Rightarrow> 'd option \<Rightarrow> 's universal_range" where
  "inclusive_date_range_to_query_range C from to =
     universal_of_option_range (Range (map_option (day_start C) from)
       (map_option (\<lambda>d. day_start C (saturating_next_timespan (day_timespan C) d)) to))"

definition default_query_vec ::
  "('d, 's) chrono \<Rightarrow> ('d, 's, 'k::linorder, 't) timespan_impl \<Rightarrow> ('t \<Rightarrow> 't \<Rightarrow> nat option)
     \<Rightarrow> ('d, 's, 'db) stats_db \<Rightarrow> string \<Rightarrow> missing_date_policy \<Rightarrow> nat \<Rightarrow> 's universal_range
     \<Rightarrow> requested_points_limit option \<Rightarrow> bool
     \<Rightarrow> ('db chart_error, ('t, string) extended_timespan_value list) result option" where
  "default_query_vec C T diff db name policy approximate r points_limit fill_missing_dates =
     (let (start, end) = into_inclusive_pair (datetime_steps C) r
      in map_option (\<lambda>res. case res of Inl e \<Rightarrow> Err (chart_error_of_read e) | Inr v \<Rightarrow> Ok v)
           (get_line_chart_data C T diff db name
              (map_option (\<lambda>s. from_date T (date_naive C s)) start)
              (map_option (\<lambda>e. from_date T (date_naive C e)) end)
              points_limit policy fill_missing_dates approximate))"

section \<open>What a filled read returns\<close>

context discrete_timespan
begin

lemma opt_min_within:
  "\<forall>p \<in> set data. ord_key T a \<le> point_key T p \<Longrightarrow> opt_min T (Some a) (first_timespan data) = Some a"
  by (cases data) (auto simp: first_timespan_def)

lemma opt_max_within:
  assumes "\<forall>p \<in> set data. point_key T p \<le> ord_key T b" "opt_max T (Some b) (last_timespan data) = Some t"
  shows "ord_key T t = ord_key T b"
  using assms last_in_set[of data]
  by (cases "data = []") (auto simp: last_timespan_def split: if_splits intro: order_antisym)

lemma line_chart_filled:
  fixes db :: "('d, 's, 'db) stats_db"
  assumes row: "find_chart_row db name (enum_variant T) = Ok (Some chart)"
    and raw: "get_raw_line_chart_data T db (row_id chart) (Some a) (Some b) = Ok raw"
    and sorted: "sorted_points T raw"
    and until: "relevant_data_until C T (row_last_updated_at chart) = (Some u, border)"
    and t: "t = (if ord_key T u < ord_key T b then u else b)"
    and at: "ord_key T a \<le> ord_key T t" and mx: "ord_key T t < ord_key T (ts_max T)"
    and fits: "\<And>l x. limit = Some l \<Longrightarrow> ord_key T x = ord_key T t \<Longrightarrow> fits_in_limit diff l a x"
  shows "\<exists>data. get_line_chart_data C T diff db name (Some a) (Some b) limit policy True n
      = Some (Ok (mark_approximate T data u (if border then n - 1 else n)))
    \<and> map (key_value T) data = map (\<lambda>k. (k, chart_value T policy zero_string raw k)) (keys_between T a t)"
proof -
  obtain r where fit: "fit_into_range C T raw (Some a) (Some t) policy = Some r"
    and sorted': "sorted_points T r"
    and within: "\<forall>p \<in> set r. ord_key T a \<le> point_key T p \<and> point_key T p \<le> ord_key T t"
    and chart: "\<And>k. ord_key T a \<le> k \<Longrightarrow> k \<le> ord_key T t \<Longrightarrow>
      chart_value T policy zero_string r k = chart_value T policy zero_string raw k"
    using fit_into_range_chart[OF sorted at mx, where policy = policy and zero = zero_string and C = C]
    by blast
  have below: "\<forall>p \<in> set r. point_key T p < ord_key T (ts_max T)" using within mx by auto
  have lim: "fits_in_limit diff l f x"
    if "limit = Some l" "opt_min T (Some a) (first_timespan r) = Some f"
      "opt_max T (Some t) (last_timespan r) = Some x" for l f x
    using that fits opt_min_within[of r a] opt_max_within[of r t x] within by auto
  obtain data where fill: "(fill_and_filter_chart T diff zero_string r (Some a) (Some t) policy limit
      :: ('db read_error, _) result option) = Some (Ok data)"
    and kv: "map (key_value T) data
      = map (\<lambda>k. (k, chart_value T policy zero_string r k)) (keys_between T a t)"
    using fill_and_filter_range[OF sorted' at mx below lim, where policy = policy and zero = zero_string]
    by blast
  have "map (\<lambda>k. (k, chart_value T policy zero_string r k)) (keys_between T a t)
      = map (\<lambda>k. (k, chart_value T policy zero_string raw k)) (keys_between T a t)"
    using finite_between chart by (auto simp: keys_between_def between_keys_def)
  moreover have "relevant_to T (Some b) (Some u) = Some t" by (simp add: relevant_to_def t)
  ultimately show ?thesis
    using row raw until fit fill kv by (auto simp: get_line_chart_data_def)
qed

end

section \<open>The last accurate point of a daily chart\<close>

lemma find_accurate_append [simp]:
  "\<forall>p \<in> set ps. is_approximate p \<Longrightarrow> find_accurate (ps @ qs) = find_accurate qs"
  by (induction ps) auto

context chrono_days
begin

lemma day_timespan_simps [simp]:
  "ord_key (day_timespan C) d = d" "from_date (day_timespan C) d = d" "into_date (day_timespan C) d = d"
  "enum_variant (day_timespan C) = Day" "ts_max (day_timespan C) = NaiveDate_MAX C"
  "saturating_start_timestamp (day_timespan C) d = midnight C d"
  by (simp_all add: day_timespan_def day_start_def)

lemma next_day_num: "d < NaiveDate_MAX C \<Longrightarrow>
    num_days_from_ce C (saturating_next_timespan (day_timespan C) d) = num_days_from_ce C d + 1"
  by (rule next_day_cases[of d]) auto

lemma saturating_sub_day: "checked_sub_days C d n = Some e \<Longrightarrow> saturating_sub (day_timespan C) d n = e"
  by (simp add: day_timespan_def default_saturating_sub_def)

text \<open>
  The last day whose data an update at \<open>s\<close> covers: the day of \<open>s\<close>, or the one before it when
  \<open>s\<close> is its first instant.
\<close>

lemma relevant_day:
  assumes "midnight C (date_naive C s) = s \<Longrightarrow> checked_sub_days C (date_naive C s) 1 = Some e"
    and "midnight C (date_naive C s) \<noteq> s \<Longrightarrow> e = date_naive C s"
  shows "relevant_data_until C (day_timespan C) (Some s) = (Some e, midnight C (date_naive C s) = s)"
proof -
  let ?d = "date_naive C s"
  have e_le: "midnight C e < s"
  proof (cases "midnight C ?d = s")
    case True
    with assms(1) have "num_days_from_ce C e < num_days_from_ce C ?d" by (simp add: sub_days)
    then show ?thesis using True num_less midnight_less by metis
  next
    case False
    then show ?thesis using assms(2) midnight_le[of ?d s] by auto
  qed
  then have "sub_nanosecond C s \<noteq> None"
    using sub_ns_None time_min by (metis leD)
  then obtain v where v: "sub_nanosecond C s = Some v" by blast
  have "midnight C e \<le> v" using e_le sub_ns_Some[OF v] by blast
  then have lower: "e \<le> date_naive C v" by (simp add: midnight_le)
  have "v < s" using sub_ns_Some[OF v] by blast
  have "date_naive C v \<le> e"
  proof (cases "midnight C ?d = s")
    case True
    with \<open>v < s\<close> have "date_naive C v < ?d" by (metis date_naive_less)
    then show ?thesis using assms(1)[OF True] by (simp add: sub_days num_less[symmetric] num_le[symmetric])
  next
    case False
    with \<open>v < s\<close> assms(2) show ?thesis using date_naive_mono[of v s] by simp
  qed
  with lower v show ?thesis
    by (simp add: relevant_data_until_def exclusive_range_to_inclusive_def datetime_steps_def Let_def)
qed

lemma find_accurate_first:
  assumes keys: "map (key_value (day_timespan C)) data = map (\<lambda>k. (k, f k)) (keys_between (day_timespan C) p u)"
    and "p \<le> u" "u < NaiveDate_MAX C"
    and mark: "checked_sub_days C (saturating_next_timespan (day_timespan C) u) n = Some m"
    and m: "num_days_from_ce C m = num_days_from_ce C p + 1"
  shows "find_accurate (rev (mark_approximate (day_timespan C) data u n)) = Some \<lparr>timespan = p, tv_value = f p\<rparr>"
proof -
  let ?T = "day_timespan C"
  let ?mark = "\<lambda>dv. from_date_value dv (m \<le> timespan dv)"
  have "keys_between ?T p u = p # keys_between ?T (saturating_next_timespan ?T p) u"
    using day.keys_between_next[of p u] assms(2,3) by simp
  with keys obtain q qs where data: "data = q # qs"
    and q: "key_value ?T q = (p, f p)"
    and qs: "map (key_value ?T) qs = map (\<lambda>k. (k, f k)) (keys_between ?T (saturating_next_timespan ?T p) u)"
    by (cases data) auto
  have "saturating_next_timespan ?T p = m"
    using next_day_num[of p] assms(2,3) m num_eq by fastforce
  have "m \<le> timespan x" if "x \<in> set qs" for x
  proof -
    have "key_value ?T x \<in> set (map (\<lambda>k. (k, f k)) (keys_between ?T m u))"
      using that qs \<open>saturating_next_timespan ?T p = m\<close> by (metis image_eqI list.set_map)
    then show ?thesis
      using day.finite_between[of m u] by (auto simp: key_value_def keys_between_def between_keys_def)
  qed
  then have approx: "\<forall>x \<in> set (rev (map ?mark qs)). is_approximate x"
    by (auto simp: from_date_value_def)
  have "\<not> m \<le> p" using m num_le[of m p] by simp
  then have "find_accurate [?mark q] = Some \<lparr>timespan = p, tv_value = f p\<rparr>"
    using q by (simp add: key_value_def from_date_value_def into_timespan_value_def)
  with approx show ?thesis
    using saturating_sub_day[OF mark] by (simp add: mark_approximate_def Let_def data)
qed

lemma last_accurate_day:
  fixes db :: "('d, 's, 'db) stats_db"
  assumes blk: "latest_min_block db chart_id = Ok (Some (Some min_block))"
    and row: "find_chart_row db name Day = Ok (Some row)" and upd: "row_last_updated_at row = Some s"
    and border: "midnight C (date_naive C s) = s \<Longrightarrow> 0 < n"
    and sub: "checked_sub_days C (date_naive C s) n = Some p" and "date_naive C s < NaiveDate_MAX C"
    and raw: "chart_points db (row_id row) (Some p) (Some (date_naive C s)) = Ok raw"
    and sorted: "sorted_points (day_timespan C) raw"
  shows "last_accurate_point C (day_timespan C) diff db today name Line chart_id min_block False n policy
    = Some (Ok (Some \<lparr>timespan = p,
        tv_value = chart_value (day_timespan C) policy zero_string raw p\<rparr>))"
proof -
  let ?T = "day_timespan C" and ?d = "date_naive C s"
  let ?border = "midnight C ?d = s"
  let ?n = "if ?border then n - 1 else n"
  have p: "num_days_from_ce C p = num_days_from_ce C ?d - int n" using sub by (simp add: sub_days)
  have min: "num_days_from_ce C (NaiveDate_MIN C) \<le> num_days_from_ce C p" using num_le date_min by simp
  obtain u where u: "num_days_from_ce C u = num_days_from_ce C ?d - (if ?border then 1 else 0)"
  proof -
    have "num_days_from_ce C (NaiveDate_MIN C) \<le> num_days_from_ce C ?d - (if ?border then 1 else 0)"
      using min p border by (cases ?border) auto
    moreover have "num_days_from_ce C ?d - (if ?border then 1 else 0) \<le> num_days_from_ce C (NaiveDate_MAX C)"
      using date_max[of ?d] num_le[of ?d "NaiveDate_MAX C"] by auto
    ultimately show thesis using num_onto that by blast
  qed
  have rel: "relevant_data_until C ?T (row_last_updated_at row) = (Some u, ?border)"
    unfolding upd by (rule relevant_day) (use u num_eq in \<open>auto simp: sub_days\<close>)
  have pu: "p \<le> u" using p u border by (auto simp: num_le[symmetric])
  have umax: "u < NaiveDate_MAX C" and ud: "u \<le> ?d"
    using u assms(6) by (auto simp: num_le[symmetric] num_less[symmetric])
  have get: "get_raw_line_chart_data ?T db (row_id row) (Some p) (Some ?d) = Ok raw"
    using raw by (simp add: get_raw_line_chart_data_def)
  obtain data where line: "get_line_chart_data C ?T diff db name (Some p) (Some ?d) None policy True n
      = Some (Ok (mark_approximate ?T data u ?n))"
    and keys: "map (key_value ?T) data
      = map (\<lambda>k. (k, chart_value ?T policy zero_string raw k)) (keys_between ?T p u)"
    using day.line_chart_filled[where db = db and name = name and chart = row and C = C and a = p and b = ?d
        and t = u and limit = None and n = n and diff = diff and policy = policy, OF _ get sorted rel]
      row pu umax ud by (auto simp: le_less)
  have nu: "num_days_from_ce C (saturating_next_timespan ?T u) = num_days_from_ce C u + 1"
    by (rule next_day_num[OF umax])
  have "num_days_from_ce C u + 1 \<le> num_days_from_ce C (NaiveDate_MAX C)"
    using umax by (simp add: num_less[symmetric])
  then obtain m where m: "num_days_from_ce C m = num_days_from_ce C p + 1"
    using num_onto[of "num_days_from_ce C p + 1"] min pu by (auto simp: num_le[symmetric])
  have mark: "checked_sub_days C (saturating_next_timespan ?T u) ?n = Some m"
    using m p u nu border by (auto simp: sub_days)
  show ?thesis
    using blk row upd line find_accurate_first[OF keys pu umax mark m] saturating_sub_day[OF sub]
    by (simp add: last_accurate_point_def get_chart_metadata_def Let_def)
qed

text \<open>
  Without trailing approximate points an update at the first instant of a day leaves an
  inverted range, and nothing accurate is found.
\<close>

lemma fit_into_empty_day:
  fixes raw :: "('d, 'v) timespan_value list"
  assumes "sorted_points (day_timespan C) raw" "checked_sub_days C d 1 = Some e"
  shows "fit_into_range C (day_timespan C) raw (Some d) (Some e) policy = Some []"
proof -
  let ?T = "day_timespan C"
  have "e < NaiveDate_MAX C"
    using assms(2) date_max[of d] by (simp add: sub_days num_less[symmetric] num_le[symmetric])
  then have "saturating_next_timespan ?T e = d"
    using next_day_num[of e] assms(2) num_eq by (fastforce simp: sub_days)
  then have "trim_out_of_range_sorted ?T xs (RangeInclusive d e) = Some []" if "sorted_points ?T xs"
    for xs :: "('d, 'v) timespan_value list" using trim_eq[OF that] by (auto simp: filter_empty_conv)
  then show ?thesis
    using assms(1) insert_previous_sorted[OF assms(1)]
    by (simp add: fit_into_range_def Let_def split: missing_date_policy.splits)
qed

lemma last_accurate_border:
  fixes db :: "('d, 's, 'db) stats_db"
  assumes blk: "latest_min_block db chart_id = Ok (Some (Some min_block))"
    and row: "find_chart_row db name Day = Ok (Some row)"
    and upd: "row_last_updated_at row = Some (midnight C d)"
    and pred: "checked_sub_days C d 1 = Some e"
    and raw: "chart_points db (row_id row) (Some d) (Some d) = Ok raw"
    and sorted: "sorted_points (day_timespan C) raw"
  shows "last_accurate_point C (day_timespan C) diff db today name Line chart_id min_block False 0 policy
    = Some (Err (Internal no_accurate_data))"
proof -
  let ?T = "day_timespan C"
  have rel: "relevant_data_until C ?T (row_last_updated_at row) = (Some e, True)"
    using relevant_day[of "midnight C d" e] pred by (simp add: upd midnight_date)
  have ed: "e < d" using pred by (simp add: sub_days num_less[symmetric])
  have "checked_sub_days C d 0 = Some d" by (simp add: sub_days)
  then have sub: "saturating_sub ?T d 0 = d" by (rule saturating_sub_day)
  have to: "relevant_to ?T (Some d) (Some e) = Some e" using ed by (simp add: relevant_to_def)
  have "(fill_and_filter_chart ?T diff zero_string [] (Some d) (Some e) policy None
      :: ('db read_error, _) result option) = Some (Ok [])"
    using ed by (auto dest: leD simp: fill_and_filter_chart_def fill_missing_points_def first_timespan_def
        last_timespan_def filter_within_range_def)
  then have "get_line_chart_data C ?T diff db name (Some d) (Some d) None policy True 0 = Some (Ok [])"
    using row raw rel to fit_into_empty_day[OF sorted pred, of policy]
    by (simp add: get_line_chart_data_def get_raw_line_chart_data_def mark_approximate_def Let_def)
  then show ?thesis
    using blk row upd sub
    by (simp add: last_accurate_point_def get_chart_metadata_def midnight_date Let_def)
qed

text \<open>The range of a request for whole days, as dates.\<close>

lemma request_days:
  assumes "b < NaiveDate_MAX C"
  obtains s e where "into_inclusive_pair (datetime_steps C)
      (inclusive_date_range_to_query_range C (Some a) (Some b)) = (Some s, Some e)"
    "date_naive C s = a" "date_naive C e = b"
proof -
  let ?n = "saturating_next_timespan (day_timespan C) b"
  have num: "num_days_from_ce C ?n = num_days_from_ce C b + 1" by (rule next_day_num[OF assms])
  then have less: "midnight C b < midnight C ?n" by (simp add: midnight_less num_less[symmetric])
  then have "sub_nanosecond C (midnight C ?n) \<noteq> None" using sub_ns_None time_min by (metis leD)
  then obtain v where v: "sub_nanosecond C (midnight C ?n) = Some v" by blast
  have "b \<le> date_naive C v" using less sub_ns_Some[OF v] midnight_le by blast
  moreover have "date_naive C v < ?n" using sub_ns_Some[OF v] date_naive_less by blast
  then have "date_naive C v \<le> b" using num by (simp add: num_less[symmetric] num_le[symmetric])
  ultimately have "date_naive C v = b" by simp
  with v that[of "midnight C a" v] show thesis
    by (simp add: into_inclusive_pair_def inclusive_date_range_to_query_range_def day_start_def Let_def
        universal_of_option_range_def exclusive_range_to_inclusive_def datetime_steps_def midnight_date)
qed

lemma keys_between_days: "keys_between (day_timespan C) a b = sorted_list_of_set {a..b}"
proof -
  have "between_keys (day_timespan C) a b = {a..b}" by (auto simp: between_keys_def)
  then show ?thesis by (simp add: keys_between_def)
qed

lemma points_of_keys:
  "map (key_value (day_timespan C)) data = map (\<lambda>d. (d, f d)) ds \<Longrightarrow>
     data = map (\<lambda>d. \<lparr>timespan = d, tv_value = f d\<rparr>) ds"
proof (induction data arbitrary: ds)
  case (Cons p ps)
  then show ?case by (cases ds) (auto simp: key_value_def)
qed simp

lemma request_filled:
  fixes db :: "('d, 's, 'db) stats_db"
  assumes row: "find_chart_row db name Day = Ok (Some row)" and upd: "row_last_updated_at row = Some s"
    and raw: "chart_points db (row_id row) (Some a) (Some b) = Ok raw"
    and sorted: "sorted_points (day_timespan C) raw"
    and rel: "relevant_data_until C (day_timespan C) (Some s) = (Some u, border)"
    and "a \<le> min b u" "b < NaiveDate_MAX C"
    and fits: "\<And>l. limit = Some l \<Longrightarrow> fits_in_limit diff l a (min b u)"
  shows "default_query_vec C (day_timespan C) diff db name policy n
      (inclusive_date_range_to_query_range C (Some a) (Some b)) limit True
    = Some (Ok (map (\<lambda>d. \<lparr>timespan = d, tv_value = chart_value (day_timespan C) policy zero_string raw d,
        is_approximate = (saturating_sub (day_timespan C) (saturating_next_timespan (day_timespan C) u)
          (if border then n - 1 else n) \<le> d)\<rparr>) (sorted_list_of_set {a..min b u})))"
proof -
  let ?T = "day_timespan C"
  obtain s' e' where pair: "into_inclusive_pair (datetime_steps C)
      (inclusive_date_range_to_query_range C (Some a) (Some b)) = (Some s', Some e')"
    "date_naive C s' = a" "date_naive C e' = b"
    using request_days[OF assms(7)] by blast
  have get: "get_raw_line_chart_data ?T db (row_id row) (Some a) (Some b) = Ok raw"
    using raw by (simp add: get_raw_line_chart_data_def)
  have rel': "relevant_data_until C ?T (row_last_updated_at row) = (Some u, border)"
    using rel upd by simp
  obtain data where line: "get_line_chart_data C ?T diff db name (Some a) (Some b) limit policy True n
      = Some (Ok (mark_approximate ?T data u (if border then n - 1 else n)))"
    and keys: "map (key_value ?T) data
      = map (\<lambda>k. (k, chart_value ?T policy zero_string raw k)) (keys_between ?T a (min b u))"
  proof -
    have t: "min b u = (if ord_key ?T u < ord_key ?T b then u else b)" by auto
    have mx: "min b u < NaiveDate_MAX C" using assms(7) by (simp add: min_less_iff_disj)
    show thesis
      by (rule exE[OF day.line_chart_filled[where db = db and name = name and chart = row and C = C and a = a
            and b = b and t = "min b u" and limit = limit and n = n and diff = diff and policy = policy,
            OF _ get sorted rel' t]])
        (use row assms(6) mx fits that in auto)
  qed
  have "data = map (\<lambda>d. \<lparr>timespan = d, tv_value = chart_value ?T policy zero_string raw d\<rparr>)
      (sorted_list_of_set {a..min b u})"
    using points_of_keys[OF keys] by (simp add: keys_between_days)
  with line pair show ?thesis
    by (simp add: default_query_vec_def mark_approximate_def from_date_value_def Let_def comp_def)
qed

end

section \<open>What reads promise\<close>

text \<open>
  A database with one daily chart, updated at timestamp \<open>s\<close>, that holds two points. The
  instances below read it.
\<close>

definition sample_row :: "civil_time \<Rightarrow> civil_time chart_row" where
  "sample_row s = \<lparr>row_id = 7, row_name = ''newTxns'', row_last_updated_at = Some s\<rparr>"

definition sample_points :: "(civil_date, string) timespan_value list" where
  "sample_points = [\<lparr>timespan = of_day 1, tv_value = ''10''\<rparr>, \<lparr>timespan = of_day 4, tv_value = ''40''\<rparr>]"

definition sample_db :: "civil_time \<Rightarrow> (civil_date, civil_time, unit) stats_db" where
  "sample_db s = \<lparr>
     find_chart_row = (\<lambda>name r. Ok (if r = Day then Some (sample_row s) else None)),
     chart_points = (\<lambda>_ _ _. Ok sample_points),
     latest_counter_point = (\<lambda>_ _. Ok None),
     latest_min_block = (\<lambda>_. Ok (Some (Some 0)))\<rparr>"

lemma sample_points_sorted: "sorted_points (day_timespan civil) sample_points"
  by (simp add: sample_points_def day_timespan_def civil_eval)

lemmas sample_db_eval = sample_db_def sample_row_def civil_eval



text \<open>the point an incremental update of a daily line chart starts from. If the chart was
  filled for the same minimal block, then with \<open>n\<close> approximate trailing points the read does
  not panic, ends, and returns the point \<open>n\<close> days before the day of the last update, with the
  value of the chart on that day: the most recent one that is not approximate.\<close>

theorem last_accurate_point_daily:
  fixes db :: "('d::linorder, 's::linorder, 'db) stats_db"
  assumes "chrono_days C"
    and "latest_min_block db chart_id = Ok (Some (Some min_block))"
    and "find_chart_row db name Day = Ok (Some row)" "row_last_updated_at row = Some s"
    and "midnight C (date_naive C s) = s \<Longrightarrow> 0 < n"
    and "checked_sub_days C (date_naive C s) n = Some p" "date_naive C s < NaiveDate_MAX C"
    and "chart_points db (row_id row) (Some p) (Some (date_naive C s)) = Ok raw"
    and "sorted_points (day_timespan C) raw"
  shows "last_accurate_point C (day_timespan C) diff db today name Line chart_id min_block False n policy
    = Some (Ok (Some \<lparr>timespan = p,
        tv_value = chart_value (day_timespan C) policy zero_string raw p\<rparr>))"
  by (rule chrono_days.last_accurate_day[OF assms])

theorem last_accurate_point_daily_witness:
  "last_accurate_point civil (day_timespan civil) (\<lambda>_ _. None) (sample_db (of_ns (5 * day_ns))) (of_day 6)
      ''newTxns'' Line 7 0 False 2 FillPrevious
    = Some (Ok (Some \<lparr>timespan = of_day 3, tv_value = ''10''\<rparr>))"
proof -
  let ?s = "of_ns (5 * day_ns)"
  have date: "date_naive civil ?s = of_day 5" by (simp add: civil_eval)
  have "chart_value (day_timespan civil) FillPrevious zero_string sample_points (of_day 3) = ''10''"
    by (simp add: sample_points_def chart_value_def last_value_def day_timespan_def civil_eval)
  moreover have "checked_sub_days civil (of_day 5) 2 = Some (of_day 3)" "of_day 5 < NaiveDate_MAX civil"
    by (simp_all add: civil_eval)
  ultimately show ?thesis
    using last_accurate_point_daily[OF civil.chrono_days_axioms, of "sample_db ?s" 7 0 "''newTxns''"
        "sample_row ?s" ?s 2 "of_day 3" sample_points "\<lambda>_ _. None" "of_day 6" FillPrevious,
        OF _ _ _ _ _ _ _ sample_points_sorted]
    by (simp add: date) (simp add: sample_db_def sample_row_def)
qed

text \<open>a chart without approximate trailing points whose last update is the first instant of
  a day. The read asks for a range that ends before it starts, and the update fails with an
  internal error although the chart has data.\<close>

theorem last_accurate_point_at_day_border_fails:
  fixes db :: "('d::linorder, 's::linorder, 'db) stats_db"
  assumes "chrono_days C"
    and "latest_min_block db chart_id = Ok (Some (Some min_block))"
    and "find_chart_row db name Day = Ok (Some row)" "row_last_updated_at row = Some (midnight C d)"
    and "checked_sub_days C d 1 = Some e"
    and "chart_points db (row_id row) (Some d) (Some d) = Ok raw" "sorted_points (day_timespan C) raw"
  shows "last_accurate_point C (day_timespan C) diff db today name Line chart_id min_block False 0 policy
    = Some (Err (Internal no_accurate_data))"
  by (rule chrono_days.last_accurate_border[OF assms])

theorem last_accurate_point_at_day_border_fails_witness:
  "last_accurate_point civil (day_timespan civil) (\<lambda>_ _. None) (sample_db (midnight civil (of_day 5))) (of_day 6)
      ''newTxns'' Line 7 0 False 0 FillPrevious
    = Some (Err (Internal no_accurate_data))"
  by (rule last_accurate_point_at_day_border_fails[OF civil.chrono_days_axioms,
        where row = "sample_row (midnight civil (of_day 5))" and d = "of_day 5" and e = "of_day 4"
          and raw = sample_points, OF _ _ _ _ _ sample_points_sorted])
    (simp_all add: sample_db_def sample_row_def civil_eval)

end
