(* ===== verification/Stats_Store.thy ===== *)
theory Stats_Store
  imports Stats_Read
begin

text \<open>
  The tables of the statistics database and the statements that write them
  (\<^verbatim>\<open>stats/stats/src/charts/db_interaction/write.rs\<close>).

  The database itself is a parameter: the record \<open>store\<close> has one field per statement of the
  source, and the locale \<open>chart_tables\<close> states what the statements promise of the tables
  \<open>charts\<close> and \<open>chart_data\<close>. Every statement may fail, and a failed statement changes nothing.
  Fallible and possibly panicking code that writes is a \<open>prog\<close>: it takes the state of the
  database and returns the new state and its result, or \<open>None\<close> when it panics or never returns.
\<close>

section \<open>Programs over a database\<close>

type_synonym ('st, 'e, 'a) prog = "'st \<Rightarrow> ('st \<times> ('e, 'a) result) option"

definition return_prog :: "'a \<Rightarrow> ('st, 'e, 'a) prog" where
  "return_prog x st = Some (st, Ok x)"

definition bind_prog :: "('st, 'e, 'a) prog \<Rightarrow> ('a \<Rightarrow> ('st, 'e, 'b) prog) \<Rightarrow> ('st, 'e, 'b) prog" where
  "bind_prog m f st =
     (case m st of
        None \<Rightarrow> None
      | Some (st', Inl e) \<Rightarrow> Some (st', Err e)
      | Some (st', Inr x) \<Rightarrow> f x st')"

definition of_result :: "('e, 'a) result \<Rightarrow> ('st, 'e, 'a) prog" where
  "of_result r st = Some (st, r)"

lemma bind_prog_Ok_iff:
  "bind_prog m f st = Some (st'', Ok y) \<longleftrightarrow> (\<exists>st' x. m st = Some (st', Ok x) \<and> f x st' = Some (st'', Ok y))"
  by (auto simp: bind_prog_def split: option.splits sum.splits)

lemma bind_prog_simps [simp]:
  "m st = Some (st', Ok x) \<Longrightarrow> bind_prog m f st = f x st'"
  "m st = Some (st', Err e) \<Longrightarrow> bind_prog m f st = Some (st', Err e)"
  "m st = None \<Longrightarrow> bind_prog m f st = None"
  "bind_prog (return_prog x) f st = f x st"
  by (simp_all add: bind_prog_def return_prog_def)

lemma of_result_simps [simp]: "of_result r st = Some (st, r)" "return_prog x st = Some (st, Ok x)"
  by (simp_all add: of_result_def return_prog_def)

section \<open>Statements\<close>

text \<open>The columns of \<open>chart_data::ActiveModel\<close> that the service sets.\<close>

record 'd data_row =
  dr_chart_id :: int
  dr_date :: 'd
  dr_value :: string
  dr_min_block :: "int option"

definition active_model ::
  "('d, 's, 'k, 't) timespan_impl \<Rightarrow> ('t, string) timespan_value \<Rightarrow> int \<Rightarrow> int option \<Rightarrow> 'd data_row" where
  "active_model T p chart_id min_blockscout_block =
     \<lparr>dr_chart_id = chart_id, dr_date = into_date T (timespan p), dr_value = tv_value p,
      dr_min_block = min_blockscout_block\<rparr>"

type_synonym ('st, 'db) statement = "'st \<Rightarrow> 'st \<times> ('db, unit) result"

text \<open>
  \<open>queries st\<close> are the read queries against the state \<open>st\<close>; \<open>insert_rows\<close> is the insert that
  updates value and minimal block on conflict, \<open>insert_chart\<close> the insert that does nothing on
  conflict; \<open>begin_tx\<close> and \<open>commit_tx\<close> delimit a transaction, which is rolled back when it is
  dropped without a commit.
\<close>

record ('st, 'd, 's, 'db) store =
  queries :: "'st \<Rightarrow> ('d, 's, 'db) stats_db"
  insert_rows :: "'d data_row list \<Rightarrow> ('st, 'db) statement"
  delete_rows :: "int \<Rightarrow> ('st, 'db) statement"
  put_last_updated_at :: "int \<Rightarrow> 's \<Rightarrow> ('st, 'db) statement"
  insert_chart :: "chart_key \<Rightarrow> chart_type \<Rightarrow> 's \<Rightarrow> ('st, 'db) statement"
  begin_tx :: "'st \<Rightarrow> ('db, unit) result"
  commit_tx :: "('st, 'db) statement"

definition create_chart ::
  "('st, 'd, 's, 'db) store \<Rightarrow> chart_key \<Rightarrow> chart_type \<Rightarrow> 's \<Rightarrow> ('st, 'db) statement" where
  "create_chart S key chart_type creation_time st =
     (case find_chart_row (queries S st) (ck_name key) (ck_resolution key) of
        Inl e \<Rightarrow> (st, Err e)
      | Inr (Some _) \<Rightarrow> (st, Ok ())
      | Inr None \<Rightarrow> insert_chart S key chart_type creation_time st)"

definition insert_data_many ::
  "('st, 'd, 's, 'db) store \<Rightarrow> 'd data_row list \<Rightarrow> ('st, 'db) statement" where
  "insert_data_many S data st = (if data \<noteq> [] then insert_rows S data st else (st, Ok ()))"

definition clear_all_chart_data :: "('st, 'd, 's, 'db) store \<Rightarrow> int \<Rightarrow> ('st, 'db) statement" where
  "clear_all_chart_data S chart_id = delete_rows S chart_id"

definition set_last_updated_at :: "('st, 'd, 's, 'db) store \<Rightarrow> int \<Rightarrow> 's \<Rightarrow> ('st, 'db) statement" where
  "set_last_updated_at S chart_id at = put_last_updated_at S chart_id at"

text \<open>A statement as part of a program, with its error in \<open>StatsDB\<close>.\<close>

definition stats_db_prog :: "('st, 'db) statement \<Rightarrow> ('st, 'db chart_error, unit) prog" where
  "stats_db_prog s st = (case s st of (st', Inl e) \<Rightarrow> Some (st', Err (StatsDB e)) | (st', Inr _) \<Rightarrow> Some (st', Ok ()))"

text \<open>
  \<open>db.begin()\<close>, a body that uses the transaction, and \<open>commit\<close>: whatever ends the body early
  drops the transaction, so the tables are those from before.
\<close>

definition in_transaction ::
  "('st, 'd, 's, 'db) store \<Rightarrow> ('st, 'db chart_error, 'a) prog \<Rightarrow> ('st, 'db chart_error, 'a) prog" where
  "in_transaction S body st =
     (case begin_tx S st of
        Inl e \<Rightarrow> Some (st, Err (StatsDB e))
      | Inr _ \<Rightarrow>
          (case body st of
             None \<Rightarrow> None
           | Some (_, Inl e) \<Rightarrow> Some (st, Err e)
           | Some (st', Inr x) \<Rightarrow>
               (case commit_tx S st' of
                  (_, Inl e) \<Rightarrow> Some (st, Err (StatsDB e))
                | (st'', Inr _) \<Rightarrow> Some (st'', Ok x))))"

section \<open>What the statements promise\<close>

text \<open>
  The contents of the two tables: the row of each chart, and the values stored for each chart
  id and date (with the minimal block they were computed for).
\<close>

record ('d, 's) tables =
  charts :: "chart_key \<Rightarrow> 's chart_row option"
  chart_data :: "int \<Rightarrow> 'd \<Rightarrow> (string \<times> int option) option"

definition upsert :: "'d data_row list \<Rightarrow> (int \<Rightarrow> 'd \<Rightarrow> (string \<times> int option) option)
    \<Rightarrow> int \<Rightarrow> 'd \<Rightarrow> (string \<times> int option) option" where
  "upsert rows D = (\<lambda>c d. case find (\<lambda>r. dr_chart_id r = c \<and> dr_date r = d) rows of
     Some r \<Rightarrow> Some (dr_value r, dr_min_block r) | None \<Rightarrow> D c d)"

definition touch_chart :: "int \<Rightarrow> 's \<Rightarrow> (chart_key \<Rightarrow> 's chart_row option) \<Rightarrow> chart_key \<Rightarrow> 's chart_row option" where
  "touch_chart chart_id at R = (\<lambda>k. map_option (\<lambda>row. if row_id row = chart_id then row\<lparr>row_last_updated_at := Some at\<rparr> else row) (R k))"

text \<open>
  \<open>tables_of st\<close> are the contents in state \<open>st\<close>, \<open>stored t\<close> is the timestamp that the database
  keeps for \<open>t\<close>, and \<open>micros\<close> is \<open>trunc_subsecs(6)\<close>: microseconds survive. An insert that would
  touch the same row twice fails.
\<close>

locale chart_tables =
  fixes S :: "('st, 'd::linorder, 's::linorder, 'db) store" and tables_of :: "'st \<Rightarrow> ('d, 's) tables"
    and stored :: "'s \<Rightarrow> 's" and micros :: "'s \<Rightarrow> 's"
  assumes stored_micros: "micros (stored t) = micros t"
    and find_row: "find_chart_row (queries S st) n r = Ok x \<Longrightarrow>
      x = charts (tables_of st) \<lparr>ck_name = n, ck_resolution = r\<rparr>"
    and insert_Ok: "insert_rows S rows st = (st', Ok u) \<Longrightarrow>
      distinct (map (\<lambda>r. (dr_chart_id r, dr_date r)) rows) \<and>
      tables_of st' = (tables_of st)\<lparr>chart_data := upsert rows (chart_data (tables_of st))\<rparr>"
    and insert_Err: "insert_rows S rows st = (st', Err e) \<Longrightarrow> tables_of st' = tables_of st"
    and delete_Ok: "delete_rows S c st = (st', Ok u) \<Longrightarrow>
      tables_of st' = (tables_of st)\<lparr>chart_data := (chart_data (tables_of st))(c := \<lambda>_. None)\<rparr>"
    and delete_Err: "delete_rows S c st = (st', Err e) \<Longrightarrow> tables_of st' = tables_of st"
    and put_Ok: "put_last_updated_at S c t st = (st', Ok u) \<Longrightarrow>
      tables_of st' = (tables_of st)\<lparr>charts := touch_chart c (stored t) (charts (tables_of st))\<rparr>"
    and put_Err: "put_last_updated_at S c t st = (st', Err e) \<Longrightarrow> tables_of st' = tables_of st"
    and chart_Ok: "insert_chart S k ct t st = (st', Ok u) \<Longrightarrow>
      (\<exists>row. row_last_updated_at row = None \<and> tables_of st' = (tables_of st)\<lparr>charts :=
         (case charts (tables_of st) k of None \<Rightarrow> (charts (tables_of st))(k \<mapsto> row) | Some _ \<Rightarrow> charts (tables_of st))\<rparr>)"
    and chart_Err: "insert_chart S k ct t st = (st', Err e) \<Longrightarrow> tables_of st' = tables_of st"
    and commit_Ok: "commit_tx S st = (st', Ok u) \<Longrightarrow> tables_of st' = tables_of st"

section \<open>Consequences\<close>

lemma chart_key_eta [simp]: "\<lparr>ck_name = ck_name k, ck_resolution = ck_resolution k\<rparr> = k"
  by (cases k) simp

lemma upsert_Nil [simp]: "upsert [] D = D"
  by (intro ext) (simp add: upsert_def)

lemma upsert_other: "\<forall>r \<in> set rows. dr_chart_id r = c \<Longrightarrow> c' \<noteq> c \<Longrightarrow> upsert rows D c' = D c'"
  by (rule ext) (fastforce simp: upsert_def find_None_iff find_Some_iff split: option.splits)

lemma touch_chart_row: "R k = Some row \<Longrightarrow> row_id row = c \<Longrightarrow>
    touch_chart c t R k = Some (row\<lparr>row_last_updated_at := Some t\<rparr>)"
  by (simp add: touch_chart_def)

context chart_tables
begin

lemma insert_data_many_Ok:
  assumes "insert_data_many S rows st = (st', Ok u)"
  shows "tables_of st' = (tables_of st)\<lparr>chart_data := upsert rows (chart_data (tables_of st))\<rparr>"
    and "distinct (map (\<lambda>r. (dr_chart_id r, dr_date r)) rows)"
  using assms by (auto simp: insert_data_many_def split: if_splits dest: insert_Ok)

lemma insert_data_many_Err:
  "insert_data_many S rows st = (st', Err e) \<Longrightarrow> tables_of st' = tables_of st"
  by (auto simp: insert_data_many_def split: if_splits dest: insert_Err)

lemma stats_db_prog_cases:
  assumes "stats_db_prog s st = Some (st', r)"
  obtains (ok) u where "s st = (st', Ok u)" "r = Ok ()" | (err) e where "s st = (st', Err e)" "r = Err (StatsDB e)"
  using assms by (auto simp: stats_db_prog_def split: prod.splits sum.splits)

lemma set_last_updated_at_Ok:
  "set_last_updated_at S c t st = (st', Ok u) \<Longrightarrow>
    tables_of st' = (tables_of st)\<lparr>charts := touch_chart c (stored t) (charts (tables_of st))\<rparr>"
  by (simp add: set_last_updated_at_def put_Ok)

lemma in_transaction_Err: "in_transaction S body st = Some (st', Err e) \<Longrightarrow> st' = st"
  by (auto simp: in_transaction_def split: sum.splits option.splits prod.splits)

lemma in_transaction_Ok:
  assumes "in_transaction S body st = Some (st'', Ok x)"
  obtains st' where "body st = Some (st', Ok x)" "tables_of st'' = tables_of st'"
  using assms by (auto simp: in_transaction_def split: sum.splits option.splits prod.splits dest: commit_Ok)

text \<open>Creating a chart keeps every row that exists, and the chart exists afterwards.\<close>

lemma create_chart_Ok:
  assumes "create_chart S k ct t st = (st', Ok u)"
  shows "charts (tables_of st') k \<noteq> None \<and> chart_data (tables_of st') = chart_data (tables_of st)
    \<and> (\<forall>k'. charts (tables_of st) k' \<noteq> None \<or> k' \<noteq> k \<longrightarrow> charts (tables_of st') k' = charts (tables_of st) k')"
proof -
  from assms consider (old) row where "find_chart_row (queries S st) (ck_name k) (ck_resolution k) = Ok (Some row)" "st' = st"
    | (new) "find_chart_row (queries S st) (ck_name k) (ck_resolution k) = Ok None" "insert_chart S k ct t st = (st', Ok u)"
    by (auto simp: create_chart_def split: sum.splits option.splits)
  then show ?thesis
  proof cases
    case old
    from find_row[OF old(1)] old(2) show ?thesis by (cases "charts (tables_of st) k") simp_all
  next
    case new
    from find_row[OF new(1)] have "charts (tables_of st) k = None" by simp
    with chart_Ok[OF new(2)] show ?thesis by auto
  qed
qed

end

section \<open>A database in memory\<close>

text \<open>
  Tables as maps, with a function that decides which statements fail. It satisfies the laws for
  every choice of failures.
\<close>

datatype statement_kind = InsertRows | DeleteRows | PutLastUpdatedAt | InsertChart | BeginTx | CommitTx

definition attempt :: "'db option \<Rightarrow> 'st \<Rightarrow> 'st \<Rightarrow> 'st \<times> ('db, unit) result" where
  "attempt failure st st' = (case failure of Some e \<Rightarrow> (st, Err e) | None \<Rightarrow> (st', Ok ()))"

definition memory_store ::
  "(('d, 's) tables \<Rightarrow> ('d, 's, 'db) stats_db) \<Rightarrow> ('s \<Rightarrow> 's) \<Rightarrow> 'db
     \<Rightarrow> (statement_kind \<Rightarrow> ('d, 's) tables \<Rightarrow> 'db option) \<Rightarrow> (('d, 's) tables, 'd, 's, 'db) store" where
  "memory_store reads stored duplicate fails = \<lparr>
     queries = (\<lambda>st. (reads st)\<lparr>find_chart_row := (\<lambda>n r. Ok (charts st \<lparr>ck_name = n, ck_resolution = r\<rparr>))\<rparr>),
     insert_rows = (\<lambda>rows st.
       if distinct (map (\<lambda>r. (dr_chart_id r, dr_date r)) rows)
       then attempt (fails InsertRows st) st (st\<lparr>chart_data := upsert rows (chart_data st)\<rparr>)
       else (st, Err duplicate)),
     delete_rows = (\<lambda>c st. attempt (fails DeleteRows st) st (st\<lparr>chart_data := (chart_data st)(c := \<lambda>_. None)\<rparr>)),
     put_last_updated_at = (\<lambda>c t st. attempt (fails PutLastUpdatedAt st) st
       (st\<lparr>charts := touch_chart c (stored t) (charts st)\<rparr>)),
     insert_chart = (\<lambda>k ct t st. attempt (fails InsertChart st) st
       (st\<lparr>charts := (case charts st k of
          None \<Rightarrow> (charts st)(k \<mapsto> \<lparr>row_id = 0, row_name = ck_name k, row_last_updated_at = None\<rparr>)
        | Some _ \<Rightarrow> charts st)\<rparr>)),
     begin_tx = (\<lambda>st. case fails BeginTx st of Some e \<Rightarrow> Err e | None \<Rightarrow> Ok ()),
     commit_tx = (\<lambda>st. attempt (fails CommitTx st) st st)\<rparr>"

lemma attempt_iff [simp]:
  "attempt f st st' = (st'', Inr u) \<longleftrightarrow> f = None \<and> st'' = st'"
  "attempt f st st' = (st'', Inl e) \<longleftrightarrow> f = Some e \<and> st'' = st"
  by (auto simp: attempt_def split: option.splits)

text \<open>\<open>trunc_subsecs(6)\<close> on nanosecond counts.\<close>

lift_definition civil_micros :: "civil_time \<Rightarrow> civil_time" is "\<lambda>n. n div 1000 * 1000"
  by (auto simp: civil_min_def civil_max_def day_ns_def)

lemma civil_micros_idem [simp]: "civil_micros (civil_micros t) = civil_micros t"
  by transfer simp

interpretation memory: chart_tables "memory_store reads civil_micros duplicate fails" "\<lambda>st. st" civil_micros civil_micros
  for reads :: "('d::linorder, civil_time) tables \<Rightarrow> ('d, civil_time, 'db) stats_db" and duplicate fails
proof (unfold_locales, goal_cases)
  case (9 k ct t st st' u)
  then show ?case by (auto simp: memory_store_def intro!: exI[of _ "\<lparr>row_id = 0, row_name = ck_name k, row_last_updated_at = None\<rparr>"])
qed (auto simp: memory_store_def split: if_splits)

end
