(* ===== verification/Stats_Calendar.thy ===== *)
theory Stats_Calendar
  imports Stats_Timespan "HOL-Library.Option_ord"
begin

text \<open>
  Weeks, months and years as timespans
  (\<^verbatim>\<open>stats/stats/src/charts/types/timespans\<close>). Each implements the trait \<open>Timespan\<close>; the
  interface \<open>calendar_timespan\<close> says what all four implementations promise about dates and
  timestamps: a timespan covers the dates that map to it, and its time range contains
  exactly the timestamps of these dates.
\<close>

section \<open>Weeks\<close>

text \<open>\<open>week_new d\<close> is \<open>Week::new(d)\<close>, the week from Monday that contains the day.\<close>

datatype 'd week = week_new (week_day: 'd)

definition checked_first_day :: "('d, 's) chrono \<Rightarrow> 'd week \<Rightarrow> 'd option" where
  "checked_first_day C w = week_first_day C (week_day w)"

definition saturating_first_day :: "('d, 's) chrono \<Rightarrow> 'd week \<Rightarrow> 'd" where
  "saturating_first_day C w =
     (case checked_first_day C w of Some d \<Rightarrow> d | None \<Rightarrow> NaiveDate_MIN C)"

definition checked_last_day :: "('d, 's) chrono \<Rightarrow> 'd week \<Rightarrow> 'd option" where
  "checked_last_day C w = week_last_day C (week_day w)"

definition saturating_last_day :: "('d, 's) chrono \<Rightarrow> 'd week \<Rightarrow> 'd" where
  "saturating_last_day C w =
     (case checked_last_day C w of Some d \<Rightarrow> d | None \<Rightarrow> NaiveDate_MAX C)"

definition saturating_next_week :: "('d, 's) chrono \<Rightarrow> 'd week \<Rightarrow> 'd week" where
  "saturating_next_week C w =
     week_new (case checked_add_days C (saturating_last_day C w) 1 of Some d \<Rightarrow> d | None \<Rightarrow> NaiveDate_MAX C)"

definition saturating_previous_week :: "('d, 's) chrono \<Rightarrow> 'd week \<Rightarrow> 'd week" where
  "saturating_previous_week C w =
     week_new (case checked_sub_days C (saturating_first_day C w) 1 of Some d \<Rightarrow> d | None \<Rightarrow> NaiveDate_MIN C)"

text \<open>\<open>repeats\<close> is a \<open>u64\<close>, and \<open>checked_mul(7)\<close> fails past \<open>u64::MAX\<close>.\<close>

definition week_checked_add :: "('d, 's) chrono \<Rightarrow> 'd week \<Rightarrow> nat \<Rightarrow> 'd week option" where
  "week_checked_add C w n =
     (if u64_max < n * 7 then None
      else map_option week_new (checked_add_days C (saturating_first_day C w) (n * 7)))"

definition week_checked_sub :: "('d, 's) chrono \<Rightarrow> 'd week \<Rightarrow> nat \<Rightarrow> 'd week option" where
  "week_checked_sub C w n =
     (if u64_max < n * 7 then None
      else map_option week_new (checked_sub_days C (saturating_first_day C w) (n * 7)))"

definition week_timespan :: "('d, 's) chrono \<Rightarrow> ('d, 's, 'd option, 'd week) timespan_impl" where
  "week_timespan C = \<lparr>
     ord_key = checked_first_day C,
     from_date = week_new,
     into_date = saturating_first_day C,
     saturating_start_timestamp = (\<lambda>w. day_start C (saturating_first_day C w)),
     checked_add = week_checked_add C,
     checked_sub = week_checked_sub C,
     ts_max = week_new (NaiveDate_MAX C),
     ts_min = week_new (NaiveDate_MIN C),
     saturating_add = default_saturating_add (week_checked_add C) (week_new (NaiveDate_MAX C)),
     saturating_sub = default_saturating_sub (week_checked_sub C) (week_new (NaiveDate_MIN C)),
     saturating_next_timespan =
       (\<lambda>w. default_saturating_add (week_checked_add C) (week_new (NaiveDate_MAX C)) w 1),
     saturating_previous_timespan =
       (\<lambda>w. default_saturating_sub (week_checked_sub C) (week_new (NaiveDate_MIN C)) w 1),
     enum_variant = Week
   \<rparr>"

section \<open>Months\<close>

datatype 'd month = Month_at (date_in_month: 'd)

definition saturating_first_month_day :: "('d, 's) chrono \<Rightarrow> 'd \<Rightarrow> 'd" where
  "saturating_first_month_day C d = (case with_day_1 C d of Some f \<Rightarrow> f | None \<Rightarrow> NaiveDate_MIN C)"

definition month_from_date :: "('d, 's) chrono \<Rightarrow> 'd \<Rightarrow> 'd month" where
  "month_from_date C d = Month_at (saturating_first_month_day C d)"

definition month_first_day :: "('d, 's) chrono \<Rightarrow> 'd month \<Rightarrow> 'd" where
  "month_first_day C m = saturating_first_month_day C (date_in_month m)"

text \<open>\<open>Months::new\<close> takes a \<open>u32\<close>, and the conversion fails past \<open>u32::MAX\<close>.\<close>

definition month_checked_add :: "('d, 's) chrono \<Rightarrow> 'd month \<Rightarrow> nat \<Rightarrow> 'd month option" where
  "month_checked_add C m n =
     (if u32_max < n then None
      else map_option (month_from_date C) (checked_add_months C (date_in_month m) n))"

definition month_checked_sub :: "('d, 's) chrono \<Rightarrow> 'd month \<Rightarrow> nat \<Rightarrow> 'd month option" where
  "month_checked_sub C m n =
     (if u32_max < n then None
      else map_option (month_from_date C) (checked_sub_months C (date_in_month m) n))"

definition month_timespan :: "('d, 's) chrono \<Rightarrow> ('d, 's, 'd, 'd month) timespan_impl" where
  "month_timespan C = \<lparr>
     ord_key = month_first_day C,
     from_date = month_from_date C,
     into_date = month_first_day C,
     saturating_start_timestamp = (\<lambda>m. day_start C (month_first_day C m)),
     checked_add = month_checked_add C,
     checked_sub = month_checked_sub C,
     ts_max = month_from_date C (NaiveDate_MAX C),
     ts_min = month_from_date C (NaiveDate_MIN C),
     saturating_add = default_saturating_add (month_checked_add C) (month_from_date C (NaiveDate_MAX C)),
     saturating_sub = default_saturating_sub (month_checked_sub C) (month_from_date C (NaiveDate_MIN C)),
     saturating_next_timespan =
       (\<lambda>m. default_saturating_add (month_checked_add C) (month_from_date C (NaiveDate_MAX C)) m 1),
     saturating_previous_timespan =
       (\<lambda>m. default_saturating_sub (month_checked_sub C) (month_from_date C (NaiveDate_MIN C)) m 1),
     enum_variant = Month
   \<rparr>"

section \<open>Years\<close>

datatype year = Year_no (year_no: int)

definition year_first_day :: "('d, 's) chrono \<Rightarrow> year \<Rightarrow> 'd" where
  "year_first_day C y = (case from_yo_1 C (year_no y) of Some d \<Rightarrow> d | None \<Rightarrow> NaiveDate_MIN C)"

definition year_number_within_naive_date :: "('d, 's) chrono \<Rightarrow> int \<Rightarrow> bool" where
  "year_number_within_naive_date C y \<longleftrightarrow> from_yo_1 C y \<noteq> None"

definition year_from_date :: "('d, 's) chrono \<Rightarrow> 'd \<Rightarrow> year" where
  "year_from_date C d = Year_no (year_of C d)"

definition clamp_by_naive_date_range :: "('d, 's) chrono \<Rightarrow> year \<Rightarrow> year" where
  "clamp_by_naive_date_range C y =
     (if year_number_within_naive_date C (year_no y) then y
      else if 0 < year_no y then year_from_date C (NaiveDate_MAX C)
      else year_from_date C (NaiveDate_MIN C))"

definition number_within_naive_date :: "('d, 's) chrono \<Rightarrow> year \<Rightarrow> int" where
  "number_within_naive_date C y = year_no (clamp_by_naive_date_range C y)"

text \<open>\<open>i32::saturating_add\<close> and \<open>i32::saturating_sub\<close>; \<open>repeats\<close> is clamped to \<open>i32::MAX\<close>.\<close>

definition sat_i32 :: "int \<Rightarrow> int" where
  "sat_i32 x = (if x < i32_min then i32_min else if i32_max < x then i32_max else x)"

definition repeats_i32 :: "nat \<Rightarrow> int" where
  "repeats_i32 n = (if i32_max < int n then i32_max else int n)"

definition year_saturating_add :: "('d, 's) chrono \<Rightarrow> year \<Rightarrow> nat \<Rightarrow> year" where
  "year_saturating_add C y n =
     clamp_by_naive_date_range C (Year_no (sat_i32 (number_within_naive_date C y + repeats_i32 n)))"

definition year_saturating_sub :: "('d, 's) chrono \<Rightarrow> year \<Rightarrow> nat \<Rightarrow> year" where
  "year_saturating_sub C y n =
     clamp_by_naive_date_range C (Year_no (sat_i32 (number_within_naive_date C y - repeats_i32 n)))"

definition year_checked_add :: "('d, 's) chrono \<Rightarrow> year \<Rightarrow> nat \<Rightarrow> year option" where
  "year_checked_add C y n =
     (if i32_max < int n then None
      else let new_year_num = number_within_naive_date C y + int n
           in if i32_max < new_year_num then None
              else if year_number_within_naive_date C new_year_num then Some (Year_no new_year_num)
              else None)"

definition year_checked_sub :: "('d, 's) chrono \<Rightarrow> year \<Rightarrow> nat \<Rightarrow> year option" where
  "year_checked_sub C y n =
     (if i32_max < int n then None
      else let new_year_num = number_within_naive_date C y - int n
           in if new_year_num < i32_min then None
              else if year_number_within_naive_date C new_year_num then Some (Year_no new_year_num)
              else None)"

definition year_timespan :: "('d, 's) chrono \<Rightarrow> ('d, 's, int, year) timespan_impl" where
  "year_timespan C = \<lparr>
     ord_key = number_within_naive_date C,
     from_date = year_from_date C,
     into_date = (\<lambda>y. year_first_day C (clamp_by_naive_date_range C y)),
     saturating_start_timestamp = (\<lambda>y. day_start C (year_first_day C y)),
     checked_add = year_checked_add C,
     checked_sub = year_checked_sub C,
     ts_max = year_from_date C (NaiveDate_MAX C),
     ts_min = year_from_date C (NaiveDate_MIN C),
     saturating_add = year_saturating_add C,
     saturating_sub = year_saturating_sub C,
     saturating_next_timespan = (\<lambda>y. year_saturating_add C y 1),
     saturating_previous_timespan = (\<lambda>y. year_saturating_sub C y 1),
     enum_variant = Year
   \<rparr>"

section \<open>Coarser timespans consist of finer ones\<close>

text \<open>\<open>ConsistsOf\<close>: every coarser timespan of a date, and the year of a month.\<close>

record ('b, 'a) consists_of =
  from_smaller :: "'a \<Rightarrow> 'b"
  into_smaller :: "'b \<Rightarrow> 'a"

definition week_of_days :: "('d, 's) chrono \<Rightarrow> ('d week, 'd) consists_of" where
  "week_of_days C = \<lparr>from_smaller = from_date (week_timespan C), into_smaller = into_date (week_timespan C)\<rparr>"

definition month_of_days :: "('d, 's) chrono \<Rightarrow> ('d month, 'd) consists_of" where
  "month_of_days C = \<lparr>from_smaller = from_date (month_timespan C), into_smaller = into_date (month_timespan C)\<rparr>"

definition year_of_days :: "('d, 's) chrono \<Rightarrow> (year, 'd) consists_of" where
  "year_of_days C = \<lparr>from_smaller = from_date (year_timespan C), into_smaller = into_date (year_timespan C)\<rparr>"

definition year_of_months :: "('d, 's) chrono \<Rightarrow> (year, 'd month) consists_of" where
  "year_of_months C = \<lparr>
     from_smaller = (\<lambda>m. from_date (year_timespan C) (into_date (month_timespan C) m)),
     into_smaller = (\<lambda>y. from_date (month_timespan C) (into_date (year_timespan C) y))\<rparr>"

section \<open>Lengths of intervals\<close>

text \<open>\<open>ApproxUnsignedDiff\<close> for days, weeks and years (the one for months rounds a float).\<close>

definition nonneg_days :: "('d, 's) chrono \<Rightarrow> 'd \<Rightarrow> 'd \<Rightarrow> nat option" where
  "nonneg_days C a b =
     (let n = num_days_from_ce C a - num_days_from_ce C b in if 0 \<le> n then Some (nat n) else None)"

definition day_difference :: "('d, 's) chrono \<Rightarrow> 'd \<Rightarrow> 'd \<Rightarrow> nat option" where
  "day_difference C a b = nonneg_days C a b"

definition week_difference :: "('d, 's) chrono \<Rightarrow> 'd week \<Rightarrow> 'd week \<Rightarrow> nat option" where
  "week_difference C a b =
     map_option (\<lambda>n. n div 7) (nonneg_days C (saturating_first_day C a) (saturating_first_day C b))"

definition year_difference :: "('d, 's) chrono \<Rightarrow> year \<Rightarrow> year \<Rightarrow> nat option" where
  "year_difference C a b =
     (let n = sat_i32 (number_within_naive_date C a - number_within_naive_date C b)
      in if 0 \<le> n then Some (nat n) else None)"

section \<open>What the implementations promise\<close>

text \<open>
  The date of a timespan is the least date that maps to it, and the start of a timespan is
  the midnight of that date.
\<close>

locale calendar_timespan = chrono_days C + discrete_timespan T
  for C :: "('d::linorder, 's::linorder) chrono" and T :: "('d, 's, 'k::linorder, 't) timespan_impl" +
  assumes from_date_mono: "a \<le> b \<Longrightarrow> ord_key T (from_date T a) \<le> ord_key T (from_date T b)"
    and into_from_le: "into_date T (from_date T d) \<le> d"
    and from_into: "ord_key T (from_date T (into_date T t)) = ord_key T t"
    and into_key: "ord_key T t = ord_key T u \<Longrightarrow> into_date T t = into_date T u"
    and start_from_date: "saturating_start_timestamp T (from_date T d) = midnight C (into_date T (from_date T d))"
    and start_next: "saturating_start_timestamp T (saturating_next_timespan T t)
      = midnight C (into_date T (saturating_next_timespan T t))"
begin

lemma into_less: "ord_key T t < ord_key T u \<Longrightarrow> into_date T t < into_date T u"
  by (metis from_date_mono from_into leD leI)

lemma into_le_iff: "into_date T t \<le> d \<longleftrightarrow> ord_key T t \<le> ord_key T (from_date T d)"
proof
  assume "into_date T t \<le> d"
  then show "ord_key T t \<le> ord_key T (from_date T d)" using from_date_mono from_into by metis
next
  assume le: "ord_key T t \<le> ord_key T (from_date T d)"
  show "into_date T t \<le> d"
  proof (cases "ord_key T t = ord_key T (from_date T d)")
    case True
    then show ?thesis using into_key[OF True] into_from_le by simp
  next
    case False
    with le have "into_date T t < into_date T (from_date T d)" by (intro into_less) simp
    also note into_from_le
    finally show ?thesis by simp
  qed
qed

lemma time_range_partition:
  assumes "ord_key T (from_date T d) < ord_key T (ts_max T)"
  shows "s \<in> range_set (into_time_range T (from_date T d)) \<longleftrightarrow>
    ord_key T (from_date T (date_naive C s)) = ord_key T (from_date T d)"
proof -
  let ?t = "from_date T d"
  have "midnight C (into_date T ?t) \<le> s \<longleftrightarrow> ord_key T ?t \<le> ord_key T (from_date T (date_naive C s))"
    by (simp add: midnight_le into_le_iff)
  moreover have "s < midnight C (into_date T (saturating_next_timespan T ?t)) \<longleftrightarrow>
      ord_key T (from_date T (date_naive C s)) < ord_key T (saturating_next_timespan T ?t)"
    using into_le_iff[of "saturating_next_timespan T ?t" "date_naive C s"] midnight_le by (metis not_le)
  ultimately show ?thesis
    using key_next_gt_iff[OF assms, of "from_date T (date_naive C s)"]
    by (auto simp: range_set_def into_time_range_def start_from_date start_next)
qed

end

text \<open>Timespans numbered without gaps are discrete.\<close>

lemma discrete_by_index:
  fixes idx :: "'t \<Rightarrow> int"
  assumes le: "\<And>t u. ord_key T t \<le> ord_key T u \<longleftrightarrow> idx t \<le> idx u"
    and mx: "\<And>t. idx t \<le> idx (ts_max T)"
    and nx: "\<And>t. idx (saturating_next_timespan T t) = (if idx t = idx (ts_max T) then idx t else idx t + 1)"
  shows "discrete_timespan T"
proof
  fix t u a b
  have less: "ord_key T t < ord_key T u \<longleftrightarrow> idx t < idx u" for t u using le by (meson not_le)
  show "ord_key T t \<le> ord_key T (ts_max T)" by (simp add: le mx)
  show "ord_key T t \<le> ord_key T (saturating_next_timespan T t)" by (simp add: le nx)
  show "ord_key T t < ord_key T (saturating_next_timespan T t)" if "ord_key T t < ord_key T (ts_max T)"
    using that by (simp add: less nx)
  show "ord_key T (saturating_next_timespan T t) \<le> ord_key T u" if "ord_key T t < ord_key T u"
    using that by (simp add: less le nx)
  have "inj_on (\<lambda>k. idx (SOME t. ord_key T t = k)) (range (ord_key T))"
  proof (rule inj_onI)
    fix k l assume kl: "k \<in> range (ord_key T)" "l \<in> range (ord_key T)"
      and eq: "idx (SOME t. ord_key T t = k) = idx (SOME t. ord_key T t = l)"
    have "ord_key T (SOME t. ord_key T t = k) = k" "ord_key T (SOME t. ord_key T t = l) = l"
      using kl by (auto intro: someI_ex)
    with eq le show "k = l" by (metis order_antisym order_refl)
  qed
  then have inj: "inj_on (\<lambda>k. idx (SOME t. ord_key T t = k)) (between_keys T a b)"
    by (rule inj_on_subset) (auto simp: between_keys_def)
  have "(\<lambda>k. idx (SOME t. ord_key T t = k)) ` between_keys T a b \<subseteq> {idx a..idx b}"
  proof
    fix i assume "i \<in> (\<lambda>k. idx (SOME t. ord_key T t = k)) ` between_keys T a b"
    then obtain t where t: "ord_key T a \<le> ord_key T t" "ord_key T t \<le> ord_key T b"
      and i: "i = idx (SOME u. ord_key T u = ord_key T t)" by (auto simp: between_keys_def)
    have "ord_key T (SOME u. ord_key T u = ord_key T t) = ord_key T t" by (rule someI[of _ t]) simp
    with t i show "i \<in> {idx a..idx b}" by (metis le atLeastAtMost_iff)
  qed
  then show "finite (between_keys T a b)"
    using inj finite_imageD finite_subset by (metis finite_atLeastAtMost_int)
qed

text \<open>Weeks counted from the one that starts at day 1.\<close>

definition week_index :: "('d, 's) chrono \<Rightarrow> 'd \<Rightarrow> int" where
  "week_index C d = (num_days_from_ce C d - 1) div 7"

context chrono_calendar
begin

lemma num_min_max: "num_days_from_ce C (NaiveDate_MIN C) \<le> num_days_from_ce C d"
  "num_days_from_ce C d \<le> num_days_from_ce C (NaiveDate_MAX C)"
  by (simp_all add: num_le date_min date_max)

lemma week_index_bounds: "7 * week_index C d + 1 \<le> num_days_from_ce C d" "num_days_from_ce C d \<le> 7 * week_index C d + 7"
  unfolding week_index_def by auto

lemma week_index_eqI: "7 * i + 1 \<le> num_days_from_ce C d \<Longrightarrow> num_days_from_ce C d \<le> 7 * i + 7 \<Longrightarrow> week_index C d = i"
  using week_index_bounds[of d] by linarith

lemma first_day_Some: "checked_first_day C w = Some f \<longleftrightarrow> num_days_from_ce C f = 7 * week_index C (week_day w) + 1"
proof -
  have "n - (n - 1) mod 7 = 7 * ((n - 1) div 7) + 1" for n :: int
    using mult_div_mod_eq[of 7 "n - 1"] by linarith
  then show ?thesis by (simp add: checked_first_day_def week_first week_index_def)
qed

lemma first_day_None:
  "checked_first_day C w = None \<longleftrightarrow> 7 * week_index C (week_day w) + 1 < num_days_from_ce C (NaiveDate_MIN C)"
proof (cases "checked_first_day C w")
  case None
  have "\<not> num_days_from_ce C (NaiveDate_MIN C) \<le> 7 * week_index C (week_day w) + 1"
  proof
    assume "num_days_from_ce C (NaiveDate_MIN C) \<le> 7 * week_index C (week_day w) + 1"
    then obtain f where "num_days_from_ce C f = 7 * week_index C (week_day w) + 1"
      using num_onto week_index_bounds(1)[of "week_day w"] num_min_max(2)[of "week_day w"] by force
    with None first_day_Some show False by (metis option.distinct(1))
  qed
  with None show ?thesis by simp
next
  case (Some f)
  then show ?thesis using first_day_Some[of w f] num_min_max(1)[of f] by simp
qed

lemma sat_first_day_num: "num_days_from_ce C (saturating_first_day C w) =
    max (7 * week_index C (week_day w) + 1) (num_days_from_ce C (NaiveDate_MIN C))"
proof (cases "checked_first_day C w")
  case None
  then show ?thesis using first_day_None[of w] by (simp add: saturating_first_day_def)
next
  case (Some f)
  then show ?thesis
    using first_day_Some[of w f] num_min_max(1)[of f] by (simp add: saturating_first_day_def)
qed

lemma week_key_le: "checked_first_day C w \<le> checked_first_day C v \<longleftrightarrow>
    week_index C (week_day w) \<le> week_index C (week_day v)"
proof (cases "checked_first_day C w"; cases "checked_first_day C v")
  fix f assume w: "checked_first_day C w = None" and v: "checked_first_day C v = Some f"
  then show ?thesis using first_day_None[of w] first_day_Some[of v f] num_min_max(1)[of f] by simp
next
  fix f assume w: "checked_first_day C w = Some f" and v: "checked_first_day C v = None"
  then show ?thesis using first_day_None[of v] first_day_Some[of w f] num_min_max(1)[of f] by simp
next
  fix f g assume w: "checked_first_day C w = Some f" and v: "checked_first_day C v = Some g"
  then show ?thesis
    using first_day_Some[of w f] first_day_Some[of v g] by (simp add: num_le[symmetric])
next
  assume "checked_first_day C w = None" "checked_first_day C v = None"
  then show ?thesis
    using first_day_None[of w] first_day_None[of v] week_index_bounds[of "week_day w"]
      week_index_bounds[of "week_day v"] num_min_max(1)[of "week_day w"] num_min_max(1)[of "week_day v"]
    by simp
qed

lemma week_next_index:
  "week_index C (week_day (saturating_next_timespan (week_timespan C) w)) =
     (if week_index C (week_day w) = week_index C (NaiveDate_MAX C) then week_index C (week_day w)
      else week_index C (week_day w) + 1)"
proof -
  let ?first = "saturating_first_day C w" and ?i = "week_index C (week_day w)"
  have step: "saturating_next_timespan (week_timespan C) w =
      week_new (case checked_add_days C ?first 7 of Some d \<Rightarrow> d | None \<Rightarrow> NaiveDate_MAX C)"
    by (simp add: week_timespan_def default_saturating_add_def week_checked_add_def u64_max_def
        split: option.splits)
  note first = sat_first_day_num[of w] week_index_bounds[of "week_day w"]
    num_min_max[of "week_day w"] week_index_bounds[of "NaiveDate_MAX C"]
  show ?thesis
  proof (cases "checked_add_days C ?first 7")
    case None
    then have "?i = week_index C (NaiveDate_MAX C)"
      using add_days_None[of ?first 7] first date_span by simp
    with None step show ?thesis by simp
  next
    case (Some d)
    then have d: "num_days_from_ce C d = num_days_from_ce C ?first + 7" using add_days[of ?first 7 d] by simp
    then have "week_index C d = ?i + 1" using first by (intro week_index_eqI) auto
    moreover have "?i \<noteq> week_index C (NaiveDate_MAX C)" using d first num_min_max(2)[of d] by auto
    ultimately show ?thesis using Some step by simp
  qed
qed

lemma week_discrete: "discrete_timespan (week_timespan C)"
proof (rule discrete_by_index[where idx = "\<lambda>w. week_index C (week_day w)"])
  fix t u
  show "ord_key (week_timespan C) t \<le> ord_key (week_timespan C) u \<longleftrightarrow> week_index C (week_day t) \<le> week_index C (week_day u)"
    by (simp add: week_timespan_def week_key_le)
  show "week_index C (week_day t) \<le> week_index C (week_day (ts_max (week_timespan C)))"
    using num_min_max(2)[of "week_day t"] by (simp add: week_timespan_def week_index_def zdiv_mono1)
  show "week_index C (week_day (saturating_next_timespan (week_timespan C) t)) =
      (if week_index C (week_day t) = week_index C (week_day (ts_max (week_timespan C)))
       then week_index C (week_day t) else week_index C (week_day t) + 1)"
    using week_next_index[of t] by (simp add: week_timespan_def)
qed

lemma week_calendar: "calendar_timespan C (week_timespan C)"
proof (intro calendar_timespan.intro chrono_days_axioms week_discrete calendar_timespan_axioms.intro)
  fix a b d :: 'd and t u :: "'d week"
  let ?T = "week_timespan C"
  have key: "ord_key ?T = checked_first_day C" "from_date ?T = week_new" "into_date ?T = saturating_first_day C"
    by (simp_all add: week_timespan_def)
  show "ord_key ?T (from_date ?T a) \<le> ord_key ?T (from_date ?T b)" if "a \<le> b"
    using that by (simp add: key week_key_le week_index_def num_le[symmetric] zdiv_mono1)
  show "into_date ?T (from_date ?T d) \<le> d"
    using sat_first_day_num[of "week_new d"] week_index_bounds(1)[of d] num_min_max(1)[of d]
    by (simp add: key num_le[symmetric])
  show "ord_key ?T (from_date ?T (into_date ?T t)) = ord_key ?T t"
  proof -
    have "week_index C (saturating_first_day C t) = week_index C (week_day t)"
      using sat_first_day_num[of t] week_index_bounds[of "week_day t"] num_min_max(1)[of "week_day t"]
      by (intro week_index_eqI) auto
    then show ?thesis by (simp add: key order_eq_iff week_key_le)
  qed
  show "into_date ?T t = into_date ?T u" if "ord_key ?T t = ord_key ?T u"
    using that by (simp add: key saturating_first_day_def)
  show "saturating_start_timestamp ?T (from_date ?T d) = midnight C (into_date ?T (from_date ?T d))"
    "saturating_start_timestamp ?T (saturating_next_timespan ?T t)
      = midnight C (into_date ?T (saturating_next_timespan ?T t))"
    by (simp_all add: week_timespan_def day_start_def)
qed

lemma first_month_day:
  "month_number C (saturating_first_month_day C d) = month_number C d"
  "month_number C e = month_number C d \<Longrightarrow> saturating_first_month_day C d \<le> e"
  using month_day_1[of d] month_no_day_1[of d] date_min
  by (auto simp: saturating_first_month_day_def split: option.splits)

lemma month_key_le: "saturating_first_month_day C a \<le> saturating_first_month_day C b \<longleftrightarrow>
    month_number C a \<le> month_number C b"
proof
  assume "saturating_first_month_day C a \<le> saturating_first_month_day C b"
  then show "month_number C a \<le> month_number C b" using month_mono first_month_day(1) by metis
next
  assume le: "month_number C a \<le> month_number C b"
  show "saturating_first_month_day C a \<le> saturating_first_month_day C b"
  proof (cases "month_number C a = month_number C b")
    case True
    then show ?thesis using first_month_day(1)[of b] by (intro first_month_day(2)) simp
  next
    case False
    with le month_mono[of "saturating_first_month_day C b" "saturating_first_month_day C a"]
    show ?thesis by (simp add: first_month_day(1)) (meson le_cases not_le order_antisym)
  qed
qed

lemma month_next_number:
  "month_number C (date_in_month (saturating_next_timespan (month_timespan C) m)) =
     (if month_number C (date_in_month m) = month_number C (NaiveDate_MAX C)
      then month_number C (date_in_month m) else month_number C (date_in_month m) + 1)"
proof -
  let ?d = "date_in_month m"
  have step: "saturating_next_timespan (month_timespan C) m = month_from_date C
      (case checked_add_months C ?d 1 of Some e \<Rightarrow> e | None \<Rightarrow> NaiveDate_MAX C)"
    by (simp add: month_timespan_def default_saturating_add_def month_checked_add_def u32_max_def
        split: option.splits)
  note mx = month_mono[OF date_max]
  show ?thesis
  proof (cases "checked_add_months C ?d 1")
    case None
    then show ?thesis
      using add_months_None[OF None] mx[of ?d] by (simp add: step month_from_date_def first_month_day)
  next
    case (Some e)
    then show ?thesis
      using add_months[OF Some] mx[of e] by (simp add: step month_from_date_def first_month_day)
  qed
qed

lemma month_discrete: "discrete_timespan (month_timespan C)"
proof (rule discrete_by_index[where idx = "\<lambda>m. month_number C (date_in_month m)"])
  fix t u
  show "ord_key (month_timespan C) t \<le> ord_key (month_timespan C) u \<longleftrightarrow>
      month_number C (date_in_month t) \<le> month_number C (date_in_month u)"
    by (simp add: month_timespan_def month_first_day_def month_key_le)
  show "month_number C (date_in_month t) \<le> month_number C (date_in_month (ts_max (month_timespan C)))"
    using month_mono[OF date_max] by (simp add: month_timespan_def month_from_date_def first_month_day)
  show "month_number C (date_in_month (saturating_next_timespan (month_timespan C) t)) =
      (if month_number C (date_in_month t) = month_number C (date_in_month (ts_max (month_timespan C)))
       then month_number C (date_in_month t) else month_number C (date_in_month t) + 1)"
    using month_next_number[of t] by (simp add: month_timespan_def month_from_date_def first_month_day)
qed

lemma month_calendar: "calendar_timespan C (month_timespan C)"
proof (intro calendar_timespan.intro chrono_days_axioms month_discrete calendar_timespan_axioms.intro)
  fix a b d :: 'd and t u :: "'d month"
  let ?T = "month_timespan C" and ?f = "saturating_first_month_day C"
  have idem: "?f (?f d) = ?f d" for d
    by (rule order_antisym) (simp_all add: month_key_le first_month_day)
  show "ord_key ?T (from_date ?T a) \<le> ord_key ?T (from_date ?T b)" if "a \<le> b"
    using month_mono[OF that]
    by (simp add: month_timespan_def month_first_day_def month_from_date_def month_key_le first_month_day)
  show "into_date ?T (from_date ?T d) \<le> d"
    by (simp add: month_timespan_def month_first_day_def month_from_date_def idem first_month_day)
  show "ord_key ?T (from_date ?T (into_date ?T t)) = ord_key ?T t"
    by (simp add: month_timespan_def month_first_day_def month_from_date_def idem)
  show "into_date ?T t = into_date ?T u" if "ord_key ?T t = ord_key ?T u"
    using that by (simp add: month_timespan_def)
  show "saturating_start_timestamp ?T (from_date ?T d) = midnight C (into_date ?T (from_date ?T d))"
    "saturating_start_timestamp ?T (saturating_next_timespan ?T t)
      = midnight C (into_date ?T (saturating_next_timespan ?T t))"
    by (simp_all add: month_timespan_def day_start_def)
qed

lemma year_within_iff: "year_number_within_naive_date C y \<longleftrightarrow>
    year_of C (NaiveDate_MIN C) \<le> y \<and> y \<le> year_of C (NaiveDate_MAX C)"
  using year_first_None[of y] by (auto simp: year_number_within_naive_date_def)

lemma year_bounds: "year_of C (NaiveDate_MIN C) \<le> year_of C d" "year_of C d \<le> year_of C (NaiveDate_MAX C)"
  by (simp_all add: year_mono date_min date_max)

lemma number_within: "number_within_naive_date C y =
    (if year_no y < year_of C (NaiveDate_MIN C) then year_of C (NaiveDate_MIN C)
     else if year_of C (NaiveDate_MAX C) < year_no y then year_of C (NaiveDate_MAX C) else year_no y)"
  using year_sign
  by (auto simp: number_within_naive_date_def clamp_by_naive_date_range_def year_within_iff year_from_date_def)

lemma number_within_bounds: "year_of C (NaiveDate_MIN C) \<le> number_within_naive_date C y"
  "number_within_naive_date C y \<le> year_of C (NaiveDate_MAX C)"
  using year_bounds[of "NaiveDate_MAX C"] by (auto simp: number_within)

lemma number_within_idem: "number_within_naive_date C (clamp_by_naive_date_range C y) = number_within_naive_date C y"
  using number_within_bounds[of y] by (simp add: number_within[of "clamp_by_naive_date_range C y"])
    (simp add: number_within_naive_date_def)

lemma year_next_number: "number_within_naive_date C (saturating_next_timespan (year_timespan C) y) =
    (if number_within_naive_date C y = year_of C (NaiveDate_MAX C) then number_within_naive_date C y
     else number_within_naive_date C y + 1)"
proof -
  have "sat_i32 (number_within_naive_date C y + repeats_i32 1) = number_within_naive_date C y + 1"
    using number_within_bounds[of y] year_width by (simp add: sat_i32_def repeats_i32_def i32_max_def)
  then show ?thesis
    using number_within_bounds[of y] year_bounds[of "NaiveDate_MAX C"]
    by (simp add: year_timespan_def year_saturating_add_def number_within_idem)
      (simp add: number_within[of "Year_no _"])
qed

lemma year_discrete: "discrete_timespan (year_timespan C)"
proof (rule discrete_by_index[where idx = "number_within_naive_date C"])
  have mx: "number_within_naive_date C (ts_max (year_timespan C)) = year_of C (NaiveDate_MAX C)"
    using year_bounds(1)[of "NaiveDate_MAX C"]
    by (simp add: year_timespan_def year_from_date_def number_within)
  fix t u
  show "ord_key (year_timespan C) t \<le> ord_key (year_timespan C) u \<longleftrightarrow>
      number_within_naive_date C t \<le> number_within_naive_date C u"
    by (simp add: year_timespan_def)
  show "number_within_naive_date C t \<le> number_within_naive_date C (ts_max (year_timespan C))"
    by (simp add: mx number_within_bounds)
  show "number_within_naive_date C (saturating_next_timespan (year_timespan C) t) =
      (if number_within_naive_date C t = number_within_naive_date C (ts_max (year_timespan C))
       then number_within_naive_date C t else number_within_naive_date C t + 1)"
    by (simp add: mx year_next_number)
qed

lemma number_within_date: "number_within_naive_date C (year_from_date C d) = year_of C d"
  using year_bounds[of d] by (simp add: number_within year_from_date_def)

lemma clamp_date: "clamp_by_naive_date_range C (year_from_date C d) = year_from_date C d"
  using year_bounds[of d] by (simp add: clamp_by_naive_date_range_def year_within_iff year_from_date_def)

lemma year_first_day_clamped:
  obtains f where "year_first_day C (clamp_by_naive_date_range C y) = f"
    "from_yo_1 C (number_within_naive_date C y) = Some f"
proof -
  have "from_yo_1 C (number_within_naive_date C y) \<noteq> None"
    using number_within_bounds[of y] by (simp add: year_first_None)
  then obtain f where "from_yo_1 C (number_within_naive_date C y) = Some f" by blast
  then show thesis using that by (simp add: year_first_day_def number_within_naive_date_def)
qed

lemma year_calendar: "calendar_timespan C (year_timespan C)"
proof (intro calendar_timespan.intro chrono_days_axioms year_discrete calendar_timespan_axioms.intro)
  fix a b d :: 'd and t u :: year
  let ?T = "year_timespan C"
  have key: "ord_key ?T = number_within_naive_date C" "from_date ?T = year_from_date C"
    "into_date ?T y = year_first_day C (clamp_by_naive_date_range C y)" for y
    by (simp_all add: year_timespan_def)
  show "ord_key ?T (from_date ?T a) \<le> ord_key ?T (from_date ?T b)" if "a \<le> b"
    using that by (simp add: key number_within_date year_mono)
  show "into_date ?T (from_date ?T d) \<le> d"
    by (rule year_first_day_clamped[of "year_from_date C d"])
      (use year_first[of "year_of C d" _ d] in \<open>simp add: key number_within_date\<close>)
  show "ord_key ?T (from_date ?T (into_date ?T t)) = ord_key ?T t"
    by (rule year_first_day_clamped[of t]) (simp add: key number_within_date year_of_first)
  show "into_date ?T t = into_date ?T u" if "ord_key ?T t = ord_key ?T u"
    by (rule year_first_day_clamped[of t], rule year_first_day_clamped[of u]) (use that in \<open>simp add: key\<close>)
  show "saturating_start_timestamp ?T (from_date ?T d) = midnight C (into_date ?T (from_date ?T d))"
    by (simp add: year_timespan_def day_start_def clamp_date)
  have idem: "clamp_by_naive_date_range C (clamp_by_naive_date_range C y) = clamp_by_naive_date_range C y" for y
    by (simp add: clamp_by_naive_date_range_def[of C y] clamp_date)
  show "saturating_start_timestamp ?T (saturating_next_timespan ?T t)
      = midnight C (into_date ?T (saturating_next_timespan ?T t))"
    by (simp add: year_timespan_def day_start_def year_saturating_add_def idem)
qed

end

context chrono_days
begin

lemma day_calendar: "calendar_timespan C (day_timespan C)"
  by (intro calendar_timespan.intro chrono_days_axioms day_discrete calendar_timespan_axioms.intro)
    (simp_all add: day_timespan_def day_start_def)

end

sublocale chrono_calendar \<subseteq> week: calendar_timespan C "week_timespan C"
  by (rule week_calendar)

sublocale chrono_calendar \<subseteq> month: calendar_timespan C "month_timespan C"
  by (rule month_calendar)

sublocale chrono_calendar \<subseteq> year: calendar_timespan C "year_timespan C"
  by (rule year_calendar)

interpretation civil_day: calendar_timespan civil "day_timespan civil"
  by (rule civil.day_calendar)

interpretation civil_week: calendar_timespan civil "week_timespan civil"
  by (rule civil_calendar.week_calendar)

interpretation civil_month: calendar_timespan civil "month_timespan civil"
  by (rule civil_calendar.month_calendar)

interpretation civil_year: calendar_timespan civil "year_timespan civil"
  by (rule civil_calendar.year_calendar)

section \<open>Properties of the calendar timespans\<close>

text \<open>the time range of a day, week, month or year contains exactly the timestamps whose date
  maps to that timespan, so the ranges of one resolution partition time. Only the range of the
  last timespan of the calendar is cut off.\<close>

theorem time_ranges_partition:
  assumes "chrono_calendar C"
    and "d < NaiveDate_MAX C"
    and "ord_key (week_timespan C) (from_date (week_timespan C) d) < ord_key (week_timespan C) (ts_max (week_timespan C))"
    and "ord_key (month_timespan C) (from_date (month_timespan C) d) < ord_key (month_timespan C) (ts_max (month_timespan C))"
    and "ord_key (year_timespan C) (from_date (year_timespan C) d) < ord_key (year_timespan C) (ts_max (year_timespan C))"
  shows "(s \<in> range_set (into_time_range (day_timespan C) d) \<longleftrightarrow> date_naive C s = d)
    \<and> (s \<in> range_set (into_time_range (week_timespan C) (from_date (week_timespan C) d)) \<longleftrightarrow>
        ord_key (week_timespan C) (from_date (week_timespan C) (date_naive C s))
          = ord_key (week_timespan C) (from_date (week_timespan C) d))
    \<and> (s \<in> range_set (into_time_range (month_timespan C) (from_date (month_timespan C) d)) \<longleftrightarrow>
        ord_key (month_timespan C) (from_date (month_timespan C) (date_naive C s))
          = ord_key (month_timespan C) (from_date (month_timespan C) d))
    \<and> (s \<in> range_set (into_time_range (year_timespan C) (from_date (year_timespan C) d)) \<longleftrightarrow>
        ord_key (year_timespan C) (from_date (year_timespan C) (date_naive C s))
          = ord_key (year_timespan C) (from_date (year_timespan C) d))"
proof -
  have days: "chrono_days C" using assms(1) by (rule chrono_calendar.axioms)
  have day: "s \<in> range_set (into_time_range (day_timespan C) d) \<longleftrightarrow> date_naive C s = d"
    using calendar_timespan.time_range_partition[OF chrono_days.day_calendar[OF days], of d s] assms(2)
    by (simp add: day_timespan_def)
  show ?thesis
    using day
      calendar_timespan.time_range_partition[OF chrono_calendar.week_calendar[OF assms(1)] assms(3), of s]
      calendar_timespan.time_range_partition[OF chrono_calendar.month_calendar[OF assms(1)] assms(4), of s]
      calendar_timespan.time_range_partition[OF chrono_calendar.year_calendar[OF assms(1)] assms(5), of s]
    by blast
qed

theorem time_ranges_partition_witness:
  "(of_ns (738001 * day_ns + 5) \<in> range_set (into_time_range (day_timespan civil) (of_day 738000)) \<longleftrightarrow> False)
    \<and> (of_ns (738001 * day_ns + 5) \<in> range_set (into_time_range (week_timespan civil)
          (from_date (week_timespan civil) (of_day 738000))) \<longleftrightarrow>
        ord_key (week_timespan civil) (from_date (week_timespan civil) (of_day 738001))
          = ord_key (week_timespan civil) (from_date (week_timespan civil) (of_day 738000)))"
proof -
  have date: "date_naive civil (of_ns (738001 * day_ns + 5)) = of_day 738001" by (simp add: civil_eval)
  have ne: "of_day 738001 \<noteq> of_day 738000" by (simp add: civil_eval)
  have y: "civil_year 738000 = 2021" by (simp add: civil_year_def year_start_def)
  have m: "month_index 738000 = 24258"
    by (simp add: month_index_def y year_start_def month_offset_def leap_year_def upt_rec)
  have mx: "month_index civil_max = 3145715"
    by (rule month_index_unique)
      (simp_all add: month_first_def year_start_def month_offset_def leap_year_def civil_max_def)
  have d: "of_day 738000 < NaiveDate_MAX civil" by (simp add: civil_eval)
  have w: "ord_key (week_timespan civil) (from_date (week_timespan civil) (of_day 738000))
      < ord_key (week_timespan civil) (ts_max (week_timespan civil))"
    by (simp add: week_timespan_def checked_first_day_def) (simp add: civil_eval)
  have nos: "day_no (of_day 738000) = 738000" "day_no (NaiveDate_MAX civil) = civil_max"
    by (simp_all add: civil_eval)
  have yrs: "year_of civil (of_day 738000) = 2021" "year_of civil (NaiveDate_MAX civil) = 262142"
    using nos y civil_years by (simp_all add: civil_def)
  have mo: "ord_key (month_timespan civil) (from_date (month_timespan civil) (of_day 738000))
      < ord_key (month_timespan civil) (ts_max (month_timespan civil))"
    unfolding not_le[symmetric]
    by (simp add: month_timespan_def month_first_day_def month_from_date_def civil_calendar.month_key_le
        civil_calendar.first_month_day)
      (simp add: civil_month_number nos m mx)
  have yr: "ord_key (year_timespan civil) (from_date (year_timespan civil) (of_day 738000))
      < ord_key (year_timespan civil) (ts_max (year_timespan civil))"
    by (simp add: year_timespan_def civil_calendar.number_within_date yrs)
  show ?thesis
    using time_ranges_partition[OF civil_calendar.chrono_calendar_axioms d w mo yr,
        of "of_ns (738001 * day_ns + 5)"] date ne by simp
qed

text \<open>C39: days, weeks, months and years satisfy the contract of the trait \<open>Timespan\<close>: timespans are
  totally ordered and discrete, \<open>saturating_next_timespan\<close> moves to the immediate successor and
  stays put only at the maximum, \<open>from_date\<close> is monotone, \<open>into_date\<close> gives the least date of
  the timespan, and \<open>from_date\<close> of the date stored for a timespan gives back an equal timespan.\<close>

theorem timespans_are_lawful:
  assumes "chrono_calendar C"
  shows "calendar_timespan C (day_timespan C) \<and> calendar_timespan C (week_timespan C)
    \<and> calendar_timespan C (month_timespan C) \<and> calendar_timespan C (year_timespan C)"
  using chrono_days.day_calendar[OF chrono_calendar.axioms(1)[OF assms]]
    chrono_calendar.week_calendar[OF assms] chrono_calendar.month_calendar[OF assms]
    chrono_calendar.year_calendar[OF assms]
  by blast

theorem timespans_are_lawful_witness:
  "chrono_calendar civil \<and> calendar_timespan civil (week_timespan civil)
    \<and> calendar_timespan civil (month_timespan civil) \<and> calendar_timespan civil (year_timespan civil)"
  using timespans_are_lawful[OF civil_calendar.chrono_calendar_axioms] civil_calendar.chrono_calendar_axioms
  by blast

end
