(* ===== verification/Stats_Sources.thy ===== *)
theory Stats_Sources
  imports Complex_Main Stats_Range Stats_Missing Stats_Calendar
begin

text \<open>
  Data sources built from other data sources
  (\<^verbatim>\<open>stats/stats/src/data_source/kinds/data_manipulation\<close> and \<^verbatim>\<open>auxiliary\<close>): lower
  resolutions, differences, running sums, filters and the mapped sources.

  A data source is the function from the requested range of timestamps to the data or an
  error that its \<open>query_data\<close> computes in one update context; an adapter is a function on data
  sources. Floating point values are real numbers: the rounding of \<open>f64\<close> is not modelled.
\<close>

section \<open>Sources\<close>

type_synonym ('s, 'db, 'a) data_source = "'s universal_range \<Rightarrow> ('db chart_error, 'a) result"

type_synonym ('s, 'db, 't, 'v) vec_source = "('s, 'db, ('t, 'v) timespan_value list) data_source"

definition range_contains :: "'a::linorder universal_range \<Rightarrow> 'a \<Rightarrow> bool" where
  "range_contains r x =
     ((case ur_start r of Some s \<Rightarrow> s \<le> x | None \<Rightarrow> True)
      \<and> (case ur_end r of Included e \<Rightarrow> x \<le> e | Excluded e \<Rightarrow> x < e | Unbounded \<Rightarrow> True))"

section \<open>Lower resolutions\<close>

definition date_range_to_timespan ::
  "('d, 's) chrono \<Rightarrow> ('d, 's, 'k, 't) timespan_impl \<Rightarrow> 's universal_range \<Rightarrow> 't universal_range" where
  "date_range_to_timespan C T r =
     (let (start, end_inclusive) = into_inclusive_pair (datetime_steps C) r
      in universal_of_option_inclusive (RangeInclusive
           (map_option (\<lambda>s. from_date T (date_naive C s)) start)
           (map_option (\<lambda>e. from_date T (date_naive C e)) end_inclusive)))"

definition extend_to_timespan_boundaries ::
  "('d, 's) chrono \<Rightarrow> ('d, 's, 'k, 't) timespan_impl \<Rightarrow> 's universal_range \<Rightarrow> 's universal_range" where
  "extend_to_timespan_boundaries C T r =
     (let (start, end) = into_inclusive_pair (timespan_steps T) (date_range_to_timespan C T r)
      in universal_of_option_range (Range
           (map_option (saturating_start_timestamp T) start)
           (map_option (\<lambda>e. saturating_start_timestamp T (saturating_next_timespan T e)) end)))"

text \<open>
  The loop of \<open>reduce_each_timespan\<close>; \<open>eq_key\<close> is the key that \<open>==\<close> of the larger timespans
  compares.
\<close>

fun reduce_loop ::
  "('l \<Rightarrow> 'k) \<Rightarrow> ('p \<Rightarrow> 'l) \<Rightarrow> ('p list \<Rightarrow> 'r) \<Rightarrow> 'p list \<Rightarrow> 'l \<Rightarrow> 'p list \<Rightarrow> 'r list \<Rightarrow> 'r list" where
  "reduce_loop eq_key timespan_mapping reduce_timespan [] current_l current_l_points result =
     (if current_l_points = [] then result else result @ [reduce_timespan current_l_points])"
| "reduce_loop eq_key timespan_mapping reduce_timespan (point # points) current_l current_l_points result =
     (let this_l = timespan_mapping point
      in if eq_key this_l \<noteq> eq_key current_l
         then reduce_loop eq_key timespan_mapping reduce_timespan points this_l [point]
                (result @ [reduce_timespan current_l_points])
         else reduce_loop eq_key timespan_mapping reduce_timespan points current_l
                (current_l_points @ [point]) result)"

definition reduce_each_timespan ::
  "('l \<Rightarrow> 'k) \<Rightarrow> 'p list \<Rightarrow> ('p \<Rightarrow> 'l) \<Rightarrow> ('p list \<Rightarrow> 'r) \<Rightarrow> 'r list" where
  "reduce_each_timespan eq_key ps timespan_mapping reduce_timespan =
     (case ps of
        [] \<Rightarrow> []
      | p # _ \<Rightarrow> reduce_loop eq_key timespan_mapping reduce_timespan ps (timespan_mapping p) [] [])"

text \<open>\<open>into_iter().flatten()\<close> on a list of options.\<close>

definition flatten :: "'a option list \<Rightarrow> 'a list" where
  "flatten xs = concat (map (\<lambda>x. case x of Some y \<Rightarrow> [y] | None \<Rightarrow> []) xs)"

text \<open>The closure of \<open>lower_res_average_from\<close>: the weighted sum and the total weight.\<close>

fun average_loop :: "('h \<times> (real, int) either_or_both) list \<Rightarrow> real \<Rightarrow> int \<Rightarrow> real \<times> int" where
  "average_loop [] weight_times_avg_sum total_weight = (weight_times_avg_sum, total_weight)"
| "average_loop ((h, Both avg weight) # xs) weight_times_avg_sum total_weight =
     average_loop xs (weight_times_avg_sum + avg * of_int weight) (total_weight + weight)"
| "average_loop ((h, LeftOnly v) # xs) weight_times_avg_sum total_weight =
     average_loop xs weight_times_avg_sum total_weight"
| "average_loop ((h, RightOnly weight) # xs) weight_times_avg_sum total_weight =
     average_loop xs weight_times_avg_sum (total_weight + weight)"

definition average_point ::
  "('l, 'h) consists_of \<Rightarrow> ('h \<times> (real, int) either_or_both) list \<Rightarrow> ('l, real) timespan_value option" where
  "average_point L data_for_one_l_res =
     (case data_for_one_l_res of
        [] \<Rightarrow> None
      | (first_h_res, _) # _ \<Rightarrow>
          (let (weight_times_avg_sum, total_weight) = average_loop data_for_one_l_res 0 0
           in if total_weight \<noteq> 0
              then Some \<lparr>timespan = from_smaller L first_h_res,
                         tv_value = weight_times_avg_sum / of_int total_weight\<rparr>
              else None))"

definition lower_res_average_from ::
  "('d, 's, 'kh::linorder, 'h) timespan_impl \<Rightarrow> ('l \<Rightarrow> 'k) \<Rightarrow> ('l, 'h) consists_of
     \<Rightarrow> ('h, real) timespan_value list \<Rightarrow> ('h, int) timespan_value list \<Rightarrow> ('l, real) timespan_value list" where
  "lower_res_average_from H eq_key L h_res_average h_res_weight =
     flatten (reduce_each_timespan eq_key (zip_same_timespan H h_res_average h_res_weight)
       (\<lambda>(h_res, _). from_smaller L h_res) (average_point L))"

definition average_lower_resolution ::
  "('d, 's) chrono \<Rightarrow> ('d, 's, 'kh::linorder, 'h) timespan_impl \<Rightarrow> ('d, 's, 'k, 'l) timespan_impl
     \<Rightarrow> ('l, 'h) consists_of \<Rightarrow> ('s, 'db, 'h, real) vec_source \<Rightarrow> ('s, 'db, 'h, int) vec_source
     \<Rightarrow> ('s, 'db, 'l, real) vec_source" where
  "average_lower_resolution C H T L avg weight r =
     (let time_range_for_lower_res = extend_to_timespan_boundaries C T r
      in try_bind (avg time_range_for_lower_res) (\<lambda>high_res_averages.
         try_bind (weight time_range_for_lower_res) (\<lambda>weights.
           Ok (lower_res_average_from H (ord_key T) L high_res_averages weights))))"

definition last_value_point ::
  "('l, 'h) consists_of \<Rightarrow> ('h, 'v) timespan_value list \<Rightarrow> ('l, 'v) timespan_value option" where
  "last_value_point L a =
     (if a = [] then None
      else Some \<lparr>timespan = from_smaller L (timespan (last a)), tv_value = tv_value (last a)\<rparr>)"

definition last_value_lower_resolution ::
  "('d, 's) chrono \<Rightarrow> ('d, 's, 'k, 'l) timespan_impl \<Rightarrow> ('l, 'h) consists_of \<Rightarrow> ('s, 'db, 'h, 'v) vec_source
     \<Rightarrow> ('s, 'db, 'l, 'v) vec_source" where
  "last_value_lower_resolution C T L ds r =
     try_bind (ds (extend_to_timespan_boundaries C T r)) (\<lambda>high_res_data.
       Ok (flatten (reduce_each_timespan (ord_key T) high_res_data
             (\<lambda>t. from_smaller L (timespan t)) (last_value_point L))))"

definition sum_lower_point ::
  "('l, 'h) consists_of \<Rightarrow> ('h, 'v::comm_monoid_add) timespan_value list \<Rightarrow> ('l, 'v) timespan_value option" where
  "sum_lower_point L data_for_one_l_res =
     (case data_for_one_l_res of
        [] \<Rightarrow> None
      | p # _ \<Rightarrow> Some \<lparr>timespan = from_smaller L (timespan p),
                       tv_value = foldl (\<lambda>total q. total + tv_value q) 0 data_for_one_l_res\<rparr>)"

definition sum_lower_resolution ::
  "('d, 's) chrono \<Rightarrow> ('d, 's, 'k, 'l) timespan_impl \<Rightarrow> ('l, 'h) consists_of
     \<Rightarrow> ('s, 'db, 'h, 'v::comm_monoid_add) vec_source \<Rightarrow> ('s, 'db, 'l, 'v) vec_source" where
  "sum_lower_resolution C T L ds r =
     try_bind (ds (extend_to_timespan_boundaries C T r)) (\<lambda>high_res_data.
       Ok (flatten (reduce_each_timespan (ord_key T) high_res_data
             (\<lambda>t. from_smaller L (timespan t)) (sum_lower_point L))))"

section \<open>Differences and sums\<close>

definition delta_source ::
  "('d, 's::linorder) chrono \<Rightarrow> ('d, 's, 'k, 't) timespan_impl \<Rightarrow> ('s, 'db, 't, 'v::ab_group_add) vec_source
     \<Rightarrow> ('s, 'db, 't, 'v) vec_source" where
  "delta_source C T ds r =
     (let request_range = r\<lparr>ur_start := map_option (\<lambda>s. case sub_one_day C s of
                                Some t \<Rightarrow> t | None \<Rightarrow> MIN_UTC C) (ur_start r)\<rparr>;
          start_is_bounded = (ur_start request_range \<noteq> None)
      in try_bind (ds request_range) (\<lambda>cum_data.
           let first_point_is_outside_range =
                 (case cum_data of [] \<Rightarrow> False
                  | first # _ \<Rightarrow> \<not> range_contains r (day_start C (into_date T (timespan first))))
           in if start_is_bounded \<and> first_point_is_outside_range
              then (case cum_data of
                      [] \<Rightarrow> Ok []
                    | range_first # rest \<Rightarrow> deltas rest (tv_value range_first))
              else deltas cum_data 0))"

definition partial_cumulative ::
  "('s, 'db, 't, 'v::comm_monoid_add) vec_source \<Rightarrow> ('s, 'db, 't, 'v) vec_source" where
  "partial_cumulative delta r = try_bind (delta r) (\<lambda>delta_data. cumsum delta_data 0)"

definition sum_source ::
  "('d, 's) chrono \<Rightarrow> ('d, 's, 'k::linorder, 't) timespan_impl \<Rightarrow> ('s, 'db, 't, 'v::comm_monoid_add) vec_source
     \<Rightarrow> ('s, 'db, ('t, 'v) timespan_value) data_source" where
  "sum_source C T ds r = try_bind (ds full_range) (\<lambda>full_data. sum_points C T full_data 0)"

text \<open>\<open>time\<close> is the time of the update context.\<close>

definition last_point_source ::
  "('d, 's) chrono \<Rightarrow> ('d, 's, 'k, 't) timespan_impl \<Rightarrow> 'v \<Rightarrow> 's \<Rightarrow> ('s, 'db, 't, 'v) vec_source
     \<Rightarrow> ('s, 'db, ('t, 'v) timespan_value) data_source" where
  "last_point_source C T zero time ds r =
     try_bind (ds (universal_of_range (Range (day_start C (date_naive C time)) time))) (\<lambda>data.
       Ok (if data = [] then with_zero_value zero (from_date T (date_naive C time)) else last data))"

section \<open>Points that can be deduced\<close>

fun filter_equal_loop ::
  "('t, 'v) timespan_value list \<Rightarrow> ('t, 'v) timespan_value \<Rightarrow> ('t, 'v) timespan_value list \<Rightarrow> ('t, 'v) timespan_value list" where
  "filter_equal_loop [] previous result = result"
| "filter_equal_loop (nxt # data) previous result =
     (if tv_value nxt \<noteq> tv_value previous
      then filter_equal_loop data nxt (result @ [nxt])
      else filter_equal_loop data previous result)"

definition filter_deducible_data ::
  "missing_date_policy \<Rightarrow> 'v \<Rightarrow> ('t, 'v) timespan_value list \<Rightarrow> ('t, 'v) timespan_value list" where
  "filter_deducible_data policy zero data =
     (case policy of
        FillZero \<Rightarrow> filter (\<lambda>p. tv_value p \<noteq> zero) data
      | FillPrevious \<Rightarrow> (case data of [] \<Rightarrow> [] | previous # rest \<Rightarrow> filter_equal_loop rest previous [previous]))"

definition filter_deducible ::
  "missing_date_policy \<Rightarrow> 'v \<Rightarrow> ('s, 'db, 't, 'v) vec_source \<Rightarrow> ('s, 'db, 't, 'v) vec_source" where
  "filter_deducible policy zero ds r =
     try_bind (ds r) (\<lambda>data. Ok (filter_deducible_data policy zero data))"

section \<open>Mapped sources\<close>

definition map_source ::
  "('a \<Rightarrow> ('db chart_error, 'b) result) \<Rightarrow> ('s, 'db, 'a) data_source \<Rightarrow> ('s, 'db, 'b) data_source" where
  "map_source f d r = try_bind (d r) f"

definition calculate_average :: "real \<Rightarrow> real \<Rightarrow> real" where
  "calculate_average dividend divisor = (if divisor > 0 then dividend / divisor else 0)"

definition average_from_either_or_both ::
  "'t \<Rightarrow> (real, real) either_or_both \<Rightarrow> ('t, real) timespan_value option" where
  "average_from_either_or_both t values =
     (case values of
        Both dividend divisor \<Rightarrow> Some \<lparr>timespan = t, tv_value = calculate_average dividend divisor\<rparr>
      | RightOnly _ \<Rightarrow> Some \<lparr>timespan = t, tv_value = 0\<rparr>
      | LeftOnly _ \<Rightarrow> None)"

definition division_by_zero_message :: string where
  "division_by_zero_message = ''Encountered zero/absent divisor when calculating the fraction''"

definition divide_points ::
  "('d, 's, 'k::linorder, 't) timespan_impl \<Rightarrow> ('t, real) timespan_value \<times> ('t, real) timespan_value
     \<Rightarrow> ('db chart_error, ('t, real) timespan_value) result" where
  "divide_points T inner_data =
     (let a = fst inner_data; b = snd inner_data;
          (t, values) = (case cmp (ord_key T (timespan a)) (ord_key T (timespan b)) of
              Equal \<Rightarrow> (timespan a, Both (tv_value a) (tv_value b))
            | Less \<Rightarrow> (timespan a, LeftOnly (tv_value a))
            | Greater \<Rightarrow> (timespan b, RightOnly (tv_value b)))
      in case average_from_either_or_both t values of
           Some p \<Rightarrow> Ok p
         | None \<Rightarrow> Err (Internal division_by_zero_message))"

definition divide_vectors ::
  "('d, 's, 'k::linorder, 't) timespan_impl \<Rightarrow> ('t, real) timespan_value list \<times> ('t, real) timespan_value list
     \<Rightarrow> ('db chart_error, ('t, real) timespan_value list) result" where
  "divide_vectors T inner_data =
     Ok (flatten (map (\<lambda>(t, values). average_from_either_or_both t values)
       (zip_same_timespan T (fst inner_data) (snd inner_data))))"

text \<open>\<open>parse\<close> is \<open>FromStr::from_str\<close> of the value type, with the displayed error.\<close>

definition parse_point ::
  "(string \<Rightarrow> (string, 'v) result) \<Rightarrow> ('t, string) timespan_value
     \<Rightarrow> ('db chart_error, ('t, 'v) timespan_value) result" where
  "parse_point parse p =
     (case parse (tv_value p) of
        Inl e \<Rightarrow> Err (Internal (''failed to parse values of dependency: '' @ e))
      | Inr v \<Rightarrow> Ok \<lparr>timespan = timespan p, tv_value = v\<rparr>)"

fun parse_points ::
  "(string \<Rightarrow> (string, 'v) result) \<Rightarrow> ('t, string) timespan_value list
     \<Rightarrow> ('db chart_error, ('t, 'v) timespan_value list) result" where
  "parse_points parse [] = Ok []"
| "parse_points parse (p # ps) =
     try_bind (parse_point parse p) (\<lambda>q. try_bind (parse_points parse ps) (\<lambda>qs. Ok (q # qs)))"

definition strip_extension ::
  "('t, 'v) extended_timespan_value list \<Rightarrow> ('db chart_error, ('t, 'v) timespan_value list) result" where
  "strip_extension inner_data = Ok (map into_timespan_value inner_data)"

definition unwrap_or_points ::
  "'v \<Rightarrow> ('t, 'v option) timespan_value list \<Rightarrow> ('db chart_error, ('t, 'v) timespan_value list) result" where
  "unwrap_or_points dflt inner_data =
     Ok (map (\<lambda>p. \<lparr>timespan = timespan p,
                   tv_value = (case tv_value p of Some v \<Rightarrow> v | None \<Rightarrow> dflt)\<rparr>) inner_data)"

definition to_string_points ::
  "('v \<Rightarrow> string) \<Rightarrow> ('t, 'v) timespan_value list \<Rightarrow> ('db chart_error, ('t, string) timespan_value list) result" where
  "to_string_points to_string inner_data =
     Ok (map (\<lambda>p. \<lparr>timespan = timespan p, tv_value = to_string (tv_value p)\<rparr>) inner_data)"

section \<open>Grouping\<close>

lemma sorted_list_of_set_least:
  assumes "finite A" "\<forall>z \<in> A. x < z"
  shows "sorted_list_of_set (insert x A) = x # sorted_list_of_set A"
  using assms by (subst sorted_list_of_set_insert) (auto intro!: insort_is_Cons less_imp_le)

lemma reduce_loop_groups:
  fixes eq_key :: "'l \<Rightarrow> 'k::linorder" and timespan_mapping
  defines "key \<equiv> \<lambda>p. eq_key (timespan_mapping p)"
  assumes "\<forall>q \<in> set pts. key q = eq_key cl"
    and "pts \<noteq> [] \<or> (\<exists>q qs. ps = q # qs \<and> key q = eq_key cl) \<or> ps = []"
    and "sorted (map key (pts @ ps))"
  shows "reduce_loop eq_key timespan_mapping red ps cl pts res =
    res @ map (\<lambda>k. red (filter (\<lambda>p. key p = k) (pts @ ps))) (sorted_list_of_set (key ` set (pts @ ps)))"
  using assms(2-)
proof (induction ps arbitrary: cl pts res)
  case Nil
  show ?case
  proof (cases "pts = []")
    case False
    then have "key ` set pts = {eq_key cl}" using Nil(1) by (cases pts) auto
    moreover have "filter (\<lambda>p. key p = eq_key cl) pts = pts" using Nil(1) by (simp add: filter_id_conv)
    ultimately show ?thesis using False by simp
  qed simp
next
  case (Cons p ps)
  show ?case
  proof (cases "key p = eq_key cl")
    case True
    then have "reduce_loop eq_key timespan_mapping red (p # ps) cl pts res
        = reduce_loop eq_key timespan_mapping red ps cl (pts @ [p]) res"
      by (simp add: key_def)
    also have "\<dots> = res @ map (\<lambda>k. red (filter (\<lambda>p. key p = k) ((pts @ [p]) @ ps)))
        (sorted_list_of_set (key ` set ((pts @ [p]) @ ps)))"
      using Cons.prems True by (intro Cons.IH) auto
    finally show ?thesis by simp
  next
    case False
    with Cons.prems(2) have ne: "pts \<noteq> []" by auto
    have above: "\<forall>q \<in> set (p # ps). eq_key cl < key q"
    proof
      fix q assume q: "q \<in> set (p # ps)"
      obtain x where x: "x \<in> set pts" using ne by (cases pts) auto
      have "\<forall>x \<in> set pts. key x \<le> key p" "\<forall>q \<in> set ps. key p \<le> key q"
        using Cons.prems(3) by (simp_all add: sorted_append)
      then have le: "eq_key cl \<le> key p" "key p \<le> key q"
        using x q Cons.prems(1) by auto
      with False show "eq_key cl < key q" by simp
    qed
    have "reduce_loop eq_key timespan_mapping red (p # ps) cl pts res
        = reduce_loop eq_key timespan_mapping red ps (timespan_mapping p) [p] (res @ [red pts])"
      using False by (simp add: key_def)
    also have "\<dots> = (res @ [red pts]) @ map (\<lambda>k. red (filter (\<lambda>p. key p = k) ([p] @ ps)))
        (sorted_list_of_set (key ` set ([p] @ ps)))"
      using Cons.prems(3) by (intro Cons.IH) (auto simp: key_def sorted_append)
    also have "\<dots> = res @ map (\<lambda>k. red (filter (\<lambda>p. key p = k) (pts @ p # ps)))
        (eq_key cl # sorted_list_of_set (key ` set (p # ps)))"
    proof -
      have first: "filter (\<lambda>q. key q = eq_key cl) (pts @ p # ps) = pts"
        using Cons.prems(1) above by (auto simp: filter_id_conv filter_empty_conv)
      have rest: "filter (\<lambda>q. key q = k) (pts @ p # ps) = filter (\<lambda>q. key q = k) (p # ps)"
        if k: "k \<in> key ` set (p # ps)" for k
      proof -
        have "eq_key cl < k" using k above by blast
        then have "filter (\<lambda>q. key q = k) pts = []" using Cons.prems(1) by (intro filter_False) force
        then show ?thesis by simp
      qed
      have "map (\<lambda>k. red (filter (\<lambda>q. key q = k) (pts @ p # ps))) (sorted_list_of_set (key ` set (p # ps)))
          = map (\<lambda>k. red (filter (\<lambda>q. key q = k) ([p] @ ps))) (sorted_list_of_set (key ` set ([p] @ ps)))"
        unfolding append_Cons append_Nil
        by (rule map_cong[OF refl]) (metis rest set_sorted_list_of_set finite_imageI finite_set)
      then show ?thesis by (simp only: list.map first append_assoc append_Cons append_Nil)
    qed
    also have "eq_key cl # sorted_list_of_set (key ` set (p # ps))
        = sorted_list_of_set (insert (eq_key cl) (key ` set (p # ps)))"
      using above by (subst sorted_list_of_set_least) auto
    also have "insert (eq_key cl) (key ` set (p # ps)) = key ` set (pts @ p # ps)"
      using Cons.prems(1) ne by (cases pts) (auto simp: image_iff)
    finally show ?thesis .
  qed
qed

lemma reduce_each_timespan_groups:
  fixes eq_key :: "'l \<Rightarrow> 'k::linorder"
  assumes "sorted (map (\<lambda>p. eq_key (m p)) ps)"
  shows "reduce_each_timespan eq_key ps m red =
    map (\<lambda>k. red (filter (\<lambda>p. eq_key (m p) = k) ps)) (sorted_list_of_set ((\<lambda>p. eq_key (m p)) ` set ps))"
proof (cases ps)
  case (Cons q qs)
  then show ?thesis
    using reduce_loop_groups[of "[]" eq_key m "m q" ps red "[]"] assms
    by (simp add: reduce_each_timespan_def Let_def)
qed (simp add: reduce_each_timespan_def)

section \<open>Values of a lower resolution\<close>

lemma flatten_map_Some: "(\<And>x. x \<in> set xs \<Longrightarrow> f x = Some (g x)) \<Longrightarrow> flatten (map f xs) = map g xs"
  by (induction xs) (auto simp: flatten_def)

lemma foldl_total: "foldl (\<lambda>total q. total + tv_value q) (a :: 'v::comm_monoid_add) ps = a + sum_list (map tv_value ps)"
  by (induction ps arbitrary: a) (auto simp: add.assoc)

text \<open>The members of a larger timespan, and the points a reduction makes of them.\<close>

abbreviation members :: "('l \<Rightarrow> 'k) \<Rightarrow> ('p \<Rightarrow> 'l) \<Rightarrow> 'p list \<Rightarrow> 'k \<Rightarrow> 'p list" where
  "members eq_key m ps k \<equiv> filter (\<lambda>p. eq_key (m p) = k) ps"

lemma members_nonempty:
  fixes eq_key :: "'l \<Rightarrow> 'k::linorder"
  assumes "k \<in> set (sorted_list_of_set ((\<lambda>p. eq_key (m p)) ` set ps))"
  obtains q qs where "members eq_key m ps k = q # qs" "eq_key (m q) = k"
proof -
  from assms obtain p where "p \<in> set ps" "eq_key (m p) = k" by auto
  then have "members eq_key m ps k \<noteq> []" by (auto simp: filter_empty_conv)
  then obtain q qs where "members eq_key m ps k = q # qs" by (cases "members eq_key m ps k") auto
  with filter_eq_ConsD[OF this] that show thesis by blast
qed

lemma reduced_points:
  fixes eq_key :: "'l \<Rightarrow> 'k::linorder" and red :: "'p list \<Rightarrow> ('l, 'v) timespan_value option"
  assumes "sorted (map (\<lambda>p. eq_key (m p)) ps)"
    and red: "\<And>k q qs. members eq_key m ps k = q # qs \<Longrightarrow> eq_key (m q) = k \<Longrightarrow>
      \<exists>x. red (q # qs) = Some x \<and> eq_key (timespan x) = k \<and> tv_value x = f (q # qs)"
  shows "map (\<lambda>x. (eq_key (timespan x), tv_value x)) (flatten (reduce_each_timespan eq_key ps m red)) =
    map (\<lambda>k. (k, f (members eq_key m ps k))) (sorted_list_of_set ((\<lambda>p. eq_key (m p)) ` set ps))"
proof -
  let ?ks = "sorted_list_of_set ((\<lambda>p. eq_key (m p)) ` set ps)"
  have ex: "\<exists>x. red (members eq_key m ps k) = Some x \<and> eq_key (timespan x) = k
      \<and> tv_value x = f (members eq_key m ps k)" if k: "k \<in> set ?ks" for k
    by (rule members_nonempty[of k eq_key m ps, OF k]) (use red in metis)
  then obtain g where g: "\<And>k. k \<in> set ?ks \<Longrightarrow> red (members eq_key m ps k) = Some (g k)
      \<and> eq_key (timespan (g k)) = k \<and> tv_value (g k) = f (members eq_key m ps k)" by metis
  have "flatten (reduce_each_timespan eq_key ps m red) = map g ?ks"
    unfolding reduce_each_timespan_groups[of eq_key m ps, OF assms(1)]
    by (rule flatten_map_Some) (use g in blast)
  moreover have "map (\<lambda>x. (eq_key (timespan x), tv_value x)) (map g ?ks) =
      map (\<lambda>k. (k, f (members eq_key m ps k))) ?ks"
    unfolding map_map comp_def by (rule map_cong[OF refl]) (use g in metis)
  ultimately show ?thesis by simp
qed

lemma sum_lower_points:
  fixes T :: "('d, 's, 'k::linorder, 'l) timespan_impl"
  assumes "sorted (map (\<lambda>p. ord_key T (from_smaller L (timespan p))) data)"
  shows "map (\<lambda>x. (ord_key T (timespan x), tv_value x))
      (flatten (reduce_each_timespan (ord_key T) data (\<lambda>t. from_smaller L (timespan t)) (sum_lower_point L)))
    = map (\<lambda>k. (k, sum_list (map tv_value (members (ord_key T) (\<lambda>p. from_smaller L (timespan p)) data k))))
        (sorted_list_of_set ((\<lambda>p. ord_key T (from_smaller L (timespan p))) ` set data))"
  by (rule reduced_points[where eq_key = "ord_key T" and m = "\<lambda>p. from_smaller L (timespan p)", OF assms])
    (simp add: sum_lower_point_def foldl_total)

lemma last_value_points:
  fixes T :: "('d, 's, 'k::linorder, 'l) timespan_impl"
  assumes "sorted (map (\<lambda>p. ord_key T (from_smaller L (timespan p))) data)"
  shows "map (\<lambda>x. (ord_key T (timespan x), tv_value x))
      (flatten (reduce_each_timespan (ord_key T) data (\<lambda>t. from_smaller L (timespan t)) (last_value_point L)))
    = map (\<lambda>k. (k, tv_value (last (members (ord_key T) (\<lambda>p. from_smaller L (timespan p)) data k))))
        (sorted_list_of_set ((\<lambda>p. ord_key T (from_smaller L (timespan p))) ` set data))"
proof (rule reduced_points[where eq_key = "ord_key T" and m = "\<lambda>p. from_smaller L (timespan p)", OF assms])
  fix k q qs
  assume m: "members (ord_key T) (\<lambda>p. from_smaller L (timespan p)) data k = q # qs"
  then have "last (q # qs) \<in> set (members (ord_key T) (\<lambda>p. from_smaller L (timespan p)) data k)"
    using last_in_set[of "q # qs"] by simp
  then show "\<exists>x. last_value_point L (q # qs) = Some x \<and> ord_key T (timespan x) = k
      \<and> tv_value x = tv_value (last (q # qs))"
    by (auto simp: last_value_point_def)
qed

text \<open>Weighted averages: the terms of one higher resolution timespan.\<close>

fun weighted_value :: "(real, int) either_or_both \<Rightarrow> real" where
  "weighted_value (Both avg weight) = avg * of_int weight"
| "weighted_value _ = 0"

fun entry_weight :: "(real, int) either_or_both \<Rightarrow> int" where
  "entry_weight (Both avg weight) = weight"
| "entry_weight (RightOnly weight) = weight"
| "entry_weight (LeftOnly avg) = 0"

lemma average_loop_sums: "average_loop es a w =
    (a + sum_list (map (weighted_value \<circ> snd) es), w + sum_list (map (entry_weight \<circ> snd) es))"
  by (induction es a w rule: average_loop.induct) (auto simp: add.assoc)

lemma flatten_filter: "flatten (map f xs) = map (\<lambda>x. the (f x)) (filter (\<lambda>x. f x \<noteq> None) xs)"
  by (induction xs) (auto simp: flatten_def)

lemma average_points:
  fixes K :: "'l \<Rightarrow> 'k::linorder" and L :: "('l, 'h) consists_of" and avg weight
    and H :: "('d, 's, 'kh::linorder, 'h) timespan_impl"
  defines "es \<equiv> zip_same_timespan H avg weight"
  defines "grp \<equiv> \<lambda>k. filter (\<lambda>e. K (from_smaller L (fst e)) = k) es"
  assumes sorted: "sorted (map (\<lambda>e. K (from_smaller L (fst e))) es)"
  shows "map (\<lambda>x. (K (timespan x), tv_value x)) (lower_res_average_from H K L avg weight) =
    map (\<lambda>k. (k, sum_list (map (weighted_value \<circ> snd) (grp k)) / of_int (sum_list (map (entry_weight \<circ> snd) (grp k)))))
      (filter (\<lambda>k. sum_list (map (entry_weight \<circ> snd) (grp k)) \<noteq> 0)
        (sorted_list_of_set ((\<lambda>e. K (from_smaller L (fst e))) ` set es)))"
proof -
  let ?m = "\<lambda>(h, _). from_smaller L h"
  let ?ks = "sorted_list_of_set ((\<lambda>e. K (from_smaller L (fst e))) ` set es)"
  have m: "?m = (\<lambda>e. from_smaller L (fst e))" by auto
  have pt: "average_point L (grp k) =
      (if sum_list (map (entry_weight \<circ> snd) (grp k)) \<noteq> 0
       then Some \<lparr>timespan = from_smaller L (fst (hd (grp k))),
         tv_value = sum_list (map (weighted_value \<circ> snd) (grp k)) / of_int (sum_list (map (entry_weight \<circ> snd) (grp k)))\<rparr>
       else None)" for k
    by (cases "grp k") (auto simp: average_point_def average_loop_sums split: prod.splits)
  have hd: "K (from_smaller L (fst (hd (grp k)))) = k" if "k \<in> set ?ks" for k
  proof -
    obtain e where "e \<in> set es" "K (from_smaller L (fst e)) = k" using \<open>k \<in> set ?ks\<close> by auto
    then have "grp k \<noteq> []" by (auto simp: grp_def filter_empty_conv)
    then have "hd (grp k) \<in> set (grp k)" by simp
    then show ?thesis by (simp add: grp_def)
  qed
  have "lower_res_average_from H K L avg weight = flatten (map (\<lambda>k. average_point L (grp k)) ?ks)"
    using reduce_each_timespan_groups[of K "\<lambda>e. from_smaller L (fst e)" es "average_point L"] sorted
    by (simp add: lower_res_average_from_def m grp_def es_def)
  then show ?thesis
    unfolding flatten_filter pt using hd by (auto intro!: map_cong)
qed

section \<open>Deducible points\<close>

lemma filter_equal_chart:
  assumes "res \<noteq> []" "tv_value (last res) = tv_value prev" "sorted_points T (res @ data)"
  shows "last_value zero (filter (\<lambda>p. point_key T p \<le> k) (filter_equal_loop data prev res)) =
    last_value zero (filter (\<lambda>p. point_key T p \<le> k) (res @ data))"
  using assms
proof (induction data prev res rule: filter_equal_loop.induct)
  case (2 nxt data prev res)
  show ?case
  proof (cases "tv_value nxt = tv_value prev")
    case False
    with 2 show ?thesis by simp
  next
    case True
    have "sorted_points T (res @ data)" using "2.prems"(3) by (auto simp: sorted_wrt_append)
    with 2 True have IH: "last_value zero (filter (\<lambda>p. point_key T p \<le> k) (filter_equal_loop (nxt # data) prev res)) =
        last_value zero (filter (\<lambda>p. point_key T p \<le> k) (res @ data))" by simp
    have below: "\<forall>p \<in> set res. point_key T p \<le> k" if "point_key T nxt \<le> k"
      using "2.prems"(3) that by (fastforce simp: sorted_wrt_append)
    have "last_value zero (filter (\<lambda>p. point_key T p \<le> k) res) = tv_value nxt" if "point_key T nxt \<le> k"
    proof -
      have "filter (\<lambda>p. point_key T p \<le> k) res = res" using below[OF that] by simp
      then show ?thesis using "2.prems"(1,2) True by (simp add: last_value_def)
    qed
    then show ?thesis unfolding IH by auto
  qed
qed simp

lemma filter_deducible_chart:
  assumes "sorted_points T data"
  shows "chart_value T policy zero (filter_deducible_data policy zero data) k = chart_value T policy zero data k"
proof (cases policy)
  case FillZero
  show ?thesis
  proof (cases "\<exists>q \<in> set data. point_key T q = k")
    case True
    then obtain q where q: "q \<in> set data" "point_key T q = k" by blast
    have "filter (\<lambda>p. point_key T p = k) data = [q]" using filter_eq_singleton[OF assms q(1)] q(2) by simp
    moreover have "filter (\<lambda>p. point_key T p = k) (filter (\<lambda>p. tv_value p \<noteq> zero) data)
        = filter (\<lambda>p. tv_value p \<noteq> zero) (filter (\<lambda>p. point_key T p = k) data)"
      by (simp add: conj_commute)
    ultimately show ?thesis
      by (simp add: FillZero chart_value_def filter_deducible_data_def last_value_def)
  next
    case False
    then have "filter (\<lambda>p. point_key T p = k) data = []"
      "filter (\<lambda>p. point_key T p = k) (filter (\<lambda>p. tv_value p \<noteq> zero) data) = []"
      by (auto simp: filter_empty_conv)
    then show ?thesis by (simp add: FillZero chart_value_def filter_deducible_data_def)
  qed
next
  case FillPrevious
  show ?thesis
  proof (cases data)
    case (Cons p ps)
    then show ?thesis
      using filter_equal_chart[of "[p]" p T ps zero k] assms
      by (simp add: FillPrevious chart_value_def filter_deducible_data_def)
  qed (simp add: FillPrevious chart_value_def filter_deducible_data_def)
qed

section \<open>Whole timespans\<close>

context calendar_timespan
begin

lemma extend_exact:
  assumes "into_inclusive_pair (datetime_steps C) r = (Some s, Some e)"
    and "ord_key T (from_date T (date_naive C e)) < ord_key T (ts_max T)"
  shows "x \<in> universal_set (extend_to_timespan_boundaries C T r) \<longleftrightarrow>
    ord_key T (from_date T (date_naive C s)) \<le> ord_key T (from_date T (date_naive C x))
    \<and> ord_key T (from_date T (date_naive C x)) \<le> ord_key T (from_date T (date_naive C e))"
proof -
  let ?from = "\<lambda>y. from_date T (date_naive C y)"
  have ext: "extend_to_timespan_boundaries C T r =
      \<lparr>ur_start = Some (midnight C (into_date T (?from s))),
       ur_end = Excluded (midnight C (into_date T (saturating_next_timespan T (?from e))))\<rparr>"
  proof -
    have "date_range_to_timespan C T r = \<lparr>ur_start = Some (?from s), ur_end = Included (?from e)\<rparr>"
      by (simp add: date_range_to_timespan_def assms(1) universal_of_option_inclusive_def)
    then show ?thesis
      by (simp add: extend_to_timespan_boundaries_def into_inclusive_pair_def
          universal_of_option_range_def start_from_date start_next)
  qed
  have "midnight C (into_date T (?from s)) \<le> x \<longleftrightarrow> ord_key T (?from s) \<le> ord_key T (?from x)"
    by (simp add: midnight_le into_le_iff)
  moreover have "x < midnight C (into_date T (saturating_next_timespan T (?from e))) \<longleftrightarrow>
      ord_key T (?from x) < ord_key T (saturating_next_timespan T (?from e))"
    using into_le_iff[of "saturating_next_timespan T (?from e)" "date_naive C x"] midnight_le by (metis not_le)
  ultimately show ?thesis
    using key_next_gt_iff[OF assms(2), of "?from x"] by (simp add: ext universal_set_def)
qed

end

section \<open>What the adapters promise\<close>

text \<open>a chart of sums at a lower resolution asks its source for whole timespans, passes on its
  errors, and from daily (or finer) data in order returns exactly the timespans that contain
  data, in order and once each, with the sum of all values of the timespan.\<close>

theorem sum_lower_resolution_totals:
  fixes T :: "('d, 's, 'k::linorder, 'l) timespan_impl"
    and ds :: "('s, 'db, 'h, 'v::comm_monoid_add) vec_source"
  assumes "ds (extend_to_timespan_boundaries C T r) = Ok data"
    and "sorted (map (\<lambda>p. ord_key T (from_smaller L (timespan p))) data)"
  shows "\<exists>res. sum_lower_resolution C T L ds r = Ok res
    \<and> map (\<lambda>x. (ord_key T (timespan x), tv_value x)) res =
        map (\<lambda>k. (k, sum_list (map tv_value (filter (\<lambda>p. ord_key T (from_smaller L (timespan p)) = k) data))))
          (sorted_list_of_set ((\<lambda>p. ord_key T (from_smaller L (timespan p))) ` set data))"
  using sum_lower_points[OF assms(2)] by (simp add: sum_lower_resolution_def assms(1))

definition sample_days :: "(civil_date, int) timespan_value list" where
  "sample_days = [\<lparr>timespan = of_day 738001, tv_value = 3\<rparr>, \<lparr>timespan = of_day 738002, tv_value = 4\<rparr>,
     \<lparr>timespan = of_day 738010, tv_value = 5\<rparr>]"

lemma sample_days_weeks:
  "map (\<lambda>p. ord_key (week_timespan civil) (from_smaller (week_of_days civil) (timespan p))) sample_days
     = [Some (of_day 737997), Some (of_day 737997), Some (of_day 738004)]"
  by (simp add: sample_days_def week_of_days_def week_timespan_def checked_first_day_def) (simp add: civil_eval)

lemma sample_days_sorted:
  "sorted (map (\<lambda>p. ord_key (week_timespan civil) (from_smaller (week_of_days civil) (timespan p))) sample_days)"
  unfolding sample_days_weeks by (simp add: civil_eval)

theorem sum_lower_resolution_totals_witness:
  "\<exists>res. sum_lower_resolution civil (week_timespan civil) (week_of_days civil)
      (\<lambda>_. Ok sample_days :: (unit chart_error, _) result) full_range = Ok res
    \<and> map (\<lambda>x. (ord_key (week_timespan civil) (timespan x), tv_value x)) res =
        map (\<lambda>k. (k, sum_list (map tv_value (filter (\<lambda>p. ord_key (week_timespan civil)
            (from_smaller (week_of_days civil) (timespan p)) = k) sample_days))))
          (sorted_list_of_set ((\<lambda>p. ord_key (week_timespan civil)
            (from_smaller (week_of_days civil) (timespan p))) ` set sample_days))"
  by (rule sum_lower_resolution_totals[OF refl sample_days_sorted])

text \<open>a growth chart at a lower resolution returns exactly the timespans that contain data, in
  order and once each, with the last value within the timespan.\<close>

theorem last_value_lower_resolution_values:
  fixes T :: "('d, 's, 'k::linorder, 'l) timespan_impl" and ds :: "('s, 'db, 'h, 'v) vec_source"
  assumes "ds (extend_to_timespan_boundaries C T r) = Ok data"
    and "sorted (map (\<lambda>p. ord_key T (from_smaller L (timespan p))) data)"
  shows "\<exists>res. last_value_lower_resolution C T L ds r = Ok res
    \<and> map (\<lambda>x. (ord_key T (timespan x), tv_value x)) res =
        map (\<lambda>k. (k, tv_value (last (filter (\<lambda>p. ord_key T (from_smaller L (timespan p)) = k) data))))
          (sorted_list_of_set ((\<lambda>p. ord_key T (from_smaller L (timespan p))) ` set data))"
  using last_value_points[OF assms(2)] by (simp add: last_value_lower_resolution_def assms(1))

theorem last_value_lower_resolution_values_witness:
  "\<exists>res. last_value_lower_resolution civil (week_timespan civil) (week_of_days civil)
      (\<lambda>_. Ok sample_days :: (unit chart_error, _) result) full_range = Ok res
    \<and> map (\<lambda>x. (ord_key (week_timespan civil) (timespan x), tv_value x)) res =
        map (\<lambda>k. (k, tv_value (last (filter (\<lambda>p. ord_key (week_timespan civil)
            (from_smaller (week_of_days civil) (timespan p)) = k) sample_days))))
          (sorted_list_of_set ((\<lambda>p. ord_key (week_timespan civil)
            (from_smaller (week_of_days civil) (timespan p))) ` set sample_days))"
  by (rule last_value_lower_resolution_values[OF refl sample_days_sorted])



text \<open>the range a lower resolution asks its source for consists of the whole timespans that
  meet the requested range: a timestamp is in it exactly when its timespan lies between those
  of the first and the last requested timestamp.\<close>

theorem extend_to_timespan_boundaries_exact:
  assumes "calendar_timespan C T"
    and "into_inclusive_pair (datetime_steps C) r = (Some s, Some e)"
    and "ord_key T (from_date T (date_naive C e)) < ord_key T (ts_max T)"
  shows "x \<in> universal_set (extend_to_timespan_boundaries C T r) \<longleftrightarrow>
    ord_key T (from_date T (date_naive C s)) \<le> ord_key T (from_date T (date_naive C x))
    \<and> ord_key T (from_date T (date_naive C x)) \<le> ord_key T (from_date T (date_naive C e))"
  by (rule calendar_timespan.extend_exact[OF assms])

theorem extend_to_timespan_boundaries_exact_witness:
  "of_ns (737997 * day_ns) \<in> universal_set (extend_to_timespan_boundaries civil (week_timespan civil)
      (universal_of_inclusive (RangeInclusive (of_ns (738001 * day_ns + 1)) (of_ns (738001 * day_ns + 9))))) \<longleftrightarrow>
    ord_key (week_timespan civil) (week_new (of_day 738001)) \<le> ord_key (week_timespan civil) (week_new (of_day 737997))
    \<and> ord_key (week_timespan civil) (week_new (of_day 737997)) \<le> ord_key (week_timespan civil) (week_new (of_day 738001))"
proof -
  have d: "date_naive civil (of_ns (738001 * day_ns + 1)) = of_day 738001"
    "date_naive civil (of_ns (738001 * day_ns + 9)) = of_day 738001"
    "date_naive civil (of_ns (737997 * day_ns)) = of_day 737997"
    by (simp_all add: civil_eval)
  have "ord_key (week_timespan civil) (week_new (of_day 738001)) < ord_key (week_timespan civil) (ts_max (week_timespan civil))"
    by (simp add: week_timespan_def checked_first_day_def) (simp add: civil_eval)
  moreover have fw: "from_date (week_timespan civil) = week_new" by (simp add: week_timespan_def)
  ultimately show ?thesis
    using extend_to_timespan_boundaries_exact[OF civil_calendar.week_calendar, of
        "universal_of_inclusive (RangeInclusive (of_ns (738001 * day_ns + 1)) (of_ns (738001 * day_ns + 9)))"
        "of_ns (738001 * day_ns + 1)" "of_ns (738001 * day_ns + 9)" "of_ns (737997 * day_ns)"]
    by (simp add: d into_inclusive_pair_def universal_of_inclusive_def)
qed

text \<open>removing deducible points loses nothing: under the missing date policy of the chart the
  remaining points stand for the same value at every timespan.\<close>

theorem filter_deducible_keeps_chart:
  assumes "ds r = Ok data" "sorted_points T data"
  shows "\<exists>res. filter_deducible policy zero ds r = Ok res
    \<and> (\<forall>k. chart_value T policy zero res k = chart_value T policy zero data k)"
  using filter_deducible_chart[OF assms(2)] by (simp add: filter_deducible_def assms(1))

theorem filter_deducible_keeps_chart_witness:
  "\<exists>res. filter_deducible FillPrevious 0 (\<lambda>_. Ok sample_chart :: (unit chart_error, _) result)
      (full_range :: civil_time universal_range) = Ok res
    \<and> (\<forall>k. chart_value (day_timespan civil) FillPrevious 0 res k
        = chart_value (day_timespan civil) FillPrevious 0 sample_chart k)"
  by (rule filter_deducible_keeps_chart[OF refl sample_chart_sorted])

end
