(* ===== verification/Stats_Batch.thy ===== *)
theory Stats_Batch
  imports Stats_Sources
begin

text \<open>
  Splitting of an update into batches
  (\<^verbatim>\<open>stats/stats/src/data_source/kinds/local_db/parameters/update/batching/mod.rs\<close>):
  \<open>generate_batch_ranges\<close> cuts the interval from a timespan to the update time into ranges of
  at most \<open>max_step\<close> timespans. The loop is a partial function, and its result is \<open>None\<close> when
  it never returns.
\<close>

section \<open>Batch ranges\<close>

datatype ('t, 's) batch_range = Full "'t range" | Partial 't 's

fun batch_start :: "('t, 's) batch_range \<Rightarrow> 't" where
  "batch_start (Full r) = range_start r"
| "batch_start (Partial start e) = start"

fun into_date_time_range :: "('d, 's, 'k, 't) timespan_impl \<Rightarrow> ('t, 's) batch_range \<Rightarrow> 's range" where
  "into_date_time_range T (Full r) =
     Range (saturating_start_timestamp T (range_start r))
       (range_start (into_time_range T (range_end r)))"
| "into_date_time_range T (Partial start e) = Range (saturating_start_timestamp T start) e"

partial_function (option) generate_loop ::
  "('d, 's::linorder) chrono \<Rightarrow> ('d, 's, 'k::linorder, 't) timespan_impl \<Rightarrow> 's \<Rightarrow> nat \<Rightarrow> 't
     \<Rightarrow> ('t, 's) batch_range list \<Rightarrow> ('t, 's) batch_range list option" where
  "generate_loop C T e max_step current_start date_range =
     (let next_start = saturating_add T current_start max_step;
          next_start_timestamp = saturating_start_timestamp T next_start
      in if e < next_start_timestamp
         then Some
           (if e = saturating_start_timestamp T (from_date T (date_naive C e))
            then let end_timespan = from_date T (date_naive C e)
                 in if ord_key T current_start < ord_key T end_timespan
                    then date_range @ [Full (Range current_start end_timespan)]
                    else date_range
            else date_range @ [Partial current_start e])
         else if next_start_timestamp = e
         then Some (date_range @ [Full (Range current_start next_start)])
         else generate_loop C T e max_step next_start
                (date_range @ [Full (Range current_start next_start)]))"

definition zero_step_message :: string where
  "zero_step_message = ''Zero maximum batch step is not allowed''"

definition generate_batch_ranges ::
  "('d, 's::linorder) chrono \<Rightarrow> ('d, 's, 'k::linorder, 't) timespan_impl \<Rightarrow> 't \<Rightarrow> 's \<Rightarrow> nat
     \<Rightarrow> ('db chart_error, ('t, 's) batch_range list) result option" where
  "generate_batch_ranges C T start e max_step =
     (if max_step = 0 then Some (Err (Internal zero_step_message))
      else map_option Ok (generate_loop C T e max_step start []))"

section \<open>Advancing by several timespans\<close>

locale batch_timespan = calendar_timespan C T
  for C :: "('d::linorder, 's::linorder) chrono" and T :: "('d, 's, 'k::linorder, 't) timespan_impl" +
  assumes add_progress: "0 < n \<Longrightarrow> ord_key T (saturating_next_timespan T t) \<le> ord_key T (saturating_add T t n)"
    and start_add: "saturating_start_timestamp T (saturating_add T t n) = midnight C (into_date T (saturating_add T t n))"

text \<open>Consecutive non-empty ranges from \<open>a\<close> to \<open>b\<close>.\<close>

fun chained :: "'s::linorder \<Rightarrow> 's range list \<Rightarrow> 's \<Rightarrow> bool" where
  "chained a [] b \<longleftrightarrow> a = b"
| "chained a (r # rs) b \<longleftrightarrow> range_start r = a \<and> a < range_end r \<and> chained (range_end r) rs b"

lemma chained_snoc: "chained a rs m \<Longrightarrow> m < b \<Longrightarrow> chained a (rs @ [Range m b]) b"
  by (induction rs arbitrary: a) auto

context batch_timespan
begin

lemma start_le_iff:
  assumes "saturating_start_timestamp T t = midnight C (into_date T t)"
  shows "saturating_start_timestamp T t \<le> e \<longleftrightarrow> ord_key T t \<le> ord_key T (from_date T (date_naive C e))"
  by (simp add: assms midnight_le into_le_iff)

lemma start_less:
  assumes "saturating_start_timestamp T t = midnight C (into_date T t)"
    and "saturating_start_timestamp T u = midnight C (into_date T u)" "ord_key T t < ord_key T u"
  shows "saturating_start_timestamp T t < saturating_start_timestamp T u"
  using assms into_less by (simp add: midnight_less)

lemma add_greater:
  assumes "0 < n" "ord_key T t < ord_key T (ts_max T)"
  shows "ord_key T t < ord_key T (saturating_add T t n)"
  using key_less_next[OF assms(2)] add_progress[OF assms(1), of t] by simp

lemma between_shrinks:
  assumes "ord_key T t < ord_key T u" "ord_key T t \<le> ord_key T e"
  shows "card (between_keys T u e) < card (between_keys T t e)"
proof (rule psubset_card_mono[OF finite_between])
  have "ord_key T t \<in> between_keys T t e" using assms(2) by (simp add: between_keys_def)
  moreover have "ord_key T t \<notin> between_keys T u e" using assms(1) by (simp add: between_keys_def not_le)
  moreover have "between_keys T u e \<subseteq> between_keys T t e" using assms(1) by (auto simp: between_keys_def)
  ultimately show "between_keys T u e \<subset> between_keys T t e" by blast
qed

lemma generate_loop_covers:
  assumes step: "0 < max_step"
    and mx: "ord_key T (from_date T (date_naive C e)) < ord_key T (ts_max T)"
    and cur: "saturating_start_timestamp T cur = midnight C (into_date T cur)"
    and le: "saturating_start_timestamp T cur \<le> e"
    and acc: "chained a (map (into_date_time_range T) acc) (saturating_start_timestamp T cur)"
  shows "\<exists>rs. generate_loop C T e max_step cur acc = Some rs \<and> chained a (map (into_date_time_range T) rs) e"
  using cur le acc
proof (induction "card (between_keys T cur (from_date T (date_naive C e)))" arbitrary: cur acc rule: less_induct)
  case less
  let ?last = "from_date T (date_naive C e)" and ?next = "saturating_add T cur max_step"
  let ?cur_ts = "saturating_start_timestamp T cur" and ?next_ts = "saturating_start_timestamp T ?next"
  have key: "ord_key T cur \<le> ord_key T ?last" using start_le_iff[OF less.prems(1)] less.prems(2) by simp
  then have gt: "ord_key T cur < ord_key T ?next" using add_greater[OF step] mx by simp
  have ts: "?cur_ts < ?next_ts" by (rule start_less[OF less.prems(1) start_add gt])
  have full: "into_date_time_range T (Full (Range cur ?next)) = Range ?cur_ts ?next_ts"
    by (simp add: into_time_range_def)
  show ?case
  proof (cases "e < ?next_ts")
    case True
    show ?thesis
    proof (cases "e = saturating_start_timestamp T ?last")
      case True': True
      note aligned = True'[symmetric]
      show ?thesis
      proof (cases "ord_key T cur < ord_key T ?last")
        case lt: True
        have "chained a (map (into_date_time_range T) acc @ [Range ?cur_ts e]) e"
          using chained_snoc[OF less.prems(3)] start_less[OF less.prems(1) start_from_date lt] aligned by simp
        then show ?thesis
          using True aligned lt by (subst generate_loop.simps) (simp add: Let_def into_time_range_def)
      next
        case False
        with key have "into_date T cur = into_date T ?last" by (intro into_key order_antisym) simp_all
        then have "?cur_ts = e" using aligned by (simp add: less.prems(1) start_from_date del: midnight_eq)
        then show ?thesis
          using True aligned False less.prems(3) by (subst generate_loop.simps) (simp add: Let_def)
      qed
    next
      case False
      have "?cur_ts \<noteq> e"
      proof
        assume eq: "?cur_ts = e"
        then have "date_naive C e = into_date T cur" by (metis less.prems(1) midnight_date)
        then have "saturating_start_timestamp T ?last = e"
          using eq into_key[OF from_into[of cur]] by (simp add: start_from_date less.prems(1))
        with False show False by simp
      qed
      then have "chained a (map (into_date_time_range T) acc @ [Range ?cur_ts e]) e"
        using chained_snoc[OF less.prems(3)] less.prems(2) by simp
      then show ?thesis
        using True False by (subst generate_loop.simps) (simp add: Let_def)
    qed
  next
    case False
    have ch: "chained a (map (into_date_time_range T) (acc @ [Full (Range cur ?next)])) ?next_ts"
      using chained_snoc[OF less.prems(3) ts] by (simp add: full del: into_date_time_range.simps)
    show ?thesis
    proof (cases "?next_ts = e")
      case True
      then show ?thesis using False ch by (subst generate_loop.simps) (simp add: Let_def)
    next
      case ne: False
      have "card (between_keys T ?next ?last) < card (between_keys T cur ?last)"
        by (rule between_shrinks[OF gt key])
      from less.hyps[OF this start_add _ ch] False
      have "\<exists>rs. generate_loop C T e max_step ?next (acc @ [Full (Range cur ?next)]) = Some rs
          \<and> chained a (map (into_date_time_range T) rs) e" by simp
      then show ?thesis using False ne by (subst generate_loop.simps) (simp add: Let_def)
    qed
  qed
qed

end

context chrono_days
begin

lemma day_batch: "batch_timespan C (day_timespan C)"
proof (intro batch_timespan.intro day_calendar batch_timespan_axioms.intro)
  fix n :: nat and t :: 'd
  assume n: "0 < n"
  show "ord_key (day_timespan C) (saturating_next_timespan (day_timespan C) t)
      \<le> ord_key (day_timespan C) (saturating_add (day_timespan C) t n)"
  proof (cases "checked_add_days C t n")
    case None
    then show ?thesis using date_max by (simp add: day_timespan_def default_saturating_add_def)
  next
    case (Some e)
    then have e: "num_days_from_ce C e = num_days_from_ce C t + int n" by (simp add: add_days)
    have "saturating_next_timespan (day_timespan C) t \<le> e"
      by (rule next_day_cases[of t]) (use e n in \<open>auto simp: num_le[symmetric]\<close>)
    with Some show ?thesis by (simp add: day_timespan_def default_saturating_add_def)
  qed
qed (simp add: day_timespan_def day_start_def)

end

context chrono_calendar
begin

lemma week_batch: "batch_timespan C (week_timespan C)"
proof (intro batch_timespan.intro week_calendar batch_timespan_axioms.intro)
  fix n :: nat and t :: "'d week"
  assume n: "0 < n"
  let ?T = "week_timespan C"
  have sat: "saturating_add ?T t n = (case week_checked_add C t n of Some r \<Rightarrow> r | None \<Rightarrow> ts_max ?T)"
    by (simp add: week_timespan_def default_saturating_add_def split: option.splits)
  show "ord_key ?T (saturating_next_timespan ?T t) \<le> ord_key ?T (saturating_add ?T t n)"
  proof (cases "week_checked_add C t n")
    case None
    then show ?thesis using week.key_le_max by (simp add: sat)
  next
    case (Some w)
    then obtain d where w: "w = week_new d" and d: "checked_add_days C (saturating_first_day C t) (n * 7) = Some d"
      by (auto simp: week_checked_add_def split: if_splits)
    have "num_days_from_ce C d = num_days_from_ce C (saturating_first_day C t) + 7 * int n"
      using d by (simp add: add_days)
    then have "week_index C (week_day t) + 1 \<le> week_index C d"
      using n sat_first_day_num[of t] week_index_bounds(2)[of d] by simp
    moreover have "saturating_add ?T t n = w" using Some by (simp add: sat)
    moreover have "ord_key ?T = checked_first_day C" by (simp add: week_timespan_def)
    ultimately show ?thesis using w week_next_index[of t] by (simp add: week_key_le)
  qed
qed (simp add: week_timespan_def day_start_def)

lemma month_batch: "batch_timespan C (month_timespan C)"
proof (intro batch_timespan.intro month_calendar batch_timespan_axioms.intro)
  fix n :: nat and t :: "'d month"
  assume n: "0 < n"
  let ?T = "month_timespan C"
  have sat: "saturating_add ?T t n = (case month_checked_add C t n of Some r \<Rightarrow> r | None \<Rightarrow> ts_max ?T)"
    by (simp add: month_timespan_def default_saturating_add_def split: option.splits)
  show "ord_key ?T (saturating_next_timespan ?T t) \<le> ord_key ?T (saturating_add ?T t n)"
  proof (cases "month_checked_add C t n")
    case None
    then show ?thesis using month.key_le_max by (simp add: sat)
  next
    case (Some m)
    then obtain d where m: "m = month_from_date C d" and d: "checked_add_months C (date_in_month t) n = Some d"
      by (auto simp: month_checked_add_def split: if_splits)
    have "month_number C (date_in_month t) + 1 \<le> month_number C d" using add_months[OF d] n by simp
    moreover have "saturating_add ?T t n = m" using Some by (simp add: sat)
    moreover have "ord_key ?T = month_first_day C" by (simp add: month_timespan_def)
    ultimately show ?thesis
      using m month_next_number[of t]
      by (simp add: month_first_day_def month_key_le month_from_date_def first_month_day)
  qed
qed (simp add: month_timespan_def day_start_def)

lemma year_batch: "batch_timespan C (year_timespan C)"
proof (intro batch_timespan.intro year_calendar batch_timespan_axioms.intro)
  fix n :: nat and t :: year
  let ?T = "year_timespan C"
  have idem: "clamp_by_naive_date_range C (clamp_by_naive_date_range C y) = clamp_by_naive_date_range C y" for y
    by (simp add: clamp_by_naive_date_range_def[of C y] clamp_date)
  show "saturating_start_timestamp ?T (saturating_add ?T t n) = midnight C (into_date ?T (saturating_add ?T t n))"
    by (simp add: year_timespan_def day_start_def year_saturating_add_def idem)
  assume n: "0 < n"
  have mono: "number_within_naive_date C (Year_no a) \<le> number_within_naive_date C (Year_no b)" if "a \<le> b" for a b
    using that year_bounds(1)[of "NaiveDate_MAX C"] by (simp add: number_within)
  have "number_within_naive_date C t + repeats_i32 1 \<le> number_within_naive_date C t + repeats_i32 n"
    using n by (simp add: repeats_i32_def i32_max_def)
  then have "sat_i32 (number_within_naive_date C t + repeats_i32 1) \<le> sat_i32 (number_within_naive_date C t + repeats_i32 n)"
    by (auto simp: sat_i32_def i32_min_def i32_max_def)
  from mono[OF this]
  show "ord_key ?T (saturating_next_timespan ?T t) \<le> ord_key ?T (saturating_add ?T t n)"
    by (simp add: year_timespan_def year_saturating_add_def number_within_idem)
qed

end

interpretation civil_day_batch: batch_timespan civil "day_timespan civil"
  by (rule civil.day_batch)

interpretation civil_week_batch: batch_timespan civil "week_timespan civil"
  by (rule civil_calendar.week_batch)

interpretation civil_month_batch: batch_timespan civil "month_timespan civil"
  by (rule civil_calendar.month_batch)

interpretation civil_year_batch: batch_timespan civil "year_timespan civil"
  by (rule civil_calendar.year_batch)

section \<open>What the split promises\<close>

text \<open>C23: with a positive batch size the split of the interval from the start of a timespan to the
  update time ends, and returns consecutive, non-empty ranges that cover the interval exactly:
  no timestamp is left out and none is processed twice.\<close>

theorem batch_ranges_cover:
  assumes "batch_timespan C T" "0 < max_step"
    and "saturating_start_timestamp T start = midnight C (into_date T start)"
    and "saturating_start_timestamp T start \<le> e"
    and "ord_key T (from_date T (date_naive C e)) < ord_key T (ts_max T)"
  shows "\<exists>rs. (generate_batch_ranges C T start e max_step :: ('db chart_error, _) result option) = Some (Ok rs)
    \<and> chained (saturating_start_timestamp T start) (map (into_date_time_range T) rs) e"
  using batch_timespan.generate_loop_covers[OF assms(1,2,5,3,4), of "saturating_start_timestamp T start" "[]"] assms(2)
  by (auto simp: generate_batch_ranges_def)

theorem batch_ranges_cover_witness:
  "\<exists>rs. (generate_batch_ranges civil (day_timespan civil) (of_day 1) (of_ns (75 * day_ns + 3)) 30
      :: (unit chart_error, _) result option) = Some (Ok rs)
    \<and> chained (midnight civil (of_day 1)) (map (into_date_time_range (day_timespan civil)) rs) (of_ns (75 * day_ns + 3))"
proof -
  let ?T = "day_timespan civil" and ?e = "of_ns (75 * day_ns + 3)"
  have st: "saturating_start_timestamp ?T (of_day 1) = midnight civil (of_day 1)"
    "midnight civil (into_date ?T (of_day 1)) = midnight civil (of_day 1)"
    by (simp_all add: day_timespan_def day_start_def)
  have "midnight civil (of_day 1) \<le> ?e" "of_day 75 < NaiveDate_MAX civil" "date_naive civil ?e = of_day 75"
    by (simp_all add: civil_eval)
  then have "saturating_start_timestamp ?T (of_day 1) \<le> ?e"
    "ord_key ?T (from_date ?T (date_naive civil ?e)) < ord_key ?T (ts_max ?T)"
    by (simp_all add: st) (simp add: day_timespan_def)
  with batch_ranges_cover[OF civil.day_batch, of 30 "of_day 1" ?e] st show ?thesis by simp
qed

end
