(* ===== verification/Stats_Indexing.thy ===== *)
theory Stats_Indexing
  imports Prelude
begin

text \<open>
  Indexing status of the observed chain
  (\<^verbatim>\<open>stats/stats/src/charts/indexing_status.rs\<close>): what has been indexed so far, what a chart
  requires, and the combination of requirements. The order of the variants is the derived
  \<open>Ord\<close>, given here as instances of \<open>linorder\<close>.
\<close>

section \<open>Statuses\<close>

datatype blockscout_indexing_status = NoneIndexed | BlocksIndexed | InternalTransactionsIndexed

datatype user_ops_indexing_status = IndexingPastOperations | PastOperationsIndexed

fun blockscout_rank :: "blockscout_indexing_status \<Rightarrow> nat" where
  "blockscout_rank NoneIndexed = 0"
| "blockscout_rank BlocksIndexed = 1"
| "blockscout_rank InternalTransactionsIndexed = 2"

fun user_ops_rank :: "user_ops_indexing_status \<Rightarrow> nat" where
  "user_ops_rank IndexingPastOperations = 0"
| "user_ops_rank PastOperationsIndexed = 1"

lemma blockscout_rank_inj: "blockscout_rank a = blockscout_rank b \<Longrightarrow> a = b"
  by (cases a; cases b) auto

lemma user_ops_rank_inj: "user_ops_rank a = user_ops_rank b \<Longrightarrow> a = b"
  by (cases a; cases b) auto

instantiation blockscout_indexing_status :: linorder
begin
definition less_eq_blockscout_indexing_status :: "blockscout_indexing_status \<Rightarrow> blockscout_indexing_status \<Rightarrow> bool"
  where "a \<le> b \<longleftrightarrow> blockscout_rank a \<le> blockscout_rank b"
definition less_blockscout_indexing_status :: "blockscout_indexing_status \<Rightarrow> blockscout_indexing_status \<Rightarrow> bool"
  where "a < b \<longleftrightarrow> blockscout_rank a < blockscout_rank b"
instance
  by standard
    (auto simp: less_eq_blockscout_indexing_status_def less_blockscout_indexing_status_def
      intro: blockscout_rank_inj)
end

instantiation user_ops_indexing_status :: linorder
begin
definition less_eq_user_ops_indexing_status :: "user_ops_indexing_status \<Rightarrow> user_ops_indexing_status \<Rightarrow> bool"
  where "a \<le> b \<longleftrightarrow> user_ops_rank a \<le> user_ops_rank b"
definition less_user_ops_indexing_status :: "user_ops_indexing_status \<Rightarrow> user_ops_indexing_status \<Rightarrow> bool"
  where "a < b \<longleftrightarrow> user_ops_rank a < user_ops_rank b"
instance
  by standard
    (auto simp: less_eq_user_ops_indexing_status_def less_user_ops_indexing_status_def
      intro: user_ops_rank_inj)
end

record indexing_status =
  is_blockscout :: blockscout_indexing_status
  is_user_ops :: user_ops_indexing_status

section \<open>Constants and operations\<close>

definition status_min :: indexing_status where
  "status_min = \<lparr>is_blockscout = NoneIndexed, is_user_ops = IndexingPastOperations\<rparr>"

definition status_max :: indexing_status where
  "status_max = \<lparr>is_blockscout = InternalTransactionsIndexed, is_user_ops = PastOperationsIndexed\<rparr>"

definition least_restrictive :: indexing_status where
  "least_restrictive = \<lparr>is_blockscout = NoneIndexed, is_user_ops = IndexingPastOperations\<rparr>"

definition most_restrictive :: indexing_status where
  "most_restrictive = \<lparr>is_blockscout = InternalTransactionsIndexed, is_user_ops = PastOperationsIndexed\<rparr>"

definition is_requirement_satisfied :: "indexing_status \<Rightarrow> indexing_status \<Rightarrow> bool" where
  "is_requirement_satisfied status requirement =
     (let blockscout_satisfied = (is_blockscout requirement \<le> is_blockscout status);
          user_ops_satisfied = (is_user_ops requirement \<le> is_user_ops status)
      in blockscout_satisfied \<and> user_ops_satisfied)"

text \<open>\<open>iter.max().unwrap_or(LEAST_RESTRICTIVE)\<close>\<close>

definition max_or :: "'a::linorder \<Rightarrow> 'a list \<Rightarrow> 'a" where
  "max_or d xs = (case xs of [] \<Rightarrow> d | x # rest \<Rightarrow> foldl max x rest)"

definition most_restrictive_from :: "indexing_status list \<Rightarrow> indexing_status" where
  "most_restrictive_from requirements =
     \<lparr>is_blockscout = max_or NoneIndexed (map is_blockscout requirements),
      is_user_ops = max_or IndexingPastOperations (map is_user_ops requirements)\<rparr>"

section \<open>Combined requirements\<close>

lemma foldl_max_le: "foldl max x xs \<le> (y :: 'a::linorder) \<longleftrightarrow> x \<le> y \<and> (\<forall>z \<in> set xs. z \<le> y)"
  by (induction xs arbitrary: x) auto

lemma max_or_le:
  assumes "\<And>y. d \<le> (y :: 'a::linorder)"
  shows "max_or d xs \<le> y \<longleftrightarrow> (\<forall>z \<in> set xs. z \<le> y)"
  using assms by (cases xs) (auto simp: max_or_def foldl_max_le)

lemma least_status: "NoneIndexed \<le> b" "IndexingPastOperations \<le> u"
  by (simp_all add: less_eq_blockscout_indexing_status_def less_eq_user_ops_indexing_status_def)

lemma greatest_status: "b \<le> InternalTransactionsIndexed" "u \<le> PastOperationsIndexed"
  by (cases b; simp add: less_eq_blockscout_indexing_status_def)
    (cases u; simp add: less_eq_user_ops_indexing_status_def)

lemma satisfied_most_restrictive:
  "is_requirement_satisfied s (most_restrictive_from rs) \<longleftrightarrow> (\<forall>r \<in> set rs. is_requirement_satisfied s r)"
  by (auto simp: is_requirement_satisfied_def most_restrictive_from_def max_or_le least_status)

text \<open>a status satisfies the combined requirement exactly when it satisfies every one of the
  combined requirements; the least restrictive requirement is always satisfied, and the
  maximal status satisfies every requirement.\<close>

theorem combined_requirement:
  "(is_requirement_satisfied s (most_restrictive_from rs) \<longleftrightarrow> list_all (is_requirement_satisfied s) rs)
    \<and> is_requirement_satisfied s least_restrictive \<and> is_requirement_satisfied status_max r"
  by (simp add: satisfied_most_restrictive list_all_iff)
    (simp add: is_requirement_satisfied_def least_restrictive_def status_max_def least_status greatest_status)

end
