(* ===== verification/Stats_Groups.thy ===== *)
theory Stats_Groups
  imports Stats_Indexing Stats_Data "HOL-Library.List_Lexorder" "HOL-Library.Char_ord"
begin

text \<open>
  Data sources as a graph and the synchronised update groups
  (\<^verbatim>\<open>stats/stats/src/data_source/source.rs\<close> and \<^verbatim>\<open>stats/stats/src/update_group.rs\<close>).

  The types of the source form a tree of dependencies; here the tree is a datatype, and the
  recursive trait methods are recursive functions. Strings are compared bytewise as in a
  \<open>BTreeMap<String, _>\<close>. Concurrent operations of groups are a step relation over the locks
  that each operation still has to take and those it holds.
\<close>

section \<open>Chart keys\<close>

fun resolution_string :: "resolution_kind \<Rightarrow> string" where
  "resolution_string Day = ''DAY''"
| "resolution_string Week = ''WEEK''"
| "resolution_string Month = ''MONTH''"
| "resolution_string Year = ''YEAR''"

definition as_string :: "chart_key \<Rightarrow> string" where
  "as_string k = ck_name k @ ''_'' @ resolution_string (ck_resolution k)"

section \<open>Data sources\<close>

text \<open>
  The unit source, tuples of sources, and a source with its main and resolution
  dependencies, its chart key (for charts stored locally) and its own requirement.
\<close>

datatype source =
    UnitSource
  | TupleSource "source list"
  | Source (main_dependencies: source) (resolution_dependencies: source)
      (chart_key: "chart_key option") (self_requirement: indexing_status)

definition mutex_id :: "chart_key option \<Rightarrow> string option" where
  "mutex_id key = map_option as_string key"

text \<open>\<open>None\<close> is the failed assertion on a duplicate id.\<close>

fun all_dependencies_mutex_ids :: "source \<Rightarrow> string set option" where
  "all_dependencies_mutex_ids UnitSource = Some {}"
| "all_dependencies_mutex_ids (TupleSource ss) =
     map_option (\<lambda>idss. \<Union> (set idss)) (those (map all_dependencies_mutex_ids ss))"
| "all_dependencies_mutex_ids (Source m r key req) =
     (case (all_dependencies_mutex_ids m, all_dependencies_mutex_ids r) of
        (Some a, Some b) \<Rightarrow>
          (let ids = a \<union> b
           in case mutex_id key of
                None \<Rightarrow> Some ids
              | Some self_id \<Rightarrow> if self_id \<in> ids then None else Some (insert self_id ids))
      | _ \<Rightarrow> None)"

text \<open>The implementation for tuples does not override this method, so the default applies: both
  dependency types of a tuple are the unit source, and it has no key of its own.\<close>

fun all_dependencies_chart_keys :: "source \<Rightarrow> chart_key set" where
  "all_dependencies_chart_keys UnitSource = {}"
| "all_dependencies_chart_keys (TupleSource ss) =
     all_dependencies_chart_keys UnitSource \<union> all_dependencies_chart_keys UnitSource"
| "all_dependencies_chart_keys (Source m r key req) =
     all_dependencies_chart_keys m \<union> all_dependencies_chart_keys r
       \<union> (case key of Some k \<Rightarrow> {k} | None \<Rightarrow> {})"

fun indexing_status_requirement_recursive :: "source \<Rightarrow> indexing_status" where
  "indexing_status_requirement_recursive UnitSource = least_restrictive"
| "indexing_status_requirement_recursive (TupleSource ss) =
     most_restrictive_from (map indexing_status_requirement_recursive ss)"
| "indexing_status_requirement_recursive (Source m r key req) =
     most_restrictive_from
       [indexing_status_requirement_recursive m, indexing_status_requirement_recursive r, req]"

text \<open>
  \<open>init_recursively\<close>, \<open>update_recursively\<close> and \<open>set_next_update_from_recursively\<close> visit the
  sources in the same way: the dependencies, then the source itself, stopping at the first
  error. Sources without a key store nothing and do nothing. \<open>visit\<close> is the action on the
  chart itself; it returns the new state of the database also when it fails.
\<close>

type_synonym ('st, 'e) action = "'st \<Rightarrow> 'st \<times> ('e, unit) result"

definition and_then :: "('st, 'e) action \<Rightarrow> ('st, 'e) action \<Rightarrow> ('st, 'e) action" where
  "and_then a b st = (case a st of (st', Inl e) \<Rightarrow> (st', Inl e) | (st', Inr _) \<Rightarrow> b st')"

definition skip :: "('st, 'e) action" where
  "skip st = (st, Ok ())"

fun visit_recursively :: "(chart_key \<Rightarrow> ('st, 'e) action) \<Rightarrow> source \<Rightarrow> ('st, 'e) action" where
  "visit_recursively visit UnitSource = skip"
| "visit_recursively visit (TupleSource ss) =
     foldr (\<lambda>a b. and_then a b) (map (visit_recursively visit) ss) skip"
| "visit_recursively visit (Source m r key req) =
     and_then (visit_recursively visit m) (and_then (visit_recursively visit r)
       (case key of Some k \<Rightarrow> visit k | None \<Rightarrow> skip))"

definition init_recursively :: "('s \<Rightarrow> chart_key \<Rightarrow> ('st, 'e) action) \<Rightarrow> source \<Rightarrow> 's \<Rightarrow> ('st, 'e) action" where
  "init_recursively init_itself s init_time = visit_recursively (init_itself init_time) s"

definition update_recursively :: "('cx \<Rightarrow> chart_key \<Rightarrow> ('st, 'e) action) \<Rightarrow> source \<Rightarrow> 'cx \<Rightarrow> ('st, 'e) action" where
  "update_recursively update_itself s cx = visit_recursively (update_itself cx) s"

definition set_next_update_from_recursively ::
  "('d \<Rightarrow> chart_key \<Rightarrow> ('st, 'e) action) \<Rightarrow> source \<Rightarrow> 'd \<Rightarrow> ('st, 'e) action" where
  "set_next_update_from_recursively set_from s update_from = visit_recursively (set_from update_from) s"

section \<open>Update groups\<close>

text \<open>The members listed in \<open>construct_update_group!\<close>, with the key of each.\<close>

type_synonym update_group = "(chart_key \<times> source) list"

definition dependency_indexing_status_requirement :: "update_group \<Rightarrow> chart_key set \<Rightarrow> indexing_status" where
  "dependency_indexing_status_requirement g enabled_charts =
     most_restrictive_from (map (\<lambda>(k, s). indexing_status_requirement_recursive s)
       (filter (\<lambda>(k, s). k \<in> enabled_charts) g))"

definition list_dependency_mutex_ids :: "update_group \<Rightarrow> string set option" where
  "list_dependency_mutex_ids g =
     map_option (\<lambda>idss. \<Union> (set idss)) (those (map (\<lambda>(k, s). all_dependencies_mutex_ids s) g))"

text \<open>\<open>None\<close> of the outer option is a panic; the inner one is the result \<open>None\<close>.\<close>

fun dependency_mutex_ids_of :: "update_group \<Rightarrow> chart_key \<Rightarrow> string set option option" where
  "dependency_mutex_ids_of [] chart_id = Some None"
| "dependency_mutex_ids_of ((k, s) # g) chart_id =
     (if chart_id = k then map_option Some (all_dependencies_mutex_ids s)
      else dependency_mutex_ids_of g chart_id)"

fun dependency_keys_of :: "update_group \<Rightarrow> chart_key \<Rightarrow> chart_key set option" where
  "dependency_keys_of [] chart_id = None"
| "dependency_keys_of ((k, s) # g) chart_id =
     (if chart_id = k then Some (all_dependencies_chart_keys s) else dependency_keys_of g chart_id)"

definition visit_group ::
  "(chart_key \<Rightarrow> ('st, 'e) action) \<Rightarrow> update_group \<Rightarrow> chart_key set \<Rightarrow> ('st, 'e) action" where
  "visit_group visit g enabled_charts =
     foldr (\<lambda>(k, s) b. and_then (if k \<in> enabled_charts then visit_recursively visit s else skip) b) g skip"

definition create_charts ::
  "('s \<Rightarrow> chart_key \<Rightarrow> ('st, 'e) action) \<Rightarrow> update_group \<Rightarrow> 's \<Rightarrow> chart_key set \<Rightarrow> ('st, 'e) action" where
  "create_charts init_itself g current_time enabled_charts = visit_group (init_itself current_time) g enabled_charts"

definition update_charts ::
  "('cx \<Rightarrow> chart_key \<Rightarrow> ('st, 'e) action) \<Rightarrow> update_group \<Rightarrow> 'cx \<Rightarrow> chart_key set \<Rightarrow> ('st, 'e) action" where
  "update_charts update_itself g cx enabled_charts = visit_group (update_itself cx) g enabled_charts"

definition set_next_update_from ::
  "('d \<Rightarrow> chart_key \<Rightarrow> ('st, 'e) action) \<Rightarrow> update_group \<Rightarrow> 'd \<Rightarrow> chart_key set \<Rightarrow> ('st, 'e) action" where
  "set_next_update_from set_from g update_from enabled_charts = visit_group (set_from update_from) g enabled_charts"

section \<open>Synchronised groups\<close>

text \<open>
  A \<open>BTreeMap\<close> is the list of its entries in the order of the keys; a mutex is identified by
  a number.
\<close>

record sync_update_group =
  dependencies_mutexes :: "(string \<times> nat) list"
  inner :: update_group

text \<open>The missing mutex ids of the error are a set: the source collects them from a hash set.\<close>

definition sync_group_new ::
  "(string \<times> nat) list \<Rightarrow> update_group \<Rightarrow> (string set, sync_update_group) result option" where
  "sync_group_new all_chart_mutexes g =
     map_option (\<lambda>dependencies.
       let missing_mutexes = dependencies - set (map fst all_chart_mutexes)
       in if missing_mutexes \<noteq> {} then Err missing_mutexes
          else Ok \<lparr>dependencies_mutexes = filter (\<lambda>(n, _). n \<in> dependencies) all_chart_mutexes, inner = g\<rparr>)
     (list_dependency_mutex_ids g)"

definition joint_dependencies_mutex_ids_of :: "sync_update_group \<Rightarrow> chart_key set \<Rightarrow> string set" where
  "joint_dependencies_mutex_ids_of sg charts =
     \<Union> ((\<lambda>k. case dependency_mutex_ids_of (inner sg) k of Some (Some ids) \<Rightarrow> ids | _ \<Rightarrow> {}) ` charts)"

definition enabled_members :: "sync_update_group \<Rightarrow> chart_key set \<Rightarrow> chart_key set" where
  "enabled_members sg enabled_charts = set (filter (\<lambda>k. k \<in> enabled_charts) (map fst (inner sg)))"

definition get_enabled_members_with_deps ::
  "sync_update_group \<Rightarrow> chart_key set \<Rightarrow> chart_key set \<times> string set" where
  "get_enabled_members_with_deps sg enabled_charts =
     (let members = enabled_members sg enabled_charts
      in (members, joint_dependencies_mutex_ids_of sg members))"

text \<open>The mutexes that \<open>lock_in_order\<close> takes, in the order in which it takes them.\<close>

definition lock_in_order :: "sync_update_group \<Rightarrow> string set \<Rightarrow> nat list" where
  "lock_in_order sg to_lock = map snd (filter (\<lambda>(n, _). n \<in> to_lock) (dependencies_mutexes sg))"

definition lock_enabled_and_dependencies :: "sync_update_group \<Rightarrow> chart_key set \<Rightarrow> nat list" where
  "lock_enabled_and_dependencies sg enabled_charts =
     lock_in_order sg (snd (get_enabled_members_with_deps sg enabled_charts))"

definition enabled_members_with_deps :: "sync_update_group \<Rightarrow> chart_key set \<Rightarrow> chart_key set" where
  "enabled_members_with_deps sg enabled_charts =
     \<Union> ((\<lambda>k. case dependency_keys_of (inner sg) k of Some keys \<Rightarrow> keys | None \<Rightarrow> {}) ` enabled_charts)"

section \<open>Concurrent operations\<close>

text \<open>
  An operation (\<open>create_charts_sync\<close>, \<open>update_charts_sync\<close> or \<open>set_next_update_from_sync\<close>)
  takes its mutexes one by one, waiting for each to be free, then works, and drops all its
  guards at the end.
\<close>

datatype task = Locking (to_take: "nat list") (held: "nat list") | Working (held: "nat list") | Finished

fun holds :: "task \<Rightarrow> nat set" where
  "holds (Locking ms hs) = set hs"
| "holds (Working hs) = set hs"
| "holds Finished = {}"

definition free :: "task list \<Rightarrow> nat \<Rightarrow> bool" where
  "free ts m \<longleftrightarrow> (\<forall>t \<in> set ts. m \<notin> holds t)"

inductive sync_step :: "task list \<Rightarrow> task list \<Rightarrow> bool" where
  acquire: "i < length ts \<Longrightarrow> ts ! i = Locking (m # ms) hs \<Longrightarrow> free ts m \<Longrightarrow>
    sync_step ts (ts[i := Locking ms (hs @ [m])])"
| start: "i < length ts \<Longrightarrow> ts ! i = Locking [] hs \<Longrightarrow> sync_step ts (ts[i := Working hs])"
| finish: "i < length ts \<Longrightarrow> ts ! i = Working hs \<Longrightarrow> sync_step ts (ts[i := Finished])"

definition begin_operations :: "(sync_update_group \<times> chart_key set) list \<Rightarrow> task list" where
  "begin_operations ops = map (\<lambda>(sg, enabled). Locking (lock_enabled_and_dependencies sg enabled) []) ops"

section \<open>Keys are told apart\<close>

lemma resolution_no_underscore: "CHR 0x5F \<notin> set (resolution_string r)"
  by (cases r) auto

lemma split_at_last:
  assumes "a @ [c] @ x = b @ [c] @ y" "c \<notin> set x" "c \<notin> set y"
  shows "a = b \<and> x = y"
proof -
  have "takeWhile (\<lambda>d. d \<noteq> c) (rev (a @ [c] @ x)) = rev x" "takeWhile (\<lambda>d. d \<noteq> c) (rev (b @ [c] @ y)) = rev y"
    using assms(2,3) by (auto simp: takeWhile_append2 takeWhile_tail)
  with assms(1) have "x = y" by (metis rev_rev_ident)
  with assms(1) show ?thesis by simp
qed

lemma as_string_inj: "as_string a = as_string b \<Longrightarrow> a = b"
proof -
  assume "as_string a = as_string b"
  then have "ck_name a = ck_name b \<and> resolution_string (ck_resolution a) = resolution_string (ck_resolution b)"
    unfolding as_string_def by (rule split_at_last) (rule resolution_no_underscore)+
  moreover have "resolution_string r = resolution_string q \<Longrightarrow> r = q" for r q
    by (cases r; cases q) auto
  ultimately show "a = b" by simp
qed

section \<open>Order of visits\<close>

text \<open>The charts that a visit without errors reaches, in order.\<close>

fun visit_order :: "source \<Rightarrow> chart_key list" where
  "visit_order UnitSource = []"
| "visit_order (TupleSource ss) = concat (map visit_order ss)"
| "visit_order (Source m r key req) =
     visit_order m @ visit_order r @ (case key of Some k \<Rightarrow> [k] | None \<Rightarrow> [])"

definition run_all :: "('k \<Rightarrow> ('st, 'e) action) \<Rightarrow> 'k list \<Rightarrow> ('st, 'e) action" where
  "run_all visit ks = foldr (\<lambda>k b. and_then (visit k) b) ks skip"

lemma and_then_assoc: "and_then (and_then a b) c = and_then a (and_then b c)"
  by (rule ext) (simp add: and_then_def split: prod.splits sum.splits)

lemma and_then_skip [simp]: "and_then skip a = a" "and_then a skip = a"
  by (rule ext, simp add: and_then_def skip_def split: prod.splits sum.splits)+

lemma run_all_simps [simp]:
  "run_all visit [] = skip" "run_all visit (k # ks) = and_then (visit k) (run_all visit ks)"
  "run_all visit (ks @ ls) = and_then (run_all visit ks) (run_all visit ls)"
proof -
  show "run_all visit [] = skip" "run_all visit (k # ks) = and_then (visit k) (run_all visit ks)"
    by (simp_all add: run_all_def)
  show "run_all visit (ks @ ls) = and_then (run_all visit ks) (run_all visit ls)"
    by (induction ks) (simp_all add: run_all_def and_then_assoc)
qed

lemma visit_in_order: "visit_recursively visit s = run_all visit (visit_order s)"
proof (induction visit s rule: visit_recursively.induct)
  case (2 visit ss)
  then show ?case by (induction ss) auto
qed (auto simp: and_then_assoc split: option.splits)

text \<open>All sources of a tree.\<close>

fun subsources :: "source \<Rightarrow> source list" where
  "subsources UnitSource = [UnitSource]"
| "subsources (TupleSource ss) = TupleSource ss # concat (map subsources ss)"
| "subsources (Source m r key req) = Source m r key req # subsources m @ subsources r"

lemma append_split:
  assumes "xs @ ys = ks @ k # ls"
  obtains us where "xs = ks @ k # us" | us where "ks = xs @ us" "ys = us @ k # ls"
  using assms by (auto simp: append_eq_append_conv2 append_eq_Cons_conv)

lemma visit_order_dependencies:
  "visit_order s = ks @ k # ls \<Longrightarrow>
     \<exists>m r req. Source m r (Some k) req \<in> set (subsources s) \<and> set (visit_order m) \<union> set (visit_order r) \<subseteq> set ks"
proof (induction s arbitrary: ks ls rule: visit_order.induct)
  case (2 ss)
  have "\<exists>t us vs. t \<in> set ss \<and> visit_order t = us @ k # vs \<and> set us \<subseteq> set ks"
    using "2.prems"
  proof (induction ss arbitrary: ks)
    case (Cons t ss)
    from Cons.prems consider (here) us where "visit_order t = ks @ k # us"
      | (later) us where "ks = visit_order t @ us" "concat (map visit_order ss) = us @ k # ls"
      by (auto elim: append_split)
    then show ?case
    proof cases
      case here
      then show ?thesis by fastforce
    next
      case later
      from Cons.IH[of us] later obtain t' us' vs where "t' \<in> set ss" "visit_order t' = us' @ k # vs" "set us' \<subseteq> set us"
        by auto
      with later(1) show ?thesis by fastforce
    qed
  qed simp
  then obtain t us vs where t: "t \<in> set ss" "visit_order t = us @ k # vs" "set us \<subseteq> set ks" by blast
  from "2.IH"[OF t(1,2)] t show ?case by fastforce
next
  case (3 m r key req)
  from "3.prems" consider (m) us where "visit_order m = ks @ k # us"
    | (r) us vs where "ks = visit_order m @ us" "visit_order r = us @ k # vs"
    | (self) "key = Some k" "ks = visit_order m @ visit_order r"
    by (auto elim!: append_split split: option.splits simp: append_eq_Cons_conv Cons_eq_append_conv)
  then show ?case
  proof cases
    case m
    from "3.IH"(1)[OF this] show ?thesis by fastforce
  next
    case r
    from "3.IH"(2)[OF r(2)] r(1) show ?thesis by fastforce
  next
    case self
    then show ?thesis by fastforce
  qed
qed simp

section \<open>Requirements of a tree\<close>

fun own_requirement :: "source \<Rightarrow> indexing_status" where
  "own_requirement (Source m r key req) = req"
| "own_requirement s = least_restrictive"

lemma satisfied_least_restrictive [simp]: "is_requirement_satisfied st least_restrictive"
  by (simp add: is_requirement_satisfied_def least_restrictive_def least_status)

lemma satisfied_recursive:
  "is_requirement_satisfied st (indexing_status_requirement_recursive s) \<longleftrightarrow>
     (\<forall>t \<in> set (subsources s). is_requirement_satisfied st (own_requirement t))"
  by (induction s rule: subsources.induct) (auto simp: satisfied_most_restrictive)

section \<open>Lock ordering\<close>

definition position :: "nat list \<Rightarrow> nat \<Rightarrow> nat" where
  "position M m = length (takeWhile (\<lambda>x. x \<noteq> m) M)"

lemma position_nth: "distinct M \<Longrightarrow> i < length M \<Longrightarrow> position M (M ! i) = i"
  unfolding position_def by (rule takeWhile_length_eqI) (auto simp: nth_eq_iff_index_eq)

lemma sorted_wrt_subseq: "subseq xs ys \<Longrightarrow> sorted_wrt P ys \<Longrightarrow> sorted_wrt P xs"
  by (induction rule: list_emb.induct) (auto dest: list_emb_set)

lemma subseq_positions:
  assumes "distinct M" "subseq xs M"
  shows "sorted_wrt (\<lambda>a b. position M a < position M b) xs"
proof (rule sorted_wrt_subseq[OF assms(2)])
  show "sorted_wrt (\<lambda>a b. position M a < position M b) M"
    using assms(1) by (simp add: sorted_wrt_iff_nth_less position_nth)
qed

inductive_cases sync_stepE: "sync_step ts ts'"

text \<open>The mutexes of a task, taken and to be taken.\<close>

fun sequence :: "task \<Rightarrow> nat list" where
  "sequence (Locking ms hs) = hs @ ms"
| "sequence (Working hs) = hs"
| "sequence Finished = []"

definition exclusive :: "task list \<Rightarrow> bool" where
  "exclusive ts \<longleftrightarrow> (\<forall>i < length ts. \<forall>j < length ts. i \<noteq> j \<longrightarrow> holds (ts ! i) \<inter> holds (ts ! j) = {})"

definition ordered :: "nat list \<Rightarrow> task list \<Rightarrow> bool" where
  "ordered M ts \<longleftrightarrow> (\<forall>t \<in> set ts. subseq (sequence t) M)"

lemma step_exclusive: "sync_step ts ts' \<Longrightarrow> exclusive ts \<Longrightarrow> exclusive ts'"
proof (induction rule: sync_step.induct)
  case (acquire i ts m ms hs)
  have "m \<notin> holds (ts ! j)" if "j < length ts" for j
    using acquire(3) that by (auto simp: free_def)
  with acquire show ?case by (fastforce simp: exclusive_def nth_list_update)
qed (fastforce simp: exclusive_def nth_list_update)+

lemma step_ordered: "sync_step ts ts' \<Longrightarrow> ordered M ts \<Longrightarrow> ordered M ts'"
proof (induction rule: sync_step.induct)
  case (acquire i ts m ms hs)
  have "subseq (sequence (ts ! i)) M" using acquire nth_mem unfolding ordered_def by blast
  then have "subseq (sequence (Locking ms (hs @ [m]))) M" using acquire by simp
  with acquire show ?case by (auto simp: ordered_def dest!: set_update_subset_insert[THEN subsetD])
next
  case (start i ts hs)
  have "subseq (sequence (ts ! i)) M" using start nth_mem unfolding ordered_def by blast
  then have "subseq (sequence (Working hs)) M" using start by simp
  with start show ?case by (auto simp: ordered_def dest!: set_update_subset_insert[THEN subsetD])
next
  case (finish i ts hs)
  then show ?case by (auto simp: ordered_def dest!: set_update_subset_insert[THEN subsetD])
qed

lemma rtranclp_invariant:
  assumes "sync_step\<^sup>*\<^sup>* ts ts'" "P ts" "\<And>a b. sync_step a b \<Longrightarrow> P a \<Longrightarrow> P b"
  shows "P ts'"
  using assms by (induction rule: rtranclp_induct) auto

text \<open>A task that waits holds only mutexes before the one it waits for.\<close>

lemma waiting_after_held:
  assumes "distinct M" "ordered M ts" "Locking (m # ms) hs \<in> set ts" "h \<in> set hs"
  shows "position M h < position M m"
proof -
  have "subseq (hs @ m # ms) M" using assms(2,3) by (fastforce simp: ordered_def)
  from subseq_positions[OF assms(1) this] assms(4) show ?thesis by (auto simp: sorted_wrt_append)
qed

lemma no_deadlock:
  assumes dist: "distinct M" and ord: "ordered M ts" and stuck: "\<nexists>ts'. sync_step ts ts'"
  shows "\<forall>t \<in> set ts. t = Finished"
proof (rule ccontr)
  assume "\<not> (\<forall>t \<in> set ts. t = Finished)"
  have waiting: "\<exists>m ms hs. t = Locking (m # ms) hs \<and> \<not> free ts m" if t: "t \<in> set ts" "t \<noteq> Finished" for t
  proof -
    obtain i where i: "i < length ts" "ts ! i = t" using t(1) by (auto simp: in_set_conv_nth)
    show ?thesis
    proof (cases t)
      case (Locking ms hs)
      show ?thesis
      proof (cases ms)
        case Nil
        then show ?thesis using start[of i ts hs] i Locking stuck by blast
      next
        case (Cons m rest)
        then show ?thesis using acquire[of i ts m rest hs] i Locking stuck by blast
      qed
    next
      case (Working hs)
      then show ?thesis using finish[of i ts hs] i stuck by blast
    qed (use t in simp)
  qed
  define W where "W = {m. \<exists>ms hs. Locking (m # ms) hs \<in> set ts \<and> \<not> free ts m}"
  have "W \<subseteq> (\<lambda>t. hd (to_take t)) ` set ts"
  proof
    fix m assume "m \<in> W"
    then obtain ms hs where "Locking (m # ms) hs \<in> set ts" by (auto simp: W_def)
    then show "m \<in> (\<lambda>t. hd (to_take t)) ` set ts" by force
  qed
  then have fin: "finite W" by (rule finite_subset) simp
  have "W \<noteq> {}" using waiting \<open>\<not> (\<forall>t \<in> set ts. t = Finished)\<close> by (fastforce simp: W_def)
  with fin obtain m where m: "m \<in> W" and last: "\<And>x. x \<in> W \<Longrightarrow> position M x \<le> position M m"
    using Max_in[of "position M ` W"] Max_ge[of "position M ` W"] by fastforce
  then obtain t where t: "t \<in> set ts" "m \<in> holds t" by (auto simp: W_def free_def)
  then have "t \<noteq> Finished" by auto
  with waiting[OF t(1)] obtain m' ms hs where t': "t = Locking (m' # ms) hs" "\<not> free ts m'" by blast
  then have "m' \<in> W" using t(1) by (auto simp: W_def)
  moreover have "position M m < position M m'"
    using waiting_after_held[OF dist ord, of m' ms hs m] t t' by simp
  ultimately show False using last by fastforce
qed

fun work :: "task \<Rightarrow> nat" where
  "work (Locking ms hs) = length ms + 2"
| "work (Working hs) = 1"
| "work Finished = 0"

lemma work_0_iff [simp]: "work t = 0 \<longleftrightarrow> t = Finished"
  by (cases t) auto

lemma step_work: "sync_step ts ts' \<Longrightarrow> sum_list (map work ts) = Suc (sum_list (map work ts'))"
proof -
  assume "sync_step ts ts'"
  then obtain i t where i: "i < length ts" "ts' = ts[i := t]" "work (ts ! i) = Suc (work t)"
    by (cases rule: sync_step.cases) auto
  then have "work (ts ! i) \<le> sum_list (map work ts)"
    using elem_le_sum_list[of i "map work ts"] by simp
  with i show ?thesis by (simp add: map_update sum_list_update)
qed

lemma steps_work: "(sync_step ^^ n) ts ts' \<Longrightarrow> sum_list (map work ts) = n + sum_list (map work ts')"
  by (induction n arbitrary: ts') (auto dest!: step_work)

lemma group_subseq:
  assumes "sync_group_new mutexes g = Some (Ok sg)"
  shows "subseq (lock_enabled_and_dependencies sg enabled) (map snd mutexes)"
proof -
  obtain P where "dependencies_mutexes sg = filter P mutexes"
    using assms by (auto simp: sync_group_new_def Let_def split: if_splits)
  then show ?thesis
    by (simp add: lock_enabled_and_dependencies_def lock_in_order_def subseq_map)
qed


section \<open>What an operation locks and what it touches\<close>

text \<open>The charts that an operation of a group visits when no chart fails, in order.\<close>

definition group_order :: "update_group \<Rightarrow> chart_key set \<Rightarrow> chart_key list" where
  "group_order g enabled_charts = concat (map (\<lambda>(k, s). if k \<in> enabled_charts then visit_order s else []) g)"

lemma group_order_simps [simp]:
  "group_order [] e = []"
  "group_order ((k, s) # g) e = (if k \<in> e then visit_order s else []) @ group_order g e"
  by (simp_all add: group_order_def)

lemma visit_group_in_order: "visit_group visit g enabled = run_all visit (group_order g enabled)"
  unfolding visit_group_def by (induction g) (auto simp: visit_in_order)

lemma those_Some_ex: "those (map f xs) = Some ys \<Longrightarrow> x \<in> set xs \<Longrightarrow> \<exists>y \<in> set ys. f x = Some y"
  by (induction xs arbitrary: ys) (auto split: option.splits)

lemma mutex_ids_of_visited: "all_dependencies_mutex_ids s = Some ids \<Longrightarrow> ids = as_string ` set (visit_order s)"
proof (induction s arbitrary: ids rule: visit_order.induct)
  case (2 ss)
  from "2.prems" obtain idss where idss: "those (map all_dependencies_mutex_ids ss) = Some idss" "ids = \<Union> (set idss)"
    by auto
  have "\<Union> (set idss) = (\<Union>t \<in> set ss. as_string ` set (visit_order t))"
    using idss(1) "2.IH"
  proof (induction ss arbitrary: idss)
    case (Cons t ss)
    then show ?case by (auto split: option.splits) fastforce+
  qed simp
  with idss show ?case by auto
qed (auto simp: mutex_id_def Let_def split: option.splits if_splits)

lemma dependency_mutex_ids_of_member:
  assumes "distinct (map fst g)" "(k, s) \<in> set g"
  shows "dependency_mutex_ids_of g k = map_option Some (all_dependencies_mutex_ids s)"
  using assms by (induction g) (auto simp: rev_image_eqI)

text \<open>A group locks the mutex of every chart that it visits.\<close>

lemma locks_visited:
  assumes new: "sync_group_new mutexes g = Some (Ok sg)" and g: "distinct (map fst g)"
    and c: "c \<in> set (group_order g enabled)"
  shows "\<exists>m. (as_string c, m) \<in> set mutexes \<and> m \<in> set (lock_enabled_and_dependencies sg enabled)"
proof -
  from c obtain k s where ks: "(k, s) \<in> set g" "k \<in> enabled" "c \<in> set (visit_order s)"
    by (auto simp: group_order_def split: if_splits)
  from new obtain idss where idss: "those (map (\<lambda>(k, s). all_dependencies_mutex_ids s) g) = Some idss"
    and sub: "\<Union> (set idss) \<subseteq> set (map fst mutexes)"
    and sg: "sg = \<lparr>dependencies_mutexes = filter (\<lambda>(n, _). n \<in> \<Union> (set idss)) mutexes, inner = g\<rparr>"
    by (auto simp: sync_group_new_def list_dependency_mutex_ids_def Let_def split: if_splits)
  from those_Some_ex[OF idss ks(1)] obtain ids where ids: "all_dependencies_mutex_ids s = Some ids" "ids \<in> set idss"
    by auto
  have cid: "as_string c \<in> ids" using mutex_ids_of_visited[OF ids(1)] ks(3) by simp
  then have "as_string c \<in> fst ` set mutexes" using sub ids(2) by auto
  then obtain m where m: "(as_string c, m) \<in> set mutexes" by force
  have "k \<in> enabled_members sg enabled" using ks sg by (force simp: enabled_members_def)
  moreover have "dependency_mutex_ids_of g k = Some (Some ids)"
    using dependency_mutex_ids_of_member[OF g ks(1)] ids(1) by simp
  ultimately have "as_string c \<in> joint_dependencies_mutex_ids_of sg (enabled_members sg enabled)"
    using cid sg unfolding joint_dependencies_mutex_ids_of_def
    by (intro UN_I[of k]) simp_all
  moreover have "(as_string c, m) \<in> set (dependencies_mutexes sg)" using m ids(2) cid sg by auto
  ultimately have "(as_string c, m) \<in> set (filter (\<lambda>(n, _).
      n \<in> joint_dependencies_mutex_ids_of sg (enabled_members sg enabled)) (dependencies_mutexes sg))"
    by simp
  then have "m \<in> set (lock_enabled_and_dependencies sg enabled)"
    unfolding lock_enabled_and_dependencies_def lock_in_order_def get_enabled_members_with_deps_def Let_def snd_conv
      set_map by (rule rev_image_eqI) simp
  with m show ?thesis by blast
qed

section \<open>Reachable states\<close>

lemma begin_operations_exclusive: "exclusive (begin_operations ops)"
proof -
  have "holds ((begin_operations ops) ! i) = {}" if "i < length ops" for i
    using that by (simp add: begin_operations_def split: prod.splits)
  then show ?thesis by (simp add: exclusive_def begin_operations_def)
qed

definition of_groups :: "(string \<times> nat) list \<Rightarrow> (sync_update_group \<times> chart_key set) list \<Rightarrow> bool" where
  "of_groups mutexes ops \<longleftrightarrow> (\<forall>(sg, e) \<in> set ops.
     distinct (map fst (inner sg)) \<and> sync_group_new mutexes (inner sg) = Some (Ok sg))"

lemma of_groups_nth:
  assumes "of_groups mutexes ops" "i < length ops" "ops ! i = (sg, e)"
  shows "distinct (map fst (inner sg))" "sync_group_new mutexes (inner sg) = Some (Ok sg)"
  using assms nth_mem[of i ops] by (auto simp: of_groups_def)

lemma begin_operations_ordered:
  assumes "of_groups mutexes ops"
  shows "ordered (map snd mutexes) (begin_operations ops)"
  using assms group_subseq by (fastforce simp: of_groups_def ordered_def begin_operations_def)

text \<open>Until it ends, an operation keeps the sequence of mutexes it began with.\<close>

definition same_locks :: "task list \<Rightarrow> task list \<Rightarrow> bool" where
  "same_locks ts ts' \<longleftrightarrow> length ts' = length ts \<and>
     (\<forall>i < length ts. ts' ! i \<noteq> Finished \<longrightarrow> sequence (ts' ! i) = sequence (ts ! i))"

lemma step_same_locks: "sync_step ts' ts'' \<Longrightarrow> same_locks ts ts' \<Longrightarrow> same_locks ts ts''"
  by (erule sync_stepE) (auto simp: same_locks_def nth_list_update)

lemma steps_same_locks: "sync_step\<^sup>*\<^sup>* ts ts' \<Longrightarrow> same_locks ts ts'"
  by (erule rtranclp_invariant) (auto simp: same_locks_def[of ts ts] intro: step_same_locks)

lemma working_holds_locks:
  assumes "sync_step\<^sup>*\<^sup>* (begin_operations ops) ts" "i < length ops" "ts ! i = Working hs" "ops ! i = (sg, e)"
  shows "hs = lock_enabled_and_dependencies sg e"
  using steps_same_locks[OF assms(1)] assms(2-4) by (auto simp: same_locks_def begin_operations_def)

lemma run_to_the_end:
  assumes dist: "distinct M" and ord: "ordered M ts"
  shows "\<exists>ts'. (sync_step ^^ sum_list (map work ts)) ts ts' \<and> (\<forall>t \<in> set ts'. t = Finished)"
  using ord
proof (induction "sum_list (map work ts)" arbitrary: ts)
  case 0
  then have "\<forall>t \<in> set ts. t = Finished" by simp
  moreover have "(sync_step ^^ 0) ts ts" by simp
  ultimately show ?case using 0(1) by metis
next
  case (Suc n)
  have "sum_list (map work ts) \<noteq> 0" using Suc.hyps(2) by linarith
  then have "\<not> (\<forall>t \<in> set ts. t = Finished)" by (simp only: sum_list_eq_0_iff set_map) auto
  then obtain ts1 where step: "sync_step ts ts1" using no_deadlock[OF dist Suc.prems] by blast
  with Suc.hyps(2) step_work have n: "n = sum_list (map work ts1)" by fastforce
  from Suc.hyps(1)[OF n step_ordered[OF step Suc.prems]] obtain ts' where
    "(sync_step ^^ n) ts1 ts'" "\<forall>t \<in> set ts'. t = Finished" using n by auto
  with step have "(sync_step ^^ Suc n) ts ts'" by (blast intro: relpowp_Suc_I2)
  with Suc.hyps(2) \<open>\<forall>t \<in> set ts'. t = Finished\<close> show ?case by metis
qed

lemma relpowp_invariant:
  assumes "(sync_step ^^ n) ts ts'" "P ts" "\<And>a b. sync_step a b \<Longrightarrow> P a \<Longrightarrow> P b"
  shows "P ts'"
  using assms by (blast intro: rtranclp_invariant[where P = P and ts = ts] relpowp_imp_rtranclp)

lemma locks_count:
  "sum_list (map work (begin_operations ops)) = (\<Sum>(sg, e) \<leftarrow> ops. length (lock_enabled_and_dependencies sg e) + 2)"
  by (simp add: begin_operations_def o_def case_prod_unfold)

lemma group_order_dependencies:
  "group_order g enabled = ks @ k # ls \<Longrightarrow>
     \<exists>(k', s) \<in> set g. \<exists>m r req. k' \<in> enabled \<and> Source m r (Some k) req \<in> set (subsources s)
       \<and> set (visit_order m) \<union> set (visit_order r) \<subseteq> set ks"
proof (induction g arbitrary: ks)
  case (Cons ks0 g)
  obtain k0 s where ks0: "ks0 = (k0, s)" by (cases ks0)
  show ?case
  proof (cases "k0 \<in> enabled")
    case True
    with Cons.prems ks0 consider (here) us where "visit_order s = ks @ k # us"
      | (later) us where "ks = visit_order s @ us" "group_order g enabled = us @ k # ls"
      by (auto elim: append_split)
    then show ?thesis
    proof cases
      case here
      from visit_order_dependencies[OF here] True ks0 show ?thesis by fastforce
    next
      case later
      from Cons.IH[OF later(2)] later(1) show ?thesis by fastforce
    qed
  next
    case False
    with Cons.prems Cons.IH[of ks] ks0 show ?thesis by fastforce
  qed
qed simp

section \<open>Sample groups\<close>

text \<open>Two groups whose charts share a dependency, and a third one with a chart of its own.\<close>

abbreviation "key_avg \<equiv> \<lparr>ck_name = ''averageBlocks'', ck_resolution = Day\<rparr>"
abbreviation "key_new \<equiv> \<lparr>ck_name = ''newBlocks'', ck_resolution = Day\<rparr>"
abbreviation "key_total \<equiv> \<lparr>ck_name = ''totalBlocks'', ck_resolution = Day\<rparr>"
abbreviation "key_txns \<equiv> \<lparr>ck_name = ''txns'', ck_resolution = Day\<rparr>"

definition chart_on :: "source \<Rightarrow> chart_key \<Rightarrow> source" where
  "chart_on dep k = Source dep UnitSource (Some k) least_restrictive"

definition sample_mutexes :: "(string \<times> nat) list" where
  "sample_mutexes = map (\<lambda>(k, m). (as_string k, m)) [(key_avg, 0), (key_new, 1), (key_total, 2), (key_txns, 3)]"

definition sample_group :: "(chart_key \<times> nat) list \<Rightarrow> chart_key \<Rightarrow> source \<Rightarrow> sync_update_group" where
  "sample_group ms k dep =
     \<lparr>dependencies_mutexes = map (\<lambda>(k, m). (as_string k, m)) ms, inner = [(k, chart_on dep k)]\<rparr>"

definition sample_ops :: "(sync_update_group \<times> chart_key set) list" where
  "sample_ops =
     [(sample_group [(key_avg, 0), (key_new, 1)] key_avg (chart_on UnitSource key_new), {key_avg, key_new}),
      (sample_group [(key_new, 1), (key_total, 2)] key_total (chart_on UnitSource key_new), {key_total}),
      (sample_group [(key_txns, 3)] key_txns UnitSource, {key_txns})]"

lemmas sample_defs = sample_ops_def sample_group_def chart_on_def sample_mutexes_def as_string_def

lemma sample_of_groups: "of_groups sample_mutexes sample_ops"
  by (simp add: of_groups_def sample_defs sync_group_new_def list_dependency_mutex_ids_def mutex_id_def Let_def)

lemma sample_begin: "begin_operations sample_ops = [Locking [0, 1] [], Locking [1, 2] [], Locking [3] []]"
  by (simp add: begin_operations_def sample_defs lock_enabled_and_dependencies_def lock_in_order_def
      get_enabled_members_with_deps_def enabled_members_def joint_dependencies_mutex_ids_of_def mutex_id_def Let_def)

lemma sample_mutexes_distinct: "distinct (map fst sample_mutexes)" "distinct (map snd sample_mutexes)"
  by (simp_all add: sample_mutexes_def as_string_def)

lemma sample_run:
  "(sync_step ^^ 5) (begin_operations sample_ops) [Working [0, 1], Locking [1, 2] [], Working [3]]"
proof -
  have "sync_step [Locking [0, 1] [], Locking [1, 2] [], Locking [3] []] [Locking [1] [0], Locking [1, 2] [], Locking [3] []]"
    using acquire[of 0 "[Locking [0, 1] [], Locking [1, 2] [], Locking [3] []]" 0 "[1]" "[]"] by (simp add: free_def)
  moreover have "sync_step [Locking [1] [0], Locking [1, 2] [], Locking [3] []] [Locking [1] [0], Locking [1, 2] [], Locking [] [3]]"
    using acquire[of 2 "[Locking [1] [0], Locking [1, 2] [], Locking [3] []]" 3 "[]" "[]"] by (simp add: free_def)
  moreover have "sync_step [Locking [1] [0], Locking [1, 2] [], Locking [] [3]] [Locking [] [0, 1], Locking [1, 2] [], Locking [] [3]]"
    using acquire[of 0 "[Locking [1] [0], Locking [1, 2] [], Locking [] [3]]" 1 "[]" "[0]"] by (simp add: free_def)
  moreover have "sync_step [Locking [] [0, 1], Locking [1, 2] [], Locking [] [3]] [Working [0, 1], Locking [1, 2] [], Locking [] [3]]"
    using start[of 0 "[Locking [] [0, 1], Locking [1, 2] [], Locking [] [3]]" "[0, 1]"] by simp
  moreover have "sync_step [Working [0, 1], Locking [1, 2] [], Locking [] [3]] [Working [0, 1], Locking [1, 2] [], Working [3]]"
    using start[of 2 "[Working [0, 1], Locking [1, 2] [], Locking [] [3]]" "[3]"] by simp
  moreover have five: "(5 :: nat) = Suc (Suc (Suc (Suc (Suc 0))))" by simp
  ultimately show ?thesis unfolding sample_begin five by (blast intro: relpowp_Suc_I2 relpowp_0_I)
qed

section \<open>Properties\<close>

text \<open>C6: Any number of concurrent operations on groups built from the same mutexes never
  touch the same chart at the same time: two operations that are past locking visit disjoint
  sets of charts, whatever the interleaving.\<close>

theorem concurrent_operations_touch_disjoint_charts:
  assumes names: "distinct (map fst mutexes)" and ids: "distinct (map snd mutexes)" and ops: "of_groups mutexes ops"
    and run: "sync_step\<^sup>*\<^sup>* (begin_operations ops) ts"
    and ij: "i < length ops" "j < length ops" "i \<noteq> j"
    and i: "ops ! i = (sg, e)" "ts ! i = Working hs" and j: "ops ! j = (sg', e')" "ts ! j = Working hs'"
  shows "set (group_order (inner sg) e) \<inter> set (group_order (inner sg') e') = {}"
proof (rule ccontr)
  assume "\<not> ?thesis"
  then obtain c where c: "c \<in> set (group_order (inner sg) e)" "c \<in> set (group_order (inner sg') e')" by auto
  obtain m where m: "(as_string c, m) \<in> set mutexes" "m \<in> set hs"
    using locks_visited[OF of_groups_nth(2,1)[OF ops ij(1) i(1)] c(1)] working_holds_locks[OF run ij(1) i(2,1)] by blast
  obtain m' where m': "(as_string c, m') \<in> set mutexes" "m' \<in> set hs'"
    using locks_visited[OF of_groups_nth(2,1)[OF ops ij(2) j(1)] c(2)] working_holds_locks[OF run ij(2) j(2,1)] by blast
  have "m = m'" using names m(1) m'(1) by (auto dest: eq_key_imp_eq_value)
  moreover have "holds (ts ! i) \<inter> holds (ts ! j) = {}"
    using rtranclp_invariant[where P = exclusive, OF run begin_operations_exclusive step_exclusive]
      steps_same_locks[OF run] ij
    by (simp add: exclusive_def same_locks_def begin_operations_def)
  ultimately show False using m(2) m'(2) i(2) j(2) by auto
qed

theorem concurrent_operations_touch_disjoint_charts_witness:
  "set (group_order (inner (fst (sample_ops ! 0))) {key_avg, key_new}) \<inter>
     set (group_order (inner (fst (sample_ops ! 2))) {key_txns}) = {}"
  using concurrent_operations_touch_disjoint_charts[OF sample_mutexes_distinct sample_of_groups
      relpowp_imp_rtranclp[OF sample_run], where i = 0 and j = 2]
  by (simp add: sample_ops_def)

text \<open>C40: Concurrent operations on groups built from the same mutexes never deadlock: every
  interleaving has at most one step per mutex and two per operation, and from every state on
  the way all operations can be run to their end in the steps that remain.\<close>

theorem concurrent_operations_finish:
  assumes ids: "distinct (map snd mutexes)" and ops: "of_groups mutexes ops"
    and run: "(sync_step ^^ n) (begin_operations ops) ts"
  defines "all_steps \<equiv> (\<Sum>(sg, e) \<leftarrow> ops. length (lock_enabled_and_dependencies sg e) + 2)"
  shows "n \<le> all_steps \<and> (\<exists>ts'. (sync_step ^^ (all_steps - n)) ts ts' \<and> (\<forall>t \<in> set ts'. t = Finished))
    \<and> ((\<nexists>ts'. sync_step ts ts') \<longrightarrow> n = all_steps \<and> (\<forall>t \<in> set ts. t = Finished))"
proof (intro conjI impI)
  have ord: "ordered (map snd mutexes) ts"
    by (rule relpowp_invariant[where P = "ordered (map snd mutexes)", OF run begin_operations_ordered[OF ops]])
      (rule step_ordered)
  have n: "all_steps = n + sum_list (map work ts)" using steps_work[OF run] locks_count[of ops] by (simp add: all_steps_def)
  from n show "n \<le> all_steps" by simp
  from n run_to_the_end[OF ids ord]
  show "\<exists>ts'. (sync_step ^^ (all_steps - n)) ts ts' \<and> (\<forall>t \<in> set ts'. t = Finished)" by simp
  assume "\<nexists>ts'. sync_step ts ts'"
  then have "\<forall>t \<in> set ts. t = Finished" by (rule no_deadlock[OF ids ord])
  moreover from this have "map work ts = map (\<lambda>_. 0) ts" by auto
  ultimately show "n = all_steps" "\<forall>t \<in> set ts. t = Finished" using n by (simp_all add: sum_list_triv)
qed

theorem concurrent_operations_finish_witness:
  "\<exists>ts'. (sync_step ^^ 6) [Working [0, 1], Locking [1, 2] [], Working [3]] ts' \<and> (\<forall>t \<in> set ts'. t = Finished)"
proof -
  have "(\<Sum>(sg, e) \<leftarrow> sample_ops. length (lock_enabled_and_dependencies sg e) + 2) = 11"
    using locks_count[of sample_ops] by (simp add: sample_begin)
  then show ?thesis
    using concurrent_operations_finish[OF sample_mutexes_distinct(2) sample_of_groups sample_run] by simp
qed

text \<open>C37: An operation of a group visits the charts of its enabled members one after another
  and stops at the first that fails, and every chart is visited only after all charts that its
  own source depends on.\<close>

theorem dependencies_before_dependants:
  assumes "group_order g enabled = ks @ k # ls"
  shows "visit_group visit g enabled st =
      (case run_all visit ks st of
         (st', Inl e) \<Rightarrow> (st', Inl e)
       | (st', Inr _) \<Rightarrow> and_then (visit k) (run_all visit ls) st')
    \<and> (\<exists>(k', s) \<in> set g. \<exists>m r req. k' \<in> enabled \<and> Source m r (Some k) req \<in> set (subsources s)
      \<and> set (visit_order m) \<union> set (visit_order r) \<subseteq> set ks)"
  using group_order_dependencies[OF assms] assms by (simp add: visit_group_in_order and_then_def)

theorem dependencies_before_dependants_witness:
  "visit_group (\<lambda>k st. (k # st, if k = key_avg then Err ''db'' else Ok ())) (inner (fst (sample_ops ! 0))) {key_avg} []
     = ([key_avg, key_new], Err ''db'')"
  using dependencies_before_dependants[where g = "inner (fst (sample_ops ! 0))" and enabled = "{key_avg}"
      and ks = "[key_new]" and k = key_avg and ls = "[]"
      and visit = "\<lambda>k st. (k # st, if k = key_avg then Err ''db'' else Ok ())" and st = "[]"]
  by (simp add: sample_defs and_then_def skip_def)

text \<open>The indexing status that a group requires for its enabled charts is satisfied
  exactly when the statuses required by all sources in the trees of the enabled members are.\<close>

theorem group_requirement_satisfied_iff:
  "is_requirement_satisfied st (dependency_indexing_status_requirement g enabled) \<longleftrightarrow>
     (\<forall>(k, s) \<in> set g. k \<in> enabled \<longrightarrow> (\<forall>t \<in> set (subsources s). is_requirement_satisfied st (own_requirement t)))"
  by (auto simp: dependency_indexing_status_requirement_def satisfied_most_restrictive satisfied_recursive)

theorem group_requirement_satisfied_iff_witness:
  "\<not> is_requirement_satisfied status_min (dependency_indexing_status_requirement
      [(key_avg, Source (Source UnitSource UnitSource (Some key_new) status_max) UnitSource (Some key_avg) status_min)]
      {key_avg})"
  using group_requirement_satisfied_iff[of status_min
      "[(key_avg, Source (Source UnitSource UnitSource (Some key_new) status_max) UnitSource (Some key_avg) status_min)]"
      "{key_avg}"]
  by (simp add: status_min_def status_max_def is_requirement_satisfied_def Let_def
      less_eq_blockscout_indexing_status_def)

text \<open>A tuple of sources reports no chart keys, although it visits the charts of all its
  members and locks their mutexes.\<close>

theorem tuple_hides_chart_keys:
  "all_dependencies_chart_keys (TupleSource [chart_on UnitSource key_new, chart_on UnitSource key_txns]) = {} \<and>
   visit_order (TupleSource [chart_on UnitSource key_new, chart_on UnitSource key_txns]) = [key_new, key_txns]"
  by (simp add: chart_on_def)

end
