(* ===== verification/Stats_Update.thy ===== *)
theory Stats_Update
  imports Stats_Store Stats_Batch Stats_Groups
begin

text \<open>
  Updating a chart that is stored in the local database
  (\<^verbatim>\<open>stats/stats/src/data_source/kinds/local_db/mod.rs\<close> and the behaviours under
  \<^verbatim>\<open>parameters/update\<close>).

  The dependencies of a chart and the queries against the chain's own database are parameters.
  \<open>'st\<close> is the state of the statistics database; a dependency that is itself stored there reads
  it. The functions return \<open>None\<close> when the code panics.
\<close>

section \<open>The chart and the update\<close>

record chart_props =
  cp_name :: string
  cp_type :: chart_type
  cp_policy :: missing_date_policy
  cp_approximate_trailing_points :: nat

definition cp_key :: "('d, 's, 'k, 't) timespan_impl \<Rightarrow> chart_props \<Rightarrow> chart_key" where
  "cp_key T chart = \<lparr>ck_name = cp_name chart, ck_resolution = enum_variant T\<rparr>"

record 's update_context =
  cx_time :: 's
  cx_force_full :: bool

text \<open>\<open>get_min_block_blockscout\<close> and \<open>get_min_date_blockscout\<close>.\<close>

record ('d, 'db) blockscout =
  min_block :: "('db, int) result"
  min_date :: "('db, 'd) result"

type_synonym ('st, 's, 'db, 'a) dependency = "'st \<Rightarrow> ('s, 'db, 'a) data_source"

type_synonym ('st, 's, 'db, 't) update_behaviour =
  "'s update_context \<Rightarrow> int \<Rightarrow> ('t, string) timespan_value option \<Rightarrow> int \<Rightarrow> ('st, 'db chart_error, unit) prog"

definition update_metadata :: "('st, 'd, 's, 'db) store \<Rightarrow> int \<Rightarrow> 's \<Rightarrow> ('st, 'db chart_error, unit) prog" where
  "update_metadata S chart_id update_time = stats_db_prog (set_last_updated_at S chart_id update_time)"

definition postgres_timestamps_eq :: "('s \<Rightarrow> 's) \<Rightarrow> 's \<Rightarrow> 's \<Rightarrow> bool" where
  "postgres_timestamps_eq micros time_1 time_2 = (micros time_1 = micros time_2)"

definition already_updated :: "('s \<Rightarrow> 's) \<Rightarrow> 's \<Rightarrow> 's chart_row \<Rightarrow> bool" where
  "already_updated micros time metadata =
     (case row_last_updated_at metadata of
        Some last_updated_at \<Rightarrow> postgres_timestamps_eq micros time last_updated_at
      | None \<Rightarrow> False)"

definition update_itself_inner ::
  "('d::linorder, 's) chrono \<Rightarrow> ('d, 's, 'k::linorder, 't) timespan_impl \<Rightarrow> ('t \<Rightarrow> 't \<Rightarrow> nat option) \<Rightarrow> ('s \<Rightarrow> 's)
     \<Rightarrow> ('st, 'd, 's, 'db) store \<Rightarrow> ('d, 'db) blockscout \<Rightarrow> chart_props \<Rightarrow> ('st, 's, 'db, 't) update_behaviour
     \<Rightarrow> 'd \<Rightarrow> 's update_context \<Rightarrow> ('st, 'db chart_error, unit) prog" where
  "update_itself_inner C T diff micros S bs chart update_values today cx st =
     (case get_chart_metadata (queries S st) (cp_key T chart) of
        Inl e \<Rightarrow> Some (st, Err (chart_error_of_read e))
      | Inr metadata \<Rightarrow>
          if already_updated micros (cx_time cx) metadata then Some (st, Ok ())
          else case min_block bs of
            Inl e \<Rightarrow> Some (st, Err (BlockscoutDB e))
          | Inr min_blockscout_block \<Rightarrow>
              (case last_accurate_point C T diff (queries S st) today (cp_name chart) (cp_type chart)
                      (row_id metadata) min_blockscout_block (cx_force_full cx)
                      (cp_approximate_trailing_points chart) (cp_policy chart) of
                 None \<Rightarrow> None
               | Some (Inl e) \<Rightarrow> Some (st, Err e)
               | Some (Inr point) \<Rightarrow>
                   bind_prog (update_values cx (row_id metadata) point min_blockscout_block)
                     (\<lambda>_. update_metadata S (row_id metadata) (cx_time cx)) st))"

definition set_next_update_from_itself ::
  "('d, 's::linorder) chrono \<Rightarrow> ('d, 's, 'k, 't) timespan_impl \<Rightarrow> ('st, 'd, 's, 'db) store \<Rightarrow> chart_props \<Rightarrow> 'd
     \<Rightarrow> ('st, 'db chart_error, unit) prog" where
  "set_next_update_from_itself C T S chart update_from st =
     (case get_chart_metadata (queries S st) (cp_key T chart) of
        Inl e \<Rightarrow> Some (st, Err (chart_error_of_read e))
      | Inr metadata \<Rightarrow>
          (let update_from = day_start C update_from
           in case row_last_updated_at metadata of
                Some current_last_updated_at \<Rightarrow>
                  if update_from \<le> current_last_updated_at
                  then stats_db_prog (set_last_updated_at S (row_id metadata) update_from) st
                  else Some (st, Ok ())
              | None \<Rightarrow> Some (st, Ok ())))"

definition init_itself ::
  "('d, 's, 'k, 't) timespan_impl \<Rightarrow> ('st, 'd, 's, 'db) store \<Rightarrow> chart_props \<Rightarrow> 's \<Rightarrow> ('st, 'db) statement" where
  "init_itself T S chart init_time = create_chart S (cp_key T chart) (cp_type chart) init_time"

section \<open>Ways to compute the values\<close>

definition pass_vec ::
  "('d, 's, 'k, 't) timespan_impl \<Rightarrow> ('st, 'd, 's, 'db) store \<Rightarrow> int \<Rightarrow> int \<Rightarrow> ('t, string) timespan_value list
     \<Rightarrow> ('st, 'db chart_error, nat) prog" where
  "pass_vec T S chart_id min_blockscout_block main_data =
     (let found = length main_data;
          values = map (\<lambda>v. active_model T v chart_id (Some min_blockscout_block)) main_data
      in bind_prog (stats_db_prog (insert_data_many S values)) (\<lambda>_. return_prog found))"

definition pass_point ::
  "('d, 's, 'k, 't) timespan_impl \<Rightarrow> ('st, 'd, 's, 'db) store \<Rightarrow> ('st, 's, 'db, ('t, string) timespan_value) dependency
     \<Rightarrow> ('st, 's, 'db, 't) update_behaviour" where
  "pass_point T S main_dep cx chart_id last_accurate min_blockscout_block st =
     bind_prog (of_result (main_dep st full_range))
       (\<lambda>data. stats_db_prog (insert_data_many S [active_model T data chart_id (Some min_blockscout_block)])) st"

text \<open>The dependency is read outside of the transaction, so it sees the state before.\<close>

definition clear_all_and_pass_vec ::
  "('d, 's, 'k, 't) timespan_impl \<Rightarrow> ('st, 'd, 's, 'db) store \<Rightarrow> ('st, 's, 'db, ('t, string) timespan_value list) dependency
     \<Rightarrow> ('st, 's, 'db, 't) update_behaviour" where
  "clear_all_and_pass_vec T S main_dep cx chart_id last_accurate min_blockscout_block st =
     in_transaction S
       (bind_prog (stats_db_prog (clear_all_chart_data S chart_id)) (\<lambda>_.
        bind_prog (of_result (main_dep st full_range)) (\<lambda>main_data.
        bind_prog (pass_vec T S chart_id min_blockscout_block main_data) (\<lambda>found. return_prog ())))) st"

section \<open>Batches\<close>

text \<open>A step gets the chart id, the minimal block, the last point of the previous step and the
  data of the two dependencies, and returns the number of points found.\<close>

type_synonym ('st, 'db, 't, 'a, 'b) batch_step =
  "int \<Rightarrow> int \<Rightarrow> ('t, string) timespan_value \<Rightarrow> 'a \<Rightarrow> 'b \<Rightarrow> ('st, 'db chart_error, nat) prog"

definition pass_vec_step ::
  "('d, 's, 'k, 't) timespan_impl \<Rightarrow> ('st, 'd, 's, 'db) store
     \<Rightarrow> ('st, 'db, 't, ('t, string) timespan_value list, unit) batch_step" where
  "pass_vec_step T S chart_id min_blockscout_block last_accurate main_data resolution_data =
     pass_vec T S chart_id min_blockscout_block main_data"

definition clear_all_and_pass_step ::
  "('d, 's, 'k, 't) timespan_impl \<Rightarrow> ('st, 'd, 's, 'db) store
     \<Rightarrow> ('st, 'db, 't, ('t, string) timespan_value list, unit) batch_step" where
  "clear_all_and_pass_step T S chart_id min_blockscout_block last_accurate main_data resolution_data =
     in_transaction S
       (bind_prog (stats_db_prog (clear_all_chart_data S chart_id)) (\<lambda>_.
        pass_vec_step T S chart_id min_blockscout_block last_accurate main_data resolution_data))"

text \<open>\<open>parse\<close> is \<open>FromStr\<close> of the values with the displayed error, \<open>to_str\<close> is \<open>ToString\<close>.\<close>

definition add_last_value_step ::
  "('d, 's, 'k, 't) timespan_impl \<Rightarrow> ('st, 'd, 's, 'db) store \<Rightarrow> chart_props \<Rightarrow> (string \<Rightarrow> (string, 'v::plus) result)
     \<Rightarrow> ('v \<Rightarrow> string) \<Rightarrow> ('st, 'db, 't, ('t, 'v) timespan_value list, unit) batch_step" where
  "add_last_value_step T S chart parse to_str chart_id min_blockscout_block last_accurate main_data resolution_data =
     (case parse (tv_value last_accurate) of
        Inl e \<Rightarrow> of_result (Err (Internal (''failed to parse value in chart '' @ [CHR 0x27] @ as_string (cp_key T chart) @ [CHR 0x27] @ '': '' @ e)))
      | Inr partial_sum \<Rightarrow>
          pass_vec_step T S chart_id min_blockscout_block last_accurate
            (map (\<lambda>tv. \<lparr>timespan = timespan tv, tv_value = to_str (tv_value tv + partial_sum)\<rparr>) main_data) ())"

definition two_points_message :: string where
  "two_points_message = ''Retrieved 2 points from previous step; probably an issue with range construction and handling''"

text \<open>\<open>query st r\<close> is \<open>Query::query_data\<close> of the chart itself, without filling.\<close>

definition get_previous_step_last_point ::
  "('d, 's, 'k, 't) timespan_impl
     \<Rightarrow> ('st \<Rightarrow> 's universal_range \<Rightarrow> ('db chart_error, ('t, string) extended_timespan_value list) result option)
     \<Rightarrow> 't \<Rightarrow> ('st, 'db chart_error, ('t, string) timespan_value) prog" where
  "get_previous_step_last_point T query this_step_start st =
     (let previous = saturating_previous_timespan T this_step_start
      in case query st (universal_of_range (into_time_range T previous)) of
           None \<Rightarrow> None
         | Some (Inl e) \<Rightarrow> Some (st, Err e)
         | Some (Inr values) \<Rightarrow>
             (let point = (if values = [] then with_zero_value zero_string previous else into_timespan_value (last values))
              in if 1 < length values then Some (st, Err (Internal two_points_message)) else Some (st, Ok point)))"

definition batch_update_values_step ::
  "('d, 's, 'k, 't) timespan_impl \<Rightarrow> ('st, 's, 'db, 'a) dependency \<Rightarrow> ('st, 's, 'db, 'b) dependency
     \<Rightarrow> ('st, 'db, 't, 'a, 'b) batch_step \<Rightarrow> int \<Rightarrow> int \<Rightarrow> ('t, string) timespan_value \<Rightarrow> ('t, 's) batch_range
     \<Rightarrow> ('st, 'db chart_error, nat) prog" where
  "batch_update_values_step T main_dep resolution_dep step chart_id min_blockscout_block last_accurate r st =
     (let query_range = universal_of_range (into_date_time_range T r)
      in bind_prog (of_result (main_dep st query_range)) (\<lambda>main_data.
         bind_prog (of_result (resolution_dep st query_range)) (\<lambda>resolution_data.
           step chart_id min_blockscout_block last_accurate main_data resolution_data)) st)"

fun batch_loop ::
  "('d, 's, 'k, 't) timespan_impl \<Rightarrow> ('st, 'd, 's, 'db) store \<Rightarrow> ('st, 's, 'db, 'a) dependency \<Rightarrow> ('st, 's, 'db, 'b) dependency
     \<Rightarrow> ('st \<Rightarrow> 's universal_range \<Rightarrow> ('db chart_error, ('t, string) extended_timespan_value list) result option)
     \<Rightarrow> ('st, 'db, 't, 'a, 'b) batch_step \<Rightarrow> int \<Rightarrow> int \<Rightarrow> ('t, 's) batch_range list \<Rightarrow> ('st, 'db chart_error, unit) prog" where
  "batch_loop T S main_dep resolution_dep query step chart_id min_blockscout_block [] = return_prog ()"
| "batch_loop T S main_dep resolution_dep query step chart_id min_blockscout_block (r # rs) =
     bind_prog (get_previous_step_last_point T query (batch_start r)) (\<lambda>previous_step_last_point.
     bind_prog (batch_update_values_step T main_dep resolution_dep step chart_id min_blockscout_block
                  previous_step_last_point r) (\<lambda>found.
     bind_prog (update_metadata S chart_id (range_end (into_date_time_range T r))) (\<lambda>_.
     batch_loop T S main_dep resolution_dep query step chart_id min_blockscout_block rs)))"

definition batch_update ::
  "('d, 's::linorder) chrono \<Rightarrow> ('d, 's, 'k::linorder, 't) timespan_impl \<Rightarrow> ('st, 'd, 's, 'db) store \<Rightarrow> ('d, 'db) blockscout
     \<Rightarrow> ('st, 's, 'db, 'a) dependency \<Rightarrow> ('st, 's, 'db, 'b) dependency
     \<Rightarrow> ('st \<Rightarrow> 's universal_range \<Rightarrow> ('db chart_error, ('t, string) extended_timespan_value list) result option)
     \<Rightarrow> ('st, 'db, 't, 'a, 'b) batch_step \<Rightarrow> nat \<Rightarrow> ('st, 's, 'db, 't) update_behaviour" where
  "batch_update C T S bs main_dep resolution_dep query step batch_size cx chart_id last_accurate min_blockscout_block st =
     (let now = cx_time cx;
          update_from = map_option (\<lambda>p. saturating_next_timespan T (timespan p)) last_accurate
      in case (case update_from of Some d \<Rightarrow> Ok d
               | None \<Rightarrow> (case min_date bs of Inl e \<Rightarrow> Err (BlockscoutDB e) | Inr d \<Rightarrow> Ok (from_date T d))) of
           Inl e \<Rightarrow> Some (st, Err e)
         | Inr update_range_start \<Rightarrow>
             (case generate_batch_ranges C T update_range_start now batch_size of
                None \<Rightarrow> None
              | Some (Inl e) \<Rightarrow> Some (st, Err e)
              | Some (Inr steps) \<Rightarrow>
                  batch_loop T S main_dep resolution_dep query step chart_id min_blockscout_block steps st))"

text \<open>Counters: the latest point, or an estimate when there is none.\<close>

definition default_query_last ::
  "('d::linorder, 's) chrono \<Rightarrow> ('d, 's, 'k, 't) timespan_impl \<Rightarrow> ('d, 's, 'db) stats_db \<Rightarrow> chart_props \<Rightarrow> 'd \<Rightarrow> 's update_context
     \<Rightarrow> ('db chart_error, ('d, string) timespan_value) result" where
  "default_query_last C T db chart today cx =
     (case get_counter_data C db today (cp_name chart) (Some (date_naive C (cx_time cx))) (cp_policy chart) of
        Inl e \<Rightarrow> Err (chart_error_of_read e)
      | Inr None \<Rightarrow> Err (NoCounterData (cp_key T chart))
      | Inr (Some v) \<Rightarrow> Ok v)"

definition query_last_with_estimation_fallback ::
  "('d::linorder, 's) chrono \<Rightarrow> ('d, 's, 'db) stats_db \<Rightarrow> chart_props \<Rightarrow> ('db chart_error, ('d, string) timespan_value) result
     \<Rightarrow> 'd \<Rightarrow> 's update_context \<Rightarrow> ('db chart_error, ('d, string) timespan_value) result" where
  "query_last_with_estimation_fallback C db chart estimate today cx =
     (case get_counter_data C db today (cp_name chart) (Some (date_naive C (cx_time cx))) (cp_policy chart) of
        Inl e \<Rightarrow> Err (chart_error_of_read e)
      | Inr (Some v) \<Rightarrow> Ok v
      | Inr None \<Rightarrow> estimate)"

section \<open>What an update may change\<close>

text \<open>
  Between two contents of the tables, only the data of chart \<open>c\<close> and the \<open>last_updated_at\<close> of its
  row may differ.
\<close>

definition only_chart :: "int \<Rightarrow> ('d, 's) tables \<Rightarrow> ('d, 's) tables \<Rightarrow> bool" where
  "only_chart c X Y \<longleftrightarrow>
     (\<forall>k. case charts X k of
        None \<Rightarrow> charts Y k = None
      | Some row \<Rightarrow> (if row_id row = c then \<exists>t. charts Y k = Some (row\<lparr>row_last_updated_at := t\<rparr>)
                      else charts Y k = Some row))
     \<and> (\<forall>c'. c' \<noteq> c \<longrightarrow> chart_data Y c' = chart_data X c')"

lemma chart_row_eta [simp]: "row\<lparr>row_last_updated_at := row_last_updated_at row\<rparr> = row"
  by (cases row) simp

lemma chart_row_self [simp]: "\<exists>t. row = row\<lparr>row_last_updated_at := t\<rparr>"
  by (rule exI[of _ "row_last_updated_at row"]) simp

lemma only_chart_data:
  "charts Y = charts X \<Longrightarrow> (\<And>c'. c' \<noteq> c \<Longrightarrow> chart_data Y c' = chart_data X c') \<Longrightarrow> only_chart c X Y"
  by (simp add: only_chart_def split: option.splits)

lemma only_chart_refl [simp]: "only_chart c X X"
  by (rule only_chart_data) simp_all

lemma only_chart_charts:
  "only_chart c X Y \<Longrightarrow> charts X k = Some row \<Longrightarrow> \<exists>t. charts Y k = Some (row\<lparr>row_last_updated_at := t\<rparr>)"
  "only_chart c X Y \<Longrightarrow> charts X k = Some row \<Longrightarrow> row_id row \<noteq> c \<Longrightarrow> charts Y k = Some row"
  "only_chart c X Y \<Longrightarrow> charts X k = None \<Longrightarrow> charts Y k = None"
  by (auto simp: only_chart_def dest!: spec[of _ k] split: if_splits)

lemma only_chart_trans: "only_chart c X Y \<Longrightarrow> only_chart c Y Z \<Longrightarrow> only_chart c X Z"
proof -
  assume xy: "only_chart c X Y" and yz: "only_chart c Y Z"
  have "case charts X k of None \<Rightarrow> charts Z k = None
      | Some row \<Rightarrow> (if row_id row = c then \<exists>t. charts Z k = Some (row\<lparr>row_last_updated_at := t\<rparr>)
                      else charts Z k = Some row)" for k
  proof (cases "charts X k")
    case None
    then show ?thesis using only_chart_charts(3)[OF xy] only_chart_charts(3)[OF yz] by simp
  next
    case (Some row)
    obtain t where t: "charts Y k = Some (row\<lparr>row_last_updated_at := t\<rparr>)" using only_chart_charts(1)[OF xy Some] by blast
    show ?thesis
      using only_chart_charts(1)[OF yz t] only_chart_charts(2)[OF xy Some] only_chart_charts(2)[OF yz] Some
      by auto
  qed
  moreover have "chart_data Z c' = chart_data X c'" if "c' \<noteq> c" for c'
    using xy yz that by (simp add: only_chart_def)
  ultimately show ?thesis by (simp add: only_chart_def)
qed

lemma only_chart_upsert: "\<forall>r \<in> set rows. dr_chart_id r = c \<Longrightarrow> only_chart c X (X\<lparr>chart_data := upsert rows (chart_data X)\<rparr>)"
  by (rule only_chart_data) (simp_all add: upsert_other[of rows c])

lemma only_chart_delete: "only_chart c X (X\<lparr>chart_data := (chart_data X)(c := f)\<rparr>)"
  by (rule only_chart_data) simp_all

lemma only_chart_touch: "only_chart c X (X\<lparr>charts := touch_chart c t (charts X)\<rparr>)"
  by (auto simp: only_chart_def touch_chart_def split: option.splits)

definition confined :: "('st \<Rightarrow> ('d, 's) tables) \<Rightarrow> int \<Rightarrow> ('st, 'e, 'a) prog \<Rightarrow> bool" where
  "confined tables_of c m \<longleftrightarrow> (\<forall>st st' r. m st = Some (st', r) \<longrightarrow> only_chart c (tables_of st) (tables_of st'))"

lemma confinedD: "confined tables_of c m \<Longrightarrow> m st = Some (st', r) \<Longrightarrow> only_chart c (tables_of st) (tables_of st')"
  by (auto simp: confined_def)

lemma confined_bind [intro]:
  assumes "confined tables_of c m" "\<And>x. confined tables_of c (f x)"
  shows "confined tables_of c (bind_prog m f)"
  unfolding confined_def
proof (intro allI impI)
  fix st st' r
  assume "bind_prog m f st = Some (st', r)"
  then show "only_chart c (tables_of st) (tables_of st')"
    using confinedD[OF assms(1)] confinedD[OF assms(2)]
    by (auto simp: bind_prog_def split: option.splits sum.splits) (blast intro: only_chart_trans)
qed

lemma confined_return: "confined tables_of c (return_prog x)" "confined tables_of c (of_result r)"
  by (simp_all add: confined_def)

lemma confined_at: "(\<And>st. f st = g st st) \<Longrightarrow> (\<And>st. confined tables_of c (g st)) \<Longrightarrow> confined tables_of c f"
  by (simp add: confined_def)

context chart_tables
begin

lemma confined_stats_db_prog:
  assumes "\<And>st st' r. s st = (st', r) \<Longrightarrow> only_chart c (tables_of st) (tables_of st')"
  shows "confined tables_of c (stats_db_prog s)"
  using assms by (auto simp: confined_def elim!: stats_db_prog_cases)

lemma confined_insert: "\<forall>r \<in> set rows. dr_chart_id r = c \<Longrightarrow> confined tables_of c (stats_db_prog (insert_data_many S rows))"
proof (rule confined_stats_db_prog)
  fix st st' r
  assume rows: "\<forall>r \<in> set rows. dr_chart_id r = c" and run: "insert_data_many S rows st = (st', r)"
  show "only_chart c (tables_of st) (tables_of st')"
  proof (cases r)
    case (Inl e)
    with run show ?thesis by (simp add: insert_data_many_Err)
  next
    case (Inr u)
    with run insert_data_many_Ok(1) only_chart_upsert[OF rows] show ?thesis by metis
  qed
qed

lemma confined_delete: "confined tables_of c (stats_db_prog (clear_all_chart_data S c))"
proof (rule confined_stats_db_prog)
  fix st st' r
  assume "clear_all_chart_data S c st = (st', r)"
  then show "only_chart c (tables_of st) (tables_of st')"
    by (cases r) (auto simp: clear_all_chart_data_def delete_Err only_chart_delete dest!: delete_Ok)
qed

lemma confined_update_metadata: "confined tables_of c (update_metadata S c t)"
  unfolding update_metadata_def
proof (rule confined_stats_db_prog)
  fix st st' r
  assume "set_last_updated_at S c t st = (st', r)"
  then show "only_chart c (tables_of st) (tables_of st')"
    by (cases r) (auto simp: set_last_updated_at_def put_Err only_chart_touch dest!: put_Ok)
qed

lemma confined_transaction:
  assumes "confined tables_of c body"
  shows "confined tables_of c (in_transaction S body)"
  unfolding confined_def
proof (intro allI impI)
  fix st st' r
  assume run: "in_transaction S body st = Some (st', r)"
  show "only_chart c (tables_of st) (tables_of st')"
  proof (cases r)
    case (Inl e)
    with run show ?thesis by (auto dest: in_transaction_Err)
  next
    case (Inr x)
    with run obtain st1 where "body st = Some (st1, Ok x)" "tables_of st' = tables_of st1"
      by (auto elim: in_transaction_Ok)
    with confinedD[OF assms] show ?thesis by metis
  qed
qed

lemma confined_pass_vec: "confined tables_of c (pass_vec T S c mb data)"
  unfolding pass_vec_def Let_def
  by (intro confined_bind confined_insert confined_return) (auto simp: active_model_def)

lemma confined_pass_point: "confined tables_of c (pass_point T S dep cx c p mb)"
  by (rule confined_at, rule pass_point_def)
    (intro confined_bind confined_insert confined_return, simp add: active_model_def)

lemma confined_clear_all_and_pass_vec: "confined tables_of c (clear_all_and_pass_vec T S dep cx c p mb)"
  by (rule confined_at, rule clear_all_and_pass_vec_def)
    (intro confined_transaction confined_bind confined_delete confined_pass_vec confined_return)

lemma confined_batch_update:
  assumes step: "\<And>p data res. confined tables_of c (step c mb p data res)"
  shows "confined tables_of c (batch_update C T S bs main_dep resolution_dep query step n cx c p mb)"
proof -
  have prev: "confined tables_of c (get_previous_step_last_point T query t)" for t
    by (auto simp: confined_def get_previous_step_last_point_def Let_def split: option.splits sum.splits if_splits)
  have one: "confined tables_of c (batch_update_values_step T main_dep resolution_dep step c mb q r)" for q r
    by (rule confined_at, rule batch_update_values_step_def[unfolded Let_def]) (intro confined_bind step confined_return)
  have "confined tables_of c (batch_loop T S main_dep resolution_dep query step c mb rs)" for rs
    by (induction rs; unfold batch_loop.simps)
      ((intro confined_return | intro confined_bind prev one confined_update_metadata; assumption)+)
  then show ?thesis
    by (auto simp: confined_def batch_update_def Let_def split: option.splits sum.splits)
qed

lemma confined_steps:
  "confined tables_of c (pass_vec_step T S c mb p data res)"
  "confined tables_of c (clear_all_and_pass_step T S c mb p data res)"
  "confined tables_of c (add_last_value_step T S chart parse to_str c mb p data' res')"
  by (auto simp: pass_vec_step_def clear_all_and_pass_step_def add_last_value_step_def
      intro!: confined_transaction confined_bind confined_delete confined_pass_vec confined_return split: sum.splits)

lemma confined_update_itself:
  assumes upd: "\<And>c p mb. confined tables_of c (update_values cx c p mb)"
    and run: "update_itself_inner C T diff micros' S bs chart update_values today cx st = Some (st', r)"
    and row: "charts (tables_of st) (cp_key T chart) = Some row"
  shows "only_chart (row_id row) (tables_of st) (tables_of st')"
proof (cases "get_chart_metadata (queries S st) (cp_key T chart)")
  case (Inl e)
  with run show ?thesis by (simp add: update_itself_inner_def)
next
  case (Inr metadata)
  then have "find_chart_row (queries S st) (cp_name chart) (enum_variant T) = Ok (Some metadata)"
    by (auto simp: get_chart_metadata_def cp_key_def split: sum.splits option.splits)
  from find_row[OF this] row have md: "metadata = row" by (simp add: cp_key_def)
  from run Inr md consider "st' = st"
    | p mb where "bind_prog (update_values cx (row_id row) p mb) (\<lambda>_. update_metadata S (row_id row) (cx_time cx)) st
        = Some (st', r)"
    by (auto simp: update_itself_inner_def split: if_splits sum.splits option.splits)
  then show ?thesis
    by cases (auto intro: confinedD[OF confined_bind[OF upd confined_update_metadata]])
qed

text \<open>After a successful update, another one for the same time changes nothing.\<close>

lemma update_again:
  assumes upd: "\<And>c p mb. confined tables_of c (update_values cx c p mb)"
    and run: "update_itself_inner C T diff micros S bs chart update_values today cx st = Some (st', Ok ())"
    and reads: "\<And>n r. \<exists>x. find_chart_row (queries S st') n r = Ok x"
  shows "update_itself_inner C T diff micros S bs' chart update_values' today' cx st' = Some (st', Ok ())"
proof -
  from run obtain metadata where md: "get_chart_metadata (queries S st) (cp_key T chart) = Ok metadata"
    by (auto simp: update_itself_inner_def split: sum.splits)
  then have "find_chart_row (queries S st) (cp_name chart) (enum_variant T) = Ok (Some metadata)"
    by (auto simp: get_chart_metadata_def cp_key_def split: sum.splits option.splits)
  from find_row[OF this] have row: "charts (tables_of st) (cp_key T chart) = Some metadata" by (simp add: cp_key_def)
  obtain row where row': "charts (tables_of st') (cp_key T chart) = Some row" "already_updated micros (cx_time cx) row"
  proof (cases "already_updated micros (cx_time cx) metadata")
    case True
    with run md have "st' = st" by (simp add: update_itself_inner_def)
    with True row that show ?thesis by blast
  next
    case False
    with run md obtain p mb where
      "bind_prog (update_values cx (row_id metadata) p mb) (\<lambda>_. update_metadata S (row_id metadata) (cx_time cx)) st
        = Some (st', Ok ())"
      by (auto simp: update_itself_inner_def split: sum.splits option.splits)
    then obtain st1 where st1: "update_values cx (row_id metadata) p mb st = Some (st1, Ok ())"
      "update_metadata S (row_id metadata) (cx_time cx) st1 = Some (st', Ok ())"
      by (auto simp: bind_prog_Ok_iff)
    obtain t where t: "charts (tables_of st1) (cp_key T chart) = Some (metadata\<lparr>row_last_updated_at := t\<rparr>)"
      using only_chart_charts(1)[OF confinedD[OF upd st1(1)] row] by blast
    have "tables_of st' = (tables_of st1)\<lparr>charts := touch_chart (row_id metadata) (stored (cx_time cx)) (charts (tables_of st1))\<rparr>"
      using st1(2) unfolding update_metadata_def
      by (elim stats_db_prog_cases) (auto simp: set_last_updated_at_Ok)
    then have "charts (tables_of st') (cp_key T chart) = Some (metadata\<lparr>row_last_updated_at := Some (stored (cx_time cx))\<rparr>)"
      using t by (simp add: touch_chart_def)
    then show ?thesis by (rule that) (simp add: already_updated_def postgres_timestamps_eq_def stored_micros)
  qed
  obtain x where x: "find_chart_row (queries S st') (cp_name chart) (enum_variant T) = Ok x" using reads by blast
  from find_row[OF x] row'(1) have "x = Some row" by (simp add: cp_key_def)
  with x row'(2) show ?thesis by (simp add: update_itself_inner_def get_chart_metadata_def cp_key_def)
qed

end

section \<open>Stored values\<close>

lemma upsert_same:
  "distinct (map (\<lambda>r. (dr_chart_id r, dr_date r)) rows) \<Longrightarrow> r \<in> set rows \<Longrightarrow>
    upsert rows D (dr_chart_id r) (dr_date r) = Some (dr_value r, dr_min_block r)"
proof (induction rows)
  case (Cons x rows)
  then show ?case by (cases "r = x") (force simp: upsert_def)+
qed simp

lemma upsert_absent: "(\<And>r. r \<in> set rows \<Longrightarrow> dr_chart_id r = c \<Longrightarrow> dr_date r \<noteq> d) \<Longrightarrow> upsert rows D c d = D c d"
proof -
  assume "\<And>r. r \<in> set rows \<Longrightarrow> dr_chart_id r = c \<Longrightarrow> dr_date r \<noteq> d"
  then have "find (\<lambda>r. dr_chart_id r = c \<and> dr_date r = d) rows = None" by (auto simp: find_None_iff)
  then show ?thesis by (simp add: upsert_def)
qed

lemma upsert_into_empty:
  "upsert (map (\<lambda>v. active_model T v c mb) data) (D(c := \<lambda>_. None))
    = D(c := map_of (map (\<lambda>q. (into_date T (timespan q), (tv_value q, mb))) data))"
proof (intro ext)
  fix c' d
  show "upsert (map (\<lambda>v. active_model T v c mb) data) (D(c := \<lambda>_. None)) c' d
    = (D(c := map_of (map (\<lambda>q. (into_date T (timespan q), (tv_value q, mb))) data))) c' d"
  proof (cases "c' = c")
    case True
    then show ?thesis by (induction data) (simp_all add: upsert_def active_model_def)
  next
    case False
    then show ?thesis by (simp add: upsert_absent active_model_def upsert_other[of _ c])
  qed
qed

text \<open>A point is due in an interval of time when its timespan starts in it.\<close>

definition due :: "('d, 's::linorder, 'k, 't) timespan_impl \<Rightarrow> 's range \<Rightarrow> ('t, 'v) timespan_value \<Rightarrow> bool" where
  "due T r p \<longleftrightarrow> range_start r \<le> saturating_start_timestamp T (timespan p)
     \<and> saturating_start_timestamp T (timespan p) < range_end r"

text \<open>In \<open>Y\<close> the points of \<open>src\<close> that are due in \<open>r\<close> are stored, and all else is as in \<open>X\<close>.\<close>

definition refreshed ::
  "('d, 's::linorder, 'k, 't) timespan_impl \<Rightarrow> ('t, string) timespan_value list \<Rightarrow> int \<Rightarrow> int \<Rightarrow> 's range
     \<Rightarrow> ('d, 's) tables \<Rightarrow> ('d, 's) tables \<Rightarrow> bool" where
  "refreshed T src c mb r X Y \<longleftrightarrow>
     (\<forall>p \<in> set src. due T r p \<longrightarrow> chart_data Y c (into_date T (timespan p)) = Some (tv_value p, Some mb))
     \<and> (\<forall>d. (\<forall>p \<in> set src. due T r p \<longrightarrow> into_date T (timespan p) \<noteq> d) \<longrightarrow> chart_data Y c d = chart_data X c d)"

lemma refreshed_trans:
  assumes dates: "distinct (map (\<lambda>p. into_date T (timespan p)) src)" and "a \<le> m" "m \<le> b"
    and xy: "refreshed T src c mb (Range a m) X Y" and yz: "refreshed T src c mb (Range m b) Y Z"
  shows "refreshed T src c mb (Range a b) X Z"
proof -
  have split: "due T (Range a b) p \<longleftrightarrow> due T (Range a m) p \<or> due T (Range m b) p" for p
    using assms(2,3) by (auto simp: due_def)
  have apart: "\<not> (due T (Range a m) p \<and> due T (Range m b) p)" for p by (auto simp: due_def)
  have same: "q = p" if "p \<in> set src" "q \<in> set src" "into_date T (timespan q) = into_date T (timespan p)" for p q
    using dates that by (auto simp: distinct_map inj_on_def)
  have "chart_data Z c (into_date T (timespan p)) = Some (tv_value p, Some mb)" if p: "p \<in> set src" "due T (Range a b) p" for p
  proof (cases "due T (Range m b) p")
    case False
    then have "due T (Range a m) p" using p(2) split by blast
    then have y: "chart_data Y c (into_date T (timespan p)) = Some (tv_value p, Some mb)"
      using xy p(1) by (simp add: refreshed_def)
    have "\<forall>q \<in> set src. due T (Range m b) q \<longrightarrow> into_date T (timespan q) \<noteq> into_date T (timespan p)"
      using False same[OF p(1)] by blast
    then show ?thesis using yz y unfolding refreshed_def by metis
  qed (use yz p(1) in \<open>simp add: refreshed_def\<close>)
  moreover have "chart_data Z c d = chart_data X c d"
    if "\<forall>p \<in> set src. due T (Range a b) p \<longrightarrow> into_date T (timespan p) \<noteq> d" for d
    using xy yz that split unfolding refreshed_def by metis
  ultimately show ?thesis by (simp add: refreshed_def)
qed

text \<open>A database on which no statement fails.\<close>

locale reliable_tables = chart_tables S tables_of stored micros
  for S :: "('st, 'd::linorder, 's::linorder, 'db) store" and tables_of stored micros +
  assumes insert_total: "distinct (map (\<lambda>r. (dr_chart_id r, dr_date r)) rows) \<Longrightarrow> \<exists>st'. insert_rows S rows st = (st', Ok ())"
    and put_total: "\<exists>st'. put_last_updated_at S c t st = (st', Ok ())"

interpretation reliable_memory: reliable_tables "memory_store reads civil_micros duplicate (\<lambda>_ _. None)" "\<lambda>st. st"
    civil_micros civil_micros
  for reads :: "('d::linorder, civil_time) tables \<Rightarrow> ('d, civil_time, 'db) stats_db" and duplicate
  by unfold_locales (auto simp: memory_store_def)

context reliable_tables
begin

lemma update_metadata_total:
  "\<exists>st'. update_metadata S c t st = Some (st', Ok ())
    \<and> tables_of st' = (tables_of st)\<lparr>charts := touch_chart c (stored t) (charts (tables_of st))\<rparr>"
proof -
  obtain st' where "put_last_updated_at S c t st = (st', Ok ())" using put_total by blast
  then show ?thesis by (simp add: update_metadata_def stats_db_prog_def set_last_updated_at_def put_Ok)
qed

lemma pass_vec_total:
  fixes src :: "('t, string) timespan_value list" and r :: "'s range"
  assumes "distinct (map (\<lambda>p. into_date T (timespan p)) src)"
  defines "data \<equiv> filter (due T r) src"
  shows "\<exists>st'. pass_vec T S c mb data st = Some (st', Ok (length data)) \<and> refreshed T src c mb r (tables_of st) (tables_of st')
    \<and> charts (tables_of st') = charts (tables_of st)"
proof -
  let ?rows = "map (\<lambda>v. active_model T v c (Some mb)) data"
  have dist: "distinct (map (\<lambda>r. (dr_chart_id r, dr_date r)) ?rows)"
    using assms(1) by (auto simp: data_def active_model_def distinct_map inj_on_def)
  have "\<exists>st'. insert_data_many S ?rows st = (st', Ok ())" using insert_total[OF dist] by (simp add: insert_data_many_def)
  then obtain st' where ins: "insert_data_many S ?rows st = (st', Ok ())" by blast
  have tab: "tables_of st' = (tables_of st)\<lparr>chart_data := upsert ?rows (chart_data (tables_of st))\<rparr>"
    by (rule insert_data_many_Ok(1)[OF ins])
  have "upsert ?rows D c (into_date T (timespan p)) = Some (tv_value p, Some mb)" if "p \<in> set src" "due T r p" for p D
    using upsert_same[OF dist, of "active_model T p c (Some mb)"] that by (simp add: data_def active_model_def)
  moreover have "upsert ?rows D c d = D c d" if "\<forall>p \<in> set src. due T r p \<longrightarrow> into_date T (timespan p) \<noteq> d" for d D
  proof (rule upsert_absent)
    fix x assume "x \<in> set ?rows"
    with that show "dr_date x \<noteq> d" by (auto simp: data_def active_model_def)
  qed
  ultimately have "refreshed T src c mb r (tables_of st) (tables_of st')" by (simp add: refreshed_def tab)
  with ins tab show ?thesis by (simp add: pass_vec_def stats_db_prog_def)
qed

lemma batch_loop_pass_total:
  assumes dates: "distinct (map (\<lambda>p. into_date T (timespan p)) src)"
    and dep: "\<And>st r. main_dep st (universal_of_range r) = Ok (filter (due T r) src)"
    and query: "\<And>st r. \<exists>vs. query st r = Some (Ok vs) \<and> length vs \<le> 1"
    and rs: "chained a (map (into_date_time_range T) rs) b"
  shows "\<exists>st'. batch_loop T S main_dep (\<lambda>_ _. Ok ()) query (pass_vec_step T S) c mb rs st = Some (st', Ok ())
    \<and> a \<le> b \<and> refreshed T src c mb (Range a b) (tables_of st) (tables_of st')
    \<and> (rs \<noteq> [] \<longrightarrow> charts (tables_of st') = touch_chart c (stored b) (charts (tables_of st)))"
  using rs
proof (induction rs arbitrary: a st)
  case Nil
  then show ?case by (auto simp: refreshed_def due_def)
next
  case (Cons r rs)
  obtain m where r: "into_date_time_range T r = Range a m" and am: "a < m"
    and rest: "chained m (map (into_date_time_range T) rs) b"
    using Cons.prems by (cases "into_date_time_range T r") auto
  obtain vs where "query st (universal_of_range (into_time_range T (saturating_previous_timespan T (batch_start r)))) = Some (Ok vs)"
    "length vs \<le> 1" using query by blast
  then obtain p where p: "get_previous_step_last_point T query (batch_start r) st = Some (st, Ok p)"
    by (simp add: get_previous_step_last_point_def Let_def)
  obtain st1 where st1: "pass_vec T S c mb (filter (due T (Range a m)) src) st = Some (st1, Ok (length (filter (due T (Range a m)) src)))"
    "refreshed T src c mb (Range a m) (tables_of st) (tables_of st1)" "charts (tables_of st1) = charts (tables_of st)"
    using pass_vec_total[OF dates] by metis
  have step: "batch_update_values_step T main_dep (\<lambda>_ _. Ok ()) (pass_vec_step T S) c mb p r st
      = Some (st1, Ok (length (filter (due T (Range a m)) src)))"
    using st1(1) by (simp add: batch_update_values_step_def r dep bind_prog_def pass_vec_step_def)
  obtain st2 where st2: "update_metadata S c m st1 = Some (st2, Ok ())"
    "tables_of st2 = (tables_of st1)\<lparr>charts := touch_chart c (stored m) (charts (tables_of st1))\<rparr>"
    using update_metadata_total by metis
  from Cons.IH[OF rest, of st2] obtain st' where
    st': "batch_loop T S main_dep (\<lambda>_ _. Ok ()) query (pass_vec_step T S) c mb rs st2 = Some (st', Ok ())"
    and mb: "m \<le> b" and ref: "refreshed T src c mb (Range m b) (tables_of st2) (tables_of st')"
    and ch: "rs \<noteq> [] \<longrightarrow> charts (tables_of st') = touch_chart c (stored b) (charts (tables_of st2))" by auto
  have run: "batch_loop T S main_dep (\<lambda>_ _. Ok ()) query (pass_vec_step T S) c mb (r # rs) st = Some (st', Ok ())"
    using p step st2(1) st' r by simp
  have "refreshed T src c mb (Range a m) (tables_of st) (tables_of st2)" using st1(2) st2(2) by (simp add: refreshed_def)
  then have all: "refreshed T src c mb (Range a b) (tables_of st) (tables_of st')"
    using refreshed_trans[OF dates _ mb _ ref] am by simp
  have twice: "touch_chart c t (touch_chart c u R) = touch_chart c t R" for t u :: 's and R
    by (rule ext) (auto simp: touch_chart_def option.map_comp o_def intro!: option.map_cong)
  have "charts (tables_of st') = touch_chart c (stored b) (charts (tables_of st))"
  proof (cases "rs = []")
    case True
    then have "m = b" "st' = st2" using rest st' by simp_all
    then show ?thesis using st2(2) st1(3) by simp
  next
    case False
    then show ?thesis using ch st2(2) st1(3) twice by simp
  qed
  with run all am mb show ?case by auto
qed

end

section \<open>A sample update\<close>

definition sample_tables :: "(civil_date, civil_time) tables" where
  "sample_tables = \<lparr>
     charts = [\<lparr>ck_name = ''newBlocks'', ck_resolution = Day\<rparr> \<mapsto>
       \<lparr>row_id = 7, row_name = ''newBlocks'', row_last_updated_at = None\<rparr>],
     chart_data = (\<lambda>_ _. None)\<rparr>"

definition sample_store :: "((civil_date, civil_time) tables, civil_date, civil_time, string) store" where
  "sample_store = memory_store
     (\<lambda>_. \<lparr>find_chart_row = (\<lambda>_ _. Ok None), chart_points = (\<lambda>_ _ _. Ok []), latest_counter_point = (\<lambda>_ _. Ok None),
           latest_min_block = (\<lambda>_. Ok None)\<rparr>) civil_micros ''duplicate'' (\<lambda>_ _. None)"

definition sample_props :: chart_props where
  "sample_props = \<lparr>cp_name = ''newBlocks'', cp_type = Line, cp_policy = FillZero, cp_approximate_trailing_points = 1\<rparr>"

definition sample_source :: "(civil_date, string) timespan_value list" where
  "sample_source = [\<lparr>timespan = of_day 1, tv_value = ''5''\<rparr>, \<lparr>timespan = of_day 40, tv_value = ''8''\<rparr>]"

definition sample_cx :: "civil_time update_context" where
  "sample_cx = \<lparr>cx_time = of_ns (45 * day_ns), cx_force_full = False\<rparr>"

definition sample_blockscout :: "(civil_date, string) blockscout" where
  "sample_blockscout = \<lparr>min_block = Ok 3, min_date = Ok (of_day 1)\<rparr>"

lemmas sample_update_defs = sample_tables_def sample_store_def sample_props_def sample_source_def sample_cx_def sample_blockscout_def

lemma sample_laws: "chart_tables sample_store (\<lambda>st. st) civil_micros civil_micros"
  unfolding sample_store_def by (rule memory.chart_tables_axioms)

lemma sample_reliable: "reliable_tables sample_store (\<lambda>st. st) civil_micros civil_micros"
  unfolding sample_store_def by (rule reliable_memory.reliable_tables_axioms)

abbreviation "sample_result \<equiv> \<lparr>
     charts = [\<lparr>ck_name = ''newBlocks'', ck_resolution = Day\<rparr> \<mapsto>
       \<lparr>row_id = 7, row_name = ''newBlocks'', row_last_updated_at = Some (civil_micros (of_ns (45 * day_ns)))\<rparr>],
     chart_data = (\<lambda>_ _. None)(7 := [of_day 1 \<mapsto> (''5'', Some 3), of_day 40 \<mapsto> (''8'', Some 3)])\<rparr>"

lemma sample_update_run:
  "update_itself_inner civil (day_timespan civil) (\<lambda>_ _. None) civil_micros sample_store sample_blockscout sample_props
     (clear_all_and_pass_vec (day_timespan civil) sample_store (\<lambda>_ _. Ok sample_source)) (of_day 45) sample_cx sample_tables
   = Some (sample_result, Ok ())"
  apply (simp add: update_itself_inner_def sample_update_defs cp_key_def get_chart_metadata_def already_updated_def
      last_accurate_point_def clear_all_and_pass_vec_def memory_store_def in_transaction_def day_timespan_def
      clear_all_chart_data_def stats_db_prog_def pass_vec_def insert_data_many_def active_model_def
      update_metadata_def set_last_updated_at_def bind_prog_def attempt_def)
  by (auto simp: touch_chart_def upsert_def fun_eq_iff civil_eval)

section \<open>Properties\<close>

text \<open>C12: Whatever way a chart computes its values (a single point, all points anew, or batches
  of passed, rewritten or accumulated points), its update changes nothing but the data of that
  chart and the update time in its row, also when it fails half-way.\<close>

theorem update_is_confined_to_its_chart:
  assumes tables: "chart_tables S tables_of stored micros"
    and behaviour: "update_values = pass_point T S point_dep
      \<or> update_values = clear_all_and_pass_vec T S vec_dep
      \<or> update_values = batch_update C T S bs vec_dep resolution_dep query (pass_vec_step T S) batch_size
      \<or> update_values = batch_update C T S bs vec_dep resolution_dep query (clear_all_and_pass_step T S) batch_size
      \<or> update_values = batch_update C T S bs delta_dep resolution_dep query (add_last_value_step T S chart parse to_str) batch_size"
    and row: "charts (tables_of st) (cp_key T chart) = Some row"
    and run: "update_itself_inner C T diff micros S bs chart update_values today cx st = Some (st', r)"
  shows "only_chart (row_id row) (tables_of st) (tables_of st')"
proof -
  from tables have "confined tables_of c (update_values cx c p mb)" for c p mb
    using behaviour
    by (elim disjE) (simp_all add: chart_tables.confined_pass_point chart_tables.confined_clear_all_and_pass_vec
        chart_tables.confined_batch_update chart_tables.confined_steps)
  from chart_tables.confined_update_itself[OF tables this run row] show ?thesis .
qed

theorem update_is_confined_to_its_chart_witness:
  "only_chart 7 sample_tables sample_result"
proof -
  have row: "charts sample_tables (cp_key (day_timespan civil) sample_props) =
      Some \<lparr>row_id = 7, row_name = ''newBlocks'', row_last_updated_at = None\<rparr>"
    by (simp add: sample_tables_def sample_props_def cp_key_def day_timespan_def)
  from update_is_confined_to_its_chart[OF sample_laws disjI2[OF disjI1[OF refl]] row sample_update_run]
  show ?thesis by simp
qed

text \<open>A chart is updated at most once for one update time: after a successful update, every
  further update at the same time (up to the microseconds that the database keeps) succeeds
  without a change, whatever the dependencies and the chain's database would answer.\<close>

theorem second_update_is_skipped:
  assumes tables: "chart_tables S tables_of stored micros"
    and behaviour: "update_values = pass_point T S point_dep
      \<or> update_values = clear_all_and_pass_vec T S vec_dep
      \<or> update_values = batch_update C T S bs vec_dep resolution_dep query (pass_vec_step T S) batch_size
      \<or> update_values = batch_update C T S bs vec_dep resolution_dep query (clear_all_and_pass_step T S) batch_size
      \<or> update_values = batch_update C T S bs delta_dep resolution_dep query (add_last_value_step T S chart parse to_str) batch_size"
    and run: "update_itself_inner C T diff micros S bs chart update_values today cx st = Some (st', Ok ())"
    and reads: "\<And>n r. \<exists>x. find_chart_row (queries S st') n r = Ok x"
  shows "update_itself_inner C T diff micros S bs' chart update_values' today' cx st' = Some (st', Ok ())"
proof -
  from tables have "confined tables_of c (update_values cx c p mb)" for c p mb
    using behaviour
    by (elim disjE) (simp_all add: chart_tables.confined_pass_point chart_tables.confined_clear_all_and_pass_vec
        chart_tables.confined_batch_update chart_tables.confined_steps)
  from chart_tables.update_again[OF tables this run reads] show ?thesis .
qed

theorem second_update_is_skipped_witness:
  "update_itself_inner civil (day_timespan civil) (\<lambda>_ _. None) civil_micros sample_store sample_blockscout sample_props
     (\<lambda>_ _ _ _ st. None) (of_day 45) sample_cx sample_result = Some (sample_result, Ok ())"
  by (rule second_update_is_skipped[OF sample_laws disjI2[OF disjI1[OF refl]] sample_update_run])
    (simp add: sample_store_def memory_store_def)

text \<open>Recomputing a chart from scratch is atomic: when it fails at any point the tables are as
  before, and when it succeeds the chart holds exactly the points of its dependency.\<close>

theorem clear_and_pass_is_atomic:
  assumes tables: "chart_tables S tables_of stored micros"
    and run: "clear_all_and_pass_vec T S dep cx c p mb st = Some (st', r)"
  shows "case r of
      Inl e \<Rightarrow> st' = st
    | Inr _ \<Rightarrow> (\<exists>data. dep st full_range = Ok data \<and> charts (tables_of st') = charts (tables_of st)
        \<and> chart_data (tables_of st') =
            (chart_data (tables_of st))(c := map_of (map (\<lambda>q. (into_date T (timespan q), (tv_value q, Some mb))) data)))"
proof (cases r)
  case (Inl e)
  then show ?thesis
    using run chart_tables.in_transaction_Err[OF tables] by (auto simp: clear_all_and_pass_vec_def)
next
  case (Inr u)
  with run obtain st1 where body:
      "bind_prog (stats_db_prog (clear_all_chart_data S c)) (\<lambda>_. bind_prog (of_result (dep st full_range)) (\<lambda>main_data.
        bind_prog (pass_vec T S c mb main_data) (\<lambda>found. return_prog ()))) st = Some (st1, Ok u)"
    and st1: "tables_of st' = tables_of st1"
    by (auto simp: clear_all_and_pass_vec_def elim: chart_tables.in_transaction_Ok[OF tables])
  then obtain st0 data st2 n where del: "stats_db_prog (clear_all_chart_data S c) st = Some (st0, Ok ())"
    and data: "dep st full_range = Ok data" and ins: "pass_vec T S c mb data st0 = Some (st1, Ok n)"
    by (auto simp: bind_prog_Ok_iff)
  have t0: "tables_of st0 = (tables_of st)\<lparr>chart_data := (chart_data (tables_of st))(c := \<lambda>_. None)\<rparr>"
    using del by (elim chart_tables.stats_db_prog_cases[OF tables])
      (auto simp: clear_all_chart_data_def dest: chart_tables.delete_Ok[OF tables])
  from ins have t1: "tables_of st1 = (tables_of st0)\<lparr>chart_data :=
      upsert (map (\<lambda>v. active_model T v c (Some mb)) data) (chart_data (tables_of st0))\<rparr>"
    by (auto simp: pass_vec_def Let_def bind_prog_Ok_iff elim!: chart_tables.stats_db_prog_cases[OF tables]
        dest: chart_tables.insert_data_many_Ok(1)[OF tables])
  have "upsert (map (\<lambda>v. active_model T v c (Some mb)) data) (D(c := \<lambda>_. None))
      = D(c := map_of (map (\<lambda>q. (into_date T (timespan q), (tv_value q, Some mb))) data))" for D
    by (rule upsert_into_empty)
  then show ?thesis using Inr data st1 t0 t1 by simp
qed

theorem clear_and_pass_is_atomic_witness:
  defines "bad \<equiv> memory_store (\<lambda>_. undefined) civil_micros ''duplicate'' (\<lambda>k _. if k = InsertRows then Some ''down'' else None)"
  shows "clear_all_and_pass_vec (day_timespan civil) bad (\<lambda>_ _. Ok sample_source) sample_cx 7 None 3 sample_result
      = Some (sample_result, Err (StatsDB ''down''))"
proof -
  have "\<exists>st'. clear_all_and_pass_vec (day_timespan civil) bad (\<lambda>_ _. Ok sample_source) sample_cx 7 None 3 sample_result
      = Some (st', Err (StatsDB ''down''))"
    by (simp add: bad_def clear_all_and_pass_vec_def memory_store_def in_transaction_def day_timespan_def
        clear_all_chart_data_def stats_db_prog_def pass_vec_def insert_data_many_def active_model_def sample_source_def
        bind_prog_def attempt_def civil_eval)
  then obtain st' where run: "clear_all_and_pass_vec (day_timespan civil) bad (\<lambda>_ _. Ok sample_source) sample_cx 7 None 3
      sample_result = Some (st', Err (StatsDB ''down''))" by blast
  have "chart_tables bad (\<lambda>st. st) civil_micros civil_micros" unfolding bad_def by (rule memory.chart_tables_axioms)
  from clear_and_pass_is_atomic[OF this run] run show ?thesis by simp
qed



text \<open>Setting the date that the next update starts from never moves the recorded update time
  forward: it becomes the start of the given day when that is not after the recorded time, and is
  kept otherwise; a chart that was never updated stays so, and no data changes.\<close>

theorem next_update_moves_back_only:
  assumes tables: "chart_tables S tables_of stored micros" and rounding: "\<And>t. stored t \<le> t"
    and row: "charts (tables_of st) (cp_key T chart) = Some row"
    and run: "set_next_update_from_itself C T S chart d st = Some (st', Ok ())"
  shows "chart_data (tables_of st') = chart_data (tables_of st) \<and>
    (case row_last_updated_at row of
       None \<Rightarrow> charts (tables_of st') (cp_key T chart) = Some row
     | Some t \<Rightarrow> \<exists>t'. charts (tables_of st') (cp_key T chart) = Some (row\<lparr>row_last_updated_at := Some t'\<rparr>)
         \<and> t' \<le> t \<and> t' = (if day_start C d \<le> t then stored (day_start C d) else t))"
proof -
  obtain metadata where md: "get_chart_metadata (queries S st) (cp_key T chart) = Ok metadata"
    using run by (auto simp: set_next_update_from_itself_def split: sum.splits)
  then have "find_chart_row (queries S st) (cp_name chart) (enum_variant T) = Ok (Some metadata)"
    by (auto simp: get_chart_metadata_def cp_key_def split: sum.splits option.splits)
  from chart_tables.find_row[OF tables this] row have [simp]: "metadata = row" by (simp add: cp_key_def)
  show ?thesis
  proof (cases "row_last_updated_at row")
    case None
    with run md row show ?thesis by (simp add: set_next_update_from_itself_def)
  next
    case (Some t)
    have self: "row\<lparr>row_last_updated_at := Some t\<rparr> = row" using Some chart_row_eta[of row] by simp
    show ?thesis
    proof (cases "day_start C d \<le> t")
      case True
      with run md Some have "stats_db_prog (set_last_updated_at S (row_id row) (day_start C d)) st = Some (st', Ok ())"
        by (simp add: set_next_update_from_itself_def)
      then have "tables_of st' = (tables_of st)\<lparr>charts := touch_chart (row_id row) (stored (day_start C d)) (charts (tables_of st))\<rparr>"
        by (elim chart_tables.stats_db_prog_cases[OF tables]) (auto simp: chart_tables.set_last_updated_at_Ok[OF tables])
      with True Some row rounding[of "day_start C d"] show ?thesis by (auto simp: touch_chart_row)
    next
      case False
      with run md Some row self show ?thesis by (simp add: set_next_update_from_itself_def)
    qed
  qed
qed

theorem next_update_moves_back_only_witness:
  "charts (the (map_option fst (set_next_update_from_itself civil (day_timespan civil) sample_store sample_props (of_day 2) sample_result)))
      (cp_key (day_timespan civil) sample_props)
    = Some \<lparr>row_id = 7, row_name = ''newBlocks'', row_last_updated_at = Some (civil_micros (midnight civil (of_day 2)))\<rparr>"
proof -
  let ?T = "day_timespan civil" and ?t = "civil_micros (of_ns (45 * day_ns))"
  have key: "cp_key ?T sample_props = \<lparr>ck_name = ''newBlocks'', ck_resolution = Day\<rparr>"
    by (simp add: cp_key_def sample_props_def day_timespan_def)
  have le: "day_start civil (of_day 2) \<le> ?t"
    by (simp add: day_start_def less_eq_civil_time.rep_eq civil_micros.rep_eq) (simp add: civil_eval)
  then have "\<exists>st'. set_next_update_from_itself civil ?T sample_store sample_props (of_day 2) sample_result = Some (st', Ok ())"
    by (simp add: set_next_update_from_itself_def get_chart_metadata_def key sample_store_def memory_store_def
        stats_db_prog_def set_last_updated_at_def attempt_def)
  then obtain st' where run: "set_next_update_from_itself civil ?T sample_store sample_props (of_day 2) sample_result = Some (st', Ok ())"
    by blast
  have rounding: "civil_micros t \<le> t" for t
    by transfer presburger
  have row: "charts sample_result (cp_key ?T sample_props) =
      Some \<lparr>row_id = 7, row_name = ''newBlocks'', row_last_updated_at = Some ?t\<rparr>" by (simp add: key)
  from next_update_moves_back_only[OF sample_laws rounding row run] le run show ?thesis by (auto simp: day_start_def)
qed

end
