(* ===== verification/Code_Match.thy ===== *)
theory Code_Match
  imports Prelude "HOL-Library.Word"
begin

text \<open>
  Matching of recompiled code against code on chain
  (\<^verbatim>\<open>smart-contract-verifier/verification-common/src/verifier_alliance\<close> and
  \<^verbatim>\<open>smart-contract-verifier/smart-contract-verifier/src/verify/verification.rs\<close>).

  Code is a list of bytes. The compiler reports where the code may differ from what is deployed:
  the metadata at its end, addresses of libraries and values of immutables. A match copies these
  parts from the deployed code and records each copy as a transformation. A \<open>BTreeMap\<close> that is
  only iterated is the list of its entries in the order of the keys, and one that is filled is a
  map. A slice out of range panics, which is \<open>None\<close>; offsets are \<open>u32\<close> values and their sums fit
  into \<open>usize\<close>.
\<close>

section \<open>Bytes\<close>

type_synonym bytes = "8 word list"

text \<open>\<open>&code[a..b]\<close>\<close>

definition slice :: "'a list \<Rightarrow> nat \<Rightarrow> nat \<Rightarrow> 'a list option" where
  "slice code a b = (if a \<le> b \<and> b \<le> length code then Some (take (b - a) (drop a code)) else None)"

text \<open>\<open>code[a..a + bs.len()].copy_from_slice(bs)\<close>\<close>

definition copy_at :: "'a list \<Rightarrow> nat \<Rightarrow> 'a list \<Rightarrow> 'a list option" where
  "copy_at code a bs =
     (if a + length bs \<le> length code then Some (take a code @ bs @ drop (a + length bs) code) else None)"

section \<open>Artifacts, transformations and values\<close>

record cbor_auxdata_value =
  cav_value :: bytes
  cav_offset :: nat

record offset =
  off_start :: nat
  off_length :: nat

type_synonym cbor_auxdata = "(string \<times> cbor_auxdata_value) list"
type_synonym immutable_references = "(string \<times> offset list) list"
type_synonym link_references = "(string \<times> (string \<times> offset list) list) list"

record runtime_code_artifacts =
  rca_cbor_auxdata :: "cbor_auxdata option"
  rca_immutable_references :: "immutable_references option"
  rca_link_references :: "link_references option"

record creation_code_artifacts =
  cca_link_references :: "link_references option"
  cca_cbor_auxdata :: "cbor_auxdata option"

datatype transformation_type = Insert | Replace
datatype transformation_reason = CborAuxdata | ConstructorArguments | Immutable | Library

record transformation =
  tr_type :: transformation_type
  tr_reason :: transformation_reason
  tr_offset :: nat
  tr_id :: "string option"

definition auxdata :: "nat \<Rightarrow> string \<Rightarrow> transformation" where
  "auxdata offset i = \<lparr>tr_type = Replace, tr_reason = CborAuxdata, tr_offset = offset, tr_id = Some i\<rparr>"

definition constructor :: "nat \<Rightarrow> transformation" where
  "constructor offset = \<lparr>tr_type = Insert, tr_reason = ConstructorArguments, tr_offset = offset, tr_id = None\<rparr>"

definition immutable :: "nat \<Rightarrow> string \<Rightarrow> transformation" where
  "immutable offset i = \<lparr>tr_type = Replace, tr_reason = Immutable, tr_offset = offset, tr_id = Some i\<rparr>"

definition library :: "nat \<Rightarrow> string \<Rightarrow> transformation" where
  "library offset i = \<lparr>tr_type = Replace, tr_reason = Library, tr_offset = offset, tr_id = Some i\<rparr>"

record match_values =
  mv_cbor_auxdata :: "string \<Rightarrow> bytes option"
  mv_constructor_arguments :: "bytes option"
  mv_libraries :: "string \<Rightarrow> bytes option"
  mv_immutables :: "string \<Rightarrow> bytes option"

definition no_values :: match_values where
  "no_values = \<lparr>mv_cbor_auxdata = Map.empty, mv_constructor_arguments = None, mv_libraries = Map.empty, mv_immutables = Map.empty\<rparr>"

definition add_cbor_auxdata :: "string \<Rightarrow> bytes \<Rightarrow> match_values \<Rightarrow> match_values" where
  "add_cbor_auxdata k v vs = vs\<lparr>mv_cbor_auxdata := (mv_cbor_auxdata vs)(k \<mapsto> v)\<rparr>"

definition add_constructor_arguments :: "bytes \<Rightarrow> match_values \<Rightarrow> match_values" where
  "add_constructor_arguments v vs = vs\<lparr>mv_constructor_arguments := Some v\<rparr>"

definition add_library :: "string \<Rightarrow> bytes \<Rightarrow> match_values \<Rightarrow> match_values" where
  "add_library k v vs = vs\<lparr>mv_libraries := (mv_libraries vs)(k \<mapsto> v)\<rparr>"

definition add_immutable :: "string \<Rightarrow> bytes \<Rightarrow> match_values \<Rightarrow> match_values" where
  "add_immutable k v vs = vs\<lparr>mv_immutables := (mv_immutables vs)(k \<mapsto> v)\<rparr>"

record code_match =
  metadata_match :: bool
  m_transformations :: "transformation list"
  m_values :: match_values

section \<open>The builder\<close>

record match_builder =
  mb_deployed_code :: bytes
  mb_compiled_code :: bytes
  mb_transformations :: "transformation list"
  mb_values :: match_values
  mb_invalid_constructor_arguments :: bool
  mb_has_cbor_auxdata :: bool
  mb_has_cbor_auxdata_transformation :: bool

definition builder_new :: "bytes \<Rightarrow> bytes \<Rightarrow> match_builder option" where
  "builder_new deployed_code compiled_code =
     (if length deployed_code < length compiled_code then None
      else Some \<lparr>mb_deployed_code = deployed_code, mb_compiled_code = compiled_code, mb_transformations = [],
        mb_values = no_values, mb_invalid_constructor_arguments = False, mb_has_cbor_auxdata = False,
        mb_has_cbor_auxdata_transformation = False\<rparr>)"

text \<open>A copied part: the transformation and the value are recorded.\<close>

definition push ::
  "transformation \<Rightarrow> (bytes \<Rightarrow> match_values \<Rightarrow> match_values) \<Rightarrow> bytes \<Rightarrow> bytes \<Rightarrow> match_builder \<Rightarrow> match_builder" where
  "push t add v compiled b = b\<lparr>mb_compiled_code := compiled,
     mb_transformations := mb_transformations b @ [t], mb_values := add v (mb_values b)\<rparr>"

fun cbor_auxdata_loop :: "cbor_auxdata \<Rightarrow> match_builder \<Rightarrow> (string, match_builder) result option" where
  "cbor_auxdata_loop [] b = Some (Ok b)"
| "cbor_auxdata_loop ((i, v) # rest) b =
     (let offset = cav_offset v; re_compiled_value = cav_value v; range_end = offset + length re_compiled_value
      in if length (mb_compiled_code b) < range_end
         then Some (Err (''(reason=cbor_auxdata; id='' @ i @ '') out of range''))
         else case slice (mb_deployed_code b) offset range_end of
           None \<Rightarrow> None
         | Some on_chain_value \<Rightarrow>
             if on_chain_value \<noteq> re_compiled_value
             then (case copy_at (mb_compiled_code b) offset on_chain_value of
                     None \<Rightarrow> None
                   | Some compiled \<Rightarrow>
                       cbor_auxdata_loop rest
                         (push (auxdata offset i) (add_cbor_auxdata i) on_chain_value compiled
                            (b\<lparr>mb_has_cbor_auxdata_transformation := True\<rparr>)))
             else cbor_auxdata_loop rest b)"

definition apply_cbor_auxdata_transformations ::
  "cbor_auxdata option \<Rightarrow> match_builder \<Rightarrow> (string, match_builder) result option" where
  "apply_cbor_auxdata_transformations aux b =
     (case aux of None \<Rightarrow> Some (Ok b)
      | Some aux \<Rightarrow> cbor_auxdata_loop aux (b\<lparr>mb_has_cbor_auxdata := (aux \<noteq> [])\<rparr>))"

text \<open>
  The loop over the offsets of one library or immutable, which the source writes out twice:
  \<open>mk\<close> builds the transformation and \<open>add\<close> stores the value.
\<close>

fun offsets_loop ::
  "string \<Rightarrow> (nat \<Rightarrow> transformation) \<Rightarrow> (bytes \<Rightarrow> match_values \<Rightarrow> match_values) \<Rightarrow> bytes option \<Rightarrow> offset list
     \<Rightarrow> match_builder \<Rightarrow> (string, match_builder) result option" where
  "offsets_loop not_consistent mk add on_chain_value [] b = Some (Ok b)"
| "offsets_loop not_consistent mk add on_chain_value (offset # rest) b =
     (let start = off_start offset; range_end = start + off_length offset
      in case slice (mb_deployed_code b) start range_end of
           None \<Rightarrow> None
         | Some offset_value \<Rightarrow>
             if (case on_chain_value of Some v \<Rightarrow> v \<noteq> offset_value | None \<Rightarrow> False)
             then Some (Err not_consistent)
             else (case copy_at (mb_compiled_code b) start offset_value of
                     None \<Rightarrow> None
                   | Some compiled \<Rightarrow>
                       offsets_loop not_consistent mk add
                         (case on_chain_value of None \<Rightarrow> Some offset_value | Some v \<Rightarrow> Some v) rest
                         (push (mk start) add offset_value compiled b)))"

definition library_id :: "string \<Rightarrow> string \<Rightarrow> string" where
  "library_id file contract = file @ '':'' @ contract"

fun contracts_loop ::
  "string \<Rightarrow> (string \<times> offset list) list \<Rightarrow> match_builder \<Rightarrow> (string, match_builder) result option" where
  "contracts_loop file [] b = Some (Ok b)"
| "contracts_loop file ((contract, offsets) # rest) b =
     (let i = library_id file contract
      in case offsets_loop (''(reason=link_reference; id='' @ i @ '') offset values are not consistent'')
                (\<lambda>start. library start i) (add_library i) None offsets b of
           None \<Rightarrow> None
         | Some (Inl e) \<Rightarrow> Some (Err e)
         | Some (Inr b) \<Rightarrow> contracts_loop file rest b)"

fun link_references_loop :: "link_references \<Rightarrow> match_builder \<Rightarrow> (string, match_builder) result option" where
  "link_references_loop [] b = Some (Ok b)"
| "link_references_loop ((file, file_references) # rest) b =
     (case contracts_loop file file_references b of
        None \<Rightarrow> None
      | Some (Inl e) \<Rightarrow> Some (Err e)
      | Some (Inr b) \<Rightarrow> link_references_loop rest b)"

definition apply_library_transformations ::
  "link_references option \<Rightarrow> match_builder \<Rightarrow> (string, match_builder) result option" where
  "apply_library_transformations link_references b =
     (case link_references of None \<Rightarrow> Some (Ok b) | Some l \<Rightarrow> link_references_loop l b)"

fun immutable_references_loop :: "immutable_references \<Rightarrow> match_builder \<Rightarrow> (string, match_builder) result option" where
  "immutable_references_loop [] b = Some (Ok b)"
| "immutable_references_loop ((i, offsets) # rest) b =
     (case offsets_loop (''(reason=immutable_reference; id='' @ i @ '') offset values are not consistent'')
             (\<lambda>start. immutable start i) (add_immutable i) None offsets b of
        None \<Rightarrow> None
      | Some (Inl e) \<Rightarrow> Some (Err e)
      | Some (Inr b) \<Rightarrow> immutable_references_loop rest b)"

definition apply_immutable_transformations ::
  "immutable_references option \<Rightarrow> match_builder \<Rightarrow> (string, match_builder) result option" where
  "apply_immutable_transformations immutable_references b =
     (case immutable_references of None \<Rightarrow> Some (Ok b) | Some l \<Rightarrow> immutable_references_loop l b)"

text \<open>
  The ABI library: \<open>abi_constructor\<close> parses the ABI and returns its constructor, \<open>abi_decodes c args\<close>
  tells whether \<open>args\<close> decode as the inputs of \<open>c\<close>.
\<close>

record ('json, 'ctor) abi_lib =
  abi_constructor :: "'json \<Rightarrow> (string, 'ctor option) result"
  abi_decodes :: "'ctor \<Rightarrow> bytes \<Rightarrow> bool"

definition apply_constructor_transformation ::
  "('json, 'ctor) abi_lib \<Rightarrow> 'json option \<Rightarrow> match_builder \<Rightarrow> (string, match_builder) result option" where
  "apply_constructor_transformation lib abi b =
     (let offset = length (mb_compiled_code b)
      in if length (mb_deployed_code b) < offset then None
         else let constructor_arguments = drop offset (mb_deployed_code b)
         in case (case abi of Some abi \<Rightarrow> abi_constructor lib abi | None \<Rightarrow> Ok None) of
              Inl e \<Rightarrow> Some (Err ''parsing compiled contract abi'')
            | Inr None \<Rightarrow>
                Some (Ok (if constructor_arguments \<noteq> [] then b\<lparr>mb_invalid_constructor_arguments := True\<rparr> else b))
            | Inr (Some ctor) \<Rightarrow>
                Some (Ok (
                  if \<not> abi_decodes lib ctor constructor_arguments then b\<lparr>mb_invalid_constructor_arguments := True\<rparr>
                  else if constructor_arguments = [] then b
                  else push (constructor offset) add_constructor_arguments constructor_arguments
                         (mb_compiled_code b @ constructor_arguments) b)))"

text \<open>The composition of fallible builder steps.\<close>

definition and_apply ::
  "(string, match_builder) result option \<Rightarrow> (match_builder \<Rightarrow> (string, match_builder) result option)
     \<Rightarrow> (string, match_builder) result option" where
  "and_apply r f = (case r of None \<Rightarrow> None | Some (Inl e) \<Rightarrow> Some (Err e) | Some (Inr b) \<Rightarrow> f b)"

definition apply_runtime_code_transformations ::
  "runtime_code_artifacts \<Rightarrow> match_builder \<Rightarrow> (string, match_builder) result option" where
  "apply_runtime_code_transformations artifacts b =
     and_apply (and_apply (apply_cbor_auxdata_transformations (rca_cbor_auxdata artifacts) b)
       (apply_library_transformations (rca_link_references artifacts)))
       (apply_immutable_transformations (rca_immutable_references artifacts))"

definition apply_creation_code_transformations ::
  "('json, 'ctor) abi_lib \<Rightarrow> creation_code_artifacts \<Rightarrow> 'json option \<Rightarrow> match_builder
     \<Rightarrow> (string, match_builder) result option" where
  "apply_creation_code_transformations lib artifacts abi b =
     and_apply (and_apply (apply_cbor_auxdata_transformations (cca_cbor_auxdata artifacts) b)
       (apply_library_transformations (cca_link_references artifacts)))
       (apply_constructor_transformation lib abi)"

definition apply_blueprint_initcode_transformations ::
  "creation_code_artifacts \<Rightarrow> match_builder \<Rightarrow> (string, match_builder) result option" where
  "apply_blueprint_initcode_transformations artifacts b =
     apply_cbor_auxdata_transformations (cca_cbor_auxdata artifacts) b"

definition verify_and_build :: "match_builder \<Rightarrow> code_match option" where
  "verify_and_build b =
     (if \<not> mb_invalid_constructor_arguments b \<and> mb_deployed_code b = mb_compiled_code b
      then Some \<lparr>metadata_match = (mb_has_cbor_auxdata b \<and> \<not> mb_has_cbor_auxdata_transformation b),
             m_transformations = mb_transformations b, m_values = mb_values b\<rparr>
      else None)"

definition build_match ::
  "(match_builder \<Rightarrow> (string, match_builder) result option) \<Rightarrow> bytes \<Rightarrow> bytes \<Rightarrow> (string, code_match option) result option" where
  "build_match apply_transformations deployed_code compiled_code =
     (case builder_new deployed_code compiled_code of
        None \<Rightarrow> Some (Ok None)
      | Some b \<Rightarrow> map_option (\<lambda>r. try_bind r (\<lambda>b. Ok (verify_and_build b))) (apply_transformations b))"

definition verify_creation_code ::
  "('json, 'ctor) abi_lib \<Rightarrow> bytes \<Rightarrow> bytes \<Rightarrow> creation_code_artifacts \<Rightarrow> 'json option
     \<Rightarrow> (string, code_match option) result option" where
  "verify_creation_code lib on_chain_code compiled_code artifacts abi =
     build_match (apply_creation_code_transformations lib artifacts abi) on_chain_code compiled_code"

definition verify_runtime_code ::
  "bytes \<Rightarrow> bytes \<Rightarrow> runtime_code_artifacts \<Rightarrow> (string, code_match option) result option" where
  "verify_runtime_code on_chain_code compiled_code artifacts =
     build_match (apply_runtime_code_transformations artifacts) on_chain_code compiled_code"

definition verify_blueprint_initcode ::
  "bytes \<Rightarrow> bytes \<Rightarrow> creation_code_artifacts \<Rightarrow> (string, code_match option) result option" where
  "verify_blueprint_initcode initcode compiled_code artifacts =
     build_match (apply_blueprint_initcode_transformations artifacts) initcode compiled_code"

section \<open>Verification of a contract\<close>

record recompiled_code =
  rc_runtime :: bytes
  rc_creation :: bytes

record on_chain_code =
  oc_runtime :: "bytes option"
  oc_creation :: "bytes option"

datatype verification_result =
    Failure
  | RuntimeMatch code_match
  | CreationMatch code_match
  | CompleteMatch (vr_runtime: code_match) (vr_creation: code_match)

definition process_verify_code_result :: "(string, code_match option) result \<Rightarrow> code_match option" where
  "process_verify_code_result r = (case r of Inl e \<Rightarrow> None | Inr None \<Rightarrow> None | Inr (Some m) \<Rightarrow> Some m)"

fun matches_to_verification_result :: "code_match option \<Rightarrow> code_match option \<Rightarrow> verification_result" where
  "matches_to_verification_result None None = Failure"
| "matches_to_verification_result (Some r) None = RuntimeMatch r"
| "matches_to_verification_result None (Some c) = CreationMatch c"
| "matches_to_verification_result (Some r) (Some c) = CompleteMatch r c"

text \<open>Both codes missing is \<open>unreachable!\<close>, a panic.\<close>

definition verify_contract ::
  "('json, 'ctor) abi_lib \<Rightarrow> on_chain_code \<Rightarrow> recompiled_code \<Rightarrow> 'json option \<Rightarrow> creation_code_artifacts
     \<Rightarrow> runtime_code_artifacts \<Rightarrow> verification_result option" where
  "verify_contract lib on_chain recompiled abi creation_artifacts runtime_artifacts =
     (if oc_runtime on_chain = None \<and> oc_creation on_chain = None then None
      else case (case oc_runtime on_chain of None \<Rightarrow> Some None
                 | Some c \<Rightarrow> map_option process_verify_code_result
                     (verify_runtime_code c (rc_runtime recompiled) runtime_artifacts)) of
        None \<Rightarrow> None
      | Some runtime_match \<Rightarrow>
          map_option (matches_to_verification_result runtime_match)
            (case oc_creation on_chain of None \<Rightarrow> Some None
             | Some c \<Rightarrow> map_option process_verify_code_result
                 (verify_creation_code lib c (rc_creation recompiled) creation_artifacts abi)))"

definition verify_blueprint_contract ::
  "bytes \<Rightarrow> recompiled_code \<Rightarrow> creation_code_artifacts \<Rightarrow> verification_result option" where
  "verify_blueprint_contract initcode recompiled artifacts =
     map_option (\<lambda>r. let m = process_verify_code_result r in matches_to_verification_result m m)
       (verify_blueprint_initcode initcode (rc_creation recompiled) artifacts)"

section \<open>Copies from the deployed code\<close>

lemma slice_Some_iff: "slice c a b = Some v \<longleftrightarrow> a \<le> b \<and> b \<le> length c \<and> v = take (b - a) (drop a c)"
  by (auto simp: slice_def)

lemma copy_at_Some_iff:
  "copy_at c a v = Some c' \<longleftrightarrow> a + length v \<le> length c \<and> c' = take a c @ v @ drop (a + length v) c"
  by (auto simp: copy_at_def)

lemma slice_nth:
  fixes c d :: "'a list"
  assumes "slice c a b = Some v" "slice d a b = Some v" "a \<le> i" "i < b"
  shows "c ! i = d ! i"
proof -
  have "x ! i = take (b - a) (drop a x) ! (i - a)" if "b \<le> length x" for x :: "'a list" using that assms(3,4) by simp
  then show ?thesis using assms(1,2) unfolding slice_Some_iff by metis
qed

definition touched :: "(nat \<times> nat) list \<Rightarrow> nat \<Rightarrow> bool" where
  "touched parts i \<longleftrightarrow> (\<exists>(start, len) \<in> set parts. start \<le> i \<and> i < start + len)"

definition fits :: "(nat \<times> nat) list \<Rightarrow> nat \<Rightarrow> bool" where
  "fits parts n \<longleftrightarrow> (\<forall>(start, len) \<in> set parts. start + len \<le> n)"

lemma touched_simps [simp]:
  "touched [] i \<longleftrightarrow> False" "touched (p # ps) i \<longleftrightarrow> (fst p \<le> i \<and> i < fst p + snd p) \<or> touched ps i"
  "touched (ps @ qs) i \<longleftrightarrow> touched ps i \<or> touched qs i"
  by (auto simp: touched_def)

lemma fits_simps [simp]:
  "fits [] n" "fits (p # ps) n \<longleftrightarrow> fst p + snd p \<le> n \<and> fits ps n" "fits (ps @ qs) n \<longleftrightarrow> fits ps n \<and> fits qs n"
  by (auto simp: fits_def)

text \<open>\<open>c\<close> is \<open>c0\<close> with the given parts copied from \<open>d\<close>.\<close>

definition overlaid :: "'a list \<Rightarrow> 'a list \<Rightarrow> (nat \<times> nat) list \<Rightarrow> 'a list \<Rightarrow> bool" where
  "overlaid c0 d parts c \<longleftrightarrow> length c = length c0 \<and> fits parts (length c0) \<and> fits parts (length d)
     \<and> (\<forall>i < length c0. c ! i = (if touched parts i then d ! i else c0 ! i))"

lemma overlaid_Nil [simp]: "overlaid c0 d [] c \<longleftrightarrow> c = c0"
  by (auto simp: overlaid_def intro: nth_equalityI)

lemma overlaid_unique: "overlaid c0 d parts c \<Longrightarrow> overlaid c0 d parts c' \<Longrightarrow> c = c'"
  by (auto simp: overlaid_def intro: nth_equalityI)

lemma overlaid_copy:
  assumes o: "overlaid c0 d parts c" and s: "slice d a b = Some v" and c: "copy_at c a v = Some c'"
  shows "overlaid c0 d (parts @ [(a, b - a)]) c'"
proof -
  have ab: "a \<le> b" "b \<le> length d" and v: "v = take (b - a) (drop a d)" using s by (auto simp: slice_Some_iff)
  have len: "length v = b - a" using ab v by simp
  have c': "a + length v \<le> length c" "c' = take a c @ v @ drop (a + length v) c" using c by (auto simp: copy_at_Some_iff)
  have "c' ! i = (if a \<le> i \<and> i < b then d ! i else c ! i)" if "i < length c" for i
    using that ab c' len v by (auto simp: nth_append min_def)
  then show ?thesis using o ab c' len by (auto simp: overlaid_def)
qed

lemma overlaid_copy_total:
  assumes o: "overlaid c0 d parts c" and s: "slice d a b = Some v" and b: "b \<le> length c0"
  shows "\<exists>c'. copy_at c a v = Some c'"
proof -
  have "length v = b - a" "a \<le> b" using s by (auto simp: slice_Some_iff)
  then have "a + length v \<le> length c" using o b by (simp add: overlaid_def)
  then show ?thesis by (simp add: copy_at_Some_iff)
qed

section \<open>Replaying transformations\<close>

text \<open>
  What the recorded transformations mean: each replaces the code at its offset by the recorded
  value, or inserts the value there.
\<close>

definition value_of :: "match_values \<Rightarrow> transformation \<Rightarrow> bytes option" where
  "value_of vs t =
     (case tr_reason t of
        CborAuxdata \<Rightarrow> Option.bind (tr_id t) (mv_cbor_auxdata vs)
      | ConstructorArguments \<Rightarrow> mv_constructor_arguments vs
      | Immutable \<Rightarrow> Option.bind (tr_id t) (mv_immutables vs)
      | Library \<Rightarrow> Option.bind (tr_id t) (mv_libraries vs))"

definition replay_step :: "match_values \<Rightarrow> transformation \<Rightarrow> bytes \<Rightarrow> bytes option" where
  "replay_step vs t code =
     (case value_of vs t of
        None \<Rightarrow> None
      | Some v \<Rightarrow>
          (case tr_type t of
             Replace \<Rightarrow> copy_at code (tr_offset t) v
           | Insert \<Rightarrow> (if tr_offset t \<le> length code
                         then Some (take (tr_offset t) code @ v @ drop (tr_offset t) code) else None)))"

fun replay :: "match_values \<Rightarrow> transformation list \<Rightarrow> bytes \<Rightarrow> bytes option" where
  "replay vs [] code = Some code"
| "replay vs (t # ts) code = Option.bind (replay_step vs t code) (replay vs ts)"

lemma replay_append: "replay vs (ts @ us) code = Option.bind (replay vs ts code) (replay vs us)"
  by (induction ts arbitrary: code) (simp_all split: Option.bind_splits)

definition recorded :: "bytes \<Rightarrow> match_values \<Rightarrow> transformation list \<Rightarrow> (nat \<times> nat) list \<Rightarrow> bool" where
  "recorded d vs = list_all2 (\<lambda>t (start, len). tr_type t = Replace \<and> tr_offset t = start
     \<and> (\<exists>v. slice d start (start + len) = Some v \<and> value_of vs t = Some v))"

lemma recorded_append [simp]: "recorded d vs [] []"
  "length ts = length parts \<Longrightarrow> recorded d vs (ts @ us) (parts @ qs) \<longleftrightarrow> recorded d vs ts parts \<and> recorded d vs us qs"
  by (auto simp: recorded_def list_all2_append)

lemma recorded_length: "recorded d vs ts parts \<Longrightarrow> length ts = length parts"
  by (auto simp: recorded_def dest: list_all2_lengthD)

lemma recorded_cong:
  "recorded d vs ts parts \<Longrightarrow> (\<And>t. t \<in> set ts \<Longrightarrow> value_of vs' t = value_of vs t) \<Longrightarrow> recorded d vs' ts parts"
  unfolding recorded_def by (erule list.rel_mono_strong) auto

lemma replay_recorded:
  "recorded d vs ts parts \<Longrightarrow> fits parts (length c0) \<Longrightarrow> \<exists>c. replay vs ts c0 = Some c \<and> overlaid c0 d parts c"
proof (induction ts arbitrary: parts rule: rev_induct)
  case Nil
  then show ?case by (auto simp: recorded_def)
next
  case (snoc t ts)
  obtain qs start len where parts: "parts = qs @ [(start, len)]"
    using recorded_length[OF snoc.prems(1)] by (metis length_append_singleton length_0_conv nat.simps(3) rev_exhaust surj_pair)
  have "length ts = length qs" using recorded_length[OF snoc.prems(1)] parts by simp
  then have rec: "recorded d vs ts qs" "recorded d vs [t] [(start, len)]" using snoc.prems(1) parts by simp_all
  with snoc.IH[OF rec(1)] snoc.prems(2) parts obtain c where c: "replay vs ts c0 = Some c" "overlaid c0 d qs c" by auto
  from rec(2) obtain v where v: "slice d start (start + len) = Some v" "value_of vs t = Some v" "tr_type t = Replace" "tr_offset t = start"
    by (auto simp: recorded_def)
  obtain c' where c': "copy_at c start v = Some c'"
    using overlaid_copy_total[OF c(2) v(1)] snoc.prems(2) parts by auto
  have "replay vs (ts @ [t]) c0 = Some c'" using c(1) v c' by (simp add: replay_append replay_step_def)
  with overlaid_copy[OF c(2) v(1) c'] parts show ?case by auto
qed

section \<open>What the builder keeps\<close>

definition sound :: "bytes \<Rightarrow> match_builder \<Rightarrow> (nat \<times> nat) list \<Rightarrow> bool" where
  "sound c0 b parts \<longleftrightarrow> overlaid c0 (mb_deployed_code b) parts (mb_compiled_code b)
     \<and> recorded (mb_deployed_code b) (mb_values b) (mb_transformations b) parts"

text \<open>Everything but the code, the transformations and the values of two builders is equal.\<close>

definition same_flags :: "match_builder \<Rightarrow> match_builder \<Rightarrow> bool" where
  "same_flags b b' \<longleftrightarrow> mb_deployed_code b' = mb_deployed_code b
     \<and> mb_invalid_constructor_arguments b' = mb_invalid_constructor_arguments b
     \<and> mb_has_cbor_auxdata b' = mb_has_cbor_auxdata b
     \<and> mb_has_cbor_auxdata_transformation b' = mb_has_cbor_auxdata_transformation b"

lemma same_flags_trans [trans]: "same_flags a b \<Longrightarrow> same_flags b c \<Longrightarrow> same_flags a c"
  by (simp add: same_flags_def)

lemma same_flags_push [simp]: "same_flags b (push t add v c b)"
  by (simp add: same_flags_def push_def)

lemma push_transformations [simp]: "mb_transformations (push t add v c b) = mb_transformations b @ [t]"
  by (simp add: push_def)

lemma sound_push:
  assumes sound: "sound c0 b parts" and s: "slice (mb_deployed_code b) a e = Some v"
    and c: "copy_at (mb_compiled_code b) a v = Some c"
    and t: "tr_type t = Replace" "tr_offset t = a" "value_of (add v (mb_values b)) t = Some v"
    and old: "\<And>t'. t' \<in> set (mb_transformations b) \<Longrightarrow> value_of (add v (mb_values b)) t' = value_of (mb_values b) t'"
  shows "sound c0 (push t add v c b) (parts @ [(a, e - a)])"
proof -
  have rec: "recorded (mb_deployed_code b) (mb_values b) (mb_transformations b) parts" using sound by (simp add: sound_def)
  have "recorded (mb_deployed_code b) (add v (mb_values b)) (mb_transformations b) parts"
    using rec old by (rule recorded_cong)
  moreover have "a + (e - a) = e" using s by (auto simp: slice_Some_iff)
  ultimately have "recorded (mb_deployed_code b) (add v (mb_values b)) (mb_transformations b @ [t]) (parts @ [(a, e - a)])"
    using s t unfolding recorded_def by (intro list_all2_appendI) simp_all
  with overlaid_copy[OF _ s c] sound show ?thesis by (simp add: sound_def push_def)
qed

lemma values_added:
  "value_of (add_cbor_auxdata i v vs) t = (if tr_reason t = CborAuxdata \<and> tr_id t = Some i then Some v else value_of vs t)"
  "value_of (add_library i v vs) t = (if tr_reason t = Library \<and> tr_id t = Some i then Some v else value_of vs t)"
  "value_of (add_immutable i v vs) t = (if tr_reason t = Immutable \<and> tr_id t = Some i then Some v else value_of vs t)"
  by (cases "tr_id t"; auto simp: value_of_def add_cbor_auxdata_def add_library_def add_immutable_def
      split: transformation_reason.splits)+

definition part_of :: "offset \<Rightarrow> nat \<times> nat" where
  "part_of o' = (off_start o', off_length o')"

text \<open>The loop over offsets, for transformations with one reason and id.\<close>

lemma offsets_loop_sound:
  assumes mk: "\<And>start. mk start = \<lparr>tr_type = Replace, tr_reason = r, tr_offset = start, tr_id = Some i\<rparr>"
    and add: "\<And>v vs t. value_of (add v vs) t = (if tr_reason t = r \<and> tr_id t = Some i then Some v else value_of vs t)"
    and old: "\<And>t. t \<in> set (mb_transformations b) \<Longrightarrow> tr_reason t = r \<Longrightarrow> tr_id t = Some i \<Longrightarrow>
      (\<exists>v. prev = Some v \<and> value_of (mb_values b) t = Some v)"
    and sound: "sound c0 b parts"
    and run: "offsets_loop msg mk add prev offsets b = Some (Ok b')"
  shows "sound c0 b' (parts @ map part_of offsets) \<and> same_flags b b'
    \<and> mb_transformations b' = mb_transformations b @ map (\<lambda>x. mk (off_start x)) offsets"
  using old sound run
proof (induction offsets arbitrary: prev b parts)
  case Nil
  then show ?case by (simp add: same_flags_def)
next
  case (Cons x rest)
  let ?a = "off_start x" and ?e = "off_start x + off_length x"
  from Cons.prems(3) obtain v c where v: "slice (mb_deployed_code b) ?a ?e = Some v"
    and c: "copy_at (mb_compiled_code b) ?a v = Some c" and prev: "prev = None \<or> prev = Some v"
    and rest: "offsets_loop msg mk add (Some v) rest (push (mk ?a) add v c b) = Some (Ok b')"
    by (auto simp: Let_def split: option.splits if_splits)
  let ?b = "push (mk ?a) add v c b"
  have keep: "value_of (add v (mb_values b)) t = value_of (mb_values b) t" if "t \<in> set (mb_transformations b)" for t
    using Cons.prems(1)[OF that] prev by (auto simp: add)
  have sound': "sound c0 ?b (parts @ [(?a, ?e - ?a)])"
    using keep by (intro sound_push[where add = add and t = "mk ?a" and e = ?e, OF Cons.prems(2) v c]) (simp_all add: mk add)
  have old': "\<exists>w. Some v = Some w \<and> value_of (mb_values ?b) t = Some w"
    if "t \<in> set (mb_transformations ?b)" "tr_reason t = r" "tr_id t = Some i" for t
    using that by (auto simp: push_def add)
  note ih = Cons.IH[OF old' sound' rest]
  have part: "(?a, ?e - ?a) = part_of x" unfolding part_of_def by (simp only: diff_add_inverse)
  have "same_flags b b'" using same_flags_trans[OF same_flags_push conjunct1[OF conjunct2[OF ih]]] .
  moreover have "sound c0 b' (parts @ map part_of (x # rest))"
    using conjunct1[OF ih] unfolding part append_assoc append_Cons append_Nil list.map .
  moreover have "mb_transformations b' = mb_transformations b @ map (\<lambda>x. mk (off_start x)) (x # rest)"
    using conjunct2[OF conjunct2[OF ih]] by (simp only: push_transformations list.map append_assoc append_Cons append_Nil)
  ultimately show ?case by blast
qed

lemma step_Ok_iff:
  "(case x of None \<Rightarrow> None | Some (Inl e) \<Rightarrow> Some (Err e) | Some (Inr b) \<Rightarrow> f b) = Some (Ok b')
    \<longleftrightarrow> (\<exists>b1. x = Some (Ok b1) \<and> f b1 = Some (Ok b'))"
  by (auto split: option.splits sum.splits)

lemmas library_loop_sound = offsets_loop_sound[OF library_def values_added(2)]
lemmas immutable_loop_sound = offsets_loop_sound[OF immutable_def values_added(3)]

text \<open>No transformation so far has this reason and one of these ids.\<close>

definition fresh :: "transformation_reason \<Rightarrow> string set \<Rightarrow> match_builder \<Rightarrow> bool" where
  "fresh r ids b \<longleftrightarrow> (\<forall>t \<in> set (mb_transformations b). tr_reason t = r \<longrightarrow> tr_id t \<notin> Some ` ids)"

lemma fresh_extend:
  assumes "fresh r ids b" "mb_transformations b1 = mb_transformations b @ map (\<lambda>x. mk (off_start x)) xs"
    and "ids' \<subseteq> ids" "i \<notin> ids'" "\<And>s. tr_id (mk s) = Some i"
  shows "fresh r ids' b1"
  unfolding fresh_def
proof (intro ballI impI)
  fix t assume t: "t \<in> set (mb_transformations b1)" "tr_reason t = r"
  then consider "t \<in> set (mb_transformations b)" | "tr_id t = Some i" using assms(2,5) by auto
  then show "tr_id t \<notin> Some ` ids'"
  proof cases
    case 1
    then show ?thesis using assms(1,3) t(2) unfolding fresh_def by blast
  next
    case 2
    then show ?thesis using assms(4) by auto
  qed
qed

definition entry_transformations :: "(nat \<Rightarrow> string \<Rightarrow> transformation) \<Rightarrow> string \<times> offset list \<Rightarrow> transformation list" where
  "entry_transformations mk e = map (\<lambda>x. mk (off_start x) (fst e)) (snd e)"

lemma immutable_references_sound:
  assumes "distinct (map fst refs)" "fresh Immutable (fst ` set refs) b" "sound c0 b parts"
    and "immutable_references_loop refs b = Some (Ok b')"
  shows "sound c0 b' (parts @ map part_of (concat (map snd refs))) \<and> same_flags b b'
    \<and> mb_transformations b' = mb_transformations b @ concat (map (entry_transformations immutable) refs)"
  using assms
proof (induction refs arbitrary: b parts)
  case Nil
  then show ?case by (simp add: same_flags_def)
next
  case (Cons e refs)
  obtain i offsets where e: "e = (i, offsets)" by (cases e)
  obtain msg b1 where b1: "offsets_loop msg (\<lambda>start. immutable start i) (add_immutable i) None offsets b = Some (Ok b1)"
    and rest: "immutable_references_loop refs b1 = Some (Ok b')"
    using Cons.prems(4) unfolding e immutable_references_loop.simps step_Ok_iff by blast
  have "\<exists>v. None = Some v \<and> value_of (mb_values b) t = Some v"
    if "t \<in> set (mb_transformations b)" "tr_reason t = Immutable" "tr_id t = Some i" for t
    using Cons.prems(2) that e by (auto simp: fresh_def)
  from immutable_loop_sound[OF this Cons.prems(3) b1]
  have s1: "sound c0 b1 (parts @ map part_of offsets)" "same_flags b b1"
    and t1: "mb_transformations b1 = mb_transformations b @ map (\<lambda>x. immutable (off_start x) i) offsets" by blast+
  have "fresh Immutable (fst ` set refs) b1"
  proof (rule fresh_extend[OF Cons.prems(2) t1])
    show "fst ` set refs \<subseteq> fst ` set (e # refs)" by auto
    show "i \<notin> fst ` set refs" using Cons.prems(1) unfolding e by simp
  qed (simp add: immutable_def)
  with Cons.IH[OF _ this s1(1) rest] Cons.prems(1) e s1(2) t1 show ?case
    by (auto simp: entry_transformations_def intro: same_flags_trans)
qed

text \<open>Libraries: the entries of all files under their ids.\<close>

definition libraries :: "link_references \<Rightarrow> (string \<times> offset list) list" where
  "libraries refs = concat (map (\<lambda>(file, cs). map (\<lambda>(c, offsets). (library_id file c, offsets)) cs) refs)"

lemma contracts_sound:
  assumes "distinct (map (library_id file \<circ> fst) cs)" "fresh Library (set (map (library_id file \<circ> fst) cs)) b" "sound c0 b parts"
    and "contracts_loop file cs b = Some (Ok b')"
  shows "sound c0 b' (parts @ map part_of (concat (map snd cs))) \<and> same_flags b b'
    \<and> mb_transformations b' = mb_transformations b
        @ concat (map (\<lambda>(c, offsets). entry_transformations library (library_id file c, offsets)) cs)"
  using assms
proof (induction cs arbitrary: b parts)
  case Nil
  then show ?case by (simp add: same_flags_def)
next
  case (Cons e cs)
  obtain c offsets where e: "e = (c, offsets)" by (cases e)
  let ?i = "library_id file c"
  obtain msg b1 where b1: "offsets_loop msg (\<lambda>start. library start ?i) (add_library ?i) None offsets b = Some (Ok b1)"
    and rest: "contracts_loop file cs b1 = Some (Ok b')"
    using Cons.prems(4) unfolding e contracts_loop.simps Let_def step_Ok_iff by blast
  have "\<exists>v. None = Some v \<and> value_of (mb_values b) t = Some v"
    if "t \<in> set (mb_transformations b)" "tr_reason t = Library" "tr_id t = Some ?i" for t
    using Cons.prems(2) that e by (auto simp: fresh_def)
  from library_loop_sound[OF this Cons.prems(3) b1]
  have s1: "sound c0 b1 (parts @ map part_of offsets)" "same_flags b b1"
    and t1: "mb_transformations b1 = mb_transformations b @ map (\<lambda>x. library (off_start x) ?i) offsets" by blast+
  have "fresh Library (set (map (library_id file \<circ> fst) cs)) b1"
  proof (rule fresh_extend[OF Cons.prems(2) t1])
    show "set (map (library_id file \<circ> fst) cs) \<subseteq> set (map (library_id file \<circ> fst) (e # cs))" by auto
    show "?i \<notin> set (map (library_id file \<circ> fst) cs)" using Cons.prems(1) unfolding e by simp
  qed (simp add: library_def)
  with Cons.IH[OF _ this s1(1) rest] Cons.prems(1) e s1(2) t1 show ?case
    by (auto simp: entry_transformations_def intro: same_flags_trans)
qed

lemma link_references_sound:
  assumes "distinct (map fst (libraries refs))" "fresh Library (fst ` set (libraries refs)) b" "sound c0 b parts"
    and "link_references_loop refs b = Some (Ok b')"
  shows "sound c0 b' (parts @ map part_of (concat (map snd (libraries refs)))) \<and> same_flags b b'
    \<and> mb_transformations b' = mb_transformations b @ concat (map (entry_transformations library) (libraries refs))"
  using assms
proof (induction refs arbitrary: b parts)
  case Nil
  then show ?case by (simp add: same_flags_def libraries_def)
next
  case (Cons e refs)
  obtain path cs where e: "e = (path, cs)" by (cases e)
  let ?here = "map (\<lambda>(c, offsets). (library_id path c, offsets)) cs"
  have libs: "libraries (e # refs) = ?here @ libraries refs" by (simp add: libraries_def e)
  have ids: "map fst ?here = map (library_id path \<circ> fst) cs" by (simp add: case_prod_unfold)
  have offs: "map snd ?here = map snd cs" by (simp add: case_prod_unfold)
  have trs: "concat (map (entry_transformations library) ?here)
      = concat (map (\<lambda>(c, offsets). entry_transformations library (library_id path c, offsets)) cs)"
    by (simp add: o_def case_prod_unfold)
  from Cons.prems(4)[unfolded e link_references_loop.simps step_Ok_iff] obtain b1 where b1: "contracts_loop path cs b = Some (Ok b1)"
    and rest: "link_references_loop refs b1 = Some (Ok b')"
    by blast
  have dist: "distinct (map (library_id path \<circ> fst) cs)" using Cons.prems(1) unfolding libs map_append ids by simp
  have "fresh Library (set (map (library_id path \<circ> fst) cs)) b"
    using Cons.prems(2) unfolding libs set_append image_Un set_map[symmetric] ids by (auto simp: fresh_def)
  from contracts_sound[OF dist this Cons.prems(3) b1]
  have s1: "sound c0 b1 (parts @ map part_of (concat (map snd cs)))" "same_flags b b1"
    and t1: "mb_transformations b1 = mb_transformations b
        @ concat (map (\<lambda>(c, offsets). entry_transformations library (library_id path c, offsets)) cs)" by auto
  have apart: "fst ` set ?here \<inter> fst ` set (libraries refs) = {}"
    using Cons.prems(1) unfolding libs map_append distinct_append set_map by blast
  have "fresh Library (fst ` set (libraries refs)) b1"
    unfolding fresh_def
  proof (intro ballI impI)
    fix t assume t: "t \<in> set (mb_transformations b1)" "tr_reason t = Library"
    show "tr_id t \<notin> Some ` fst ` set (libraries refs)"
    proof (cases "t \<in> set (mb_transformations b)")
      case True
      then show ?thesis using Cons.prems(2) t(2) by (auto simp: fresh_def libs)
    next
      case False
      with t(1) obtain c offsets where "(c, offsets) \<in> set cs" "tr_id t = Some (library_id path c)"
        by (auto simp: t1 entry_transformations_def library_def)
      moreover from this have "library_id path c \<in> fst ` set ?here" by force
      ultimately show ?thesis using apart by (simp only: inj_image_mem_iff[OF inj_Some]) blast
    qed
  qed
  moreover have "distinct (map fst (libraries refs))" using Cons.prems(1) unfolding libs map_append distinct_append by blast
  ultimately have ih: "sound c0 b' ((parts @ map part_of (concat (map snd cs))) @ map part_of (concat (map snd (libraries refs))))"
    "same_flags b1 b'" "mb_transformations b' = mb_transformations b1 @ concat (map (entry_transformations library) (libraries refs))"
    using Cons.IH[OF _ _ s1(1) rest] by blast+
  from ih(1,3) same_flags_trans[OF s1(2) ih(2)]
  show ?case unfolding libs map_append concat_append offs trs t1 append_assoc by blast
qed

text \<open>The metadata sections that differ on chain.\<close>

definition changed_auxdata :: "bytes \<Rightarrow> cbor_auxdata \<Rightarrow> cbor_auxdata" where
  "changed_auxdata d aux =
     filter (\<lambda>(i, v). slice d (cav_offset v) (cav_offset v + length (cav_value v)) \<noteq> Some (cav_value v)) aux"

definition auxdata_parts :: "cbor_auxdata \<Rightarrow> (nat \<times> nat) list" where
  "auxdata_parts aux = map (\<lambda>(i, v). (cav_offset v, length (cav_value v))) aux"

definition auxdata_transformations :: "cbor_auxdata \<Rightarrow> transformation list" where
  "auxdata_transformations aux = map (\<lambda>(i, v). auxdata (cav_offset v) i) aux"

lemma cbor_auxdata_sound:
  assumes "distinct (map fst aux)" "fresh CborAuxdata (fst ` set aux) b" "sound c0 b parts"
    and "cbor_auxdata_loop aux b = Some (Ok b')"
  shows "sound c0 b' (parts @ auxdata_parts (changed_auxdata (mb_deployed_code b) aux))
    \<and> mb_transformations b' = mb_transformations b @ auxdata_transformations (changed_auxdata (mb_deployed_code b) aux)
    \<and> mb_deployed_code b' = mb_deployed_code b \<and> mb_has_cbor_auxdata b' = mb_has_cbor_auxdata b
    \<and> mb_invalid_constructor_arguments b' = mb_invalid_constructor_arguments b
    \<and> (mb_has_cbor_auxdata_transformation b' \<longleftrightarrow>
        mb_has_cbor_auxdata_transformation b \<or> changed_auxdata (mb_deployed_code b) aux \<noteq> [])"
  using assms
proof (induction aux arbitrary: b parts)
  case Nil
  then show ?case by (simp add: changed_auxdata_def auxdata_parts_def auxdata_transformations_def)
next
  case (Cons e aux)
  obtain i v where e: "e = (i, v)" by (cases e)
  let ?a = "cav_offset v" and ?e = "cav_offset v + length (cav_value v)" and ?d = "mb_deployed_code b"
  from Cons.prems(4) e obtain w where w: "slice ?d ?a ?e = Some w"
    by (auto simp: Let_def split: if_splits option.splits)
  have dist: "distinct (map fst aux)" "i \<notin> fst ` set aux" using Cons.prems(1) e by simp_all
  show ?case
  proof (cases "w = cav_value v")
    case True
    with w have ch: "changed_auxdata ?d (e # aux) = changed_auxdata ?d aux" by (simp add: changed_auxdata_def e)
    from Cons.prems(4) e w True have rest: "cbor_auxdata_loop aux b = Some (Ok b')"
      by (simp add: Let_def split: if_splits)
    have "fresh CborAuxdata (fst ` set aux) b" using Cons.prems(2) by (auto simp: fresh_def)
    from Cons.IH[OF dist(1) this Cons.prems(3) rest] show ?thesis by (simp only: ch)
  next
    case False
    with w have ch: "changed_auxdata ?d (e # aux) = e # changed_auxdata ?d aux" by (simp add: changed_auxdata_def e)
    let ?b = "b\<lparr>mb_has_cbor_auxdata_transformation := True\<rparr>"
    from Cons.prems(4) e w False obtain c where c: "copy_at (mb_compiled_code b) ?a w = Some c"
      and rest: "cbor_auxdata_loop aux (push (auxdata ?a i) (add_cbor_auxdata i) w c ?b) = Some (Ok b')"
      by (auto simp: Let_def split: if_splits option.splits)
    let ?b1 = "push (auxdata ?a i) (add_cbor_auxdata i) w c ?b"
    have old: "\<not> (tr_reason t = CborAuxdata \<and> tr_id t = Some i)" if "t \<in> set (mb_transformations b)" for t
      using Cons.prems(2) that e by (auto simp: fresh_def)
    have sound': "sound c0 ?b1 (parts @ [(?a, ?e - ?a)])"
    proof (rule sound_push[where add = "add_cbor_auxdata i" and e = ?e])
      show "sound c0 ?b parts" using Cons.prems(3) by (simp add: sound_def)
      show "value_of (add_cbor_auxdata i w (mb_values ?b)) t = value_of (mb_values ?b) t"
        if "t \<in> set (mb_transformations ?b)" for t
        using old[of t] that by (auto simp: values_added(1))
    qed (use w c in \<open>simp_all add: auxdata_def values_added(1)\<close>)
    have t1: "mb_transformations ?b1 = mb_transformations b @ [auxdata ?a i]" by simp
    have fresh': "fresh CborAuxdata (fst ` set aux) ?b1"
      using Cons.prems(2) dist(2) e unfolding fresh_def t1 by (auto simp: auxdata_def)
    have ps: "auxdata_parts (changed_auxdata ?d (e # aux)) = (?a, ?e - ?a) # auxdata_parts (changed_auxdata ?d aux)"
      unfolding ch auxdata_parts_def by (simp add: e)
    have ts: "auxdata_transformations (changed_auxdata ?d (e # aux)) = auxdata ?a i # auxdata_transformations (changed_auxdata ?d aux)"
      unfolding ch auxdata_transformations_def by (simp add: e)
    have same: "mb_deployed_code ?b1 = ?d" "mb_has_cbor_auxdata ?b1 = mb_has_cbor_auxdata b"
      "mb_invalid_constructor_arguments ?b1 = mb_invalid_constructor_arguments b" "mb_has_cbor_auxdata_transformation ?b1"
      by (simp_all add: push_def)
    note ih = Cons.IH[OF dist(1) fresh' sound' rest, unfolded same t1]
    have ne: "changed_auxdata ?d (e # aux) \<noteq> []" unfolding ch by simp
    show ?thesis unfolding ps ts using ih same(4) ne by (simp only: append_assoc append_Cons append_Nil) simp
  qed
qed

section \<open>Runtime code\<close>

text \<open>The artifacts of the maps of the source have distinct keys.\<close>

definition distinct_ids :: "cbor_auxdata option \<Rightarrow> link_references option \<Rightarrow> immutable_references option \<Rightarrow> bool" where
  "distinct_ids aux links immutables \<longleftrightarrow> (\<forall>a. aux = Some a \<longrightarrow> distinct (map fst a))
     \<and> (\<forall>l. links = Some l \<longrightarrow> distinct (map fst (libraries l))) \<and> (\<forall>m. immutables = Some m \<longrightarrow> distinct (map fst m))"

definition reference_parts :: "link_references option \<Rightarrow> immutable_references option \<Rightarrow> (nat \<times> nat) list" where
  "reference_parts links immutables =
     map part_of (concat (map snd (case links of Some l \<Rightarrow> libraries l | None \<Rightarrow> [])))
     @ map part_of (concat (map snd (case immutables of Some m \<Rightarrow> m | None \<Rightarrow> [])))"

lemma fresh_other: "(\<And>t. t \<in> set (mb_transformations b) \<Longrightarrow> tr_reason t \<noteq> r) \<Longrightarrow> fresh r ids b"
  by (auto simp: fresh_def)

lemma auxdata_and_libraries:
  assumes ids: "distinct_ids aux links None" and b: "sound c0 b []" "mb_transformations b = []"
    "\<not> mb_has_cbor_auxdata b" "\<not> mb_has_cbor_auxdata_transformation b"
    and run: "and_apply (apply_cbor_auxdata_transformations aux b) (apply_library_transformations links) = Some (Ok b')"
  defines "a \<equiv> (case aux of Some a \<Rightarrow> a | None \<Rightarrow> [])"
  shows "sound c0 b' (auxdata_parts (changed_auxdata (mb_deployed_code b) a) @ reference_parts links None)
    \<and> (\<forall>t \<in> set (mb_transformations b'). tr_reason t = CborAuxdata \<or> tr_reason t = Library)
    \<and> mb_deployed_code b' = mb_deployed_code b \<and> mb_invalid_constructor_arguments b' = mb_invalid_constructor_arguments b
    \<and> (mb_has_cbor_auxdata b' \<longleftrightarrow> a \<noteq> [])
    \<and> (mb_has_cbor_auxdata_transformation b' \<longleftrightarrow> changed_auxdata (mb_deployed_code b) a \<noteq> [])"
proof -
  from run obtain b1 where b1: "apply_cbor_auxdata_transformations aux b = Some (Ok b1)"
    and rest: "apply_library_transformations links b1 = Some (Ok b')"
    by (auto simp: and_apply_def step_Ok_iff)
  have aux: "sound c0 b1 (auxdata_parts (changed_auxdata (mb_deployed_code b) a))
    \<and> mb_transformations b1 = auxdata_transformations (changed_auxdata (mb_deployed_code b) a)
    \<and> mb_deployed_code b1 = mb_deployed_code b \<and> (mb_has_cbor_auxdata b1 \<longleftrightarrow> a \<noteq> [])
    \<and> mb_invalid_constructor_arguments b1 = mb_invalid_constructor_arguments b
    \<and> (mb_has_cbor_auxdata_transformation b1 \<longleftrightarrow> changed_auxdata (mb_deployed_code b) a \<noteq> [])"
  proof (cases aux)
    case None
    then show ?thesis
      using b1 b by (auto simp: apply_cbor_auxdata_transformations_def a_def changed_auxdata_def auxdata_parts_def auxdata_transformations_def)
  next
    case (Some x)
    have loop: "cbor_auxdata_loop x (b\<lparr>mb_has_cbor_auxdata := (x \<noteq> [])\<rparr>) = Some (Ok b1)"
      using b1 Some by (simp add: apply_cbor_auxdata_transformations_def)
    have "distinct (map fst x)" using ids Some by (simp add: distinct_ids_def)
    from cbor_auxdata_sound[OF this _ _ loop, of c0 "[]"] b Some show ?thesis
      by (auto simp: a_def fresh_def sound_def)
  qed
  have reasons: "tr_reason t = CborAuxdata" if "t \<in> set (mb_transformations b1)" for t
    using that aux by (auto simp: auxdata_transformations_def auxdata_def)
  show ?thesis
  proof (cases links)
    case None
    with rest have "b' = b1" by (simp add: apply_library_transformations_def)
    with aux reasons None show ?thesis by (simp add: reference_parts_def)
  next
    case (Some l)
    have loop: "link_references_loop l b1 = Some (Ok b')" using rest Some by (simp add: apply_library_transformations_def)
    have dist: "distinct (map fst (libraries l))" using ids Some by (simp add: distinct_ids_def)
    have fr: "fresh Library (fst ` set (libraries l)) b1" using reasons by (intro fresh_other) auto
    from link_references_sound[OF dist fr conjunct1[OF aux] loop] aux reasons Some show ?thesis
      by (auto simp: same_flags_def reference_parts_def entry_transformations_def library_def)
  qed
qed

lemma runtime_transformations_sound:
  assumes ids: "distinct_ids aux links immutables" and b: "sound c0 b []" "mb_transformations b = []"
    "\<not> mb_has_cbor_auxdata b" "\<not> mb_has_cbor_auxdata_transformation b"
    and run: "and_apply (and_apply (apply_cbor_auxdata_transformations aux b) (apply_library_transformations links))
      (apply_immutable_transformations immutables) = Some (Ok b')"
  defines "a \<equiv> (case aux of Some a \<Rightarrow> a | None \<Rightarrow> [])"
  shows "sound c0 b' (auxdata_parts (changed_auxdata (mb_deployed_code b) a) @ reference_parts links immutables)
    \<and> mb_deployed_code b' = mb_deployed_code b \<and> mb_invalid_constructor_arguments b' = mb_invalid_constructor_arguments b
    \<and> (mb_has_cbor_auxdata b' \<longleftrightarrow> a \<noteq> [])
    \<and> (mb_has_cbor_auxdata_transformation b' \<longleftrightarrow> changed_auxdata (mb_deployed_code b) a \<noteq> [])"
proof -
  from run obtain b1 where
    b1: "and_apply (apply_cbor_auxdata_transformations aux b) (apply_library_transformations links) = Some (Ok b1)"
    and rest: "apply_immutable_transformations immutables b1 = Some (Ok b')"
    by (auto simp: and_apply_def[of "and_apply _ _"] step_Ok_iff)
  have ids': "distinct_ids aux links None" using ids by (simp add: distinct_ids_def)
  note libs = auxdata_and_libraries[OF ids' b b1, folded a_def]
  show ?thesis
  proof (cases immutables)
    case None
    with rest have "b' = b1" by (simp add: apply_immutable_transformations_def)
    with libs None show ?thesis by (simp add: reference_parts_def)
  next
    case (Some m)
    have loop: "immutable_references_loop m b1 = Some (Ok b')" using rest Some by (simp add: apply_immutable_transformations_def)
    have dist: "distinct (map fst m)" using ids Some by (simp add: distinct_ids_def)
    have fr: "fresh Immutable (fst ` set m) b1" using libs by (intro fresh_other) auto
    from immutable_references_sound[OF dist fr conjunct1[OF libs] loop] libs Some show ?thesis
      by (auto simp: same_flags_def reference_parts_def)
  qed
qed

lemma sound_new:
  "builder_new d c = Some b \<Longrightarrow> sound c b [] \<and> mb_transformations b = [] \<and> \<not> mb_has_cbor_auxdata b
    \<and> \<not> mb_has_cbor_auxdata_transformation b \<and> \<not> mb_invalid_constructor_arguments b
    \<and> mb_deployed_code b = d \<and> mb_compiled_code b = c \<and> length c \<le> length d"
  by (auto simp: builder_new_def sound_def split: if_splits)

lemma build_match_Some:
  assumes "build_match f d c = Some (Ok (Some m))"
  obtains b b' where "builder_new d c = Some b" "f b = Some (Ok b')" "verify_and_build b' = Some m"
  using assms by (auto simp: build_match_def try_bind_Ok_iff split: option.splits)

lemma sound_replay:
  assumes "sound c0 b parts"
  shows "replay (mb_values b) (mb_transformations b) c0 = Some (mb_compiled_code b)"
proof -
  have "fits parts (length c0)" using assms by (simp add: sound_def overlaid_def)
  with assms obtain c where c: "replay (mb_values b) (mb_transformations b) c0 = Some c" "overlaid c0 (mb_deployed_code b) parts c"
    using replay_recorded[of "mb_deployed_code b" "mb_values b" "mb_transformations b" parts c0] by (auto simp: sound_def)
  moreover have "c = mb_compiled_code b" using overlaid_unique[OF c(2)] assms by (simp add: sound_def)
  ultimately show ?thesis by simp
qed

section \<open>When the builder succeeds\<close>

text \<open>All offsets lie inside the code, and on chain they hold one and the same value.\<close>

definition one_value :: "bytes \<Rightarrow> nat \<Rightarrow> offset list \<Rightarrow> bool" where
  "one_value d n offsets \<longleftrightarrow> (\<exists>w. \<forall>x \<in> set offsets. off_start x + off_length x \<le> n
     \<and> slice d (off_start x) (off_start x + off_length x) = Some w)"

definition sized :: "bytes \<Rightarrow> nat \<Rightarrow> match_builder \<Rightarrow> bool" where
  "sized d n b \<longleftrightarrow> mb_deployed_code b = d \<and> length (mb_compiled_code b) = n"

lemma sized_push: "sized d n b \<Longrightarrow> copy_at (mb_compiled_code b) a v = Some c \<Longrightarrow> sized d n (push t add v c b)"
  by (auto simp: sized_def push_def copy_at_Some_iff)

lemma offsets_loop_total:
  assumes "\<forall>x \<in> set offsets. off_start x + off_length x \<le> n \<and> slice d (off_start x) (off_start x + off_length x) = Some w"
    and "sized d n b" "prev = None \<or> prev = Some w"
  shows "\<exists>b'. offsets_loop msg mk add prev offsets b = Some (Ok b') \<and> sized d n b'"
  using assms
proof (induction offsets arbitrary: prev b)
  case (Cons x rest)
  have d: "mb_deployed_code b = d" and s: "slice d (off_start x) (off_start x + off_length x) = Some w"
    using Cons.prems by (auto simp: sized_def)
  have "off_start x + length w \<le> length (mb_compiled_code b)"
    using Cons.prems(1,2) s by (auto simp: sized_def slice_Some_iff)
  then obtain c where c: "copy_at (mb_compiled_code b) (off_start x) w = Some c" by (simp add: copy_at_Some_iff)
  have rest: "\<forall>y \<in> set rest. off_start y + off_length y \<le> n \<and> slice d (off_start y) (off_start y + off_length y) = Some w"
    using Cons.prems(1) by simp
  from Cons.IH[OF rest sized_push[OF Cons.prems(2) c, of "mk (off_start x)" add], of "Some w"] s c d Cons.prems(3)
  show ?case by (auto simp: Let_def)
qed (simp add: sized_def)

lemma contracts_total:
  "\<forall>e \<in> set cs. one_value d n (snd e) \<Longrightarrow> sized d n b \<Longrightarrow> \<exists>b'. contracts_loop file cs b = Some (Ok b') \<and> sized d n b'"
proof (induction cs arbitrary: b)
  case (Cons e cs)
  obtain c offsets where e: "e = (c, offsets)" by (cases e)
  from Cons.prems(1) e obtain w where "\<forall>x \<in> set offsets. off_start x + off_length x \<le> n
      \<and> slice d (off_start x) (off_start x + off_length x) = Some w" by (auto simp: one_value_def)
  from offsets_loop_total[OF this Cons.prems(2), of None] obtain b1 where
    "offsets_loop (''(reason=link_reference; id='' @ library_id file c @ '') offset values are not consistent'')
       (\<lambda>start. library start (library_id file c)) (add_library (library_id file c)) None offsets b = Some (Ok b1)" "sized d n b1"
    by blast
  with Cons.IH[of b1] Cons.prems(1) e show ?case by (simp only: contracts_loop.simps Let_def) simp
qed simp

lemma link_references_total:
  "\<forall>e \<in> set (libraries refs). one_value d n (snd e) \<Longrightarrow> sized d n b \<Longrightarrow>
    \<exists>b'. link_references_loop refs b = Some (Ok b') \<and> sized d n b'"
proof (induction refs arbitrary: b)
  case (Cons e refs)
  obtain path cs where e: "e = (path, cs)" by (cases e)
  have "\<forall>x \<in> set (libraries [e]) \<union> set (libraries refs). one_value d n (snd x)"
    using Cons.prems(1) by (simp add: libraries_def)
  then have all: "\<forall>x \<in> set (libraries [e]). one_value d n (snd x)" "\<forall>x \<in> set (libraries refs). one_value d n (snd x)"
    by blast+
  have "one_value d n (snd x)" if "x \<in> set cs" for x
  proof -
    have "(library_id path (fst x), snd x) \<in> set (libraries [e])" using that by (force simp: libraries_def e)
    with all(1) show ?thesis by fastforce
  qed
  with contracts_total[OF _ Cons.prems(2), of cs path] Cons.IH[OF all(2)] e show ?case by auto
qed simp

lemma immutable_references_total:
  "\<forall>e \<in> set refs. one_value d n (snd e) \<Longrightarrow> sized d n b \<Longrightarrow> \<exists>b'. immutable_references_loop refs b = Some (Ok b') \<and> sized d n b'"
proof (induction refs arbitrary: b)
  case (Cons e refs)
  obtain i offsets where e: "e = (i, offsets)" by (cases e)
  from Cons.prems(1) e obtain w where "\<forall>x \<in> set offsets. off_start x + off_length x \<le> n
      \<and> slice d (off_start x) (off_start x + off_length x) = Some w" by (auto simp: one_value_def)
  from offsets_loop_total[OF this Cons.prems(2), of None] obtain b1 where
    "offsets_loop (''(reason=immutable_reference; id='' @ i @ '') offset values are not consistent'')
       (\<lambda>start. immutable start i) (add_immutable i) None offsets b = Some (Ok b1)" "sized d n b1" by blast
  with Cons.IH[of b1] Cons.prems(1) e show ?case by (simp only: immutable_references_loop.simps) simp
qed simp

lemma cbor_auxdata_total:
  "fits (auxdata_parts aux) n \<Longrightarrow> n \<le> length d \<Longrightarrow> sized d n b \<Longrightarrow> \<exists>b'. cbor_auxdata_loop aux b = Some (Ok b') \<and> sized d n b'"
proof (induction aux arbitrary: b)
  case (Cons e aux)
  obtain i v where e: "e = (i, v)" by (cases e)
  let ?a = "cav_offset v" and ?e = "cav_offset v + length (cav_value v)"
  have len: "?e \<le> n" and rest: "fits (auxdata_parts aux) n" using Cons.prems(1) by (simp_all add: auxdata_parts_def e)
  then obtain w where w: "slice d ?a ?e = Some w" "length w = length (cav_value v)" using Cons.prems(2) by (simp add: slice_def)
  then obtain c where c: "copy_at (mb_compiled_code b) ?a w = Some c" using len Cons.prems(3) by (simp add: copy_at_def sized_def)
  let ?b = "b\<lparr>mb_has_cbor_auxdata_transformation := True\<rparr>"
  have "sized d n ?b" using Cons.prems(3) by (simp add: sized_def)
  from sized_push[OF this, of ?a w c "auxdata ?a i" "add_cbor_auxdata i"] c
  have "sized d n (push (auxdata ?a i) (add_cbor_auxdata i) w c ?b)" by simp
  with Cons.IH[OF rest Cons.prems(2)] Cons.prems(3) w c len e show ?case by (auto simp: sized_def Let_def)
qed simp

lemma built_match_replays:
  assumes "sound compiled b parts" "verify_and_build b = Some m"
  shows "replay (m_values m) (m_transformations m) compiled = Some (mb_deployed_code b)"
  using sound_replay[OF assms(1)] assms(2) by (auto simp: verify_and_build_def split: if_splits)

lemma runtime_match_built:
  assumes run: "verify_runtime_code on_chain compiled artifacts = Some (Ok (Some m))"
    and ids: "distinct_ids (rca_cbor_auxdata artifacts) (rca_link_references artifacts) (rca_immutable_references artifacts)"
  defines "aux \<equiv> (case rca_cbor_auxdata artifacts of Some a \<Rightarrow> a | None \<Rightarrow> [])"
  obtains b where "verify_and_build b = Some m" "mb_deployed_code b = on_chain"
    "sound compiled b (auxdata_parts (changed_auxdata on_chain aux)
      @ reference_parts (rca_link_references artifacts) (rca_immutable_references artifacts))"
    "mb_has_cbor_auxdata b \<longleftrightarrow> aux \<noteq> []" "mb_has_cbor_auxdata_transformation b \<longleftrightarrow> changed_auxdata on_chain aux \<noteq> []"
proof -
  from run obtain b b' where b: "builder_new on_chain compiled = Some b"
    and steps: "apply_runtime_code_transformations artifacts b = Some (Ok b')" and m: "verify_and_build b' = Some m"
    unfolding verify_runtime_code_def by (rule build_match_Some)
  note new = sound_new[OF b]
  have "sound compiled b' (auxdata_parts (changed_auxdata on_chain aux)
      @ reference_parts (rca_link_references artifacts) (rca_immutable_references artifacts))"
    "mb_deployed_code b' = on_chain" "mb_has_cbor_auxdata b' \<longleftrightarrow> aux \<noteq> []"
    "mb_has_cbor_auxdata_transformation b' \<longleftrightarrow> changed_auxdata on_chain aux \<noteq> []"
    using runtime_transformations_sound[OF ids _ _ _ _ steps[unfolded apply_runtime_code_transformations_def], of compiled] new
    unfolding aux_def by auto
  with m show thesis by (intro that[of b'])
qed

lemma runtime_match_replays:
  assumes "verify_runtime_code on_chain compiled artifacts = Some (Ok (Some m))"
    and "distinct_ids (rca_cbor_auxdata artifacts) (rca_link_references artifacts) (rca_immutable_references artifacts)"
  shows "replay (m_values m) (m_transformations m) compiled = Some on_chain"
  using assms by (rule runtime_match_built) (use built_match_replays in blast)

lemma blueprint_match_replays:
  assumes run: "verify_blueprint_initcode initcode compiled artifacts = Some (Ok (Some m))"
    and ids: "distinct_ids (cca_cbor_auxdata artifacts) None None"
  shows "replay (m_values m) (m_transformations m) compiled = Some initcode"
proof -
  from run obtain b b' where b: "builder_new initcode compiled = Some b"
    and steps: "apply_cbor_auxdata_transformations (cca_cbor_auxdata artifacts) b = Some (Ok b')" and m: "verify_and_build b' = Some m"
    unfolding verify_blueprint_initcode_def apply_blueprint_initcode_transformations_def by (rule build_match_Some)
  from steps have both: "and_apply (apply_cbor_auxdata_transformations (cca_cbor_auxdata artifacts) b) (apply_library_transformations None)
      = Some (Ok b')"
    by (simp add: and_apply_def apply_library_transformations_def)
  then obtain parts where "sound compiled b' parts" "mb_deployed_code b' = initcode"
    using auxdata_and_libraries[OF ids _ _ _ _ both, of compiled] sound_new[OF b] by auto
  with built_match_replays[OF _ m] show ?thesis by auto
qed

text \<open>The constructor arguments come last: there are none, or they are appended to a sound builder.\<close>

lemma creation_match_built:
  assumes run: "verify_creation_code lib on_chain compiled artifacts abi = Some (Ok (Some m))"
    and ids: "distinct_ids (cca_cbor_auxdata artifacts) (cca_link_references artifacts) None"
  defines "args \<equiv> drop (length compiled) on_chain"
  obtains (none) b parts where "args = []" "sound compiled b parts" "mb_deployed_code b = on_chain" "verify_and_build b = Some m"
  | (some) json ctor b parts where "abi = Some json" "abi_constructor lib json = Ok (Some ctor)" "abi_decodes lib ctor args"
      "sound compiled b parts" "mb_compiled_code b @ args = on_chain" "length (mb_compiled_code b) = length compiled"
      "m_transformations m = mb_transformations b @ [constructor (length compiled)]"
      "m_values m = mb_values b" "mv_constructor_arguments (m_values m) = Some args"
proof -
  from run obtain b b2 where b: "builder_new on_chain compiled = Some b"
    and steps: "apply_creation_code_transformations lib artifacts abi b = Some (Ok b2)" and m: "verify_and_build b2 = Some m"
    unfolding verify_creation_code_def by (rule build_match_Some)
  note new = sound_new[OF b]
  from steps obtain b1 where
    b1: "and_apply (apply_cbor_auxdata_transformations (cca_cbor_auxdata artifacts) b)
      (apply_library_transformations (cca_link_references artifacts)) = Some (Ok b1)"
    and last: "apply_constructor_transformation lib abi b1 = Some (Ok b2)"
    by (auto simp: apply_creation_code_transformations_def and_apply_def[of "and_apply _ _"] step_Ok_iff)
  obtain parts where inv: "sound compiled b1 parts" and d: "mb_deployed_code b1 = on_chain"
    and re: "\<forall>t \<in> set (mb_transformations b1). tr_reason t = CborAuxdata \<or> tr_reason t = Library"
    using auxdata_and_libraries[OF ids _ _ _ _ b1, of compiled] new by auto
  have len: "length (mb_compiled_code b1) = length compiled" using inv by (simp add: sound_def overlaid_def)
  from m have ok: "\<not> mb_invalid_constructor_arguments b2" "mb_compiled_code b2 = mb_deployed_code b2"
    and mm: "m_values m = mb_values b2" "m_transformations m = mb_transformations b2"
    by (auto simp: verify_and_build_def split: if_splits)
  from last ok(1) len d consider "b2 = b1" "args = [] "
    | json ctor where "abi = Some json" "abi_constructor lib json = Ok (Some ctor)" "abi_decodes lib ctor args"
      "b2 = push (constructor (length compiled)) add_constructor_arguments args (mb_compiled_code b1 @ args) b1"
    unfolding args_def by (auto simp: apply_constructor_transformation_def Let_def split: if_splits option.splits sum.splits)
  then show thesis
  proof cases
    case 1
    with none[OF _ inv d] m show thesis by simp
  next
    case 2
    let ?b = "b1\<lparr>mb_values := add_constructor_arguments args (mb_values b1)\<rparr>"
    have vals: "value_of (add_constructor_arguments args vs) t = value_of vs t" if "tr_reason t \<noteq> ConstructorArguments" for t vs
      using that by (auto simp: value_of_def add_constructor_arguments_def split: transformation_reason.splits)
    have rec: "recorded on_chain (mb_values b1) (mb_transformations b1) parts" using inv d by (simp add: sound_def)
    have "recorded on_chain (add_constructor_arguments args (mb_values b1)) (mb_transformations b1) parts"
      using rec by (rule recorded_cong) (use re vals in force)
    then have "sound compiled ?b parts" using inv d by (simp add: sound_def)
    moreover have "mb_compiled_code ?b @ args = on_chain" using 2(4) ok(2) d by (simp add: push_def)
    ultimately show thesis
      using some[OF 2(1-3), of ?b parts] 2(4) mm len by (simp add: push_def add_constructor_arguments_def)
  qed
qed

lemma creation_match_replays:
  assumes "verify_creation_code lib on_chain compiled artifacts abi = Some (Ok (Some m))"
    and "distinct_ids (cca_cbor_auxdata artifacts) (cca_link_references artifacts) None"
  shows "replay (m_values m) (m_transformations m) compiled = Some on_chain"
  using assms
proof (cases rule: creation_match_built)
  case (none b parts)
  with built_match_replays[OF none(2,4)] show ?thesis by simp
next
  case (some json ctor b parts)
  have "replay_step (m_values m) (constructor (length compiled)) (mb_compiled_code b) = Some on_chain"
    using some(5,6,9) by (simp add: replay_step_def value_of_def constructor_def)
  with sound_replay[OF some(4)] some(7,8) show ?thesis by (simp add: replay_append)
qed

section \<open>Properties\<close>

text \<open>C4: A reported match of runtime code can be trusted: the recorded transformations and values,
  replayed on the recompiled code, give exactly the code on chain; the two codes have the same
  length and differ at most in the parts that the compiler declares as metadata, library
  addresses or immutables; and the match is said to be one of the metadata exactly when there
  are metadata sections and none differs on chain.\<close>

theorem runtime_match_is_sound:
  assumes run: "verify_runtime_code on_chain compiled artifacts = Some (Ok (Some m))"
    and ids: "distinct_ids (rca_cbor_auxdata artifacts) (rca_link_references artifacts) (rca_immutable_references artifacts)"
  defines "aux \<equiv> (case rca_cbor_auxdata artifacts of Some a \<Rightarrow> a | None \<Rightarrow> [])"
  defines "parts \<equiv> auxdata_parts aux @ reference_parts (rca_link_references artifacts) (rca_immutable_references artifacts)"
  shows "replay (m_values m) (m_transformations m) compiled = Some on_chain
    \<and> length on_chain = length compiled
    \<and> (\<forall>i < length compiled. \<not> touched parts i \<longrightarrow> on_chain ! i = compiled ! i)
    \<and> (metadata_match m \<longleftrightarrow> aux \<noteq> [] \<and> changed_auxdata on_chain aux = [])"
proof -
  from run ids obtain b where m: "verify_and_build b = Some m" and d: "mb_deployed_code b = on_chain"
    and inv: "sound compiled b (auxdata_parts (changed_auxdata on_chain aux)
      @ reference_parts (rca_link_references artifacts) (rca_immutable_references artifacts))"
    "mb_has_cbor_auxdata b \<longleftrightarrow> aux \<noteq> []" "mb_has_cbor_auxdata_transformation b \<longleftrightarrow> changed_auxdata on_chain aux \<noteq> []"
    unfolding aux_def by (rule runtime_match_built)
  from m d have mm: "mb_compiled_code b = on_chain" "metadata_match m \<longleftrightarrow> mb_has_cbor_auxdata b \<and> \<not> mb_has_cbor_auxdata_transformation b"
    by (auto simp: verify_and_build_def split: if_splits)
  have "touched (auxdata_parts (changed_auxdata on_chain aux)) i \<Longrightarrow> touched (auxdata_parts aux) i" for i
    by (force simp: touched_def auxdata_parts_def changed_auxdata_def)
  then have "\<forall>i < length compiled. \<not> touched parts i \<longrightarrow> on_chain ! i = compiled ! i"
    using inv(1) mm(1) by (auto simp: sound_def overlaid_def parts_def)
  moreover have "length on_chain = length compiled" using inv(1) mm(1) by (simp add: sound_def overlaid_def)
  ultimately show ?thesis using runtime_match_replays[OF run ids] mm inv(2,3) by auto
qed

theorem runtime_match_is_sound_witness:
  defines "artifacts \<equiv> \<lparr>rca_cbor_auxdata = Some [(''1'', \<lparr>cav_value = [7, 8], cav_offset = 3\<rparr>)],
    rca_immutable_references = Some [(''5'', [\<lparr>off_start = 1, off_length = 1\<rparr>])], rca_link_references = None\<rparr>"
  shows "\<exists>m. verify_runtime_code [1, 9, 3, 7, 5] [1, 0, 3, 7, 8] artifacts = Some (Ok (Some m))
    \<and> replay (m_values m) (m_transformations m) [1, 0, 3, 7, 8] = Some [1, 9, 3, 7, 5] \<and> \<not> metadata_match m"
proof -
  obtain m where run: "verify_runtime_code [1, 9, 3, 7, 5] [1, 0, 3, 7, 8] artifacts = Some (Ok (Some m))"
    "\<not> metadata_match m"
    by (simp add: verify_runtime_code_def build_match_def builder_new_def apply_runtime_code_transformations_def and_apply_def
        apply_cbor_auxdata_transformations_def apply_library_transformations_def apply_immutable_transformations_def
        artifacts_def slice_def copy_at_def push_def verify_and_build_def Let_def)
  have "distinct_ids (rca_cbor_auxdata artifacts) (rca_link_references artifacts) (rca_immutable_references artifacts)"
    by (simp add: artifacts_def distinct_ids_def)
  from runtime_match_is_sound[OF run(1) this] run show ?thesis by blast
qed



text \<open>The transformations of runtime code are applied without an error.\<close>

lemma runtime_steps_total:
  fixes artifacts :: runtime_code_artifacts
  assumes len: "length on_chain = length compiled" and b: "builder_new on_chain compiled = Some b"
  defines "aux \<equiv> (case rca_cbor_auxdata artifacts of Some a \<Rightarrow> a | None \<Rightarrow> [])"
  defines "libs \<equiv> (case rca_link_references artifacts of Some l \<Rightarrow> libraries l | None \<Rightarrow> [])"
  defines "imms \<equiv> (case rca_immutable_references artifacts of Some l \<Rightarrow> l | None \<Rightarrow> [])"
  assumes vals: "\<And>i v. (i, v) \<in> set aux \<Longrightarrow> slice compiled (cav_offset v) (cav_offset v + length (cav_value v)) = Some (cav_value v)"
    and refs: "\<And>e. e \<in> set libs \<union> set imms \<Longrightarrow> one_value on_chain (length compiled) (snd e)"
  shows "\<exists>b3. apply_runtime_code_transformations artifacts b = Some (Ok b3)"
proof -
  let ?n = "length compiled"
  note new = sound_new[OF b]
  have fit: "fits (auxdata_parts aux) ?n" using vals by (auto simp: fits_def auxdata_parts_def slice_Some_iff)
  have size: "sized on_chain ?n b" using new by (simp add: sized_def)
  then have "sized on_chain ?n (b\<lparr>mb_has_cbor_auxdata := x\<rparr>)" for x by (simp add: sized_def)
  with cbor_auxdata_total[OF fit] len
  have "\<exists>b1. cbor_auxdata_loop aux (b\<lparr>mb_has_cbor_auxdata := x\<rparr>) = Some (Ok b1) \<and> sized on_chain ?n b1" for x by simp
  with size obtain b1 where
    b1: "apply_cbor_auxdata_transformations (rca_cbor_auxdata artifacts) b = Some (Ok b1)" "sized on_chain ?n b1"
    unfolding apply_cbor_auxdata_transformations_def aux_def by (cases "rca_cbor_auxdata artifacts") auto
  have "\<forall>e \<in> set libs. one_value on_chain ?n (snd e)" using refs by blast
  with link_references_total[OF _ b1(2)] b1(2)
  obtain b2 where b2: "apply_library_transformations (rca_link_references artifacts) b1 = Some (Ok b2)" "sized on_chain ?n b2"
    unfolding apply_library_transformations_def libs_def by (cases "rca_link_references artifacts") auto
  have "\<forall>e \<in> set imms. one_value on_chain ?n (snd e)" using refs by blast
  with immutable_references_total[OF _ b2(2)] b2(2)
  obtain b3 where b3: "apply_immutable_transformations (rca_immutable_references artifacts) b2 = Some (Ok b3)"
    unfolding apply_immutable_transformations_def imms_def by (cases "rca_immutable_references artifacts") auto
  show ?thesis
    using b1(1) b2(1) b3 by (simp add: apply_runtime_code_transformations_def and_apply_def)
qed

text \<open>C10: No genuine contract is missed: when the code on chain has the length of the recompiled code
  and agrees with it outside of the declared parts, all parts lie inside the code, the metadata
  sections are those of the recompiled code and every library and immutable has one value on
  chain, then the verification of the runtime code neither fails nor panics and reports a match.\<close>

theorem runtime_match_is_complete:
  assumes len: "length on_chain = length compiled"
    and ids: "distinct_ids (rca_cbor_auxdata artifacts) (rca_link_references artifacts) (rca_immutable_references artifacts)"
  defines "aux \<equiv> (case rca_cbor_auxdata artifacts of Some a \<Rightarrow> a | None \<Rightarrow> [])"
  defines "libs \<equiv> (case rca_link_references artifacts of Some l \<Rightarrow> libraries l | None \<Rightarrow> [])"
  defines "imms \<equiv> (case rca_immutable_references artifacts of Some l \<Rightarrow> l | None \<Rightarrow> [])"
  assumes vals: "\<And>i v. (i, v) \<in> set aux \<Longrightarrow> slice compiled (cav_offset v) (cav_offset v + length (cav_value v)) = Some (cav_value v)"
    and refs: "\<And>e. e \<in> set libs \<union> set imms \<Longrightarrow> one_value on_chain (length compiled) (snd e)"
    and agree: "\<And>i. i < length compiled \<Longrightarrow>
      \<not> touched (auxdata_parts aux @ reference_parts (rca_link_references artifacts) (rca_immutable_references artifacts)) i \<Longrightarrow>
      on_chain ! i = compiled ! i"
  shows "\<exists>m. verify_runtime_code on_chain compiled artifacts = Some (Ok (Some m))"
proof -
  let ?refs = "reference_parts (rca_link_references artifacts) (rca_immutable_references artifacts)"
  let ?n = "length compiled"
  obtain b where b: "builder_new on_chain compiled = Some b" using len by (simp add: builder_new_def)
  note new = sound_new[OF b]
  obtain b3 where steps: "apply_runtime_code_transformations artifacts b = Some (Ok b3)"
    using runtime_steps_total[OF len b, of artifacts] vals refs unfolding aux_def libs_def imms_def by blast
  have inv: "sound compiled b3 (auxdata_parts (changed_auxdata on_chain aux) @ ?refs)"
    "mb_deployed_code b3 = on_chain" "\<not> mb_invalid_constructor_arguments b3"
    using runtime_transformations_sound[OF ids _ _ _ _ steps[unfolded apply_runtime_code_transformations_def], of compiled] new
    unfolding aux_def by auto
  have "mb_compiled_code b3 = on_chain"
  proof (rule nth_equalityI)
    show "length (mb_compiled_code b3) = length on_chain" using inv(1) len by (simp add: sound_def overlaid_def)
    fix i assume "i < length (mb_compiled_code b3)"
    then have i: "i < ?n" using inv(1) by (simp add: sound_def overlaid_def)
    have nth: "mb_compiled_code b3 ! i =
        (if touched (auxdata_parts (changed_auxdata on_chain aux) @ ?refs) i then on_chain ! i else compiled ! i)"
      using inv(1,2) i by (simp add: sound_def overlaid_def)
    have "on_chain ! i = compiled ! i" if un: "\<not> touched (auxdata_parts (changed_auxdata on_chain aux) @ ?refs) i"
    proof (cases "touched (auxdata_parts aux) i")
      case True
      then obtain x v where v: "(x, v) \<in> set aux" "cav_offset v \<le> i" "i < cav_offset v + length (cav_value v)"
        by (auto simp: touched_def auxdata_parts_def)
      then have "slice on_chain (cav_offset v) (cav_offset v + length (cav_value v)) = Some (cav_value v)"
        using un by (force simp: touched_def auxdata_parts_def changed_auxdata_def)
      with vals[OF v(1)] v(2,3) show ?thesis by (auto intro: slice_nth)
    next
      case False
      with un agree[OF i] show ?thesis by simp
    qed
    with nth show "mb_compiled_code b3 ! i = on_chain ! i" by simp
  qed
  with inv b steps show ?thesis
    by (simp add: verify_runtime_code_def build_match_def verify_and_build_def)
qed

theorem runtime_match_is_complete_witness:
  defines "artifacts \<equiv> \<lparr>rca_cbor_auxdata = Some [(''1'', \<lparr>cav_value = [7, 8], cav_offset = 3\<rparr>)],
    rca_immutable_references = Some [(''5'', [\<lparr>off_start = 1, off_length = 1\<rparr>])], rca_link_references = None\<rparr>"
  shows "\<exists>m. verify_runtime_code [1, 9, 3, 7, 5] [1, 0, 3, 7, 8] artifacts = Some (Ok (Some m))"
proof (rule runtime_match_is_complete)
  fix i :: nat
  assume i: "i < length [1, 0, 3, 7, 8 :: 8 word]"
    "\<not> touched (auxdata_parts (case rca_cbor_auxdata artifacts of Some a \<Rightarrow> a | None \<Rightarrow> [])
      @ reference_parts (rca_link_references artifacts) (rca_immutable_references artifacts)) i"
  then have "i = 0 \<or> i = 2"
    by (auto simp: artifacts_def auxdata_parts_def reference_parts_def part_of_def less_Suc_eq)
  then show "[1, 9, 3, 7, 5] ! i = [1, 0, 3, 7, 8 :: 8 word] ! i" by auto
qed (auto simp: artifacts_def distinct_ids_def slice_def one_value_def)

end
