(* ===== verification/Code_Blueprint.thy ===== *)
theory Code_Blueprint
  imports Code_Match
begin

unbundle bit_operations_syntax

text \<open>
  Blueprint contracts of EIP-5202
  (\<^verbatim>\<open>smart-contract-verifier/verification-common/src/blueprint_contracts.rs\<close>): code on chain that
  is not run but deployed from, recognised by a preamble in front of the init code. Bytes are
  machine words and lengths are read from them in big-endian order.
\<close>

section \<open>Recognising a blueprint\<close>

record blueprint_contract =
  bp_version :: "8 word"
  bp_preamble_data :: "bytes option"
  bp_initcode :: bytes

definition safe_slice :: "bytes \<Rightarrow> nat \<Rightarrow> nat \<Rightarrow> bytes option" where
  "safe_slice code start e = (if start > e \<or> length code < e then None else slice code start e)"

text \<open>\<open>u32::from_be_bytes\<close> of the bytes, filled with zeros on the left.\<close>

definition from_be_bytes :: "bytes \<Rightarrow> nat" where
  "from_be_bytes bs = foldl (\<lambda>n b. n * 256 + unat b) 0 bs"

text \<open>The final \<open>code.slice(..)\<close> panics when its start is outside of the code; the outer option is
  \<open>None\<close> then.\<close>

definition from_runtime_code :: "bytes \<Rightarrow> blueprint_contract option option" where
  "from_runtime_code code =
     (if length code < 3 \<or> take 2 code \<noteq> [0xfe, 0x71] then Some None
      else let erc_version = drop_bit 2 (code ! 2 AND 0xfc) in
        if erc_version > 0 then Some None
        else let n_length_bytes = unat (code ! 2 AND 3) in
          if n_length_bytes = 3 then Some None
          else case safe_slice code 3 (3 + n_length_bytes) of
            None \<Rightarrow> Some None
          | Some length_bytes \<Rightarrow>
              let data_length = from_be_bytes length_bytes; data_start = 3 + n_length_bytes in
              case (if n_length_bytes = 0 then Some None
                    else map_option Some (safe_slice code data_start (data_start + data_length))) of
                None \<Rightarrow> Some None
              | Some preamble_data \<Rightarrow>
                  (case slice code (3 + n_length_bytes + data_length) (length code) of
                     None \<Rightarrow> None
                   | Some initcode \<Rightarrow>
                       if initcode = [] then Some None
                       else Some (Some \<lparr>bp_version = erc_version, bp_preamble_data = preamble_data, bp_initcode = initcode\<rparr>)))"

definition from_creation_code :: "bytes \<Rightarrow> blueprint_contract option option" where
  "from_creation_code code =
     (if length code < 10 then Some None
      else let deploy_bytecode_prefix = [0x61, code ! 1, code ! 2, 0x3d, 0x81, 0x60, 0x0a, 0x3d, 0x39, 0xf3] in
        if take 10 code = deploy_bytecode_prefix
        then let len_bytes = from_be_bytes [code ! 1, code ! 2]; blueprint_bytecode = drop 10 code in
          if length blueprint_bytecode = len_bytes then from_runtime_code blueprint_bytecode else Some None
        else Some None)"

section \<open>The encoding of EIP-5202\<close>

text \<open>The preamble without data, or with data and its length in one or two bytes.\<close>

fun to_be_bytes :: "nat \<Rightarrow> nat \<Rightarrow> bytes" where
  "to_be_bytes 0 n = []"
| "to_be_bytes (Suc k) n = to_be_bytes k (n div 256) @ [word_of_nat (n mod 256)]"

definition encode_blueprint :: "nat \<Rightarrow> bytes \<Rightarrow> bytes \<Rightarrow> bytes" where
  "encode_blueprint n preamble initcode =
     [0xfe, 0x71, word_of_nat n] @ to_be_bytes n (length preamble) @ preamble @ initcode"

lemma to_be_bytes_length [simp]: "length (to_be_bytes k n) = k"
  by (induction k arbitrary: n) auto

lemma from_be_bytes_append: "from_be_bytes (bs @ [b]) = from_be_bytes bs * 256 + unat b"
  by (simp add: from_be_bytes_def)

lemma from_to_be_bytes: "n < 256 ^ k \<Longrightarrow> from_be_bytes (to_be_bytes k n) = n"
proof (induction k arbitrary: n)
  case 0
  then show ?case by (simp add: from_be_bytes_def)
next
  case (Suc k)
  have "n div 256 < 256 ^ k" using Suc.prems by (simp add: less_mult_imp_div_less mult.commute)
  with Suc.IH have "from_be_bytes (to_be_bytes k (n div 256)) = n div 256" .
  moreover have "unat (word_of_nat (n mod 256) :: 8 word) = n mod 256"
    by (simp add: unat_of_nat)
  ultimately show ?case by (simp add: from_be_bytes_append)
qed

lemma to_from_be_bytes: "to_be_bytes (length bs) (from_be_bytes bs) = bs"
proof (induction bs rule: rev_induct)
  case (snoc b bs)
  have b: "unat b < 256" using unsigned_less[of b, where ?'a = nat] by simp
  have "(from_be_bytes bs * 256 + unat b) div 256 = from_be_bytes bs" "(from_be_bytes bs * 256 + unat b) mod 256 = unat b"
    using b by simp_all
  with snoc show ?case by (simp add: from_be_bytes_append)
qed simp

lemma from_be_bytes_bound: "from_be_bytes bs < 256 ^ length bs"
proof (induction bs rule: rev_induct)
  case (snoc b bs)
  have "unat b < 256" using unsigned_less[of b, where ?'a = nat] by simp
  with snoc show ?case by (simp add: from_be_bytes_append)
qed (simp add: from_be_bytes_def)

lemma header_bits:
  fixes b :: "8 word"
  shows "unat (drop_bit 2 (b AND 0xfc)) = unat b div 4" "unat (b AND 3) = unat b mod 4"
proof -
  have "b AND 3 = take_bit 2 b" using take_bit_eq_mask[of 2 b] by (simp add: mask_eq_exp_minus_1)
  then have "unat (b AND 3) = take_bit 2 (unat b)" by (simp only: unsigned_take_bit_eq)
  then show "unat (b AND 3) = unat b mod 4" by (simp add: take_bit_eq_mod)
  have "drop_bit 2 (b AND 0xfc) = drop_bit 2 b"
  proof -
    have "drop_bit 2 (0xfc :: 8 word) = mask 6" by (code_simp)
    then have "drop_bit 2 (b AND 0xfc) = take_bit 6 (drop_bit 2 b)"
      by (simp add: drop_bit_and take_bit_eq_mask)
    also have "\<dots> = drop_bit 2 (take_bit LENGTH(8) b)" by (simp only: take_bit_drop_bit) simp
    finally show ?thesis by (simp only: take_bit_length_eq)
  qed
  moreover have "take_bit LENGTH(8) (unat b) = unat b" by (rule take_bit_nat_eq_self) (rule unsigned_less)
  ultimately show "unat (drop_bit 2 (b AND 0xfc)) = unat b div 4"
    by (simp only: unsigned_drop_bit_eq) (simp add: drop_bit_eq_div)
qed

lemma slice_to_end: "slice code a (length code) = (if a \<le> length code then Some (drop a code) else None)"
  by (simp add: slice_def)

lemma blueprint_version_bits:
  fixes b :: "8 word"
  shows "drop_bit 2 (b AND 0xfc) > 0 \<longleftrightarrow> 4 \<le> unat b"
proof -
  have "drop_bit 2 (b AND 0xfc) > 0 \<longleftrightarrow> unat (drop_bit 2 (b AND 0xfc)) \<noteq> 0"
    by (simp add: word_greater_zero_iff unat_eq_zero del: drop_bit_and)
  then show ?thesis unfolding header_bits(1) by linarith
qed

lemma take_2_iff: "take 2 xs = [a, b] \<longleftrightarrow> (\<exists>ys. xs = a # b # ys)"
  by (cases xs; cases "tl xs") (auto simp: numeral_2_eq_2)

lemma drop_header: "drop (3 + k) (a # b # c # rest) = drop k rest"
  by (simp add: numeral_3_eq_3)

lemma from_runtime_code_cases:
  "from_runtime_code (0xfe # 0x71 # b # rest) =
     (if 3 \<le> unat b \<or> length rest < unat b then Some None
      else let len = from_be_bytes (take (unat b) rest); body = drop (unat b) rest in
        if length body \<le> len then Some None
        else Some (Some \<lparr>bp_version = 0, bp_preamble_data = (if unat b = 0 then None else Some (take len body)),
                         bp_initcode = drop len body\<rparr>))"
proof (cases "4 \<le> unat b")
  case True
  then show ?thesis by (simp add: from_runtime_code_def blueprint_version_bits del: drop_bit_and)
next
  case False
  then have bits: "drop_bit 2 (b AND 0xfc) = 0" "unat (b AND 3) = unat b"
    using blueprint_version_bits[of b] header_bits(2)[of b] by (simp_all add: word_greater_zero_iff)
  have none: "from_be_bytes [] = 0" by (simp add: from_be_bytes_def)
  consider "unat b = 3" | "unat b < 3" "length rest < unat b" | "unat b < 3" "unat b \<le> length rest"
    using False by linarith
  then show ?thesis
  proof cases
    case 1
    then show ?thesis by (simp add: from_runtime_code_def bits del: drop_bit_and)
  next
    case 2
    then show ?thesis by (simp add: from_runtime_code_def bits safe_slice_def del: drop_bit_and)
  next
    case 3
    let ?len = "from_be_bytes (take (unat b) rest)"
    let ?code = "0xfe # 0x71 # b # rest"
    have l: "safe_slice ?code 3 (3 + unat b) = Some (take (unat b) rest)"
      using 3 by (simp add: safe_slice_def slice_def)
    have d: "safe_slice ?code (3 + unat b) (3 + unat b + ?len) =
        (if length rest < unat b + ?len then None else Some (take ?len (drop (unat b) rest)))"
      by (simp add: safe_slice_def slice_def drop_header)
    have i: "slice ?code (3 + unat b + ?len) (length ?code) =
        (if length rest < unat b + ?len then None else Some (drop ?len (drop (unat b) rest)))"
      by (simp only: slice_to_end add.assoc drop_header drop_drop) (simp add: add.commute)
    have "from_runtime_code ?code =
      (case (if unat b = 0 then Some None else map_option Some (safe_slice ?code (3 + unat b) (3 + unat b + ?len))) of
         None \<Rightarrow> Some None
       | Some preamble_data \<Rightarrow>
           (case slice ?code (3 + unat b + ?len) (length ?code) of
              None \<Rightarrow> None
            | Some initcode \<Rightarrow> if initcode = [] then Some None
                else Some (Some \<lparr>bp_version = 0, bp_preamble_data = preamble_data, bp_initcode = initcode\<rparr>)))"
      using 3 l by (simp add: from_runtime_code_def bits Let_def del: drop_bit_and)
    moreover have "unat b = 0 \<Longrightarrow> ?len = 0" using none by simp
    ultimately show ?thesis using 3 unfolding d i
      by (cases "unat b = 0"; cases "length rest < unat b + ?len"; cases "length rest = unat b + ?len") (simp_all add: Let_def)
  qed
qed

lemma from_runtime_code_not_blueprint:
  "(\<nexists>b rest. code = 0xfe # 0x71 # b # rest) \<Longrightarrow> from_runtime_code code = Some None"
  by (cases code rule: list.exhaust; cases "tl code"; cases "tl (tl code)")
     (auto simp: from_runtime_code_def take_2_iff)

lemma unat_small_byte: "n \<le> 2 \<Longrightarrow> unat (word_of_nat n :: 8 word) = n"
  by (simp add: unat_of_nat)

lemma decode_encode_blueprint:
  assumes "n \<le> 2" "length p < 256 ^ n" "i \<noteq> []"
  shows "from_runtime_code (encode_blueprint n p i) =
    Some (Some \<lparr>bp_version = 0, bp_preamble_data = (if n = 0 then None else Some p), bp_initcode = i\<rparr>)"
  using assms
  by (simp add: encode_blueprint_def from_runtime_code_cases unat_small_byte Let_def from_to_be_bytes del: length_0_conv)

lemma decoded_blueprint_is_encoded:
  assumes "from_runtime_code code = Some (Some bp)"
  obtains n p i where "n \<le> 2" "length p < 256 ^ n" "i \<noteq> []" "code = encode_blueprint n p i"
    "bp = \<lparr>bp_version = 0, bp_preamble_data = (if n = 0 then None else Some p), bp_initcode = i\<rparr>"
proof -
  obtain b rest where code: "code = 0xfe # 0x71 # b # rest"
    using assms from_runtime_code_not_blueprint[of code] by fastforce
  let ?n = "unat b" let ?len = "from_be_bytes (take ?n rest)" let ?body = "drop ?n rest"
  have ok: "?n \<le> 2" "?n \<le> length rest" "?len < length ?body"
    and bp: "bp = \<lparr>bp_version = 0, bp_preamble_data = (if ?n = 0 then None else Some (take ?len ?body)), bp_initcode = drop ?len ?body\<rparr>"
    using assms unfolding code from_runtime_code_cases by (auto simp: Let_def split: if_splits)
  have len: "length (take ?n rest) = ?n" using ok by simp
  have "?len < 256 ^ ?n" using from_be_bytes_bound[of "take ?n rest"] unfolding len .
  moreover have "length (take ?len ?body) = ?len" using ok by simp
  moreover have "to_be_bytes ?n ?len = take ?n rest" using to_from_be_bytes[of "take ?n rest"] unfolding len .
  moreover have "rest = take ?n rest @ take ?len ?body @ drop ?len ?body" by (simp only: append_take_drop_id)
  ultimately show thesis
    using ok bp by (intro that[of ?n "take ?len ?body" "drop ?len ?body"])
      (simp_all add: code encode_blueprint_def del: drop_drop)
qed

text \<open>C36: Recognising a blueprint never panics and is the exact inverse of the encoding of EIP-5202: the
  reader accepts a code, as version 0 with the preamble data and the init code, if and only if the
  code is the preamble \<open>0xFE71\<close>, a header that announces no data or data whose length takes one or two
  bytes, that length, the data and a non-empty init code.\<close>

theorem blueprint_reading_inverts_encoding:
  "from_runtime_code code \<noteq> None \<and>
   (from_runtime_code code = Some (Some bp) \<longleftrightarrow>
     (\<exists>n p i. n \<le> 2 \<and> length p < 256 ^ n \<and> i \<noteq> [] \<and> code = encode_blueprint n p i \<and>
        bp = \<lparr>bp_version = 0, bp_preamble_data = (if n = 0 then None else Some p), bp_initcode = i\<rparr>))"
proof -
  have "from_runtime_code code \<noteq> None"
    by (cases "\<exists>b rest. code = 0xfe # 0x71 # b # rest") 
       (auto simp: from_runtime_code_cases from_runtime_code_not_blueprint Let_def)
  then show ?thesis by (metis decode_encode_blueprint decoded_blueprint_is_encoded)
qed

end
