(* ===== verification/Code_Auxdata.thy ===== *)
theory Code_Auxdata
  imports Code_Match "HOL-Library.List_Lexorder" "HOL-Library.Char_ord"
begin

text \<open>
  Locating the metadata sections of a code
  (\<^verbatim>\<open>smart-contract-verifier/smart-contract-verifier/src/verify/cbor_auxdata.rs\<close>).

  The sources are compiled twice, the second time with a harmless change that alters only the
  metadata; the sections are found by searching backwards from each difference for something that
  parses as a metadata section. The parser is a parameter. The recursion over the differences is a
  partial function: \<open>None\<close> means that it panics or never ends.
\<close>

section \<open>Metadata sections\<close>

text \<open>\<open>usize::to_string\<close>\<close>

fun digits :: "nat \<Rightarrow> string" where
  "digits n = (if n < 10 then [char_of (48 + n)] else digits (n div 10) @ [char_of (48 + n mod 10)])"

declare digits.simps [simp del]

text \<open>\<open>BTreeMap::insert\<close> on the ordered list of entries.\<close>

fun btree_insert :: "'k::linorder \<Rightarrow> 'v \<Rightarrow> ('k \<times> 'v) list \<Rightarrow> ('k \<times> 'v) list" where
  "btree_insert k v [] = [(k, v)]"
| "btree_insert k v ((k', v') # m) =
     (if k < k' then (k, v) # (k', v') # m else if k = k' then (k, v) # m else (k', v') # btree_insert k v m)"

text \<open>The two implementations of \<open>CborAuxdataType\<close>: a parser that returns the parsed length, and the
  check of the length that is encoded behind the section.\<close>

record cbor_auxdata_type =
  from_cbor :: "bytes \<Rightarrow> nat option"
  validate_encoded_length :: "nat \<Rightarrow> nat \<Rightarrow> bool"

definition solc_cbor_auxdata :: "(bytes \<Rightarrow> nat option) \<Rightarrow> cbor_auxdata_type" where
  "solc_cbor_auxdata metadata_hash_from_cbor = \<lparr>from_cbor = metadata_hash_from_cbor,
     validate_encoded_length = (\<lambda>encoded_length actual_size. encoded_length = actual_size)\<rparr>"

definition vyper_cbor_auxdata :: "(bytes \<Rightarrow> nat option) \<Rightarrow> cbor_auxdata_type" where
  "vyper_cbor_auxdata auxdata_from_cbor = \<lparr>from_cbor = auxdata_from_cbor,
     validate_encoded_length = (\<lambda>encoded_length actual_size. encoded_length = actual_size + 2)\<rparr>"

definition is_cbor_auxdata_length_valid :: "cbor_auxdata_type \<Rightarrow> bytes \<Rightarrow> nat \<Rightarrow> nat \<Rightarrow> bool" where
  "is_cbor_auxdata_length_valid A code start len =
     (if length code < start + len + 2 then False
      else let encoded_length = unat (code ! (start + len)) * 256 + unat (code ! (start + len + 1))
           in validate_encoded_length A encoded_length len)"

definition parse_failure :: string where
  "parse_failure = ''failed to parse next cbor auxdata value''"

text \<open>
  The two nested loops of \<open>next_cbor_auxdata_value\<close>. Moving left of the first byte is an underflow
  of \<open>start\<close>, and the slice that follows panics.
\<close>

fun next_cbor_auxdata_value ::
  "cbor_auxdata_type \<Rightarrow> bytes \<Rightarrow> nat \<Rightarrow> nat \<Rightarrow> (string, cbor_auxdata_value) result option" where
  "next_cbor_auxdata_value A code already_processed start =
     (if length code < start then None
      else case from_cbor A (drop start code) of
        None \<Rightarrow>
          if start = already_processed then Some (Err parse_failure)
          else if start = 0 then None
          else next_cbor_auxdata_value A code already_processed (start - 1)
      | Some len \<Rightarrow>
          if is_cbor_auxdata_length_valid A code start len
          then Some (Ok \<lparr>cav_value = take (len + 2) (drop start code), cav_offset = start mod 2 ^ 32\<rparr>)
          else if start = 0 then None
          else next_cbor_auxdata_value A code already_processed (start - 1))"

declare next_cbor_auxdata_value.simps [simp del]

text \<open>The first position from \<open>already_processed\<close> on where the codes differ.\<close>

definition mismatch_position :: "bytes \<Rightarrow> bytes \<Rightarrow> nat \<Rightarrow> nat option" where
  "mismatch_position code modified_code already_processed =
     map_option (\<lambda>i. i + already_processed)
       (find (\<lambda>i. fst (drop already_processed (zip code modified_code) ! i) \<noteq> snd (drop already_processed (zip code modified_code) ! i))
         [0..<length (drop already_processed (zip code modified_code))])"

partial_function (option) add_cbor_auxdata_recursive ::
  "cbor_auxdata_type \<Rightarrow> bytes \<Rightarrow> bytes \<Rightarrow> cbor_auxdata \<Rightarrow> nat \<Rightarrow> (string, cbor_auxdata) result option" where
  "add_cbor_auxdata_recursive A code modified_code processed already_processed =
     (case mismatch_position code modified_code already_processed of
        None \<Rightarrow> Some (Ok processed)
      | Some mismatch_index \<Rightarrow>
          (case next_cbor_auxdata_value A code already_processed mismatch_index of
             None \<Rightarrow> None
           | Some (Inl e) \<Rightarrow> Some (Err e)
           | Some (Inr v) \<Rightarrow>
               add_cbor_auxdata_recursive A code modified_code
                 (btree_insert (digits (length processed + 1)) v processed)
                 (cav_offset v + length (cav_value v))))"

datatype language = Solidity | Yul | Vyper

definition retrieve_cbor_auxdata ::
  "(bytes \<Rightarrow> nat option) \<Rightarrow> (bytes \<Rightarrow> nat option) \<Rightarrow> language \<Rightarrow> bytes \<Rightarrow> bytes \<Rightarrow> (string, cbor_auxdata option) result option" where
  "retrieve_cbor_auxdata metadata_hash_from_cbor auxdata_from_cbor language code modified_code =
     (if length code \<noteq> length modified_code then Some (Err ''bytecode and modified bytecode length mismatch'')
      else map_option (\<lambda>r. try_bind r (\<lambda>aux. Ok (Some aux)))
        (add_cbor_auxdata_recursive
           (case language of Vyper \<Rightarrow> vyper_cbor_auxdata auxdata_from_cbor | _ \<Rightarrow> solc_cbor_auxdata metadata_hash_from_cbor)
           code modified_code [] 0))"

section \<open>Facts about the search\<close>

lemma mismatch_position_None:
  "length code = length modified \<Longrightarrow> mismatch_position code modified n = None \<Longrightarrow> n \<le> i \<Longrightarrow> i < length code \<Longrightarrow> code ! i = modified ! i"
proof -
  assume len: "length code = length modified" and none: "mismatch_position code modified n = None" and i: "n \<le> i" "i < length code"
  then have "i - n < length (drop n (zip code modified))" by simp
  with none have "fst (drop n (zip code modified) ! (i - n)) = snd (drop n (zip code modified) ! (i - n))"
    by (auto simp: mismatch_position_def find_None_iff)
  with len i show "code ! i = modified ! i" by simp
qed

lemma mismatch_position_Some:
  assumes len: "length code = length modified" and m: "mismatch_position code modified n = Some j"
  shows "n \<le> j \<and> j < length code \<and> code ! j \<noteq> modified ! j \<and> (\<forall>i. n \<le> i \<longrightarrow> i < j \<longrightarrow> code ! i = modified ! i)"
proof -
  let ?z = "drop n (zip code modified)"
  from m obtain k where k: "find (\<lambda>i. fst (?z ! i) \<noteq> snd (?z ! i)) [0..<length ?z] = Some k" and j: "j = k + n"
    by (auto simp: mismatch_position_def)
  from k have "k < length ?z" "fst (?z ! k) \<noteq> snd (?z ! k)" and before: "\<forall>i < k. fst (?z ! i) = snd (?z ! i)"
    by (auto simp: find_Some_iff)
  moreover have "code ! i = modified ! i" if "n \<le> i" "i < j" for i
  proof -
    have "fst (?z ! (i - n)) = snd (?z ! (i - n))" using before that j by simp
    with that j \<open>k < length ?z\<close> len show ?thesis by simp
  qed
  ultimately show ?thesis using j len by (auto simp: add.commute)
qed

lemma next_value_cases:
  assumes "next_cbor_auxdata_value A code n start = Some (Ok v)"
  obtains (here) len where "from_cbor A (drop start code) = Some len" "is_cbor_auxdata_length_valid A code start len"
      "v = \<lparr>cav_value = take (len + 2) (drop start code), cav_offset = start mod 2 ^ 32\<rparr>"
    | (left) "start \<noteq> 0" "next_cbor_auxdata_value A code n (start - 1) = Some (Ok v)"
  using assms by (subst (asm) next_cbor_auxdata_value.simps) (auto split: if_splits option.splits)

lemma next_value_Ok:
  assumes "next_cbor_auxdata_value A code n start = Some (Ok v)" "length code < 2 ^ 32"
  shows "cav_offset v \<le> start \<and> 2 \<le> length (cav_value v)
    \<and> slice code (cav_offset v) (cav_offset v + length (cav_value v)) = Some (cav_value v)"
  using assms(1)
proof (induction start)
  case 0
  then show ?case
    by (rule next_value_cases) (auto simp: is_cbor_auxdata_length_valid_def slice_def Let_def split: if_splits)
next
  case (Suc start)
  from Suc.prems show ?case
  proof (cases rule: next_value_cases)
    case (here len)
    have fit: "Suc start + len + 2 \<le> length code" using here(2) by (auto simp: is_cbor_auxdata_length_valid_def split: if_splits)
    then have "Suc start mod 2 ^ 32 = Suc start" using assms(2) by simp
    with here(3) fit show ?thesis by (simp add: slice_def)
  next
    case left
    with Suc.IH show ?thesis by simp
  qed
qed

text \<open>A parser that accepts only sections with a valid length never leaves the unprocessed part.\<close>

definition precise :: "cbor_auxdata_type \<Rightarrow> bytes \<Rightarrow> bool" where
  "precise A code \<longleftrightarrow> (\<forall>start len. from_cbor A (drop start code) = Some len \<longrightarrow> is_cbor_auxdata_length_valid A code start len)"

lemma next_value_total:
  assumes "precise A code" "n \<le> start" "start \<le> length code" "length code < 2 ^ 32"
  shows "\<exists>r. next_cbor_auxdata_value A code n start = Some r \<and> (\<forall>v. r = Ok v \<longrightarrow> n \<le> cav_offset v)"
  using assms(2,3)
proof (induction start)
  case (Suc start)
  show ?case
  proof (cases "from_cbor A (drop (Suc start) code)")
    case None
    then show ?thesis using Suc by (subst next_cbor_auxdata_value.simps) (auto simp: le_Suc_eq)
  next
    case (Some len)
    with assms(1) have ok: "is_cbor_auxdata_length_valid A code (Suc start) len" by (simp add: precise_def)
    have "Suc start mod 2 ^ 32 = Suc start" using Suc.prems(2) assms(4) by simp
    with Some ok Suc.prems show ?thesis by (subst next_cbor_auxdata_value.simps) simp
  qed
qed (use assms(1) in \<open>subst next_cbor_auxdata_value.simps; auto simp: precise_def split: option.splits\<close>)

text \<open>Inserting a new key.\<close>

lemma btree_insert_set: "k \<notin> fst ` set m \<Longrightarrow> set (btree_insert k v m) = insert (k, v) (set m)"
  by (induction m) (auto simp: insert_commute split: if_splits)

lemma btree_insert_distinct: "k \<notin> fst ` set m \<Longrightarrow> distinct (map fst m) \<Longrightarrow> distinct (map fst (btree_insert k v m))"
proof (induction m)
  case (Cons e m)
  obtain k' v' where "e = (k', v')" by (cases e)
  with Cons show ?case using btree_insert_set[of k m v] by (auto simp: image_iff)
qed simp

lemma btree_insert_keys: "fst ` set (btree_insert k v m) = insert k (fst ` set m)"
  by (induction k v m rule: btree_insert.induct) (simp_all add: insert_commute)

lemma btree_insert_sorted: "sorted_wrt (<) (map fst m) \<Longrightarrow> sorted_wrt (<) (map fst (btree_insert k v m))"
proof (induction m)
  case (Cons e m)
  obtain k' v' where e: "e = (k', v')" by (cases e)
  have "\<forall>x \<in> fst ` set (btree_insert k v m). k' < x" if "k' < k" using Cons.prems that e by (auto simp: btree_insert_keys)
  with Cons e show ?case by (auto simp: not_less_iff_gr_or_eq)
qed simp

lemma btree_insert_entries:
  "sorted_wrt (<) (map fst m) \<Longrightarrow> set (btree_insert k v m) = insert (k, v) {e \<in> set m. fst e \<noteq> k}"
  by (induction k v m rule: btree_insert.induct) (auto simp: not_less_iff_gr_or_eq)

lemma btree_insert_length: "k \<notin> fst ` set m \<Longrightarrow> length (btree_insert k v m) = Suc (length m)"
  by (induction m) auto

text \<open>Different numbers have different digits.\<close>

fun undigits :: "string \<Rightarrow> nat" where
  "undigits s = foldl (\<lambda>n c. n * 10 + (of_char c - 48)) 0 s"

lemma undigits_digits: "undigits (digits n) = n"
proof (induction n rule: digits.induct)
  case (1 n)
  show ?case
  proof (cases "n < 10")
    case True
    then show ?thesis by (subst digits.simps) (simp add: of_char_of)
  next
    case False
    then have "undigits (digits (n div 10)) = n div 10" using 1 by simp
    then show ?thesis using False by (subst digits.simps) (simp add: of_char_of)
  qed
qed

lemma digits_inj: "digits m = digits n \<longleftrightarrow> m = n"
  using undigits_digits by metis

section \<open>What the recursion collects\<close>

text \<open>The sections found so far: they are slices of the code, numbered from one, and cover every
  difference before position \<open>n\<close>.\<close>

definition collected :: "bytes \<Rightarrow> bytes \<Rightarrow> cbor_auxdata \<Rightarrow> nat \<Rightarrow> bool" where
  "collected code modified aux n \<longleftrightarrow>
     (\<forall>(i, v) \<in> set aux. slice code (cav_offset v) (cav_offset v + length (cav_value v)) = Some (cav_value v))
     \<and> fst ` set aux = digits ` {1..length aux} \<and> distinct (map fst aux)
     \<and> (\<forall>i < n. i < length code \<longrightarrow> code ! i \<noteq> modified ! i \<longrightarrow> touched (auxdata_parts aux) i)"

lemma touched_auxdata: "touched (auxdata_parts aux) i \<longleftrightarrow>
    (\<exists>(k, v) \<in> set aux. cav_offset v \<le> i \<and> i < cav_offset v + length (cav_value v))"
  by (force simp: touched_def auxdata_parts_def)

lemma collected_step:
  assumes col: "collected code modified aux n" and len: "length code = length modified" "length code < 2 ^ 32"
    and m: "mismatch_position code modified n = Some j" and v: "next_cbor_auxdata_value A code n j = Some (Ok v)"
  shows "collected code modified (btree_insert (digits (length aux + 1)) v aux) (cav_offset v + length (cav_value v))"
proof -
  let ?k = "digits (length aux + 1)" and ?aux = "btree_insert (digits (length aux + 1)) v aux"
  have fresh: "?k \<notin> fst ` set aux" using col by (auto simp: collected_def digits_inj)
  note set = btree_insert_set[OF fresh, of v]
  note ok = next_value_Ok[OF v len(2)]
  have "fst ` set ?aux = digits ` {1..length ?aux}"
    unfolding set btree_insert_length[OF fresh] using col by (simp add: collected_def atLeastAtMostSuc_conv)
  moreover have "touched (auxdata_parts ?aux) i"
    if i: "i < cav_offset v + length (cav_value v)" "i < length code" "code ! i \<noteq> modified ! i" for i
  proof (cases "i < n")
    case True
    with col i have "touched (auxdata_parts aux) i" by (simp add: collected_def)
    then show ?thesis unfolding touched_auxdata set by blast
  next
    case False
    with mismatch_position_Some[OF len(1) m] i(3) have "j \<le> i" by (meson leI)
    with ok i(1) have "cav_offset v \<le> i" by simp
    with i(1) show ?thesis unfolding touched_auxdata set by simp
  qed
  moreover have "\<forall>(i, x) \<in> set ?aux. slice code (cav_offset x) (cav_offset x + length (cav_value x)) = Some (cav_value x)"
    using col ok unfolding set collected_def by blast
  moreover have "distinct (map fst ?aux)" using btree_insert_distinct[OF fresh] col unfolding collected_def by blast
  ultimately show ?thesis unfolding collected_def by blast
qed

lemma recursion_collects:
  assumes "add_cbor_auxdata_recursive A code modified aux n = Some (Ok aux')"
    and "collected code modified aux n" "length code = length modified" "length code < 2 ^ 32"
  shows "collected code modified aux' (length code)"
proof -
  let ?P = "\<lambda>(A :: cbor_auxdata_type) code modified aux n (r :: (string, cbor_auxdata) result). \<forall>aux'. r = Ok aux' \<longrightarrow> collected code modified aux n \<longrightarrow>
    length code = length modified \<longrightarrow> length code < 2 ^ 32 \<longrightarrow> collected code modified aux' (length code)"
  have "?P A code modified aux n (Ok aux')"
  proof (rule add_cbor_auxdata_recursive.raw_induct[where P = ?P, OF _ assms(1)], intro allI impI)
    fix f :: "cbor_auxdata_type \<Rightarrow> bytes \<Rightarrow> bytes \<Rightarrow> cbor_auxdata \<Rightarrow> nat \<Rightarrow> (string, cbor_auxdata) result option"
      and A code modified aux n r aux'
    assume ih: "\<And>A code modified aux n r. f A code modified aux n = Some r \<Longrightarrow> ?P A code modified aux n r"
      and run: "(case mismatch_position code modified n of None \<Rightarrow> Some (Ok aux)
        | Some j \<Rightarrow> (case next_cbor_auxdata_value A code n j of None \<Rightarrow> None | Some (Inl e) \<Rightarrow> Some (Err e)
          | Some (Inr v) \<Rightarrow> f A code modified (btree_insert (digits (length aux + 1)) v aux) (cav_offset v + length (cav_value v))))
        = Some r"
      and r: "r = Ok aux'" and col: "collected code modified aux n" and len: "length code = length modified" "length code < 2 ^ 32"
    show "collected code modified aux' (length code)"
    proof (cases "mismatch_position code modified n")
      case None
      with run r have "aux' = aux" by simp
      moreover have "touched (auxdata_parts aux) i" if "i < length code" "code ! i \<noteq> modified ! i" for i
        using that col mismatch_position_None[OF len(1) None, of i] by (cases "i < n") (auto simp: collected_def)
      ultimately show ?thesis using col by (simp add: collected_def)
    next
      case (Some j)
      with run r obtain v where v: "next_cbor_auxdata_value A code n j = Some (Ok v)"
        and rest: "f A code modified (btree_insert (digits (length aux + 1)) v aux) (cav_offset v + length (cav_value v)) = Some r"
        by (auto split: option.splits sum.splits)
      from ih[OF rest] collected_step[OF col len Some v] r len show ?thesis by blast
    qed
  qed
  with assms show ?thesis by blast
qed

lemma recursion_total:
  assumes "precise A code" "length code = length modified" "length code < 2 ^ 32"
  shows "\<exists>r. add_cbor_auxdata_recursive A code modified aux n = Some r"
proof (induction "length code - n" arbitrary: aux n rule: less_induct)
  case less
  show ?case
  proof (cases "mismatch_position code modified n")
    case None
    then show ?thesis by (subst add_cbor_auxdata_recursive.simps) simp
  next
    case (Some j)
    note j = mismatch_position_Some[OF assms(2) Some]
    obtain r where r: "next_cbor_auxdata_value A code n j = Some r" "\<And>v. r = Ok v \<Longrightarrow> n \<le> cav_offset v"
      using next_value_total[OF assms(1), of n j] j assms(3) by auto
    show ?thesis
    proof (cases r)
      case (Inl e)
      then show ?thesis using Some r(1) by (subst add_cbor_auxdata_recursive.simps) simp
    next
      case (Inr v)
      have "n < cav_offset v + length (cav_value v)"
        using next_value_Ok[of A code n j v] r Inr assms(3) by fastforce
      then have "length code - (cav_offset v + length (cav_value v)) < length code - n" using j by linarith
      from less[OF this, of "btree_insert (digits (length aux + 1)) v aux"] show ?thesis
        using Some r(1) Inr by (subst add_cbor_auxdata_recursive.simps) simp
    qed
  qed
qed

lemma retrieved_sections:
  assumes "retrieve_cbor_auxdata metadata_hash_from_cbor auxdata_from_cbor language code modified = Some (Ok aux)" "length code < 2 ^ 32"
  obtains sections where "aux = Some sections" "collected code modified sections (length code)"
proof -
  from assms(1) obtain A sections where aux: "aux = Some sections" and len: "length code = length modified"
    and run: "add_cbor_auxdata_recursive A code modified [] 0 = Some (Ok sections)"
    by (auto simp: retrieve_cbor_auxdata_def try_bind_Ok_iff split: if_splits)
  have "collected code modified [] 0" by (simp add: collected_def)
  from recursion_collects[OF run this len assms(2)] aux show thesis by (intro that)
qed

section \<open>Properties of the search\<close>

text \<open>C33: The metadata sections that are found for a code are slices of that code with distinct ids,
  and together they cover every byte in which the second compilation differs. The search always
  ends, without a panic, when the parser accepts only sections whose encoded length is valid.\<close>

theorem auxdata_covers_all_differences:
  fixes metadata_hash_from_cbor auxdata_from_cbor :: "bytes \<Rightarrow> nat option" and code modified :: bytes and language :: language
  assumes size: "length code < 2 ^ 32"
  defines "search \<equiv> retrieve_cbor_auxdata metadata_hash_from_cbor auxdata_from_cbor language code modified"
  defines "A \<equiv> (case language of Vyper \<Rightarrow> vyper_cbor_auxdata auxdata_from_cbor | _ \<Rightarrow> solc_cbor_auxdata metadata_hash_from_cbor)"
  shows "(precise A code \<longrightarrow> search \<noteq> None)
    \<and> (\<forall>aux. search = Some (Ok aux) \<longrightarrow> (\<exists>sections. aux = Some sections \<and> distinct (map fst sections)
        \<and> (\<forall>(i, v) \<in> set sections. slice code (cav_offset v) (cav_offset v + length (cav_value v)) = Some (cav_value v))
        \<and> (\<forall>i < length code. code ! i \<noteq> modified ! i \<longrightarrow> touched (auxdata_parts sections) i)))"
proof (intro conjI impI allI)
  assume "precise A code"
  then show "search \<noteq> None"
    using recursion_total[of A code modified "[]" 0] size by (auto simp: search_def retrieve_cbor_auxdata_def A_def)
next
  fix aux assume "search = Some (Ok aux)"
  then obtain sections where "aux = Some sections" "collected code modified sections (length code)"
    unfolding search_def using size by (rule retrieved_sections)
  then show "\<exists>sections. aux = Some sections \<and> distinct (map fst sections)
        \<and> (\<forall>(i, v) \<in> set sections. slice code (cav_offset v) (cav_offset v + length (cav_value v)) = Some (cav_value v))
        \<and> (\<forall>i < length code. code ! i \<noteq> modified ! i \<longrightarrow> touched (auxdata_parts sections) i)"
    by (auto simp: collected_def)
qed

text \<open>A parser that takes a byte 1 or 2 for a section of length one.\<close>

definition sample_parser :: "bytes \<Rightarrow> nat option" where
  "sample_parser bs = (case bs of [] \<Rightarrow> None | b # _ \<Rightarrow> if b = 1 \<or> b = 2 then Some 1 else None)"

lemma sample_mismatch:
  "mismatch_position [1, 0, 1, 2, 9, 9] [5, 0, 1, 2, 5, 9] 0 = Some 0"
  "mismatch_position [1, 0, 1, 2, 9, 9] [5, 0, 1, 2, 5, 9] 3 = Some 4"
  "mismatch_position [0, 1, 0, 1] [0, 2, 0, 1] 0 = Some 1" "mismatch_position [0, 1, 0, 1] [0, 2, 0, 1] (Suc (Suc (Suc (Suc 0)))) = None"
  by (simp_all add: mismatch_position_def upt_rec)

lemmas sample_search = next_cbor_auxdata_value.simps is_cbor_auxdata_length_valid_def solc_cbor_auxdata_def sample_parser_def Let_def

lemma sample_found:
  "next_cbor_auxdata_value (solc_cbor_auxdata sample_parser) [1, 0, 1, 2, 9, 9] 0 0 = Some (Ok \<lparr>cav_value = [1, 0, 1], cav_offset = 0\<rparr>)"
  "next_cbor_auxdata_value (solc_cbor_auxdata sample_parser) [1, 0, 1, 2, 9, 9] 3 4 = Some (Ok \<lparr>cav_value = [1, 0, 1], cav_offset = 0\<rparr>)"
  "next_cbor_auxdata_value (solc_cbor_auxdata sample_parser) [0, 1, 0, 1] 0 1 = Some (Ok \<lparr>cav_value = [1, 0, 1], cav_offset = 1\<rparr>)"
  by (simp_all add: sample_search)

theorem auxdata_covers_all_differences_witness:
  "\<exists>sections. retrieve_cbor_auxdata sample_parser sample_parser Solidity [0, 1, 0, 1] [0, 2, 0, 1] = Some (Ok (Some sections))
     \<and> map fst sections = [digits 1] \<and> touched (auxdata_parts sections) 1"
proof -
  have "retrieve_cbor_auxdata sample_parser sample_parser Solidity [0, 1, 0, 1] [0, 2, 0, 1]
      = Some (Ok (Some [(digits 1, \<lparr>cav_value = [1, 0, 1], cav_offset = 1\<rparr>)]))"
    by (simp add: retrieve_cbor_auxdata_def sample_mismatch[simplified One_nat_def] sample_found[simplified One_nat_def]
        add_cbor_auxdata_recursive.simps)
  with auxdata_covers_all_differences[of "[0, 1, 0, 1]" sample_parser sample_parser Solidity "[0, 2, 0, 1]"]
  show ?thesis by simp
qed

text \<open>
  The search may step back over a section that it has found before: when something at the start of
  the unprocessed part parses but its length is not valid, the start is moved left of it without a
  check, the section before it is found once more, and the recursion never ends.
\<close>

theorem search_finds_the_same_section_forever:
  "add_cbor_auxdata_recursive (solc_cbor_auxdata sample_parser) [1, 0, 1, 2, 9, 9] [5, 0, 1, 2, 5, 9] aux 3 = None"
proof (rule ccontr)
  assume "\<not> ?thesis"
  then obtain r where ret: "add_cbor_auxdata_recursive (solc_cbor_auxdata sample_parser) [1, 0, 1, 2, 9, 9] [5, 0, 1, 2, 5, 9] aux 3 = Some r"
    by auto
  let ?P = "\<lambda>A (code :: bytes) (modified :: bytes) (aux :: cbor_auxdata) n (r :: (string, cbor_auxdata) result).
    \<not> (A = solc_cbor_auxdata sample_parser \<and> code = [1, 0, 1, 2, 9, 9] \<and> modified = [5, 0, 1, 2, 5, 9] \<and> n = (3 :: nat))"
  have "?P (solc_cbor_auxdata sample_parser) [1, 0, 1, 2, 9, 9] [5, 0, 1, 2, 5, 9] aux 3 r"
  proof (rule add_cbor_auxdata_recursive.raw_induct[where P = ?P, OF _ ret], rule notI, elim conjE)
    fix f :: "cbor_auxdata_type \<Rightarrow> bytes \<Rightarrow> bytes \<Rightarrow> cbor_auxdata \<Rightarrow> nat \<Rightarrow> (string, cbor_auxdata) result option"
      and A code modified aux n r
    assume ih: "\<And>A code modified aux n r. f A code modified aux n = Some r \<Longrightarrow> ?P A code modified aux n r"
      and run: "(case mismatch_position code modified n of None \<Rightarrow> Some (Ok aux)
        | Some j \<Rightarrow> (case next_cbor_auxdata_value A code n j of None \<Rightarrow> None | Some (Inl e) \<Rightarrow> Some (Err e)
          | Some (Inr v) \<Rightarrow> f A code modified (btree_insert (digits (length aux + 1)) v aux) (cav_offset v + length (cav_value v))))
        = Some r"
      and "A = solc_cbor_auxdata sample_parser" "code = [1, 0, 1, 2, 9, 9]" "modified = [5, 0, 1, 2, 5, 9]" "n = 3"
    then show False using ih[of A code modified _ "Suc (Suc (Suc 0))"] by (simp add: sample_mismatch sample_found)
  qed
  then show False by simp
qed

end
