(* ===== verification/Code_Compilers.thy ===== *)
theory Code_Compilers
  imports Code_Auxdata "HOL-Library.Product_Lexorder" "HOL-Library.Option_ord" "HOL-Library.Sublist"
begin

text \<open>
  Compiler versions, fetching a compiler and the cache of fetched compilers
  (\<^verbatim>\<open>smart-contract-verifier/smart-contract-verifier/src/compiler\<close>).

  The semantic version is a type parameter with its order. Files are a map from paths to contents;
  the outcome of every call to the operating system, of a download and of the hash function is a
  parameter. The concurrent use of the cache is a step relation in which a task holds the write
  lock of an entry for the whole time in which it fetches.
\<close>

section \<open>Versions\<close>

datatype 'v detailed_version =
    Release (dv_version: 'v) (dv_commit: string)
  | Nightly (dv_version: 'v) (nightly_date: int) (dv_commit: string)

fun is_release :: "'v detailed_version \<Rightarrow> bool" where
  "is_release (Release _ _) = True"
| "is_release (Nightly _ _ _) = False"

fun dv_date :: "'v detailed_version \<Rightarrow> int option" where
  "dv_date (Nightly _ d _) = Some d"
| "dv_date (Release _ _) = None"

text \<open>The tuple that \<open>Ord::cmp\<close> compares.\<close>

definition version_key :: "'v detailed_version \<Rightarrow> 'v \<times> bool \<times> int option \<times> string" where
  "version_key v = (dv_version v, is_release v, dv_date v, dv_commit v)"

lemma version_key_inj: "version_key a = version_key b \<Longrightarrow> a = b"
  by (cases a; cases b) (auto simp: version_key_def)

instantiation detailed_version :: (linorder) linorder
begin

definition less_eq_detailed_version :: "'a detailed_version \<Rightarrow> 'a detailed_version \<Rightarrow> bool" where
  "a \<le> b \<longleftrightarrow> version_key a \<le> version_key b"

definition less_detailed_version :: "'a detailed_version \<Rightarrow> 'a detailed_version \<Rightarrow> bool" where
  "a < b \<longleftrightarrow> version_key a < version_key b"

instance
proof
  fix a b c :: "'a detailed_version"
  show "a < b \<longleftrightarrow> a \<le> b \<and> \<not> b \<le> a" by (simp add: less_eq_detailed_version_def less_detailed_version_def less_le_not_le)
  show "a \<le> a" by (simp add: less_eq_detailed_version_def)
  show "a \<le> b \<Longrightarrow> b \<le> c \<Longrightarrow> a \<le> c" by (simp add: less_eq_detailed_version_def)
  show "a \<le> b \<Longrightarrow> b \<le> a \<Longrightarrow> a = b" by (simp add: less_eq_detailed_version_def version_key_inj)
  show "a \<le> b \<or> b \<le> a" by (simp add: less_eq_detailed_version_def linear)
qed

end

text \<open>\<open>EvmCompilersPool::normalize_compiler_version\<close>: the known version with the same number and date whose
  commit extends the requested one or is extended by it.\<close>

definition is_matching_version :: "'v detailed_version \<Rightarrow> 'v detailed_version \<Rightarrow> bool" where
  "is_matching_version to_normalize v \<longleftrightarrow>
     dv_version v = dv_version to_normalize \<and> dv_date v = dv_date to_normalize \<and>
     (prefix (dv_commit to_normalize) (dv_commit v) \<or> prefix (dv_commit v) (dv_commit to_normalize))"

definition normalize_compiler_version ::
  "'v detailed_version list \<Rightarrow> 'v detailed_version \<Rightarrow> 'v detailed_version option" where
  "normalize_compiler_version all_versions to_normalize = find (is_matching_version to_normalize) all_versions"

section \<open>Installing a compiler\<close>

datatype 'h fetch_error =
    NotFound string
  | Fetch string
  | HashMismatch 'h 'h
  | HashParse string
  | File string
  | Validation string

type_synonym files = "string \<Rightarrow> bytes option"

text \<open>The outcomes of the file operations: an error, and for the copy the number of bytes written before it.\<close>

record write_io =
  wi_create_dir :: "string option"
  wi_remove :: "string option"
  wi_create :: "string option"
  wi_copy :: "(nat \<times> string) option"
  wi_rename :: "string option"

definition join_path :: "string \<Rightarrow> string \<Rightarrow> string" where
  "join_path p q = p @ ''/'' @ q"

definition solc_file :: "string \<Rightarrow> string \<Rightarrow> string" where
  "solc_file path ver = join_path (join_path path ver) ''solc''"

definition tmp_file :: "string \<Rightarrow> string \<Rightarrow> string" where
  "tmp_file path ver = join_path (join_path path ver) ''solc.tmp''"

definition validate_checksum :: "(bytes \<Rightarrow> 'h) \<Rightarrow> bytes \<Rightarrow> 'h \<Rightarrow> ('h fetch_error, unit) result" where
  "validate_checksum sha256 data expected =
     (if expected \<noteq> sha256 data then Err (HashMismatch expected (sha256 data)) else Ok ())"

definition save_tmp :: "write_io \<Rightarrow> bytes \<Rightarrow> string \<Rightarrow> files \<Rightarrow> files \<times> ('h fetch_error, unit) result" where
  "save_tmp io data file_tmp fs =
     (case wi_create_dir io of
        Some e \<Rightarrow> (fs, Err (File e))
      | None \<Rightarrow> (case (if fs file_tmp = None then None else wi_remove io) of
          Some e \<Rightarrow> (fs, Err (File e))
        | None \<Rightarrow> let fs = fs(file_tmp := None) in
            (case wi_create io of
               Some e \<Rightarrow> (fs, Err (File e))
             | None \<Rightarrow> (case wi_copy io of
                 Some (n, e) \<Rightarrow> (fs(file_tmp \<mapsto> take n data), Err (File e))
               | None \<Rightarrow> (fs(file_tmp \<mapsto> data), Ok ())))))"

text \<open>The hash is checked while the file is saved; the validator runs the saved file.\<close>

definition write_executable ::
  "(bytes \<Rightarrow> 'h) \<Rightarrow> write_io \<Rightarrow> bytes \<Rightarrow> 'h \<Rightarrow> string \<Rightarrow> string \<Rightarrow> (string \<Rightarrow> bytes option \<Rightarrow> (string, unit) result) option
     \<Rightarrow> files \<Rightarrow> files \<times> ('h fetch_error, string) result" where
  "write_executable sha256 io data sha path ver validator fs =
     (let file = solc_file path ver; file_tmp = tmp_file path ver;
          (fs, save_result) = save_tmp io data file_tmp fs;
          check_result = validate_checksum sha256 data sha
      in case try_bind check_result (\<lambda>_. try_bind save_result (\<lambda>_.
           case validator of
             None \<Rightarrow> Ok ()
           | Some validate \<Rightarrow> (case validate ver (fs file_tmp) of Inl e \<Rightarrow> Err (Validation e) | Inr _ \<Rightarrow> Ok ()))) of
           Inl e \<Rightarrow> (fs, Err e)
         | Inr _ \<Rightarrow>
             (case wi_rename io of
                Some e \<Rightarrow> (fs, Err (File e))
              | None \<Rightarrow> (fs(file := fs file_tmp, file_tmp := None), Ok file)))"

section \<open>The list of versions\<close>

datatype 'u download_path = Url 'u | Filename string

record ('v, 'u, 'h) file_build =
  fb_path :: "'u download_path"
  fb_long_version :: 'v
  fb_sha256 :: 'h

record ('u, 'h) file_info =
  fi_url :: 'u
  fi_sha256 :: 'h

definition into_compact ::
  "('u \<Rightarrow> string \<Rightarrow> (string, 'u) result) \<Rightarrow> 'u \<Rightarrow> ('v, 'u, 'h) file_build \<Rightarrow> (string, ('u, 'h) file_info) result" where
  "into_compact url_join download_url b =
     try_bind (case fb_path b of Url url \<Rightarrow> Ok url | Filename f \<Rightarrow> url_join download_url f)
       (\<lambda>url. Ok \<lparr>fi_url = url, fi_sha256 = fb_sha256 b\<rparr>)"

fun parse_json_versions ::
  "('u \<Rightarrow> string \<Rightarrow> (string, 'u) result) \<Rightarrow> 'u \<Rightarrow> ('v, 'u, 'h) file_build list \<Rightarrow> ('v \<Rightarrow> ('u, 'h) file_info option)
     \<Rightarrow> (string, 'v \<Rightarrow> ('u, 'h) file_info option) result" where
  "parse_json_versions url_join list_url [] versions = Ok versions"
| "parse_json_versions url_join list_url (b # builds) versions =
     try_bind (into_compact url_join list_url b) (\<lambda>i.
       parse_json_versions url_join list_url builds (versions(fb_long_version b \<mapsto> i)))"

text \<open>\<open>VersionsRefresher::refresh\<close>: an error keeps the old versions.\<close>

definition refresh :: "(string, 'versions) result \<Rightarrow> 'versions \<Rightarrow> 'versions" where
  "refresh refresh_result old =
     (case refresh_result of
        Inr fetched_versions \<Rightarrow> if fetched_versions \<noteq> old then fetched_versions else old
      | Inl e \<Rightarrow> old)"

definition list_fetch_file ::
  "('v \<Rightarrow> string) \<Rightarrow> ('u \<Rightarrow> (string, bytes) result) \<Rightarrow> ('v \<Rightarrow> ('u, 'h) file_info option) \<Rightarrow> 'v
     \<Rightarrow> ('h fetch_error, bytes \<times> 'h) result" where
  "list_fetch_file ver_string download versions ver =
     (case versions ver of
        None \<Rightarrow> Err (NotFound (ver_string ver))
      | Some i \<Rightarrow> (case download (fi_url i) of Inl e \<Rightarrow> Err (Fetch e) | Inr data \<Rightarrow> Ok (data, fi_sha256 i)))"

definition status_code_error :: "string \<Rightarrow> nat \<Rightarrow> 'h fetch_error" where
  "status_code_error name status_code =
     Fetch (''s3 returned non 200 status code while fetching '' @ name @ '': '' @ digits status_code)"

text \<open>The S3 bucket: \<open>get_object\<close> returns a status code and the bytes; \<open>parse_hash\<close> reads the hash file.\<close>

definition s3_fetch_file ::
  "('v \<Rightarrow> string) \<Rightarrow> (string \<Rightarrow> (string, nat \<times> bytes) result) \<Rightarrow> (bytes \<Rightarrow> (string, 'h) result) \<Rightarrow> 'v set \<Rightarrow> 'v
     \<Rightarrow> ('h fetch_error, bytes \<times> 'h) result" where
  "s3_fetch_file ver_string get_object parse_hash versions ver =
     (if ver \<notin> versions then Err (NotFound (ver_string ver))
      else case get_object (join_path (ver_string ver) ''solc'') of
        Inl e \<Rightarrow> Err (Fetch e)
      | Inr (data_status, data) \<Rightarrow>
          (case get_object (join_path (ver_string ver) ''sha256.hash'') of
             Inl e \<Rightarrow> Err (Fetch e)
           | Inr (hash_status, hash) \<Rightarrow>
               if hash_status \<noteq> 200 then Err (status_code_error ''hash data'' hash_status)
               else if data_status \<noteq> 200 then Err (status_code_error ''executable file'' data_status)
               else (case parse_hash hash of Inl e \<Rightarrow> Err (HashParse e) | Inr h \<Rightarrow> Ok (data, h))))"

text \<open>\<open>Fetcher::fetch\<close>, the same for both fetchers.\<close>

definition fetch_with ::
  "(bytes \<Rightarrow> 'h) \<Rightarrow> (string \<Rightarrow> bytes option \<Rightarrow> (string, unit) result) option \<Rightarrow> string \<Rightarrow> ('v \<Rightarrow> string)
     \<Rightarrow> ('v \<Rightarrow> ('h fetch_error, bytes \<times> 'h) result) \<Rightarrow> 'v \<Rightarrow> write_io \<Rightarrow> files \<Rightarrow> files \<times> ('h fetch_error, string) result" where
  "fetch_with sha256 validator folder ver_string fetch_file ver io fs =
     (case fetch_file ver of
        Inl e \<Rightarrow> (fs, Err e)
      | Inr (data, hash) \<Rightarrow> write_executable sha256 io data hash folder (ver_string ver) validator fs)"

section \<open>The cache of fetched compilers\<close>

text \<open>
  An entry of the cache is absent, present without a file, or present with the path of a file. A
  task that calls \<open>DownloadCache::get\<close> passes through the states of \<open>fetch_task\<close>; between two of them
  other tasks may run.
\<close>

type_synonym 'v cache = "'v \<Rightarrow> string option option"

datatype 'h fetch_task =
    TryGet
  | WaitRead
  | FetchEntry
  | WaitWrite
  | Fetching
  | Returned "('h fetch_error, string) result"

record ('v, 'h) download_cache =
  dc_cache :: "'v cache"
  dc_writer :: "'v \<Rightarrow> nat option"
  dc_tasks :: "('v \<times> 'h fetch_task) list"
  dc_files :: files
  dc_fetched :: "('v \<times> ('h fetch_error, string) result) list"

definition or_default :: "'v \<Rightarrow> 'v cache \<Rightarrow> 'v cache" where
  "or_default v cache = (case cache v of None \<Rightarrow> cache(v \<mapsto> None) | Some _ \<Rightarrow> cache)"

definition set_task :: "nat \<Rightarrow> 'v \<Rightarrow> 'h fetch_task \<Rightarrow> ('v, 'h) download_cache \<Rightarrow> ('v, 'h) download_cache" where
  "set_task t v task s = s\<lparr>dc_tasks := (dc_tasks s)[t := (v, task)]\<rparr>"

inductive cache_step ::
  "('v \<Rightarrow> write_io \<Rightarrow> files \<Rightarrow> files \<times> ('h fetch_error, string) result)
     \<Rightarrow> ('v, 'h) download_cache \<Rightarrow> ('v, 'h) download_cache \<Rightarrow> bool" for fetch where
  try_get: "t < length (dc_tasks s) \<Longrightarrow> dc_tasks s ! t = (v, TryGet) \<Longrightarrow>
    cache_step fetch s (set_task t v (case dc_cache s v of None \<Rightarrow> FetchEntry | Some _ \<Rightarrow> WaitRead) s)"
| read_entry: "t < length (dc_tasks s) \<Longrightarrow> dc_tasks s ! t = (v, WaitRead) \<Longrightarrow> dc_writer s v = None \<Longrightarrow>
    dc_cache s v = Some entry \<Longrightarrow>
    cache_step fetch s (set_task t v (case entry of None \<Rightarrow> FetchEntry | Some f \<Rightarrow> Returned (Ok f)) s)"
| fetch_entry: "t < length (dc_tasks s) \<Longrightarrow> dc_tasks s ! t = (v, FetchEntry) \<Longrightarrow>
    cache_step fetch s (set_task t v WaitWrite (s\<lparr>dc_cache := or_default v (dc_cache s)\<rparr>))"
| write_hit: "t < length (dc_tasks s) \<Longrightarrow> dc_tasks s ! t = (v, WaitWrite) \<Longrightarrow> dc_writer s v = None \<Longrightarrow>
    dc_cache s v = Some (Some f) \<Longrightarrow> cache_step fetch s (set_task t v (Returned (Ok f)) s)"
| write_miss: "t < length (dc_tasks s) \<Longrightarrow> dc_tasks s ! t = (v, WaitWrite) \<Longrightarrow> dc_writer s v = None \<Longrightarrow>
    dc_cache s v = Some None \<Longrightarrow>
    cache_step fetch s (set_task t v Fetching (s\<lparr>dc_writer := (dc_writer s)(v \<mapsto> t)\<rparr>))"
| fetched: "t < length (dc_tasks s) \<Longrightarrow> dc_tasks s ! t = (v, Fetching) \<Longrightarrow> fetch v io (dc_files s) = (fs, r) \<Longrightarrow>
    cache_step fetch s (set_task t v (Returned r)
      (s\<lparr>dc_files := fs, dc_fetched := (v, r) # dc_fetched s, dc_writer := (dc_writer s)(v := None),
         dc_cache := (case r of Inr f \<Rightarrow> (dc_cache s)(v \<mapsto> Some f) | Inl e \<Rightarrow> dc_cache s)\<rparr>))"

inductive_simps cache_step_iff: "cache_step fetch s s'"

text \<open>All calls of \<open>get\<close> that are under way together, on a cache that was filled before.\<close>

definition start_gets :: "'v cache \<Rightarrow> files \<Rightarrow> 'v list \<Rightarrow> ('v, 'h) download_cache" where
  "start_gets cache fs versions = \<lparr>dc_cache = cache, dc_writer = Map.empty, dc_tasks = map (\<lambda>v. (v, TryGet)) versions,
     dc_files = fs, dc_fetched = []\<rparr>"

text \<open>Filling the cache from a directory: \<open>parse\<close> is \<open>from_str\<close> of the version, a path is the directory
  and its last component.\<close>

fun filter_versions :: "(string \<Rightarrow> 'v option) \<Rightarrow> (string \<times> string) list \<Rightarrow> ('v \<Rightarrow> string option)" where
  "filter_versions parse [] = Map.empty"
| "filter_versions parse ((path, name) # rest) =
     (case parse name of
        None \<Rightarrow> filter_versions parse rest
      | Some v \<Rightarrow> (case filter_versions parse rest v of
          None \<Rightarrow> (filter_versions parse rest)(v \<mapsto> path) | Some _ \<Rightarrow> filter_versions parse rest))"

definition add_versions :: "files \<Rightarrow> ('v \<Rightarrow> string option) \<Rightarrow> 'v cache \<Rightarrow> 'v cache" where
  "add_versions fs versions cache v =
     (case versions v of
        None \<Rightarrow> cache v
      | Some path \<Rightarrow>
          let solc_path = join_path path ''solc'' in if fs solc_path \<noteq> None then Some (Some solc_path) else cache v)"

section \<open>Invariants of the cache\<close>

definition locked :: "('v, 'h) download_cache \<Rightarrow> bool" where
  "locked s \<longleftrightarrow>
     (\<forall>v t. dc_writer s v = Some t \<longleftrightarrow> t < length (dc_tasks s) \<and> dc_tasks s ! t = (v, Fetching)) \<and>
     (\<forall>v t. dc_writer s v = Some t \<longrightarrow> dc_cache s v = Some None)"

definition consistent :: "('v, 'h) download_cache \<Rightarrow> bool" where
  "consistent s \<longleftrightarrow>
     (\<forall>t < length (dc_tasks s). \<forall>v pc. dc_tasks s ! t = (v, pc) \<longrightarrow>
        (pc \<in> {WaitRead, WaitWrite} \<longrightarrow> dc_cache s v \<noteq> None) \<and> (\<forall>f. pc = Returned (Ok f) \<longrightarrow> dc_cache s v = Some (Some f)))"

definition successes :: "'v \<Rightarrow> ('v, 'h) download_cache \<Rightarrow> ('v \<times> ('h fetch_error, string) result) list" where
  "successes v s = filter (\<lambda>(w, r). w = v \<and> \<not> isl r) (dc_fetched s)"

definition once :: "'v cache \<Rightarrow> ('v, 'h) download_cache \<Rightarrow> bool" where
  "once cache0 s \<longleftrightarrow>
     (\<forall>v. successes v s = [] \<or> (\<exists>f. successes v s = [(v, Ok f)] \<and> dc_cache s v = Some (Some f))) \<and>
     (\<forall>v f. cache0 v = Some (Some f) \<longrightarrow> dc_cache s v = Some (Some f) \<and> v \<notin> fst ` set (dc_fetched s)) \<and>
     (\<forall>v f. dc_cache s v = Some (Some f) \<longrightarrow> cache0 v = Some (Some f) \<or> (v, Ok f) \<in> set (dc_fetched s))"

lemmas step_simps = set_task_def nth_list_update or_default_def

lemma locked_step: "cache_step fetch s s' \<Longrightarrow> locked s \<Longrightarrow> locked s'"
proof (induction rule: cache_step.induct)
  case (try_get t s v)
  then show ?case by (auto simp: locked_def step_simps split: option.splits)
next
  case (read_entry t s v entry)
  then show ?case by (auto simp: locked_def step_simps split: option.splits)
next
  case (fetch_entry t s v)
  then show ?case by (auto simp: locked_def step_simps split: option.splits)
next
  case (write_hit t s v f)
  then show ?case by (auto simp: locked_def step_simps)
next
  case (write_miss t s v)
  then show ?case by (auto simp: locked_def step_simps) (metis option.distinct(1))
next
  case (fetched t s v io fs r)
  then show ?case by (auto simp: locked_def step_simps split: sum.splits) (metis option.inject)+
qed

lemma consistent_step: "cache_step fetch s s' \<Longrightarrow> locked s \<Longrightarrow> consistent s \<Longrightarrow> consistent s'"
proof (induction rule: cache_step.induct)
  case (try_get t s v)
  then show ?case by (auto simp: consistent_def step_simps split: option.splits)
next
  case (read_entry t s v entry)
  then show ?case by (auto simp: consistent_def step_simps split: option.splits)
next
  case (fetch_entry t s v)
  then show ?case by (auto simp: consistent_def step_simps split: option.splits)
next
  case (write_hit t s v f)
  then show ?case by (auto simp: consistent_def step_simps)
next
  case (write_miss t s v)
  then show ?case by (auto simp: consistent_def step_simps)
next
  case (fetched t s v io fs r)
  then have "dc_cache s v = Some None" by (auto simp: locked_def)
  with fetched show ?case by (auto simp: consistent_def step_simps split: sum.splits)
qed

lemma once_step: "cache_step fetch s s' \<Longrightarrow> locked s \<Longrightarrow> once cache0 s \<Longrightarrow> once cache0 s'"
proof (induction rule: cache_step.induct)
  case (fetched t s v io fs r)
  then have "dc_cache s v = Some None" by (auto simp: locked_def)
  with fetched show ?case by (cases r) (force simp: once_def successes_def step_simps)+
qed (auto simp: once_def successes_def step_simps split: option.splits)

definition task_rank :: "'h fetch_task \<Rightarrow> nat" where
  "task_rank task = (case task of TryGet \<Rightarrow> 5 | WaitRead \<Rightarrow> 4 | FetchEntry \<Rightarrow> 3 | WaitWrite \<Rightarrow> 2 | Fetching \<Rightarrow> 1 | Returned _ \<Rightarrow> 0)"

definition work_left :: "('v, 'h) download_cache \<Rightarrow> nat" where
  "work_left s = sum_list (map (task_rank \<circ> snd) (dc_tasks s))"

lemma sum_list_update_less:
  fixes xs :: "nat list"
  shows "t < length xs \<Longrightarrow> x < xs ! t \<Longrightarrow> sum_list (xs[t := x]) < sum_list xs"
  by (induction xs arbitrary: t) (auto split: nat.splits)

lemma set_task_work:
  assumes "t < length (dc_tasks s)" "task_rank task < task_rank (snd (dc_tasks s ! t))" "dc_tasks s2 = dc_tasks s"
  shows "work_left (set_task t v task s2) < work_left s"
  using assms sum_list_update_less[of t "map (task_rank \<circ> snd) (dc_tasks s)" "task_rank task"]
  by (simp add: work_left_def set_task_def map_update)

lemma cache_step_work: "cache_step fetch s s' \<Longrightarrow> work_left s' < work_left s"
  by (induction rule: cache_step.induct) (rule set_task_work; simp add: task_rank_def split: option.splits)+

lemma step_enabled:
  assumes inv: "locked s" "consistent s" and t: "t < length (dc_tasks s)" "\<forall>r. snd (dc_tasks s ! t) \<noteq> Returned r"
  shows "\<exists>s'. cache_step fetch s s'"
proof -
  have fetching: "\<exists>s'. cache_step fetch s s'" if "u < length (dc_tasks s)" "dc_tasks s ! u = (v, Fetching)" for u v
    using cache_step.fetched[OF that, of fetch undefined] by (metis prod.exhaust)
  obtain v pc where task: "dc_tasks s ! t = (v, pc)" by fastforce
  have waiting: "\<exists>s'. cache_step fetch s s'" if "pc \<in> {WaitRead, WaitWrite}"
  proof (cases "dc_writer s v")
    case None
    from that task t(1) inv(2) obtain entry where "dc_cache s v = Some entry" by (fastforce simp: consistent_def)
    with None that task t(1) show ?thesis
      using read_entry write_hit write_miss by (metis empty_iff insert_iff option.exhaust)
  next
    case (Some u)
    with inv(1) fetching show ?thesis by (auto simp: locked_def)
  qed
  show ?thesis
    using t task waiting fetching try_get[OF t(1), of v fetch] fetch_entry[OF t(1), of v fetch] by (cases pc) auto
qed

definition reachable_gets ::
  "('v \<Rightarrow> write_io \<Rightarrow> files \<Rightarrow> files \<times> ('h fetch_error, string) result) \<Rightarrow> 'v cache \<Rightarrow> files \<Rightarrow> 'v list
     \<Rightarrow> ('v, 'h) download_cache \<Rightarrow> bool" where
  "reachable_gets fetch cache fs versions = (cache_step fetch)\<^sup>*\<^sup>* (start_gets cache fs versions)"

lemma reachable_invariants:
  assumes "reachable_gets fetch cache fs versions s"
  shows "locked s \<and> consistent s \<and> once cache s"
  using assms unfolding reachable_gets_def
proof (induction rule: rtranclp_induct)
  case base
  then show ?case
    by (auto simp: start_gets_def locked_def consistent_def once_def successes_def)
next
  case (step s s')
  then show ?case using locked_step consistent_step once_step by blast
qed

section \<open>The interface of a fetcher\<close>

text \<open>
  What the cache relies on: a fetch writes only to the two files of its version, leaves the compiler
  untouched when it fails, and installs an acceptable one when it succeeds.
\<close>

locale compiler_fetcher =
  fixes fetch :: "'v \<Rightarrow> write_io \<Rightarrow> files \<Rightarrow> files \<times> ('h fetch_error, string) result"
    and file_of tmp_of :: "'v \<Rightarrow> string"
    and acceptable :: "'v \<Rightarrow> bytes \<Rightarrow> bool"
  assumes fetch_frame: "fetch v io fs = (fs', r) \<Longrightarrow> p \<noteq> file_of v \<Longrightarrow> p \<noteq> tmp_of v \<Longrightarrow> fs' p = fs p"
    and fetch_failed: "fetch v io fs = (fs', Err e) \<Longrightarrow> fs' (file_of v) = fs (file_of v)"
    and fetch_ok: "fetch v io fs = (fs', Ok f) \<Longrightarrow> f = file_of v \<and> (\<exists>data. fs' f = Some data \<and> acceptable v data)"
begin

definition separate :: bool where
  "separate \<longleftrightarrow> (\<forall>v w. v \<noteq> w \<longrightarrow> file_of v \<noteq> file_of w \<and> file_of v \<noteq> tmp_of w)"

definition installed :: "('v, 'h) download_cache \<Rightarrow> bool" where
  "installed s \<longleftrightarrow>
     (\<forall>v f. (v, Ok f) \<in> set (dc_fetched s) \<longrightarrow> f = file_of v \<and> (\<exists>data. dc_files s f = Some data \<and> acceptable v data))"

lemma installed_fetch:
  assumes sep: "separate" and run: "fetch v io (dc_files s) = (fs, r)" and inst: "installed s" and s': "dc_files s' = fs"
    "dc_fetched s' = (v, r) # dc_fetched s"
  shows "installed s'"
  unfolding installed_def
proof (intro allI impI)
  fix w f assume "(w, Ok f) \<in> set (dc_fetched s')"
  then consider (new) "w = v" "r = Ok f" | (old) "(w, Ok f) \<in> set (dc_fetched s)" using s'(2) by auto
  then show "f = file_of w \<and> (\<exists>data. dc_files s' f = Some data \<and> acceptable w data)"
  proof cases
    case new
    with fetch_ok run s'(1) show ?thesis by auto
  next
    case old
    with inst obtain data where f: "f = file_of w" "dc_files s f = Some data" "acceptable w data" by (auto simp: installed_def)
    show ?thesis
    proof (cases "w = v")
      case True
      then show ?thesis using f run s'(1) fetch_ok[of v io "dc_files s" fs] fetch_failed[of v io "dc_files s" fs] by (cases r) auto
    next
      case False
      with sep have "file_of w \<noteq> file_of v" "file_of w \<noteq> tmp_of v" by (auto simp: separate_def)
      with f fetch_frame[OF run] s'(1) show ?thesis by simp
    qed
  qed
qed

lemma installed_step: "cache_step fetch s s' \<Longrightarrow> separate \<Longrightarrow> installed s \<Longrightarrow> installed s'"
proof (induction rule: cache_step.induct)
  case (fetched t s v io fs r)
  show ?case by (rule installed_fetch[OF fetched(4,3,5)]) (simp_all add: set_task_def)
qed (simp_all add: installed_def set_task_def)

lemma answers_installed:
  assumes "reachable_gets fetch cache fs versions s" "separate"
    and t: "t < length (dc_tasks s)" "dc_tasks s ! t = (v, Returned (Ok f))" "cache v \<noteq> Some (Some f)"
  shows "f = file_of v \<and> (\<exists>data. dc_files s f = Some data \<and> acceptable v data)"
proof -
  have "installed s"
    using assms(1) unfolding reachable_gets_def
  proof (induction rule: rtranclp_induct)
    case base
    then show ?case by (simp add: start_gets_def installed_def)
  qed (use installed_step assms(2) in blast)
  moreover have "dc_cache s v = Some (Some f)" "once cache s"
    using reachable_invariants[OF assms(1)] t by (auto simp: consistent_def)
  ultimately show ?thesis using t(3) by (fastforce simp: once_def installed_def)
qed

end

section \<open>Installed compilers are checked\<close>

lemma save_tmp_effect:
  "save_tmp io data tmp fs = (fs', r) \<Longrightarrow> (\<forall>p. p \<noteq> tmp \<longrightarrow> fs' p = fs p) \<and> (r = Ok () \<longrightarrow> fs' tmp = Some data)"
  by (auto simp: save_tmp_def Let_def split: option.splits if_splits)

lemma solc_file_inj: "solc_file path v = solc_file path w \<longleftrightarrow> v = w"
  by (simp add: solc_file_def join_path_def)

lemma solc_file_not_tmp: "solc_file path v \<noteq> tmp_file path w"
proof
  assume "solc_file path v = tmp_file path w"
  then have "last (solc_file path v) = last (tmp_file path w)" by simp
  then show False by (simp add: solc_file_def tmp_file_def join_path_def)
qed

lemma write_executable_effect:
  assumes "write_executable sha256 io data sha path ver validator fs = (fs', r)"
  shows "(\<forall>p. p \<noteq> solc_file path ver \<longrightarrow> p \<noteq> tmp_file path ver \<longrightarrow> fs' p = fs p)
    \<and> (\<forall>e. r = Err e \<longrightarrow> fs' (solc_file path ver) = fs (solc_file path ver))
    \<and> (\<forall>f. r = Ok f \<longrightarrow> f = solc_file path ver \<and> fs' f = Some data \<and> sha256 data = sha
         \<and> (\<forall>validate. validator = Some validate \<longrightarrow> validate ver (Some data) = Ok ()))"
proof -
  obtain fs1 saved where save: "save_tmp io data (tmp_file path ver) fs = (fs1, saved :: ('a fetch_error, unit) result)" by fastforce
  note eff = save_tmp_effect[OF save]
  have "solc_file path ver \<noteq> tmp_file path ver" by (rule solc_file_not_tmp)
  with assms eff show ?thesis
    unfolding write_executable_def save Let_def prod.case validate_checksum_def
    by (auto split: sum.splits option.splits if_splits simp: try_bind_Ok_iff try_bind_Err_iff)
qed

interpretation installer: compiler_fetcher "fetch_with sha256 validator folder ver_string fetch_file"
  "\<lambda>v. solc_file folder (ver_string v)" "\<lambda>v. tmp_file folder (ver_string v)"
  "\<lambda>v data. fetch_file v = Ok (data, sha256 data) \<and>
     (\<forall>validate. validator = Some validate \<longrightarrow> validate (ver_string v) (Some data) = Ok ())"
  for sha256 :: "bytes \<Rightarrow> 'h" and validator folder and ver_string :: "'v \<Rightarrow> string" and fetch_file
proof
  fix v :: 'v and io fs fs' r p
  assume "fetch_with sha256 validator folder ver_string fetch_file v io fs = (fs', r)"
    "p \<noteq> solc_file folder (ver_string v)" "p \<noteq> tmp_file folder (ver_string v)"
  then show "fs' p = fs p"
    by (auto simp: fetch_with_def dest!: write_executable_effect split: sum.splits prod.splits)
next
  fix v :: 'v and io fs fs' e
  assume "fetch_with sha256 validator folder ver_string fetch_file v io fs = (fs', Err e)"
  then show "fs' (solc_file folder (ver_string v)) = fs (solc_file folder (ver_string v))"
    by (auto simp: fetch_with_def dest!: write_executable_effect split: sum.splits prod.splits)
next
  fix v :: 'v and io fs fs' f
  assume "fetch_with sha256 validator folder ver_string fetch_file v io fs = (fs', Ok f)"
  then show "f = solc_file folder (ver_string v) \<and> (\<exists>data. fs' f = Some data \<and> fetch_file v = Ok (data, sha256 data) \<and>
     (\<forall>validate. validator = Some validate \<longrightarrow> validate (ver_string v) (Some data) = Ok ()))"
    by (auto simp: fetch_with_def dest!: write_executable_effect split: sum.splits prod.splits)
qed

section \<open>Properties of the cache\<close>

text \<open>A single call on an empty cache.\<close>

lemma lone_get:
  assumes "fetch v io fs = (fs1, Ok f)"
  shows "(cache_step fetch ^^ 4) (start_gets Map.empty fs [v])
    \<lparr>dc_cache = [v \<mapsto> Some f], dc_writer = Map.empty, dc_tasks = [(v, Returned (Ok f))], dc_files = fs1, dc_fetched = [(v, Ok f)]\<rparr>"
proof -
  let ?s = "\<lambda>c w task. \<lparr>dc_cache = c, dc_writer = w, dc_tasks = [(v, task)], dc_files = fs, dc_fetched = []\<rparr>"
  have "cache_step fetch (start_gets Map.empty fs [v]) (?s Map.empty Map.empty FetchEntry)"
    using try_get[of 0 "start_gets Map.empty fs [v]" v fetch] by (simp add: start_gets_def set_task_def)
  moreover have "cache_step fetch (?s Map.empty Map.empty FetchEntry) (?s [v \<mapsto> None] Map.empty WaitWrite)"
    using fetch_entry[of 0 "?s Map.empty Map.empty FetchEntry" v fetch] by (simp add: set_task_def or_default_def)
  moreover have "cache_step fetch (?s [v \<mapsto> None] Map.empty WaitWrite) (?s [v \<mapsto> None] [v \<mapsto> 0] Fetching)"
    using write_miss[of 0 "?s [v \<mapsto> None] Map.empty WaitWrite" v fetch] by (simp add: set_task_def)
  moreover have "cache_step fetch (?s [v \<mapsto> None] [v \<mapsto> 0] Fetching)
    \<lparr>dc_cache = [v \<mapsto> Some f], dc_writer = Map.empty, dc_tasks = [(v, Returned (Ok f))], dc_files = fs1, dc_fetched = [(v, Ok f)]\<rparr>"
    using cache_step.fetched[of 0 "?s [v \<mapsto> None] [v \<mapsto> 0] Fetching" v fetch io] assms by (simp add: set_task_def)
  ultimately show ?thesis by (auto simp: numeral_eq_Suc)
qed

lemmas lone_get_reachable = lone_get[THEN relpowp_imp_rtranclp, folded reachable_gets_def]

text \<open>C9: The cache fetches a compiler at most once. However the calls interleave, no version is fetched by
  two tasks at the same time, none is fetched successfully more than once, a version that was in the
  cache at the start is never fetched, and all successful answers for a version are the same file.\<close>

theorem compilers_are_fetched_once:
  assumes "reachable_gets fetch cache fs versions s"
  shows "length (successes v s) \<le> 1
    \<and> (\<forall>f. cache v = Some (Some f) \<longrightarrow> v \<notin> fst ` set (dc_fetched s))
    \<and> (\<forall>t u. t < length (dc_tasks s) \<and> u < length (dc_tasks s) \<and> dc_tasks s ! t = (v, Fetching) \<and> dc_tasks s ! u = (v, Fetching) \<longrightarrow> t = u)
    \<and> (\<forall>f g. (v, Returned (Ok f)) \<in> set (dc_tasks s) \<and> (v, Returned (Ok g)) \<in> set (dc_tasks s) \<longrightarrow> f = g)"
proof -
  note inv = reachable_invariants[OF assms]
  have "length (successes v s) \<le> 1" using inv by (auto simp: once_def) (metis One_nat_def Suc_n_not_le_n le_zero_eq length_Cons list.size(3) nat_le_linear)
  moreover have "(v, Returned (Ok f)) \<in> set (dc_tasks s) \<Longrightarrow> dc_cache s v = Some (Some f)" for f
    using inv by (auto simp: consistent_def in_set_conv_nth)
  moreover have "t = u" if "t < length (dc_tasks s) \<and> u < length (dc_tasks s) \<and> dc_tasks s ! t = (v, Fetching) \<and> dc_tasks s ! u = (v, Fetching)" for t u
    using inv that by (auto simp: locked_def) (metis option.inject)
  moreover have "\<forall>f. cache v = Some (Some f) \<longrightarrow> v \<notin> fst ` set (dc_fetched s)" using inv by (simp add: once_def)
  ultimately show ?thesis by (metis option.inject)
qed

theorem compilers_are_fetched_once_witness:
  "\<exists>s. reachable_gets (\<lambda>v io fs. (fs, Ok ''solc'' :: (unit fetch_error, string) result)) Map.empty Map.empty [()] s
     \<and> dc_fetched s = [((), Ok ''solc'')] \<and> length (successes () s) \<le> 1"
proof -
  let ?fetch = "\<lambda>(v :: unit) (io :: write_io) (fs :: files). (fs, Ok ''solc'' :: (unit fetch_error, string) result)"
  note run = lone_get_reachable[of ?fetch "()" undefined Map.empty Map.empty "''solc''", OF refl]
  from compilers_are_fetched_once[OF run, of "()"] run show ?thesis by fastforce
qed

text \<open>Calls of the cache never block one another: a run of the calls takes at most five steps per
  call, and when no step is possible any more, every call has returned.\<close>

theorem gets_finish:
  fixes fetch :: "'v \<Rightarrow> write_io \<Rightarrow> files \<Rightarrow> files \<times> ('h fetch_error, string) result"
  assumes run: "(cache_step fetch ^^ n) (start_gets cache fs versions) s"
  shows "n \<le> 5 * length versions \<and> ((\<exists>s'. cache_step fetch s s') \<or> (\<forall>(v, task) \<in> set (dc_tasks s). \<exists>r. task = Returned r))"
proof
  let ?s0 = "start_gets cache fs versions :: ('v, 'h) download_cache"
  have "work_left s + n \<le> work_left ?s0" using run
  proof (induction n arbitrary: s)
    case (Suc n)
    then obtain u where "(cache_step fetch ^^ n) ?s0 u" "cache_step fetch u s" by auto
    with Suc.IH[of u] cache_step_work[of fetch u s] show ?case by simp
  qed simp
  also have "work_left ?s0 = 5 * length versions"
    by (induction versions) (simp_all add: work_left_def start_gets_def task_rank_def)
  finally show "n \<le> 5 * length versions" by simp
  have inv: "locked s" "consistent s"
    using reachable_invariants[of fetch cache fs versions s] relpowp_imp_rtranclp[OF run] by (simp_all add: reachable_gets_def)
  show "(\<exists>s'. cache_step fetch s s') \<or> (\<forall>(v, task) \<in> set (dc_tasks s). \<exists>r. task = Returned r)"
    using step_enabled[OF inv] by (fastforce simp: in_set_conv_nth)
qed

theorem gets_finish_witness:
  "\<exists>s. (cache_step (\<lambda>v io fs. (fs, Ok ''solc'' :: (unit fetch_error, string) result)) ^^ 4) (start_gets Map.empty Map.empty [()]) s
     \<and> dc_tasks s = [((), Returned (Ok ''solc''))] \<and> 4 \<le> 5 * length [()]"
proof -
  let ?fetch = "\<lambda>(v :: unit) (io :: write_io) (fs :: files). (fs, Ok ''solc'' :: (unit fetch_error, string) result)"
  note run = lone_get[of ?fetch "()" undefined Map.empty Map.empty "''solc''", OF refl]
  from gets_finish[OF run] run show ?thesis by fastforce
qed

text \<open>C34: A compiler that the cache hands out after a fetch from the list of builds is the file of its version,
  holds exactly the bytes that were downloaded for it, has the SHA-256 hash of the list, and was
  accepted by the validator, if there is one. Later fetches of other versions do not change it.\<close>

theorem listed_compilers_are_verified:
  fixes ver_string :: "'v \<Rightarrow> string" and sha256 :: "bytes \<Rightarrow> 'h"
  assumes inj: "inj ver_string"
    and run: "reachable_gets (fetch_with sha256 validator folder ver_string (list_fetch_file ver_string download builds)) cache fs versions s"
    and answer: "t < length (dc_tasks s)" "dc_tasks s ! t = (v, Returned (Ok f))" "cache v \<noteq> Some (Some f)"
  shows "f = solc_file folder (ver_string v) \<and>
    (\<exists>info data. builds v = Some info \<and> download (fi_url info) = Ok data \<and> dc_files s f = Some data \<and> sha256 data = fi_sha256 info
       \<and> (\<forall>validate. validator = Some validate \<longrightarrow> validate (ver_string v) (Some data) = Ok ()))"
proof -
  have sep: "installer.separate TYPE('v) folder ver_string"
    unfolding installer.separate_def using inj by (auto simp: solc_file_inj solc_file_not_tmp inj_eq)
  from installer.answers_installed[OF run sep answer] show ?thesis
    by (auto simp: list_fetch_file_def split: option.splits sum.splits)
qed

definition sample_fetch :: "unit \<Rightarrow> write_io \<Rightarrow> files \<Rightarrow> files \<times> (nat fetch_error, string) result" where
  "sample_fetch = fetch_with length None ''d'' (\<lambda>_. ''v'')
     (list_fetch_file (\<lambda>_. ''v'') (\<lambda>_. Ok [7]) (\<lambda>_. Some \<lparr>fi_url = (), fi_sha256 = 1\<rparr>))"

theorem listed_compilers_are_verified_witness:
  "\<exists>s. reachable_gets sample_fetch Map.empty Map.empty [()] s
     \<and> dc_tasks s = [((), Returned (Ok ''d/v/solc''))] \<and> dc_files s ''d/v/solc'' = Some [7]"
proof -
  let ?io = "\<lparr>wi_create_dir = None, wi_remove = None, wi_create = None, wi_copy = None, wi_rename = None\<rparr>"
  have "sample_fetch () ?io Map.empty = (Map.empty(''d/v/solc'' \<mapsto> [7], ''d/v/solc.tmp'' := None), Ok ''d/v/solc'')"
    by (auto simp: sample_fetch_def fetch_with_def list_fetch_file_def write_executable_def save_tmp_def validate_checksum_def
        solc_file_def tmp_file_def join_path_def Let_def)
  note run = lone_get_reachable[of sample_fetch "()" ?io Map.empty, OF this]
  have inj: "inj (\<lambda>_ :: unit. ''v'')" by (simp add: inj_def)
  from listed_compilers_are_verified[OF inj run[unfolded sample_fetch_def], of 0 "()" "''d/v/solc''"] run show ?thesis by fastforce
qed

end
