(* ===== verification/Code_Verifier.thy ===== *)
theory Code_Verifier
  imports Code_Blueprint Code_Compilers
begin

text \<open>
  Compilation and verification of contracts, end to end
  (\<^verbatim>\<open>smart-contract-verifier/smart-contract-verifier/src/verify\<close>, files \<^verbatim>\<open>evm_compilers.rs\<close>,
  \<^verbatim>\<open>compilation.rs\<close> and \<^verbatim>\<open>verifier.rs\<close>).

  The compiler, the JSON and hex decoders, the metadata parsers and the ABI library are the fields
  of \<open>environment\<close>. A \<open>BTreeMap\<close> is the ordered list of its entries. Source maps are only carried
  from the compiler to the response and are left out. \<open>None\<close> is a panic or a search for metadata
  that never ends.
\<close>

section \<open>Errors and compiler output\<close>

datatype verify_error =
    NotConsistentBlueprintOnChainCode (ncb_chain_id: "string option") (ncb_address: "string option")
  | CompilerNotFound string
  | Compilation "string list"
  | Internal string

datatype bytecode_object = Bytecode bytes | Unlinked string

record bytecode_output =
  bc_object :: bytecode_object
  bc_link_references :: "link_references option"

record 'json contract_output =
  ct_abi :: "'json option"
  ct_userdoc :: "'json option"
  ct_devdoc :: "'json option"
  ct_storage_layout :: "'json option"
  ct_bytecode :: bytecode_output
  ct_deployed_bytecode :: bytecode_output
  ct_immutable_references :: "immutable_references option"

record 'json shared_compiler_output =
  co_contracts :: "(string \<times> (string \<times> 'json contract_output) list) list"
  co_sources :: "(string \<times> nat) list"

record ('v, 'path, 'input, 'raw, 'json, 'ctor) environment =
  env_all_versions :: "'v detailed_version list"
  env_version_string :: "'v detailed_version \<Rightarrow> string"
  env_fetch_compiler :: "'v detailed_version \<Rightarrow> (string, 'path) result"
  env_run :: "'path \<Rightarrow> 'v detailed_version \<Rightarrow> 'input \<Rightarrow> (verify_error, 'raw) result"
  env_raw_errors :: "'raw \<Rightarrow> (string, (bool \<times> string) list) result"
  env_raw_output :: "'raw \<Rightarrow> (string, 'json shared_compiler_output) result"
  env_normalize_output_selection :: "'v \<Rightarrow> 'input \<Rightarrow> 'input"
  env_modified_copy :: "'input \<Rightarrow> 'input"
  env_language :: "'input \<Rightarrow> language"
  env_settings :: "'input \<Rightarrow> 'json"
  env_sources :: "'input \<Rightarrow> (string \<times> string) list"
  env_encode_source_ids :: "(string \<times> nat) list \<Rightarrow> (string, 'json) result"
  env_hex_decode :: "string \<Rightarrow> (string, bytes) result"
  env_metadata_hash_from_cbor :: "bytes \<Rightarrow> nat option"
  env_auxdata_from_cbor :: "bytes \<Rightarrow> nat option"
  env_abi :: "('json, 'ctor) abi_lib"

section \<open>Running the compiler\<close>

definition validate_no_errors :: "(bool \<times> string) list \<Rightarrow> (verify_error, unit) result" where
  "validate_no_errors output_errors =
     (let errors = map snd (filter fst output_errors) in if errors \<noteq> [] then Err (Compilation errors) else Ok ())"

definition internal :: "(string, 'a) result \<Rightarrow> (verify_error, 'a) result" where
  "internal r = (case r of Inl e \<Rightarrow> Err (Internal e) | Inr x \<Rightarrow> Ok x)"

definition run_compiler ::
  "('v, 'path, 'input, 'raw, 'json, 'ctor) environment \<Rightarrow> 'path \<Rightarrow> 'v detailed_version \<Rightarrow> 'input
     \<Rightarrow> (verify_error, 'json shared_compiler_output) result" where
  "run_compiler env compiler_path compiler_version input =
     try_bind (env_run env compiler_path compiler_version input) (\<lambda>raw.
     try_bind (internal (env_raw_errors env raw)) (\<lambda>errors.
     try_bind (validate_no_errors errors) (\<lambda>_.
     internal (env_raw_output env raw))))"

section \<open>Artifacts of a contract\<close>

type_synonym fully_qualified_name = "string \<times> string"

record 'json compilation_artifacts =
  ca_abi :: "'json option"
  ca_devdoc :: "'json option"
  ca_userdoc :: "'json option"
  ca_storage_layout :: "'json option"
  ca_sources :: "'json option"

record 'json compiled_contract_artifacts =
  cc_code :: recompiled_code
  cc_compilation_artifacts :: "'json compilation_artifacts"
  cc_creation_code_artifacts :: creation_code_artifacts
  cc_runtime_code_artifacts :: runtime_code_artifacts

type_synonym 'json per_contract_artifacts = "(fully_qualified_name \<times> 'json compiled_contract_artifacts) list"

record 'json compilation_result =
  cr_language :: language
  cr_compiler_version :: string
  cr_compiler_settings :: 'json
  cr_sources :: "(string \<times> string) list"
  cr_artifacts :: "'json per_contract_artifacts"

text \<open>A string is its UTF-8 bytes; \<open>replace_range\<close> panics off a character boundary.\<close>

definition is_char_boundary :: "string \<Rightarrow> nat \<Rightarrow> bool" where
  "is_char_boundary s i \<longleftrightarrow>
     i = 0 \<or> i = length s \<or> (i < length s \<and> (of_char (s ! i) < (128 :: nat) \<or> 192 \<le> (of_char (s ! i) :: nat)))"

fun nullify_offsets :: "offset list \<Rightarrow> string \<Rightarrow> (string, string) result option" where
  "nullify_offsets [] to_nullify = Some (Ok to_nullify)"
| "nullify_offsets (offset # offsets) to_nullify =
     (let start = off_start offset * 2; len = off_length offset * 2
      in if length to_nullify < start + len then Some (Err ''link reference offset exceeds code size'')
         else if is_char_boundary to_nullify start \<and> is_char_boundary to_nullify (start + len)
         then nullify_offsets offsets (take start to_nullify @ replicate len (CHR ''0'') @ drop (start + len) to_nullify)
         else None)"

definition nullify_libraries :: "string \<Rightarrow> link_references option \<Rightarrow> (string, string) result option" where
  "nullify_libraries to_nullify link_references =
     (case link_references of
        None \<Rightarrow> Some (Ok to_nullify)
      | Some l \<Rightarrow> nullify_offsets (concat (map snd (concat (map snd l)))) to_nullify)"

definition decode_hex :: "(string \<Rightarrow> (string, bytes) result) \<Rightarrow> string \<Rightarrow> (string, bytes) result" where
  "decode_hex hex_decode s = (if take 2 s = ''0x'' then hex_decode (drop 2 s) else hex_decode s)"

definition extract_code_from_bytecode ::
  "(string \<Rightarrow> (string, bytes) result) \<Rightarrow> bytecode_output \<Rightarrow> (string, bytes) result option" where
  "extract_code_from_bytecode hex_decode bytecode =
     (case bc_object bytecode of
        Bytecode bytes \<Rightarrow> Some (Ok bytes)
      | Unlinked unlinked \<Rightarrow>
          map_option (\<lambda>r. try_bind r (decode_hex hex_decode)) (nullify_libraries unlinked (bc_link_references bytecode)))"

definition extract_compilation_artifacts :: "'json \<Rightarrow> 'json contract_output \<Rightarrow> 'json compilation_artifacts" where
  "extract_compilation_artifacts source_ids contract = \<lparr>ca_abi = ct_abi contract, ca_devdoc = ct_devdoc contract,
     ca_userdoc = ct_userdoc contract, ca_storage_layout = ct_storage_layout contract, ca_sources = Some source_ids\<rparr>"

definition extract_creation_code_artifacts :: "'json contract_output \<Rightarrow> creation_code_artifacts" where
  "extract_creation_code_artifacts contract =
     \<lparr>cca_link_references = bc_link_references (ct_bytecode contract), cca_cbor_auxdata = None\<rparr>"

definition extract_runtime_code_artifacts :: "'json contract_output \<Rightarrow> runtime_code_artifacts" where
  "extract_runtime_code_artifacts contract =
     \<lparr>rca_cbor_auxdata = None, rca_immutable_references = ct_immutable_references contract,
      rca_link_references = bc_link_references (ct_deployed_bytecode contract)\<rparr>"

definition generate_contract_artifacts ::
  "(string \<Rightarrow> (string, bytes) result) \<Rightarrow> 'json \<Rightarrow> 'json contract_output
     \<Rightarrow> (verify_error, 'json compiled_contract_artifacts) result option" where
  "generate_contract_artifacts hex_decode source_ids contract =
     (case extract_code_from_bytecode hex_decode (ct_deployed_bytecode contract) of
        None \<Rightarrow> None
      | Some (Inl e) \<Rightarrow> Some (Err (Internal e))
      | Some (Inr runtime_code) \<Rightarrow>
          (case extract_code_from_bytecode hex_decode (ct_bytecode contract) of
             None \<Rightarrow> None
           | Some (Inl e) \<Rightarrow> Some (Err (Internal e))
           | Some (Inr creation_code) \<Rightarrow>
               Some (Ok \<lparr>cc_code = \<lparr>rc_runtime = runtime_code, rc_creation = creation_code\<rparr>,
                 cc_compilation_artifacts = extract_compilation_artifacts source_ids contract,
                 cc_creation_code_artifacts = extract_creation_code_artifacts contract,
                 cc_runtime_code_artifacts = extract_runtime_code_artifacts contract\<rparr>)))"

fun artifacts_loop ::
  "(string \<Rightarrow> (string, bytes) result) \<Rightarrow> 'json \<Rightarrow> (fully_qualified_name \<times> 'json contract_output) list \<Rightarrow> 'json per_contract_artifacts
     \<Rightarrow> (verify_error, 'json per_contract_artifacts) result option" where
  "artifacts_loop hex_decode source_ids [] all_artifacts = Some (Ok all_artifacts)"
| "artifacts_loop hex_decode source_ids ((name, contract) # rest) all_artifacts =
     (case generate_contract_artifacts hex_decode source_ids contract of
        None \<Rightarrow> None
      | Some (Inl e) \<Rightarrow> Some (Err e)
      | Some (Inr a) \<Rightarrow> artifacts_loop hex_decode source_ids rest (btree_insert name a all_artifacts))"

definition generate_per_contract_artifacts ::
  "('v, 'path, 'input, 'raw, 'json, 'ctor) environment \<Rightarrow> 'json shared_compiler_output
     \<Rightarrow> (verify_error, 'json per_contract_artifacts) result option" where
  "generate_per_contract_artifacts env output =
     (case env_encode_source_ids env (co_sources output) of
        Inl e \<Rightarrow> Some (Err (Internal e))
      | Inr source_ids \<Rightarrow>
          artifacts_loop (env_hex_decode env) source_ids
            (concat (map (\<lambda>(file_path, contracts). map (\<lambda>(name, c). ((file_path, name), c)) contracts) (co_contracts output))) [])"

text \<open>Both compilations have the same contracts, or \<open>expect\<close> panics.\<close>

definition append_one ::
  "('v, 'path, 'input, 'raw, 'json, 'ctor) environment \<Rightarrow> language \<Rightarrow> 'json compiled_contract_artifacts
     \<Rightarrow> 'json compiled_contract_artifacts \<Rightarrow> (verify_error, 'json compiled_contract_artifacts) result option" where
  "append_one env language a modified =
     (case retrieve_cbor_auxdata (env_metadata_hash_from_cbor env) (env_auxdata_from_cbor env) language
             (rc_creation (cc_code a)) (rc_creation (cc_code modified)) of
        None \<Rightarrow> None
      | Some (Inl e) \<Rightarrow> Some (Err (Internal e))
      | Some (Inr creation_aux) \<Rightarrow>
          (case retrieve_cbor_auxdata (env_metadata_hash_from_cbor env) (env_auxdata_from_cbor env) language
                  (rc_runtime (cc_code a)) (rc_runtime (cc_code modified)) of
             None \<Rightarrow> None
           | Some (Inl e) \<Rightarrow> Some (Err (Internal e))
           | Some (Inr runtime_aux) \<Rightarrow>
               Some (Ok (a\<lparr>
                 cc_creation_code_artifacts := (cc_creation_code_artifacts a)\<lparr>cca_cbor_auxdata := creation_aux\<rparr>,
                 cc_runtime_code_artifacts := (cc_runtime_code_artifacts a)\<lparr>rca_cbor_auxdata := runtime_aux\<rparr>\<rparr>))))"

fun append_cbor_auxdata ::
  "('v, 'path, 'input, 'raw, 'json, 'ctor) environment \<Rightarrow> language \<Rightarrow> 'json per_contract_artifacts \<Rightarrow> 'json per_contract_artifacts
     \<Rightarrow> (verify_error, 'json per_contract_artifacts) result option" where
  "append_cbor_auxdata env language [] modified_artifacts = Some (Ok [])"
| "append_cbor_auxdata env language ((name, a) # rest) modified_artifacts =
     (case map_of modified_artifacts name of
        None \<Rightarrow> None
      | Some modified \<Rightarrow>
          (case append_one env language a modified of
             None \<Rightarrow> None
           | Some (Inl e) \<Rightarrow> Some (Err e)
           | Some (Inr a) \<Rightarrow>
               map_option (\<lambda>r. try_bind r (\<lambda>rest. Ok ((name, a) # rest))) (append_cbor_auxdata env language rest modified_artifacts)))"

text \<open>The steps of \<open>compile\<close> that can fail but not panic, up to the two outputs of the compiler.\<close>

definition compile_twice ::
  "('v, 'path, 'input, 'raw, 'json, 'ctor) environment \<Rightarrow> 'v detailed_version \<Rightarrow> 'input
     \<Rightarrow> (verify_error, 'v detailed_version \<times> 'input \<times> 'json shared_compiler_output \<times> 'json shared_compiler_output) result" where
  "compile_twice env version input =
     try_bind (case normalize_compiler_version (env_all_versions env) version of
                 None \<Rightarrow> Err (CompilerNotFound (env_version_string env version)) | Some v \<Rightarrow> Ok v) (\<lambda>compiler_version.
     try_bind (internal (env_fetch_compiler env compiler_version)) (\<lambda>compiler_path.
     let compiler_input = env_normalize_output_selection env (dv_version compiler_version) input in
     try_bind (run_compiler env compiler_path compiler_version compiler_input) (\<lambda>compiler_output.
     try_bind (run_compiler env compiler_path compiler_version (env_modified_copy env compiler_input)) (\<lambda>modified_output.
     Ok (compiler_version, compiler_input, compiler_output, modified_output)))))"

definition bind_opt :: "('e, 'a) result option \<Rightarrow> ('a \<Rightarrow> ('e, 'b) result option) \<Rightarrow> ('e, 'b) result option" where
  "bind_opt r f = (case r of None \<Rightarrow> None | Some (Inl e) \<Rightarrow> Some (Err e) | Some (Inr x) \<Rightarrow> f x)"

definition compile ::
  "('v, 'path, 'input, 'raw, 'json, 'ctor) environment \<Rightarrow> 'v detailed_version \<Rightarrow> 'input
     \<Rightarrow> (verify_error, 'json compilation_result) result option" where
  "compile env version input =
     bind_opt (Some (compile_twice env version input)) (\<lambda>(compiler_version, compiler_input, compiler_output, modified_output).
     bind_opt (generate_per_contract_artifacts env compiler_output) (\<lambda>artifacts.
     bind_opt (generate_per_contract_artifacts env modified_output) (\<lambda>modified_artifacts.
     bind_opt (append_cbor_auxdata env (env_language env compiler_input) artifacts modified_artifacts) (\<lambda>artifacts.
     Some (Ok \<lparr>cr_language = env_language env compiler_input, cr_compiler_version = env_version_string env compiler_version,
       cr_compiler_settings = env_settings env compiler_input, cr_sources = env_sources env compiler_input,
       cr_artifacts = artifacts\<rparr>)))))"

section \<open>Verification of a contract on chain\<close>

record on_chain_contract =
  occ_code :: on_chain_code
  occ_chain_id :: "string option"
  occ_address :: "string option"

record 'json verifying_contract =
  vc_fully_qualified_name :: fully_qualified_name
  vc_language :: language
  vc_compiler_version :: string
  vc_compiler_settings :: 'json
  vc_sources :: "(string \<times> string) list"
  vc_creation_code :: bytes
  vc_runtime_code :: bytes
  vc_compilation_artifacts :: "'json compilation_artifacts"
  vc_creation_code_artifacts :: creation_code_artifacts
  vc_runtime_code_artifacts :: runtime_code_artifacts
  vc_runtime_match :: "code_match option"
  vc_creation_match :: "code_match option"
  vc_is_blueprint :: bool

definition initcode_of :: "blueprint_contract option \<Rightarrow> bytes option" where
  "initcode_of blueprint = map_option bp_initcode blueprint"

definition try_extract_blueprint_initcode :: "on_chain_contract \<Rightarrow> (verify_error, bytes option) result option" where
  "try_extract_blueprint_initcode contract =
     (case (oc_creation (occ_code contract), oc_runtime (occ_code contract)) of
        (Some creation_code, Some runtime_code) \<Rightarrow>
          (case (from_creation_code creation_code, from_runtime_code runtime_code) of
             (Some creation_blueprint, Some runtime_blueprint) \<Rightarrow>
               if creation_blueprint \<noteq> runtime_blueprint
               then Some (Err (NotConsistentBlueprintOnChainCode (occ_chain_id contract) (occ_address contract)))
               else Some (Ok (initcode_of creation_blueprint))
           | _ \<Rightarrow> None)
      | (Some creation_code, None) \<Rightarrow> map_option (\<lambda>b. Ok (initcode_of b)) (from_creation_code creation_code)
      | (None, Some runtime_code) \<Rightarrow> map_option (\<lambda>b. Ok (initcode_of b)) (from_runtime_code runtime_code)
      | (None, None) \<Rightarrow> Some (Ok None))"

fun matches_of :: "verification_result \<Rightarrow> (code_match option \<times> code_match option) option" where
  "matches_of Failure = None"
| "matches_of (RuntimeMatch r) = Some (Some r, None)"
| "matches_of (CreationMatch c) = Some (None, Some c)"
| "matches_of (CompleteMatch r c) = Some (Some r, Some c)"

definition process_verify_contract_result ::
  "'json compilation_result \<Rightarrow> fully_qualified_name \<Rightarrow> verification_result \<Rightarrow> bool \<Rightarrow> 'json verifying_contract option option" where
  "process_verify_contract_result compilation name result is_blueprint =
     (case matches_of result of
        None \<Rightarrow> Some None
      | Some (runtime_match, creation_match) \<Rightarrow>
          (case map_of (cr_artifacts compilation) name of
             None \<Rightarrow> None
           | Some a \<Rightarrow> Some (Some \<lparr>vc_fully_qualified_name = name, vc_language = cr_language compilation,
               vc_compiler_version = cr_compiler_version compilation, vc_compiler_settings = cr_compiler_settings compilation,
               vc_sources = cr_sources compilation, vc_creation_code = rc_creation (cc_code a),
               vc_runtime_code = rc_runtime (cc_code a), vc_compilation_artifacts = cc_compilation_artifacts a,
               vc_creation_code_artifacts = cc_creation_code_artifacts a, vc_runtime_code_artifacts = cc_runtime_code_artifacts a,
               vc_runtime_match = runtime_match, vc_creation_match = creation_match, vc_is_blueprint = is_blueprint\<rparr>)))"

definition verify_artifacts ::
  "('json, 'ctor) abi_lib \<Rightarrow> on_chain_contract \<Rightarrow> bytes option \<Rightarrow> 'json compiled_contract_artifacts \<Rightarrow> verification_result option" where
  "verify_artifacts lib contract blueprint_initcode a =
     (case blueprint_initcode of
        Some initcode \<Rightarrow> verify_blueprint_contract initcode (cc_code a) (cc_creation_code_artifacts a)
      | None \<Rightarrow> verify_contract lib (occ_code contract) (cc_code a) (ca_abi (cc_compilation_artifacts a))
          (cc_creation_code_artifacts a) (cc_runtime_code_artifacts a))"

fun verify_loop ::
  "('json, 'ctor) abi_lib \<Rightarrow> on_chain_contract \<Rightarrow> 'json compilation_result \<Rightarrow> bytes option \<Rightarrow> 'json per_contract_artifacts
     \<Rightarrow> 'json verifying_contract list option" where
  "verify_loop lib contract compilation blueprint_initcode [] = Some []"
| "verify_loop lib contract compilation blueprint_initcode ((name, a) # rest) =
     (case verify_artifacts lib contract blueprint_initcode a of
        None \<Rightarrow> None
      | Some r \<Rightarrow>
          (case process_verify_contract_result compilation name r (blueprint_initcode \<noteq> None) of
             None \<Rightarrow> None
           | Some success \<Rightarrow>
               map_option (\<lambda>rest. (case success of None \<Rightarrow> rest | Some v \<Rightarrow> v # rest))
                 (verify_loop lib contract compilation blueprint_initcode rest)))"

definition verify_on_chain_contract ::
  "('json, 'ctor) abi_lib \<Rightarrow> on_chain_contract \<Rightarrow> 'json compilation_result
     \<Rightarrow> (verify_error, 'json verifying_contract list) result option" where
  "verify_on_chain_contract lib contract compilation =
     bind_opt (try_extract_blueprint_initcode contract) (\<lambda>blueprint_initcode.
       map_option Ok (verify_loop lib contract compilation blueprint_initcode (cr_artifacts compilation)))"

fun verify_all ::
  "('json, 'ctor) abi_lib \<Rightarrow> 'json compilation_result \<Rightarrow> on_chain_contract list
     \<Rightarrow> (verify_error, 'json verifying_contract list list) result option" where
  "verify_all lib compilation [] = Some (Ok [])"
| "verify_all lib compilation (contract # rest) =
     bind_opt (verify_on_chain_contract lib contract compilation) (\<lambda>r.
     bind_opt (verify_all lib compilation rest) (\<lambda>rs. Some (Ok (r # rs))))"

definition compile_and_verify ::
  "('v, 'path, 'input, 'raw, 'json, 'ctor) environment \<Rightarrow> on_chain_contract list \<Rightarrow> 'v detailed_version \<Rightarrow> 'input
     \<Rightarrow> (verify_error, 'json verifying_contract list list) result option" where
  "compile_and_verify env to_verify version input =
     bind_opt (compile env version input) (\<lambda>compilation. verify_all (env_abi env) compilation to_verify)"

section \<open>Artifacts are kept in order\<close>

lemma bind_opt_Ok_iff: "bind_opt r f = Some (Ok y) \<longleftrightarrow> (\<exists>x. r = Some (Ok x) \<and> f x = Some (Ok y))"
  by (auto simp: bind_opt_def split: option.splits sum.splits)

lemma artifacts_loop_sorted:
  "artifacts_loop hex ids cs m = Some (Ok arts) \<Longrightarrow> sorted_wrt (<) (map fst m) \<Longrightarrow> sorted_wrt (<) (map fst arts)"
proof (induction hex ids cs m rule: artifacts_loop.induct)
  case (2 hex ids name c rest m)
  from 2(2) obtain a where a: "generate_contract_artifacts hex ids c = Some (Ok a)"
    and rest: "artifacts_loop hex ids rest (btree_insert name a m) = Some (Ok arts)"
    by (auto split: option.splits sum.splits)
  from 2(1)[OF a refl rest btree_insert_sorted[OF 2(3)]] show ?case .
qed simp

lemma sorted_keys_distinct: "sorted_wrt (<) (map fst (m :: ('k :: linorder \<times> 'a) list)) \<Longrightarrow> distinct (map fst m)"
  by (simp add: strict_sorted_iff)

lemma generated_names_distinct:
  "generate_per_contract_artifacts env out = Some (Ok arts) \<Longrightarrow> distinct (map fst arts)"
  by (auto simp: generate_per_contract_artifacts_def split: sum.splits intro!: sorted_keys_distinct dest!: artifacts_loop_sorted)

definition regular :: "'json compiled_contract_artifacts \<Rightarrow> bool" where
  "regular a \<longleftrightarrow> length (rc_creation (cc_code a)) < 2 ^ 32 \<and> length (rc_runtime (cc_code a)) < 2 ^ 32
     \<and> distinct_ids None (cca_link_references (cc_creation_code_artifacts a)) None
     \<and> distinct_ids None (rca_link_references (cc_runtime_code_artifacts a)) (rca_immutable_references (cc_runtime_code_artifacts a))"

definition matchable :: "'json compiled_contract_artifacts \<Rightarrow> bool" where
  "matchable a \<longleftrightarrow>
     distinct_ids (cca_cbor_auxdata (cc_creation_code_artifacts a)) (cca_link_references (cc_creation_code_artifacts a)) None
     \<and> distinct_ids (rca_cbor_auxdata (cc_runtime_code_artifacts a)) (rca_link_references (cc_runtime_code_artifacts a))
         (rca_immutable_references (cc_runtime_code_artifacts a))"

lemma append_one_matchable:
  assumes "append_one env language a modified = Some (Ok b)" "regular a"
  shows "matchable b"
proof -
  let ?search = "retrieve_cbor_auxdata (env_metadata_hash_from_cbor env) (env_auxdata_from_cbor env) language"
  from assms(1) obtain ca ra where
    ca: "?search (rc_creation (cc_code a)) (rc_creation (cc_code modified)) = Some (Ok ca)"
    and ra: "?search (rc_runtime (cc_code a)) (rc_runtime (cc_code modified)) = Some (Ok ra)"
    and b: "b = a\<lparr>cc_creation_code_artifacts := (cc_creation_code_artifacts a)\<lparr>cca_cbor_auxdata := ca\<rparr>,
                 cc_runtime_code_artifacts := (cc_runtime_code_artifacts a)\<lparr>rca_cbor_auxdata := ra\<rparr>\<rparr>"
    by (auto simp: append_one_def split: option.splits sum.splits)
  from ca assms(2) obtain cs where "ca = Some cs" "distinct (map fst cs)"
    by (auto simp: regular_def collected_def elim: retrieved_sections)
  moreover from ra assms(2) obtain rs where "ra = Some rs" "distinct (map fst rs)"
    by (auto simp: regular_def collected_def elim: retrieved_sections)
  ultimately show ?thesis using assms(2) by (simp add: b matchable_def regular_def distinct_ids_def)
qed

lemma append_cbor_auxdata_entries:
  "append_cbor_auxdata env language arts modified = Some (Ok arts') \<Longrightarrow>
     map fst arts' = map fst arts \<and> ((\<forall>(n, a) \<in> set arts. regular a) \<longrightarrow> (\<forall>(n, a) \<in> set arts'. matchable a))"
proof (induction arts arbitrary: arts')
  case (Cons e arts)
  obtain n a where e: "e = (n, a)" by (cases e)
  from Cons.prems e obtain m b rest where "append_one env language a m = Some (Ok b)" "arts' = (n, b) # rest"
    "append_cbor_auxdata env language arts modified = Some (Ok rest)"
    by (auto simp: try_bind_Ok_iff split: option.splits sum.splits)
  with Cons.IH[of rest] append_one_matchable[of env language a m b] e show ?case by auto
qed simp

lemma internal_Ok_iff: "internal r = Ok x \<longleftrightarrow> r = Ok x"
  by (auto simp: internal_def split: sum.splits)

lemma compiler_output:
  "compile_twice env version input = Ok (v, i, out, modified) \<Longrightarrow> \<exists>raw. env_raw_output env raw = Ok out"
  by (auto simp: compile_twice_def run_compiler_def internal_Ok_iff try_bind_Ok_iff Let_def)

lemma compiled_artifacts:
  assumes "compile env version input = Some (Ok compilation)"
    and "\<And>raw out arts. env_raw_output env raw = Ok out \<Longrightarrow> generate_per_contract_artifacts env out = Some (Ok arts)
      \<Longrightarrow> \<forall>(n, a) \<in> set arts. regular a"
  shows "distinct (map fst (cr_artifacts compilation)) \<and> (\<forall>(n, a) \<in> set (cr_artifacts compilation). matchable a)"
proof -
  from assms(1) obtain raw out arts modified language where raw: "env_raw_output env raw = Ok out"
    and gen: "generate_per_contract_artifacts env out = Some (Ok arts)"
    and app: "append_cbor_auxdata env language arts modified = Some (Ok (cr_artifacts compilation))"
    unfolding compile_def bind_opt_Ok_iff
    by (auto simp: bind_opt_Ok_iff dest: compiler_output)
  from append_cbor_auxdata_entries[OF app] generated_names_distinct[OF gen] assms(2)[OF raw gen] show ?thesis by simp
qed

section \<open>What a reported contract says\<close>

lemma matches_of_result:
  "matches_of (matches_to_verification_result r c) = (if r = None \<and> c = None then None else Some (r, c))"
  by (cases r; cases c) auto

lemma process_verify_code_result_Ok: "process_verify_code_result (Ok (Some m)) = Some m"
  by (simp add: process_verify_code_result_def)

lemma process_verify_code_result_Some: "process_verify_code_result r = Some m \<longleftrightarrow> r = Ok (Some m)"
  by (auto simp: process_verify_code_result_def split: sum.splits option.splits)

lemma verify_contract_matches:
  assumes "verify_contract lib on_chain recompiled abi ca ra = Some r" "matches_of r = Some (rm, cm)"
  shows "(rm \<noteq> None \<or> cm \<noteq> None)
    \<and> (\<forall>m. rm = Some m \<longrightarrow> (\<exists>c. oc_runtime on_chain = Some c \<and> verify_runtime_code c (rc_runtime recompiled) ra = Some (Ok (Some m))))
    \<and> (\<forall>m. cm = Some m \<longrightarrow> (\<exists>c. oc_creation on_chain = Some c \<and> verify_creation_code lib c (rc_creation recompiled) ca abi = Some (Ok (Some m))))"
  using assms
  by (auto simp: verify_contract_def matches_of_result process_verify_code_result_Some process_verify_code_result_Ok
      split: if_splits option.splits)

lemma verify_blueprint_matches:
  assumes "verify_blueprint_contract initcode recompiled ca = Some r" "matches_of r = Some (rm, cm)"
  shows "rm = cm \<and> (\<exists>m. cm = Some m \<and> verify_blueprint_initcode initcode (rc_creation recompiled) ca = Some (Ok (Some m)))"
proof -
  from assms(1) obtain v where v: "verify_blueprint_initcode initcode (rc_creation recompiled) ca = Some v"
    and r: "r = matches_to_verification_result (process_verify_code_result v) (process_verify_code_result v)"
    by (auto simp: verify_blueprint_contract_def Let_def)
  from assms(2) have "rm = process_verify_code_result v" "cm = process_verify_code_result v" "process_verify_code_result v \<noteq> None"
    unfolding r matches_of_result by (auto split: if_splits)
  with v show ?thesis by (auto simp: process_verify_code_result_Some)
qed

lemma verify_loop_reports:
  "verify_loop lib contract compilation bp arts = Some vs \<Longrightarrow> vc \<in> set vs \<Longrightarrow>
     (\<And>n a. (n, a) \<in> set arts \<Longrightarrow> map_of (cr_artifacts compilation) n = Some a) \<Longrightarrow>
     \<exists>a r. (vc_fully_qualified_name vc, a) \<in> set arts \<and> verify_artifacts lib contract bp a = Some r
       \<and> matches_of r = Some (vc_runtime_match vc, vc_creation_match vc) \<and> vc_is_blueprint vc = (bp \<noteq> None)
       \<and> vc_creation_code vc = rc_creation (cc_code a) \<and> vc_runtime_code vc = rc_runtime (cc_code a)"
proof (induction arts arbitrary: vs)
  case (Cons e arts)
  obtain n a where e: "e = (n, a)" by (cases e)
  have arts: "map_of (cr_artifacts compilation) n = Some a" using Cons.prems(3) e by simp
  from Cons.prems(1) e obtain r success rest where r: "verify_artifacts lib contract bp a = Some r"
    and p: "process_verify_contract_result compilation n r (bp \<noteq> None) = Some success"
    and rest: "verify_loop lib contract compilation bp arts = Some rest"
    and vs: "vs = (case success of None \<Rightarrow> rest | Some v \<Rightarrow> v # rest)"
    by (auto split: option.splits)
  show ?case
  proof (cases "vc \<in> set rest")
    case True
    with Cons.IH[OF rest] Cons.prems(3) show ?thesis by fastforce
  next
    case False
    with vs Cons.prems(2) have "success = Some vc" by (auto split: option.splits)
    with p arts have "vc_fully_qualified_name vc = n" "matches_of r = Some (vc_runtime_match vc, vc_creation_match vc)"
      "vc_is_blueprint vc = (bp \<noteq> None)" "vc_creation_code vc = rc_creation (cc_code a)" "vc_runtime_code vc = rc_runtime (cc_code a)"
      by (auto simp: process_verify_contract_result_def split: option.splits)
    with r e show ?thesis by auto
  qed
qed simp

lemma from_creation_code_initcode:
  "from_creation_code code = Some (Some bp) \<Longrightarrow> from_runtime_code (drop 10 code) = Some (Some bp)"
  by (auto simp: from_creation_code_def Let_def split: if_splits)

definition is_blueprint_of :: "bytes \<Rightarrow> bytes \<Rightarrow> bool" where
  "is_blueprint_of initcode code \<longleftrightarrow> (\<exists>n preamble. code = encode_blueprint n preamble initcode)"

lemma from_runtime_code_blueprint: "from_runtime_code code = Some (Some bp) \<Longrightarrow> is_blueprint_of (bp_initcode bp) code"
  unfolding is_blueprint_of_def
  by (erule decoded_blueprint_is_encoded) (metis blueprint_contract.select_convs(3))

lemma extracted_initcode:
  assumes "try_extract_blueprint_initcode contract = Some (Ok (Some initcode))"
  shows "(\<forall>c. oc_runtime (occ_code contract) = Some c \<longrightarrow> is_blueprint_of initcode c)
    \<and> (\<forall>c. oc_creation (occ_code contract) = Some c \<longrightarrow> is_blueprint_of initcode (drop 10 c))"
  using assms from_runtime_code_blueprint from_creation_code_initcode
  by (auto simp: try_extract_blueprint_initcode_def initcode_of_def split: option.splits if_splits)

text \<open>The match, replayed on the recompiled code, gives the code.\<close>

definition gives :: "code_match \<Rightarrow> bytes \<Rightarrow> bytes \<Rightarrow> bool" where
  "gives m compiled code \<longleftrightarrow> replay (m_values m) (m_transformations m) compiled = Some code"

definition reproduces :: "on_chain_contract \<Rightarrow> 'json verifying_contract \<Rightarrow> bool" where
  "reproduces contract vc \<longleftrightarrow>
     (if vc_is_blueprint vc
      then vc_runtime_match vc = vc_creation_match vc \<and>
        (\<exists>m initcode. vc_creation_match vc = Some m \<and> gives m (vc_creation_code vc) initcode
           \<and> (\<forall>c. oc_runtime (occ_code contract) = Some c \<longrightarrow> is_blueprint_of initcode c)
           \<and> (\<forall>c. oc_creation (occ_code contract) = Some c \<longrightarrow> is_blueprint_of initcode (drop 10 c)))
      else (vc_runtime_match vc \<noteq> None \<or> vc_creation_match vc \<noteq> None)
        \<and> (\<forall>m. vc_runtime_match vc = Some m \<longrightarrow> (\<exists>c. oc_runtime (occ_code contract) = Some c \<and> gives m (vc_runtime_code vc) c))
        \<and> (\<forall>m. vc_creation_match vc = Some m \<longrightarrow> (\<exists>c. oc_creation (occ_code contract) = Some c \<and> gives m (vc_creation_code vc) c)))"

lemma verified_contract_reproduces:
  assumes run: "verify_on_chain_contract lib contract compilation = Some (Ok vs)" and vc: "vc \<in> set vs"
    and arts: "distinct (map fst (cr_artifacts compilation))" "\<forall>(n, a) \<in> set (cr_artifacts compilation). matchable a"
  shows "reproduces contract vc \<and> vc_fully_qualified_name vc \<in> fst ` set (cr_artifacts compilation)"
proof -
  from run obtain bp where bp: "try_extract_blueprint_initcode contract = Some (Ok bp)"
    and loop: "verify_loop lib contract compilation bp (cr_artifacts compilation) = Some vs"
    by (auto simp: verify_on_chain_contract_def bind_opt_Ok_iff)
  have "(n, a) \<in> set (cr_artifacts compilation) \<Longrightarrow> map_of (cr_artifacts compilation) n = Some a" for n a
    using arts(1) by simp
  from verify_loop_reports[OF loop vc this] obtain a r where a: "(vc_fully_qualified_name vc, a) \<in> set (cr_artifacts compilation)"
    and r: "verify_artifacts lib contract bp a = Some r" "matches_of r = Some (vc_runtime_match vc, vc_creation_match vc)"
    and codes: "vc_is_blueprint vc = (bp \<noteq> None)" "vc_creation_code vc = rc_creation (cc_code a)" "vc_runtime_code vc = rc_runtime (cc_code a)"
    by blast
  have ok: "matchable a" using a arts(2) by auto
  have "reproduces contract vc"
  proof (cases bp)
    case None
    have v: "verify_contract lib (occ_code contract) (cc_code a) (ca_abi (cc_compilation_artifacts a))
        (cc_creation_code_artifacts a) (cc_runtime_code_artifacts a) = Some r"
      using r(1) None by (simp add: verify_artifacts_def)
    have blueprint: "\<not> vc_is_blueprint vc" using codes(1) None by simp
    note replays = runtime_match_replays[OF _ conjunct2[OF ok[unfolded matchable_def]]]
      creation_match_replays[OF _ conjunct1[OF ok[unfolded matchable_def]]]
    show ?thesis
      using verify_contract_matches[OF v r(2)] replays unfolding reproduces_def gives_def codes(2,3) if_not_P[OF blueprint] by blast
  next
    case (Some initcode)
    from ok have ids: "distinct_ids (cca_cbor_auxdata (cc_creation_code_artifacts a)) None None"
      by (simp add: matchable_def distinct_ids_def)
    have "verify_blueprint_contract initcode (cc_code a) (cc_creation_code_artifacts a) = Some r"
      using r(1) Some by (simp add: verify_artifacts_def)
    from verify_blueprint_matches[OF this r(2)] obtain m where "vc_runtime_match vc = vc_creation_match vc" "vc_creation_match vc = Some m"
      "gives m (vc_creation_code vc) initcode"
      using codes(2) blueprint_match_replays[OF _ ids] by (auto simp: gives_def)
    with extracted_initcode[OF bp[unfolded Some]] codes(1) Some show ?thesis by (auto simp: reproduces_def)
  qed
  with a show ?thesis by force
qed

lemma verify_all_entries:
  "verify_all lib compilation contracts = Some (Ok rs) \<Longrightarrow>
     list_all2 (\<lambda>contract r. verify_on_chain_contract lib contract compilation = Some (Ok r)) contracts rs"
  by (induction contracts arbitrary: rs) (auto simp: bind_opt_Ok_iff)

section \<open>Properties\<close>

text \<open>C1: Verification from end to end. Every contract that is reported for a request comes with matches
  that reproduce the chain: replayed on the recompiled code, a runtime match gives exactly the
  runtime code and a creation match exactly the creation code of the contract; for a blueprint, the
  matches are one match of the creation code that gives an init code of which both codes on chain are
  the blueprint. There is one list of reports per requested contract, in the order of the request. It
  is assumed of the compiler that it names no library and no immutable twice and that its codes are
  shorter than four gigabytes.\<close>

theorem reported_contracts_reproduce_the_chain:
  assumes run: "compile_and_verify env to_verify version input = Some (Ok results)"
    and compiler: "\<And>raw out arts. env_raw_output env raw = Ok out \<Longrightarrow> generate_per_contract_artifacts env out = Some (Ok arts)
      \<Longrightarrow> \<forall>(n, a) \<in> set arts. regular a"
  shows "length results = length to_verify \<and>
    (\<forall>i < length to_verify. \<forall>vc \<in> set (results ! i). reproduces (to_verify ! i) vc)"
proof -
  from run obtain compilation where c: "compile env version input = Some (Ok compilation)"
    and all: "verify_all (env_abi env) compilation to_verify = Some (Ok results)"
    by (auto simp: compile_and_verify_def bind_opt_Ok_iff)
  have arts: "distinct (map fst (cr_artifacts compilation)) \<and> (\<forall>(n, a) \<in> set (cr_artifacts compilation). matchable a)"
    by (rule compiled_artifacts[OF c]) (rule compiler)
  from verify_all_entries[OF all] arts show ?thesis
    by (auto simp: list_all2_conv_all_nth dest: verified_contract_reproduces)
qed

text \<open>One contract with one immutable, whose two compilations agree.\<close>

definition sample_contract :: "unit contract_output" where
  "sample_contract = \<lparr>ct_abi = None, ct_userdoc = None, ct_devdoc = None, ct_storage_layout = None,
     ct_bytecode = \<lparr>bc_object = Bytecode [1, 2], bc_link_references = None\<rparr>,
     ct_deployed_bytecode = \<lparr>bc_object = Bytecode [3, 0], bc_link_references = None\<rparr>,
     ct_immutable_references = Some [(''7'', [\<lparr>off_start = 1, off_length = 1\<rparr>])]\<rparr>"

definition sample_output :: "unit shared_compiler_output" where
  "sample_output = \<lparr>co_contracts = [(''f'', [(''c'', sample_contract)])], co_sources = []\<rparr>"

definition sample_environment :: "(unit, unit, unit, unit, unit, unit) environment" where
  "sample_environment = \<lparr>env_all_versions = [Release () ''ab''], env_version_string = dv_commit, env_fetch_compiler = (\<lambda>_. Ok ()),
     env_run = (\<lambda>_ _ _. Ok ()), env_raw_errors = (\<lambda>_. Ok []), env_raw_output = (\<lambda>_. Ok sample_output),
     env_normalize_output_selection = (\<lambda>_ _. ()), env_modified_copy = (\<lambda>_. ()), env_language = (\<lambda>_. Solidity),
     env_settings = (\<lambda>_. ()), env_sources = (\<lambda>_. []), env_encode_source_ids = (\<lambda>_. Ok ()), env_hex_decode = (\<lambda>_. Err ''hex''),
     env_metadata_hash_from_cbor = (\<lambda>_. None), env_auxdata_from_cbor = (\<lambda>_. None),
     env_abi = \<lparr>abi_constructor = (\<lambda>_. Ok None), abi_decodes = (\<lambda>_ _. False)\<rparr>\<rparr>"

definition sample_on_chain :: on_chain_contract where
  "sample_on_chain = \<lparr>occ_code = \<lparr>oc_runtime = Some [3, 9], oc_creation = Some [1, 2]\<rparr>, occ_chain_id = None, occ_address = None\<rparr>"

definition sample_artifacts :: "unit compiled_contract_artifacts" where
  "sample_artifacts = \<lparr>cc_code = \<lparr>rc_runtime = [3, 0], rc_creation = [1, 2]\<rparr>,
     cc_compilation_artifacts = extract_compilation_artifacts () sample_contract,
     cc_creation_code_artifacts = extract_creation_code_artifacts sample_contract,
     cc_runtime_code_artifacts = extract_runtime_code_artifacts sample_contract\<rparr>"

lemma sample_generated:
  "generate_per_contract_artifacts sample_environment sample_output = Some (Ok [((''f'', ''c''), sample_artifacts)])"
  by (simp add: generate_per_contract_artifacts_def sample_environment_def generate_contract_artifacts_def sample_output_def
      extract_code_from_bytecode_def sample_contract_def sample_artifacts_def)

lemma no_mismatch: "mismatch_position c c n = None"
  by (auto simp: mismatch_position_def find_None_iff)

lemma retrieve_same: "retrieve_cbor_auxdata f g language c c = Some (Ok (Some []))"
  by (simp add: retrieve_cbor_auxdata_def no_mismatch add_cbor_auxdata_recursive.simps)

definition sample_appended :: "unit compiled_contract_artifacts" where
  "sample_appended = sample_artifacts\<lparr>
     cc_creation_code_artifacts := (cc_creation_code_artifacts sample_artifacts)\<lparr>cca_cbor_auxdata := Some []\<rparr>,
     cc_runtime_code_artifacts := (cc_runtime_code_artifacts sample_artifacts)\<lparr>rca_cbor_auxdata := Some []\<rparr>\<rparr>"

lemma sample_compiled:
  obtains compilation where "compile sample_environment (Release () ''a'') () = Some (Ok compilation)"
    "cr_artifacts compilation = [((''f'', ''c''), sample_appended)]"
proof -
  have "compile_twice sample_environment (Release () ''a'') () = Ok (Release () ''ab'', (), sample_output, sample_output)"
    by (simp add: compile_twice_def sample_environment_def normalize_compiler_version_def is_matching_version_def internal_def
        run_compiler_def validate_no_errors_def)
  then show thesis
    using that by (simp add: compile_def bind_opt_def sample_generated append_one_def retrieve_same sample_appended_def)
qed

lemma sample_matches:
  obtains r c where "verify_artifacts (env_abi sample_environment) sample_on_chain None sample_appended = Some (CompleteMatch r c)"
proof -
  have "\<exists>m. verify_runtime_code [3, 9] [3, 0] (cc_runtime_code_artifacts sample_appended) = Some (Ok (Some m))"
    by (simp add: verify_runtime_code_def build_match_def builder_new_def apply_runtime_code_transformations_def and_apply_def
        apply_cbor_auxdata_transformations_def apply_library_transformations_def apply_immutable_transformations_def
        sample_appended_def sample_artifacts_def extract_runtime_code_artifacts_def sample_contract_def
        slice_def copy_at_def push_def verify_and_build_def Let_def)
  moreover have "\<exists>m. verify_creation_code (env_abi sample_environment) [1, 2] [1, 2] (cc_creation_code_artifacts sample_appended) None
      = Some (Ok (Some m))"
    by (simp add: verify_creation_code_def build_match_def builder_new_def apply_creation_code_transformations_def and_apply_def
        apply_cbor_auxdata_transformations_def apply_library_transformations_def apply_constructor_transformation_def
        sample_appended_def sample_artifacts_def extract_creation_code_artifacts_def sample_contract_def
        verify_and_build_def Let_def)
  moreover have "ca_abi (cc_compilation_artifacts sample_appended) = None"
    "rc_runtime (cc_code sample_appended) = [3, 0]" "rc_creation (cc_code sample_appended) = [1, 2]"
    by (simp_all add: sample_appended_def sample_artifacts_def extract_compilation_artifacts_def sample_contract_def)
  ultimately show thesis
    using that by (auto simp: verify_artifacts_def verify_contract_def sample_on_chain_def process_verify_code_result_def)
qed

theorem reported_contracts_reproduce_the_chain_witness:
  "\<exists>vc. compile_and_verify sample_environment [sample_on_chain] (Release () ''a'') () = Some (Ok [[vc]])
     \<and> reproduces sample_on_chain vc \<and> vc_runtime_match vc \<noteq> None \<and> vc_creation_match vc \<noteq> None"
proof -
  obtain compilation where c: "compile sample_environment (Release () ''a'') () = Some (Ok compilation)"
    "cr_artifacts compilation = [((''f'', ''c''), sample_appended)]" by (rule sample_compiled)
  obtain r m where v: "verify_artifacts (env_abi sample_environment) sample_on_chain None sample_appended = Some (CompleteMatch r m)"
    by (rule sample_matches)
  have "try_extract_blueprint_initcode sample_on_chain = Some (Ok None)"
    by (simp add: try_extract_blueprint_initcode_def sample_on_chain_def from_creation_code_def from_runtime_code_def initcode_of_def)
  with c v obtain vc where run: "compile_and_verify sample_environment [sample_on_chain] (Release () ''a'') () = Some (Ok [[vc]])"
    and both: "vc_runtime_match vc = Some r" "vc_creation_match vc = Some m"
    by (simp add: compile_and_verify_def bind_opt_def verify_on_chain_contract_def process_verify_contract_result_def)
  have "\<forall>(n, a) \<in> set arts. regular a"
    if "env_raw_output sample_environment raw = Ok out" "generate_per_contract_artifacts sample_environment out = Some (Ok arts)" for raw out arts
  proof -
    have "out = sample_output" using that(1) by (simp add: sample_environment_def)
    with that(2) have "arts = [((''f'', ''c''), sample_artifacts)]" by (simp add: sample_generated)
    then show ?thesis
      by (simp add: regular_def sample_artifacts_def distinct_ids_def extract_creation_code_artifacts_def extract_runtime_code_artifacts_def sample_contract_def)
  qed
  from reported_contracts_reproduce_the_chain[OF run this] run both show ?thesis by auto
qed

end
