(* ===== verification/Bytecode_Db.thy ===== *)
theory Bytecode_Db
  imports Code_Blueprint "HOL-Library.Sublist"
begin

text \<open>
  The database of verified bytecodes
  (\<^verbatim>\<open>eth-bytecode-db/eth-bytecode-db/src\<close>, directories \<^verbatim>\<open>verification/db\<close> and \<^verbatim>\<open>search\<close>): storing a compiled
  source as parts of code, and searching the sources whose code a contract on chain matches.

  A table is the list of its rows with their ids and the sequence the ids come from; a unique index
  is the key that must not repeat. MD5, the hex encoding, the parser of metadata and the ABI library
  are parameters. Timestamps of rows are left out. \<open>None\<close> is a panic.
\<close>

section \<open>Tables\<close>

datatype part_type = MainPart | MetadataPart
datatype db_bytecode_type = CreationInput | DeployedBytecode
datatype source_type = SolidityType | VyperType | YulType

record part_row =
  pr_type :: part_type
  pr_data :: bytes
  pr_data_text :: string

record bytecode_row =
  br_source_id :: nat
  br_type :: db_bytecode_type

record ('json, 'h) source_row =
  sr_source_type :: source_type
  sr_compiler_version :: string
  sr_compiler_settings :: 'json
  sr_file_name :: string
  sr_contract_name :: string
  sr_raw_creation_input :: bytes
  sr_raw_deployed_bytecode :: bytes
  sr_abi :: "'json option"
  sr_file_ids_hash :: 'h
  sr_compilation_artifacts :: "'json option"
  sr_creation_input_artifacts :: "'json option"
  sr_deployed_bytecode_artifacts :: "'json option"

record 'r table =
  tb_rows :: "(nat \<times> 'r) list"
  tb_seq :: nat

record ('json, 'h) bytecode_db =
  db_files :: "(string \<times> string) table"
  db_sources :: "('json, 'h) source_row table"
  db_source_files :: "(nat \<times> nat) set"
  db_bytecodes :: "bytecode_row table"
  db_parts :: "part_row table"
  db_bytecode_parts :: "((nat \<times> nat) \<times> nat) list"

text \<open>
  The macro \<open>insert_then_select\<close> with an update on conflict: \<open>index\<close> is the unique index and \<open>columns\<close> what
  the conflicting row is selected by. An attempt to insert always advances the sequence.
\<close>

definition insert_then_select ::
  "('r \<Rightarrow> 'k) \<Rightarrow> ('r \<Rightarrow> 'c) \<Rightarrow> 'r \<Rightarrow> 'r table \<Rightarrow> (string, (nat \<times> 'r) \<times> bool \<times> 'r table) result" where
  "insert_then_select index columns r t =
     (if index r \<in> index ` snd ` set (tb_rows t)
      then case find (\<lambda>(i, r'). columns r' = columns r) (tb_rows t) of
             None \<Rightarrow> Err ''select by unique columns returned no data''
           | Some (i, _) \<Rightarrow>
               Ok ((i, r), False, \<lparr>tb_rows = map (\<lambda>(j, r'). if j = i then (j, r) else (j, r')) (tb_rows t), tb_seq = tb_seq t + 1\<rparr>)
      else Ok ((tb_seq t, r), True, \<lparr>tb_rows = tb_rows t @ [(tb_seq t, r)], tb_seq = tb_seq t + 1\<rparr>))"

section \<open>Storing a source\<close>

datatype bytecode_part = Main (part_data: bytes) | Meta (part_data: bytes)

fun part_type_of :: "bytecode_part \<Rightarrow> part_type" where
  "part_type_of (Main _) = MainPart"
| "part_type_of (Meta _) = MetadataPart"

record 'json database_ready_source =
  ds_file_name :: string
  ds_contract_name :: string
  ds_compiler_version :: string
  ds_compiler_settings :: 'json
  ds_source_type :: source_type
  ds_source_files :: "(string \<times> string) list"
  ds_abi :: "'json option"
  ds_compilation_artifacts :: "'json option"
  ds_creation_code_artifacts :: "'json option"
  ds_runtime_code_artifacts :: "'json option"
  ds_raw_creation_code :: bytes
  ds_raw_runtime_code :: bytes
  ds_creation_input_parts :: "bytecode_part list"
  ds_deployed_bytecode_parts :: "bytecode_part list"

text \<open>What the database computes: MD5 of texts, bytes, settings and lists of ids, and the hex encoding.\<close>

record ('json, 'h) db_lib =
  md5_text :: "string \<Rightarrow> 'h"
  md5_bytes :: "bytes \<Rightarrow> 'h"
  md5_json :: "'json \<Rightarrow> 'h"
  md5_ids :: "nat list \<Rightarrow> 'h"
  hex_encode :: "bytes \<Rightarrow> string"

fun insert_files ::
  "('json, 'h) db_lib \<Rightarrow> (string \<times> string) list \<Rightarrow> (string \<times> string) table \<Rightarrow> (string, nat list \<times> (string \<times> string) table) result" where
  "insert_files lib [] t = Ok ([], t)"
| "insert_files lib ((name, content) # rest) t =
     try_bind (insert_then_select (\<lambda>(n, c). (n, md5_text lib c)) id (name, content) t) (\<lambda>((i, _), _, t).
     try_bind (insert_files lib rest t) (\<lambda>(ids, t). Ok (i # ids, t)))"

definition insert_source_details ::
  "('json, 'h) db_lib \<Rightarrow> 'json database_ready_source \<Rightarrow> nat list \<Rightarrow> ('json, 'h) source_row table
     \<Rightarrow> (string, (nat \<times> ('json, 'h) source_row) \<times> bool \<times> ('json, 'h) source_row table) result" where
  "insert_source_details lib s file_ids t =
     insert_then_select
       (\<lambda>r. (sr_compiler_version r, md5_json lib (sr_compiler_settings r), sr_file_name r, sr_contract_name r, sr_file_ids_hash r))
       (\<lambda>r. (sr_compiler_version r, sr_compiler_settings r, sr_file_name r, sr_contract_name r, sr_file_ids_hash r))
       \<lparr>sr_source_type = ds_source_type s, sr_compiler_version = ds_compiler_version s, sr_compiler_settings = ds_compiler_settings s,
        sr_file_name = ds_file_name s, sr_contract_name = ds_contract_name s, sr_raw_creation_input = ds_raw_creation_code s,
        sr_raw_deployed_bytecode = ds_raw_runtime_code s, sr_abi = ds_abi s,
        sr_file_ids_hash = md5_ids lib (sorted_list_of_set (set file_ids)), sr_compilation_artifacts = ds_compilation_artifacts s,
        sr_creation_input_artifacts = ds_creation_code_artifacts s, sr_deployed_bytecode_artifacts = ds_runtime_code_artifacts s\<rparr> t"

definition insert_source_files :: "nat \<Rightarrow> nat list \<Rightarrow> (nat \<times> nat) set \<Rightarrow> (nat \<times> nat) set" where
  "insert_source_files source_id file_ids t = t \<union> {source_id} \<times> set file_ids"

definition insert_bytecode_part :: "nat \<Rightarrow> nat \<Rightarrow> nat \<Rightarrow> ((nat \<times> nat) \<times> nat) list \<Rightarrow> ((nat \<times> nat) \<times> nat) list" where
  "insert_bytecode_part bytecode_id order part_id t =
     (if (bytecode_id, order) \<in> fst ` set t then t else t @ [((bytecode_id, order), part_id)])"

fun insert_parts ::
  "('json, 'h) db_lib \<Rightarrow> nat \<Rightarrow> nat \<Rightarrow> bytecode_part list \<Rightarrow> ('json, 'h) bytecode_db \<Rightarrow> (string, ('json, 'h) bytecode_db) result" where
  "insert_parts lib bytecode_id order [] db = Ok db"
| "insert_parts lib bytecode_id order (part # rest) db =
     try_bind (insert_then_select (\<lambda>r. (pr_type r, md5_bytes lib (pr_data r))) (\<lambda>r. (pr_data r, pr_type r))
       \<lparr>pr_type = part_type_of part, pr_data = part_data part, pr_data_text = hex_encode lib (part_data part)\<rparr> (db_parts db))
       (\<lambda>((part_id, _), _, parts).
          insert_parts lib bytecode_id (order + 1) rest
            (db\<lparr>db_parts := parts, db_bytecode_parts := insert_bytecode_part bytecode_id order part_id (db_bytecode_parts db)\<rparr>))"

definition insert_bytecodes ::
  "('json, 'h) db_lib \<Rightarrow> nat \<Rightarrow> bytecode_part list \<Rightarrow> db_bytecode_type \<Rightarrow> ('json, 'h) bytecode_db
     \<Rightarrow> (string, ('json, 'h) bytecode_db) result" where
  "insert_bytecodes lib source_id parts bytecode_type db =
     try_bind (insert_then_select (\<lambda>r. (br_source_id r, br_type r)) (\<lambda>r. (br_source_id r, br_type r))
       \<lparr>br_source_id = source_id, br_type = bytecode_type\<rparr> (db_bytecodes db))
       (\<lambda>((bytecode_id, _), _, bytecodes). insert_parts lib bytecode_id 0 parts (db\<lparr>db_bytecodes := bytecodes\<rparr>))"

definition insert_all ::
  "('json, 'h) db_lib \<Rightarrow> 'json database_ready_source \<Rightarrow> ('json, 'h) bytecode_db \<Rightarrow> (string, nat \<times> bool \<times> ('json, 'h) bytecode_db) result" where
  "insert_all lib s db =
     try_bind (insert_files lib (ds_source_files s) (db_files db)) (\<lambda>(file_ids, files).
     try_bind (insert_source_details lib s file_ids (db_sources db)) (\<lambda>((source_id, _), inserted, sources).
     let db = db\<lparr>db_files := files, db_sources := sources\<rparr> in
     if \<not> inserted then Ok (source_id, False, db)
     else
       try_bind (insert_bytecodes lib source_id (ds_creation_input_parts s) CreationInput
         (db\<lparr>db_source_files := insert_source_files source_id file_ids (db_source_files db)\<rparr>)) (\<lambda>db.
       try_bind (insert_bytecodes lib source_id (ds_deployed_bytecode_parts s) DeployedBytecode db) (\<lambda>db.
       Ok (source_id, True, db)))))"

text \<open>The transaction: an error rolls back.\<close>

definition insert_data ::
  "('json, 'h) db_lib \<Rightarrow> 'json database_ready_source \<Rightarrow> ('json, 'h) bytecode_db \<Rightarrow> (string, nat) result \<times> ('json, 'h) bytecode_db" where
  "insert_data lib s db = (case insert_all lib s db of Inl e \<Rightarrow> (Err e, db) | Inr (source_id, _, db') \<Rightarrow> (Ok source_id, db'))"

section \<open>Comparing a code with a stored one\<close>

datatype match_type = Partial | Full

text \<open>The parser of metadata returns the metadata and its length, or an error; a metadata may name the compiler.\<close>

record ('meta, 'v) metadata_lib =
  metadata_from_cbor :: "bytes \<Rightarrow> (string, 'meta \<times> nat) result"
  metadata_solc :: "'meta \<Rightarrow> 'v option"

datatype 'meta local_part =
    LocalMain (part_raw: bytes)
  | LocalMetadata (part_raw: bytes) (part_metadata: 'meta) (metadata_length_raw: bytes)

datatype 'v compare_error =
    BytecodeLengthMismatch "nat \<times> nat" "bytes \<times> bytes"
  | BytecodeMismatch "bytes \<times> bytes" "bytes \<times> bytes"
  | MetadataParse string
  | CompilerVersionMismatch "'v \<times> 'v"
  | InvalidConstructorArguments bytes

definition local_part_of :: "('meta, 'v) metadata_lib \<Rightarrow> part_row \<Rightarrow> (string, 'meta local_part) result option" where
  "local_part_of ml part =
     (case pr_type part of
        MainPart \<Rightarrow> Some (Ok (LocalMain (pr_data part)))
      | MetadataPart \<Rightarrow>
          (case metadata_from_cbor ml (pr_data part) of
             Inl e \<Rightarrow> Some (Err e)
           | Inr (metadata, len) \<Rightarrow>
               (case slice (pr_data part) len (length (pr_data part)) of
                  None \<Rightarrow> None
                | Some rest \<Rightarrow> Some (Ok (LocalMetadata (pr_data part) metadata rest)))))"

fun local_bytecode_new :: "('meta, 'v) metadata_lib \<Rightarrow> part_row list \<Rightarrow> (string, 'meta local_part list) result option" where
  "local_bytecode_new ml [] = Some (Ok [])"
| "local_bytecode_new ml (part # rest) =
     (case local_part_of ml part of
        None \<Rightarrow> None
      | Some (Inl e) \<Rightarrow> Some (Err e)
      | Some (Inr p) \<Rightarrow> map_option (\<lambda>r. try_bind r (\<lambda>ps. Ok (p # ps))) (local_bytecode_new ml rest))"

definition raw_bytecode :: "'meta local_part list \<Rightarrow> bytes" where
  "raw_bytecode parts = concat (map part_raw parts)"

fun compare_parts_loop ::
  "('meta, 'v) metadata_lib \<Rightarrow> bytes \<Rightarrow> bytes \<Rightarrow> 'meta local_part list \<Rightarrow> nat \<Rightarrow> ('v compare_error, unit) result option" where
  "compare_parts_loop ml remote local [] i = Some (Ok ())"
| "compare_parts_loop ml remote local (LocalMain raw # rest) i =
     (case slice remote i (i + length raw) of
        None \<Rightarrow> None
      | Some found \<Rightarrow>
          if raw \<noteq> found then Some (Err (BytecodeMismatch (raw, found) (local, remote)))
          else compare_parts_loop ml remote local rest (i + length raw))"
| "compare_parts_loop ml remote local (LocalMetadata raw metadata len_raw # rest) i =
     (if length remote < i then None
      else case metadata_from_cbor ml (drop i remote) of
        Inl e \<Rightarrow> Some (Err (MetadataParse e))
      | Inr (remote_metadata, remote_len) \<Rightarrow>
          let start_index = i + remote_len in
          if length remote \<le> start_index then Some (Err (MetadataParse ''metadata doesn't have encoded length''))
          else case slice remote start_index (start_index + 2) of
            None \<Rightarrow> None
          | Some found \<Rightarrow>
              if found \<noteq> len_raw then Some (Err (MetadataParse ''metadata length mismatch''))
              else case (metadata_solc ml metadata, metadata_solc ml remote_metadata) of
                (Some v, Some w) \<Rightarrow>
                  if v \<noteq> w then Some (Err (CompilerVersionMismatch (v, w)))
                  else compare_parts_loop ml remote local rest (i + length raw)
              | _ \<Rightarrow> compare_parts_loop ml remote local rest (i + length raw))"

fun is_metadata :: "'meta local_part \<Rightarrow> bool" where
  "is_metadata (LocalMain _) = False"
| "is_metadata (LocalMetadata _ _ _) = True"

definition compare_bytecode ::
  "('meta, 'v) metadata_lib \<Rightarrow> bytes \<Rightarrow> 'meta local_part list \<Rightarrow> ('v compare_error, match_type) result option" where
  "compare_bytecode ml remote parts =
     (let local = raw_bytecode parts in
      if prefix local remote then Some (Ok (if \<not> list_ex is_metadata parts then Partial else Full))
      else if length remote < length local
      then Some (Err (BytecodeLengthMismatch (length local, length remote) (local, remote)))
      else map_option (\<lambda>r. try_bind r (\<lambda>_. Ok Partial)) (compare_parts_loop ml remote local parts 0))"

text \<open>The constructor of an ABI is the number of its inputs and whether a code decodes as them.\<close>

record ('json, 'ctor) ctor_lib =
  get_constructor :: "'json option \<Rightarrow> (string, 'ctor option) result"
  ctor_inputs :: "'ctor \<Rightarrow> nat"
  ctor_decodes :: "'ctor \<Rightarrow> bytes \<Rightarrow> bool"
  parse_libraries :: "'json \<Rightarrow> (string, (string \<times> (string \<times> string) list) list option) result"
  json_string :: "'json \<Rightarrow> string"

definition extract_constructor_args ::
  "('json, 'ctor) ctor_lib \<Rightarrow> bytes \<Rightarrow> bytes \<Rightarrow> 'ctor option \<Rightarrow> bool \<Rightarrow> ('v compare_error, bytes option) result option" where
  "extract_constructor_args cl remote local ctor is_creation_input =
     (case slice remote (length local) (length remote) of
        None \<Rightarrow> None
      | Some args \<Rightarrow>
          let expects = is_creation_input \<and> (case ctor of None \<Rightarrow> 0 | Some c \<Rightarrow> ctor_inputs cl c) > 0 in
          if args = [] then Some (if expects then Err (InvalidConstructorArguments []) else Ok None)
          else if \<not> expects then Some (Err (InvalidConstructorArguments args))
          else case ctor of
            None \<Rightarrow> None
          | Some c \<Rightarrow> Some (if ctor_decodes cl c args then Ok (Some args) else Err (InvalidConstructorArguments args)))"

section \<open>Searching\<close>

datatype remote_bytecode_type = CreationCode | RuntimeCode | CreationCodeWithoutConstructor

record bytecode_remote =
  re_bytecode_type :: remote_bytecode_type
  re_data :: bytes

fun remote_type_of :: "db_bytecode_type \<Rightarrow> remote_bytecode_type" where
  "remote_type_of CreationInput = CreationCode"
| "remote_type_of DeployedBytecode = RuntimeCode"

fun db_type_of :: "remote_bytecode_type \<Rightarrow> db_bytecode_type" where
  "db_type_of CreationCode = CreationInput"
| "db_type_of CreationCodeWithoutConstructor = CreationInput"
| "db_type_of RuntimeCode = DeployedBytecode"

text \<open>The two halves of the SQL query, the first of which uses the index on the first 150 characters.
  The text of a part is hex digits only, so that the pattern of \<open>LIKE\<close> is a prefix.\<close>

definition find_part_id_candidates :: "string \<Rightarrow> part_row table \<Rightarrow> nat list" where
  "find_part_id_candidates data parts =
     map fst (filter (\<lambda>(i, r).
       (length (pr_data_text r) \<ge> 150 \<and> take 150 data = take 150 (pr_data_text r) \<and> pr_type r = MainPart \<and> prefix (pr_data_text r) data)
       \<or> (length (pr_data_text r) < 150 \<and> prefix (pr_data_text r) data \<and> pr_type r = MainPart)) (tb_rows parts))"

definition parts_of :: "('json, 'h) bytecode_db \<Rightarrow> nat \<Rightarrow> part_row list" where
  "parts_of db bytecode_id =
     List.map_filter (\<lambda>(_, part_id). map_of (tb_rows (db_parts db)) part_id)
       (sort_key (snd \<circ> fst) (filter (\<lambda>((b, _), _). b = bytecode_id) (db_bytecode_parts db)))"

definition find_bytecode_candidates ::
  "('json, 'h) db_lib \<Rightarrow> ('json, 'h) bytecode_db \<Rightarrow> bytecode_remote \<Rightarrow> (bytecode_row \<times> part_row list) list" where
  "find_bytecode_candidates lib db remote =
     (let part_ids = find_part_id_candidates (hex_encode lib (re_data remote)) (db_parts db);
          bytecode_ids = map fst (filter (\<lambda>(b, row). br_type row = db_type_of (re_bytecode_type remote) \<and>
            (\<exists>((b', order), p) \<in> set (db_bytecode_parts db). b' = b \<and> order = 0 \<and> p \<in> set part_ids)) (tb_rows (db_bytecodes db)))
      in map (\<lambda>(b, row). (row, parts_of db b)) (filter (\<lambda>(b, row). b \<in> set bytecode_ids) (tb_rows (db_bytecodes db))))"

definition is_match ::
  "('meta, 'v) metadata_lib \<Rightarrow> part_row list \<Rightarrow> bytes \<Rightarrow> ('v compare_error, match_type) result option" where
  "is_match ml parts remote =
     (case local_bytecode_new ml parts of
        Some (Inr local) \<Rightarrow> compare_bytecode ml remote local
      | _ \<Rightarrow> None)"

fun filter_candidates ::
  "('meta, 'v) metadata_lib \<Rightarrow> bytes \<Rightarrow> (bytecode_row \<times> part_row list) list \<Rightarrow> (bytecode_row \<times> match_type) list option" where
  "filter_candidates ml remote [] = Some []"
| "filter_candidates ml remote ((b, parts) # rest) =
     (case is_match ml parts remote of
        None \<Rightarrow> None
      | Some r \<Rightarrow>
          map_option (\<lambda>rest. (case r of Inl _ \<Rightarrow> rest | Inr match_type \<Rightarrow> (b, match_type) # rest))
            (filter_candidates ml remote rest))"

record 'json match_contract =
  mc_file_name :: string
  mc_contract_name :: string
  mc_compiler_version :: string
  mc_compiler_settings :: 'json
  mc_source_type :: source_type
  mc_source_files :: "string \<Rightarrow> string option"
  mc_abi :: "string option"
  mc_constructor_arguments :: "string option"
  mc_match_type :: match_type
  mc_compilation_artifacts :: "string option"
  mc_creation_input_artifacts :: "string option"
  mc_deployed_bytecode_artifacts :: "string option"
  mc_raw_creation_input :: bytes
  mc_raw_deployed_bytecode :: bytes
  mc_is_blueprint :: bool
  mc_libraries :: "string \<Rightarrow> string option"

text \<open>The libraries of the compiler settings under their qualified names.\<close>

definition compress_libraries :: "(string \<times> (string \<times> string) list) list \<Rightarrow> (string \<Rightarrow> string option)" where
  "compress_libraries l =
     foldl (\<lambda>m (file_name, file_libraries). foldl (\<lambda>m (contract_name, address). m(library_id file_name contract_name \<mapsto> address)) m file_libraries)
       Map.empty l"

definition build_from_db_data ::
  "('json, 'h) db_lib \<Rightarrow> ('json, 'ctor) ctor_lib \<Rightarrow> ('json, 'h) source_row \<Rightarrow> (string \<times> string) list \<Rightarrow> bytecode_remote \<Rightarrow> match_type
     \<Rightarrow> (string, 'json match_contract) result option" where
  "build_from_db_data lib cl source source_files remote match_type =
     (case get_constructor cl (sr_abi source) of
        Inl e \<Rightarrow> Some (Err ''source has invalid abi'')
      | Inr ctor \<Rightarrow>
          (let has_constructor_args = (re_bytecode_type remote = CreationCode);
               local_raw = (case re_bytecode_type remote of
                 RuntimeCode \<Rightarrow> sr_raw_deployed_bytecode source | _ \<Rightarrow> sr_raw_creation_input source)
           in case (extract_constructor_args cl (re_data remote) local_raw ctor has_constructor_args :: (unit compare_error, bytes option) result option) of
             None \<Rightarrow> None
           | Some (Inl e) \<Rightarrow> Some (Err ''invalid constructor arguments'')
           | Some (Inr args) \<Rightarrow>
               (case parse_libraries cl (sr_compiler_settings source) of
                  Inl e \<Rightarrow> Some (Err e)
                | Inr libs \<Rightarrow>
                    Some (Ok \<lparr>mc_file_name = sr_file_name source, mc_contract_name = sr_contract_name source,
                      mc_compiler_version = sr_compiler_version source, mc_compiler_settings = sr_compiler_settings source,
                      mc_source_type = sr_source_type source, mc_source_files = map_of (rev source_files),
                      mc_abi = map_option (json_string cl) (sr_abi source),
                      mc_constructor_arguments = map_option (hex_encode lib) args, mc_match_type = match_type,
                      mc_compilation_artifacts = map_option (json_string cl) (sr_compilation_artifacts source),
                      mc_creation_input_artifacts = map_option (json_string cl) (sr_creation_input_artifacts source),
                      mc_deployed_bytecode_artifacts = map_option (json_string cl) (sr_deployed_bytecode_artifacts source),
                      mc_raw_creation_input = sr_raw_creation_input source, mc_raw_deployed_bytecode = sr_raw_deployed_bytecode source,
                      mc_is_blueprint = False,
                      mc_libraries = (case libs of None \<Rightarrow> Map.empty | Some l \<Rightarrow> compress_libraries l)\<rparr>))))"

definition build_match_contract ::
  "('json, 'h) db_lib \<Rightarrow> ('json, 'ctor) ctor_lib \<Rightarrow> ('json, 'h) bytecode_db \<Rightarrow> nat \<Rightarrow> bytecode_remote \<Rightarrow> match_type
     \<Rightarrow> (string, 'json match_contract) result option" where
  "build_match_contract lib cl db source_id remote match_type =
     (case map_of (tb_rows (db_sources db)) source_id of
        None \<Rightarrow> Some (Err ''bytecode doesn't have valid source_id'')
      | Some source \<Rightarrow>
          build_from_db_data lib cl source
            (map snd (filter (\<lambda>(i, _). (source_id, i) \<in> db_source_files db) (tb_rows (db_files db)))) remote match_type)"

fun build_matches ::
  "('json, 'h) db_lib \<Rightarrow> ('json, 'ctor) ctor_lib \<Rightarrow> ('json, 'h) bytecode_db \<Rightarrow> bytecode_remote \<Rightarrow> (bytecode_row \<times> match_type) list
     \<Rightarrow> 'json match_contract list option" where
  "build_matches lib cl db remote [] = Some []"
| "build_matches lib cl db remote ((b, match_type) # rest) =
     (case build_match_contract lib cl db (br_source_id b) remote match_type of
        None \<Rightarrow> None
      | Some r \<Rightarrow> map_option (\<lambda>rest. (case r of Inl _ \<Rightarrow> rest | Inr m \<Rightarrow> m # rest)) (build_matches lib cl db remote rest))"

definition find_match_contracts ::
  "('json, 'h) db_lib \<Rightarrow> ('json, 'ctor) ctor_lib \<Rightarrow> ('meta, 'v) metadata_lib \<Rightarrow> ('json, 'h) bytecode_db \<Rightarrow> bytecode_remote
     \<Rightarrow> 'json match_contract list option" where
  "find_match_contracts lib cl ml db remote =
     (case filter_candidates ml (re_data remote) (find_bytecode_candidates lib db remote) of
        None \<Rightarrow> None
      | Some filtered \<Rightarrow> build_matches lib cl db remote filtered)"

text \<open>A blueprint is searched by its init code.\<close>

definition remote_of :: "db_bytecode_type \<Rightarrow> bytes \<Rightarrow> (bytecode_remote \<times> bool) option" where
  "remote_of code_type code =
     (case (if code_type = CreationInput then from_creation_code code else from_runtime_code code) of
        None \<Rightarrow> None
      | Some None \<Rightarrow> Some (\<lparr>re_bytecode_type = remote_type_of code_type, re_data = code\<rparr>, False)
      | Some (Some bp) \<Rightarrow> Some (\<lparr>re_bytecode_type = CreationCodeWithoutConstructor, re_data = bp_initcode bp\<rparr>, True))"

definition retain_full :: "'json match_contract list \<Rightarrow> 'json match_contract list" where
  "retain_full matches =
     (if list_ex (\<lambda>m. mc_match_type m = Full) matches then filter (\<lambda>m. mc_match_type m = Full) matches else matches)"

definition find_contract ::
  "('json, 'h) db_lib \<Rightarrow> ('json, 'ctor) ctor_lib \<Rightarrow> ('meta, 'v) metadata_lib \<Rightarrow> ('json, 'h) bytecode_db \<Rightarrow> db_bytecode_type \<Rightarrow> bytes
     \<Rightarrow> 'json match_contract list option" where
  "find_contract lib cl ml db code_type code =
     (case remote_of code_type code of
        None \<Rightarrow> None
      | Some (remote, is_blueprint) \<Rightarrow>
          map_option (\<lambda>matches. retain_full (map (mc_is_blueprint_update (\<lambda>_. is_blueprint)) matches))
            (find_match_contracts lib cl ml db remote))"

section \<open>Tables keep their rows\<close>

definition table_ok :: "'r table \<Rightarrow> bool" where
  "table_ok t \<longleftrightarrow> distinct (map fst (tb_rows t)) \<and> (\<forall>i \<in> fst ` set (tb_rows t). i < tb_seq t)"

abbreviation row :: "'r table \<Rightarrow> nat \<Rightarrow> 'r option" where
  "row t i \<equiv> map_of (tb_rows t) i"

lemma map_of_update: "map_of (map (\<lambda>(j, r'). if j = i then (j, r) else (j, r')) rows) k = (if k = i \<and> map_of rows i \<noteq> None then Some r else map_of rows k)"
  by (induction rows) auto

lemma row_append:
  assumes "tb_rows t' = tb_rows t @ [(k, r)]" "k \<notin> fst ` set (tb_rows t)"
  shows "row t' = (row t)(k \<mapsto> r)"
proof -
  have "row t k = None" using assms(2) by (simp add: map_of_eq_None_iff)
  then show ?thesis by (auto simp: assms(1) fun_eq_iff map_add_def split: option.splits)
qed

lemma insert_then_select_cases:
  assumes "insert_then_select index columns r t = Ok ((i, r2), inserted, t')" "table_ok t"
  shows "r2 = r \<and> table_ok t' \<and> row t' = (row t)(i \<mapsto> r)
    \<and> (if inserted then row t i = None else \<exists>old. row t i = Some old \<and> columns old = columns r)
    \<and> (\<not> inserted \<longleftrightarrow> index r \<in> index ` snd ` set (tb_rows t))
    \<and> (inserted \<longrightarrow> tb_rows t' = tb_rows t @ [(i, r)])"
proof (cases "index r \<in> index ` snd ` set (tb_rows t)")
  case False
  then have t': "i = tb_seq t" "r2 = r" inserted "tb_rows t' = tb_rows t @ [(i, r)]" "tb_seq t' = tb_seq t + 1"
    using assms(1) by (auto simp: insert_then_select_def)
  have new: "i \<notin> fst ` set (tb_rows t)" using assms(2) t'(1) by (auto simp: table_ok_def)
  then have "row t i = None" by (simp add: map_of_eq_None_iff)
  moreover have "row t' = (row t)(i \<mapsto> r)" by (rule row_append[OF t'(4) new])
  moreover have "table_ok t'" using assms(2) new t' by (auto simp: table_ok_def)
  ultimately show ?thesis using False t'(2-4) by meson
next
  case True
  with assms(1) obtain old where old: "find (\<lambda>(i, r'). columns r' = columns r) (tb_rows t) = Some (i, old)" "r2 = r" "\<not> inserted"
    and t': "tb_rows t' = map (\<lambda>(j, r'). if j = i then (j, r) else (j, r')) (tb_rows t)" "tb_seq t' = tb_seq t + 1"
    by (auto simp: insert_then_select_def split: option.splits)
  from old(1) have "(i, old) \<in> set (tb_rows t)" "columns old = columns r" by (auto simp: find_Some_iff) (metis nth_mem)
  then have row: "row t i = Some old" "columns old = columns r" using assms(2) by (auto simp: table_ok_def)
  have "map fst (tb_rows t') = map fst (tb_rows t)" unfolding t' by (induction "tb_rows t") auto
  then have "table_ok t'" using assms(2) t'(2) unfolding table_ok_def by (metis (no_types, lifting) less_SucI Suc_eq_plus1 list.set_map)
  moreover have "row t' = (row t)(i \<mapsto> r)" unfolding t'(1) map_of_update using row by auto
  ultimately show ?thesis using True old(2,3) row by meson
qed

section \<open>Well-formed databases\<close>

definition part_row_of :: "('json, 'h) db_lib \<Rightarrow> bytecode_part \<Rightarrow> part_row" where
  "part_row_of lib p = \<lparr>pr_type = part_type_of p, pr_data = part_data p, pr_data_text = hex_encode lib (part_data p)\<rparr>"

definition db_ok :: "('json, 'h) db_lib \<Rightarrow> ('json, 'h) bytecode_db \<Rightarrow> bool" where
  "db_ok lib db \<longleftrightarrow> table_ok (db_files db) \<and> table_ok (db_sources db) \<and> table_ok (db_bytecodes db) \<and> table_ok (db_parts db)
     \<and> (\<forall>i r. row (db_parts db) i = Some r \<longrightarrow> pr_data_text r = hex_encode lib (pr_data r))
     \<and> (\<forall>b r. row (db_bytecodes db) b = Some r \<longrightarrow> row (db_sources db) (br_source_id r) \<noteq> None)
     \<and> (\<forall>((b, order), p) \<in> set (db_bytecode_parts db). row (db_bytecodes db) b \<noteq> None \<and> row (db_parts db) p \<noteq> None)
     \<and> (\<forall>(s, f) \<in> db_source_files db. row (db_sources db) s \<noteq> None \<and> row (db_files db) f \<noteq> None)"

lemma insert_part_row:
  assumes "insert_then_select (\<lambda>r. (pr_type r, md5_bytes lib (pr_data r))) (\<lambda>r. (pr_data r, pr_type r)) (part_row_of lib p) t = Ok ((i, r2), ins, t')"
    and "table_ok t" "\<forall>i r. row t i = Some r \<longrightarrow> pr_data_text r = hex_encode lib (pr_data r)"
  shows "table_ok t' \<and> (\<forall>i r. row t' i = Some r \<longrightarrow> pr_data_text r = hex_encode lib (pr_data r))
    \<and> row t' i = Some (part_row_of lib p) \<and> row t \<subseteq>\<^sub>m row t'"
proof -
  note c = insert_then_select_cases[OF assms(1,2)]
  have "row t \<subseteq>\<^sub>m row t'"
  proof (cases ins)
    case True
    then show ?thesis using c by (auto simp: map_le_def)
  next
    case False
    with c obtain old where old: "row t i = Some old" "(pr_data old, pr_type old) = (pr_data (part_row_of lib p), pr_type (part_row_of lib p))" by auto
    with assms(3) have "pr_data_text old = hex_encode lib (pr_data old)" by blast
    with old have "old = part_row_of lib p" by (simp add: part_row_of_def)
    with c old show ?thesis by (auto simp: map_le_def)
  qed
  with c assms(3) show ?thesis by (auto simp: part_row_of_def)
qed

text \<open>The parts of a new bytecode are appended in their order.\<close>

lemma insert_parts_rows:
  assumes "insert_parts lib b order parts db = Ok db'"
    and "table_ok (db_parts db)" "\<forall>i r. row (db_parts db) i = Some r \<longrightarrow> pr_data_text r = hex_encode lib (pr_data r)"
    and "\<forall>((b', order'), p) \<in> set (db_bytecode_parts db). b' = b \<longrightarrow> order' < order"
  obtains ids where "length ids = length parts" "db_bytecode_parts db' = db_bytecode_parts db @ zip (map (Pair b) [order..<order + length parts]) ids"
    "\<forall>k < length parts. row (db_parts db') (ids ! k) = Some (part_row_of lib (parts ! k))"
    "table_ok (db_parts db')" "\<forall>i r. row (db_parts db') i = Some r \<longrightarrow> pr_data_text r = hex_encode lib (pr_data r)"
    "row (db_parts db) \<subseteq>\<^sub>m row (db_parts db')"
    "db' = db\<lparr>db_parts := db_parts db', db_bytecode_parts := db_bytecode_parts db'\<rparr>"
  using assms
proof (induction parts arbitrary: order db thesis)
  case Nil
  then show ?case by (intro Nil(1)[of "[]"]) auto
next
  case (Cons p parts)
  from Cons.prems(2) obtain i r2 ins t where
    ins: "insert_then_select (\<lambda>r. (pr_type r, md5_bytes lib (pr_data r))) (\<lambda>r. (pr_data r, pr_type r)) (part_row_of lib p) (db_parts db) = Ok ((i, r2), ins, t)"
    and rest: "insert_parts lib b (order + 1) parts
      (db\<lparr>db_parts := t, db_bytecode_parts := insert_bytecode_part b order i (db_bytecode_parts db)\<rparr>) = Ok db'"
    by (auto simp: try_bind_Ok_iff part_row_of_def)
  note row = insert_part_row[OF ins Cons.prems(3,4)]
  have bp: "insert_bytecode_part b order i (db_bytecode_parts db) = db_bytecode_parts db @ [((b, order), i)]"
    using Cons.prems(5) by (fastforce simp: insert_bytecode_part_def)
  let ?db = "db\<lparr>db_parts := t, db_bytecode_parts := db_bytecode_parts db @ [((b, order), i)]\<rparr>"
  have "\<forall>((b', order'), p) \<in> set (db_bytecode_parts ?db). b' = b \<longrightarrow> order' < order + 1" using Cons.prems(5) by fastforce
  with Cons.IH[of ?db "order + 1"] rest row bp obtain ids where ids: "length ids = length parts"
    "db_bytecode_parts db' = db_bytecode_parts ?db @ zip (map (Pair b) [order + 1..<order + 1 + length parts]) ids"
    "\<forall>k < length parts. row (db_parts db') (ids ! k) = Some (part_row_of lib (parts ! k))"
    "table_ok (db_parts db')" "\<forall>i r. row (db_parts db') i = Some r \<longrightarrow> pr_data_text r = hex_encode lib (pr_data r)"
    "row (db_parts ?db) \<subseteq>\<^sub>m row (db_parts db')" "db' = ?db\<lparr>db_parts := db_parts db', db_bytecode_parts := db_bytecode_parts db'\<rparr>"
    by auto
  have first: "row (db_parts db') i = Some (part_row_of lib p)" using ids(6) row by (auto simp: map_le_def dom_def)
  show ?case
  proof (rule Cons.prems(1)[of "i # ids"])
    show "length (i # ids) = length (p # parts)" using ids(1) by simp
    show "db_bytecode_parts db' = db_bytecode_parts db @ zip (map (Pair b) [order..<order + length (p # parts)]) (i # ids)"
      using ids(2) upt_conv_Cons[of order "order + length (p # parts)"] by (simp del: upt_Suc)
    show "\<forall>k < length (p # parts). row (db_parts db') ((i # ids) ! k) = Some (part_row_of lib ((p # parts) ! k))"
      using ids(3) first by (auto simp: nth_Cons split: nat.splits)
    show "row (db_parts db) \<subseteq>\<^sub>m row (db_parts db')" using row ids(6) map_le_trans by fastforce
    show "db' = db\<lparr>db_parts := db_parts db', db_bytecode_parts := db_bytecode_parts db'\<rparr>" using ids(7) by simp
  qed (use ids(4,5) in auto)
qed

lemma rows_iff: "table_ok t \<Longrightarrow> (i, r) \<in> set (tb_rows t) \<longleftrightarrow> row t i = Some r"
  by (auto simp: table_ok_def dest: map_of_SomeD)

lemma insert_bytecodes_new:
  assumes run: "insert_bytecodes lib sid parts ty db = Ok db'" and ok: "db_ok lib db" and src: "row (db_sources db) sid \<noteq> None"
    and new: "\<forall>b r. row (db_bytecodes db) b = Some r \<longrightarrow> (br_source_id r, br_type r) \<noteq> (sid, ty)"
  obtains b ids where "db_ok lib db'" "row (db_bytecodes db) b = None"
    "tb_rows (db_bytecodes db') = tb_rows (db_bytecodes db) @ [(b, \<lparr>br_source_id = sid, br_type = ty\<rparr>)]"
    "length ids = length parts" "db_bytecode_parts db' = db_bytecode_parts db @ zip (map (Pair b) [0..<length parts]) ids"
    "\<forall>k < length parts. row (db_parts db') (ids ! k) = Some (part_row_of lib (parts ! k))"
    "row (db_parts db) \<subseteq>\<^sub>m row (db_parts db')"
    "db_sources db' = db_sources db" "db_files db' = db_files db" "db_source_files db' = db_source_files db"
proof -
  let ?r = "\<lparr>br_source_id = sid, br_type = ty\<rparr>"
  have tables: "table_ok (db_bytecodes db)" "table_ok (db_parts db)" and texts: "\<forall>i r. row (db_parts db) i = Some r \<longrightarrow> pr_data_text r = hex_encode lib (pr_data r)"
    using ok by (auto simp: db_ok_def)
  from run obtain b r2 ins t where
    ins: "insert_then_select (\<lambda>r. (br_source_id r, br_type r)) (\<lambda>r. (br_source_id r, br_type r)) ?r (db_bytecodes db) = Ok ((b, r2), ins, t)"
    and rest: "insert_parts lib b 0 parts (db\<lparr>db_bytecodes := t\<rparr>) = Ok db'"
    by (auto simp: insert_bytecodes_def try_bind_Ok_iff)
  have inserted: ins
    using insert_then_select_cases[OF ins tables(1)] new rows_iff[OF tables(1)] by (cases ins) (auto simp del: snd_conv)
  note c = insert_then_select_cases[OF ins tables(1)]
  have b: "row (db_bytecodes db) b = None" "tb_rows t = tb_rows (db_bytecodes db) @ [(b, ?r)]" "table_ok t" "row t = (row (db_bytecodes db))(b \<mapsto> ?r)"
    using c[unfolded if_P[OF inserted]] inserted by blast+
  have none: "\<forall>((b', order'), p) \<in> set (db_bytecode_parts (db\<lparr>db_bytecodes := t\<rparr>)). b' = b \<longrightarrow> order' < 0"
    using ok b(1) by (fastforce simp: db_ok_def)
  have tables1: "table_ok (db_parts (db\<lparr>db_bytecodes := t\<rparr>))"
    "\<forall>i r. row (db_parts (db\<lparr>db_bytecodes := t\<rparr>)) i = Some r \<longrightarrow> pr_data_text r = hex_encode lib (pr_data r)"
    using tables(2) texts by simp_all
  from insert_parts_rows[OF rest tables1 none] obtain ids where ids: "length ids = length parts"
    "db_bytecode_parts db' = db_bytecode_parts db @ zip (map (Pair b) [0..<length parts]) ids"
    "\<forall>k < length parts. row (db_parts db') (ids ! k) = Some (part_row_of lib (parts ! k))"
    "table_ok (db_parts db')" "\<forall>i r. row (db_parts db') i = Some r \<longrightarrow> pr_data_text r = hex_encode lib (pr_data r)"
    "row (db_parts db) \<subseteq>\<^sub>m row (db_parts db')"
    "db' = db\<lparr>db_bytecodes := t, db_parts := db_parts db', db_bytecode_parts := db_bytecode_parts db'\<rparr>"
    by auto
  have same: "db_sources db' = db_sources db" "db_files db' = db_files db" "db_source_files db' = db_source_files db" "db_bytecodes db' = t"
    by (subst ids(7), simp)+
  have "row (db_parts db') p \<noteq> None \<and> row t b' \<noteq> None" if "((b', order), p) \<in> set (db_bytecode_parts db')" for b' order p
  proof -
    from that ids(2) consider "((b', order), p) \<in> set (db_bytecode_parts db)" | "b' = b" "p \<in> set ids"
      by (auto elim!: in_set_zipE)
    then show ?thesis
    proof cases
      case 1
      with ok have "row (db_parts db) p \<noteq> None" "row (db_bytecodes db) b' \<noteq> None" by (auto simp: db_ok_def)
      then show ?thesis using ids(6) b(4) by (auto simp: map_le_def dom_def)
    next
      case 2
      then show ?thesis using ids(1,3) b(4) by (auto simp: in_set_conv_nth)
    qed
  qed
  then have "db_ok lib db'"
    using ok ids(4,5) b(3,4) src unfolding db_ok_def same by (auto split: if_splits)
  with b ids same show thesis by (intro that[of b ids]) simp_all
qed

lemma insert_files_rows:
  "insert_files lib files t = Ok (ids, t') \<Longrightarrow> table_ok t \<Longrightarrow>
     table_ok t' \<and> row t \<subseteq>\<^sub>m row t' \<and> (\<forall>i \<in> set ids. row t' i \<noteq> None)"
proof (induction files arbitrary: t ids)
  case (Cons e files)
  obtain name content where e: "e = (name, content)" by (cases e)
  from Cons.prems(1) e obtain i r ins u ids' where
    ins: "insert_then_select (\<lambda>(n, c). (n, md5_text lib c)) id (name, content) t = Ok ((i, r), ins, u)"
    and rest: "insert_files lib files u = Ok (ids', t')" and ids: "ids = i # ids'"
    by (auto simp: try_bind_Ok_iff)
  note c = insert_then_select_cases[OF ins Cons.prems(2)]
  have le: "row t \<subseteq>\<^sub>m row u" using c by (cases ins) (auto simp: map_le_def)
  note ih = Cons.IH[OF rest conjunct1[OF conjunct2[OF c]]]
  have "row u i \<noteq> None" using c by simp
  then have "row t' i \<noteq> None" using ih by (auto simp: map_le_def dom_def)
  with ih le ids show ?case by (auto intro: map_le_trans)
qed simp

text \<open>A new source: both bytecodes are new, with their parts in order.\<close>

definition stored_as :: "('json, 'h) db_lib \<Rightarrow> nat \<Rightarrow> bytecode_part list \<Rightarrow> db_bytecode_type \<Rightarrow> ('json, 'h) bytecode_db \<Rightarrow> bool" where
  "stored_as lib sid parts ty db \<longleftrightarrow>
     (\<exists>b ids. row (db_bytecodes db) b = Some \<lparr>br_source_id = sid, br_type = ty\<rparr> \<and> length ids = length parts
        \<and> filter (\<lambda>((b', _), _). b' = b) (db_bytecode_parts db) = zip (map (Pair b) [0..<length parts]) ids
        \<and> (\<forall>k < length parts. row (db_parts db) (ids ! k) = Some (part_row_of lib (parts ! k))))"

lemma filter_zip_same: "filter (\<lambda>((b', _), _). b' = b) (zip (map (Pair b) xs) ids) = zip (map (Pair b) xs) ids"
  by (auto simp: filter_id_conv dest: set_zip_leftD)

lemma filter_zip_other: "b \<noteq> c \<Longrightarrow> filter (\<lambda>((b', _), _). b' = b) (zip (map (Pair c) xs) ids) = []"
  by (auto simp: filter_empty_conv dest: set_zip_leftD)

lemma insert_bytecodes_stored:
  assumes run: "insert_bytecodes lib sid parts ty db = Ok db'" and ok: "db_ok lib db" and src: "row (db_sources db) sid \<noteq> None"
    and new: "\<forall>b r. row (db_bytecodes db) b = Some r \<longrightarrow> (br_source_id r, br_type r) \<noteq> (sid, ty)"
  shows "db_ok lib db' \<and> stored_as lib sid parts ty db' \<and> db_sources db' = db_sources db \<and> db_files db' = db_files db
    \<and> db_source_files db' = db_source_files db
    \<and> (\<forall>b r. row (db_bytecodes db') b = Some r \<longrightarrow> row (db_bytecodes db) b = Some r \<or> (br_source_id r, br_type r) = (sid, ty))
    \<and> (\<forall>sid2 parts2 ty2. stored_as lib sid2 parts2 ty2 db \<longrightarrow> stored_as lib sid2 parts2 ty2 db')"
proof -
  let ?r = "\<lparr>br_source_id = sid, br_type = ty\<rparr>"
  from insert_bytecodes_new[OF assms] obtain b ids where ok': "db_ok lib db'" and b: "row (db_bytecodes db) b = None"
    and rows: "tb_rows (db_bytecodes db') = tb_rows (db_bytecodes db) @ [(b, ?r)]"
    and ids: "length ids = length parts" and bp: "db_bytecode_parts db' = db_bytecode_parts db @ zip (map (Pair b) [0..<length parts]) ids"
    and parts: "\<forall>k < length parts. row (db_parts db') (ids ! k) = Some (part_row_of lib (parts ! k))"
    and le: "row (db_parts db) \<subseteq>\<^sub>m row (db_parts db')"
    and same: "db_sources db' = db_sources db" "db_files db' = db_files db" "db_source_files db' = db_source_files db" .
  have new_row: "row (db_bytecodes db') = (row (db_bytecodes db))(b \<mapsto> ?r)"
    by (rule row_append[OF rows]) (use b in \<open>simp add: map_of_eq_None_iff\<close>)
  have none: "filter (\<lambda>((b', _), _). b' = b) (db_bytecode_parts db) = []"
    using ok b by (fastforce simp: filter_empty_conv db_ok_def)
  have "stored_as lib sid parts ty db'"
    unfolding stored_as_def using ids parts new_row
    by (intro exI[of _ b] exI[of _ ids]) (simp add: bp none filter_zip_same)
  moreover have "stored_as lib sid2 parts2 ty2 db'" if "stored_as lib sid2 parts2 ty2 db" for sid2 parts2 ty2
  proof -
    from that obtain c ids2 where c: "row (db_bytecodes db) c = Some \<lparr>br_source_id = sid2, br_type = ty2\<rparr>" "length ids2 = length parts2"
      "filter (\<lambda>((b', _), _). b' = c) (db_bytecode_parts db) = zip (map (Pair c) [0..<length parts2]) ids2"
      "\<forall>k < length parts2. row (db_parts db) (ids2 ! k) = Some (part_row_of lib (parts2 ! k))"
      by (auto simp: stored_as_def)
    have "c \<noteq> b" using b c(1) by auto
    moreover from this have "filter (\<lambda>((b', _), _). b' = c) (db_bytecode_parts db') = zip (map (Pair c) [0..<length parts2]) ids2"
      by (simp add: bp c(3) filter_zip_other)
    moreover have "\<forall>k < length parts2. row (db_parts db') (ids2 ! k) = Some (part_row_of lib (parts2 ! k))"
      using c(4) le by (auto simp: map_le_def dom_def)
    ultimately show ?thesis unfolding stored_as_def using c(1,2) new_row by (intro exI[of _ c] exI[of _ ids2]) simp
  qed
  moreover have "row (db_bytecodes db') b2 = Some r \<Longrightarrow> row (db_bytecodes db) b2 = Some r \<or> (br_source_id r, br_type r) = (sid, ty)" for b2 r
    unfolding new_row by (auto split: if_splits)
  ultimately show ?thesis using ok' same by blast
qed

definition source_row_of :: "('json, 'h) db_lib \<Rightarrow> 'json database_ready_source \<Rightarrow> nat list \<Rightarrow> ('json, 'h) source_row" where
  "source_row_of lib s file_ids =
     \<lparr>sr_source_type = ds_source_type s, sr_compiler_version = ds_compiler_version s, sr_compiler_settings = ds_compiler_settings s,
      sr_file_name = ds_file_name s, sr_contract_name = ds_contract_name s, sr_raw_creation_input = ds_raw_creation_code s,
      sr_raw_deployed_bytecode = ds_raw_runtime_code s, sr_abi = ds_abi s,
      sr_file_ids_hash = md5_ids lib (sorted_list_of_set (set file_ids)), sr_compilation_artifacts = ds_compilation_artifacts s,
      sr_creation_input_artifacts = ds_creation_code_artifacts s, sr_deployed_bytecode_artifacts = ds_runtime_code_artifacts s\<rparr>"

lemma insert_all_effect:
  assumes ok: "db_ok lib db" and run: "insert_all lib s db = Ok (sid, inserted, db')"
  shows "db_ok lib db' \<and> (\<exists>file_ids. row (db_sources db') sid = Some (source_row_of lib s file_ids))
    \<and> (inserted \<longleftrightarrow> row (db_sources db) sid = None)
    \<and> (inserted \<longrightarrow> stored_as lib sid (ds_creation_input_parts s) CreationInput db'
         \<and> stored_as lib sid (ds_deployed_bytecode_parts s) DeployedBytecode db')"
proof -
  from run obtain file_ids files r sources where
    f: "insert_files lib (ds_source_files s) (db_files db) = Ok (file_ids, files)"
    and d: "insert_source_details lib s file_ids (db_sources db) = Ok ((sid, r), inserted, sources)"
    and rest: "inserted \<or> db' = db\<lparr>db_files := files, db_sources := sources\<rparr>"
    "inserted \<longrightarrow> (\<exists>db2. insert_bytecodes lib sid (ds_creation_input_parts s) CreationInput
         (db\<lparr>db_files := files, db_sources := sources, db_source_files := insert_source_files sid file_ids (db_source_files db)\<rparr>) = Ok db2
       \<and> insert_bytecodes lib sid (ds_deployed_bytecode_parts s) DeployedBytecode db2 = Ok db')"
    by (auto simp: insert_all_def try_bind_Ok_iff Let_def split: if_splits)
  let ?db = "db\<lparr>db_files := files, db_sources := sources\<rparr>"
  let ?db1 = "db\<lparr>db_files := files, db_sources := sources, db_source_files := insert_source_files sid file_ids (db_source_files db)\<rparr>"
  have tables: "table_ok (db_files db)" "table_ok (db_sources db)" using ok by (auto simp: db_ok_def)
  note files = insert_files_rows[OF f tables(1)]
  note c = insert_then_select_cases[OF d[unfolded insert_source_details_def, folded source_row_of_def] tables(2)]
  have src: "row sources = (row (db_sources db))(sid \<mapsto> source_row_of lib s file_ids)" "table_ok sources"
    using c by blast+
  have new: "inserted \<longleftrightarrow> row (db_sources db) sid = None"
    using c by (cases inserted) (simp_all only: if_True if_False simp_thms, metis option.distinct(1))
  have keep: "row (db_files db) i \<noteq> None \<Longrightarrow> row files i \<noteq> None" for i using files by (auto simp: map_le_def dom_def)
  have ok1: "db_ok lib ?db" using ok files src keep unfolding db_ok_def by fastforce
  show ?thesis
  proof (cases inserted)
    case False
    with rest(1) ok1 src new show ?thesis by auto
  next
    case True
    have ok2: "db_ok lib ?db1" using ok1 files src keep unfolding db_ok_def insert_source_files_def by fastforce
    from rest(2) True obtain db2 where
      r1: "insert_bytecodes lib sid (ds_creation_input_parts s) CreationInput ?db1 = Ok db2"
      and r2: "insert_bytecodes lib sid (ds_deployed_bytecode_parts s) DeployedBytecode db2 = Ok db'" by blast
    have owner: "\<forall>b r. row (db_bytecodes db) b = Some r \<longrightarrow> row (db_sources db) (br_source_id r) \<noteq> None"
      using ok unfolding db_ok_def by blast
    have none: "\<forall>b r. row (db_bytecodes ?db1) b = Some r \<longrightarrow> br_source_id r \<noteq> sid"
      using owner iffD1[OF new True] by fastforce
    have s1: "row (db_sources ?db1) sid \<noteq> None" using src by simp
    have fresh: "\<forall>b r. row (db_bytecodes ?db1) b = Some r \<longrightarrow> (br_source_id r, br_type r) \<noteq> (sid, CreationInput)"
      using none by auto
    note first = insert_bytecodes_stored[OF r1 ok2 s1 fresh]
    have "\<forall>b r. row (db_bytecodes db2) b = Some r \<longrightarrow> (br_source_id r, br_type r) \<noteq> (sid, DeployedBytecode)"
      using first none by fastforce
    note second = insert_bytecodes_stored[OF r2 conjunct1[OF first] _ this]
    show ?thesis using first second src new True by auto
  qed
qed

section \<open>What a search finds\<close>

text \<open>The use of the index does not change the result of the query.\<close>

lemma find_part_id_candidates_iff:
  assumes "table_ok t"
  shows "i \<in> set (find_part_id_candidates data t) \<longleftrightarrow>
    (\<exists>r. row t i = Some r \<and> pr_type r = MainPart \<and> prefix (pr_data_text r) data)"
proof -
  have "take 150 data = take 150 s" if "prefix s data" "150 \<le> length s" for s
    using that by (auto simp: prefix_def)
  then have "find_part_id_candidates data t =
      map fst (filter (\<lambda>(i, r). pr_type r = MainPart \<and> prefix (pr_data_text r) data) (tb_rows t))"
    unfolding find_part_id_candidates_def by (intro arg_cong[of _ _ "map fst"] filter_cong refl) (auto simp: not_le)
  then have "i \<in> set (find_part_id_candidates data t) \<longleftrightarrow>
      (\<exists>r. (i, r) \<in> set (tb_rows t) \<and> pr_type r = MainPart \<and> prefix (pr_data_text r) data)"
    by (simp add: image_iff Bex_def)
  then show ?thesis unfolding rows_iff[OF assms] .
qed

lemma parts_of_stored:
  assumes "filter (\<lambda>((b', _), _). b' = b) (db_bytecode_parts db) = zip (map (Pair b) [0..<length parts]) ids" "length ids = length parts"
    and "\<forall>k < length parts. row (db_parts db) (ids ! k) = Some (part_row_of lib (parts ! k))"
  shows "parts_of db b = map (part_row_of lib) parts"
proof -
  let ?entries = "zip (map (Pair b) [0..<length parts]) ids"
  have fst: "map fst ?entries = map (Pair b) [0..<length parts]" using assms(2) by simp
  have snd: "map snd ?entries = ids" using assms(2) by simp
  have "map (snd \<circ> fst) ?entries = map snd (map fst ?entries)" by simp
  also have "\<dots> = [0..<length parts]" unfolding fst by (simp add: comp_def)
  finally have "map (snd \<circ> fst) ?entries = [0..<length parts]" .
  then have "sort_key (snd \<circ> fst) ?entries = ?entries" by (intro sort_key_id_if_sorted) (simp only: sorted_upt)
  moreover have "List.map_filter (\<lambda>(_, p). row (db_parts db) p) ?entries = map (part_row_of lib) parts"
  proof -
    have "\<forall>p \<in> set ids. row (db_parts db) p \<noteq> None" using assms(2,3) by (auto simp: in_set_conv_nth)
    then have "\<forall>e \<in> set ?entries. (\<lambda>(_, p). row (db_parts db) p) e \<noteq> None" by (auto elim!: in_set_zipE)
    then have "List.map_filter (\<lambda>(_, p). row (db_parts db) p) ?entries = map (\<lambda>e. the (row (db_parts db) (snd e))) ?entries"
      unfolding List.map_filter_def by (simp add: filter_id_conv[THEN iffD2] split_beta)
    also have "\<dots> = map (\<lambda>p. the (row (db_parts db) p)) (map snd ?entries)" by simp
    also have "\<dots> = map (part_row_of lib) parts" unfolding snd using assms(2,3) by (intro nth_equalityI) auto
    finally show ?thesis .
  qed
  ultimately show ?thesis by (simp add: parts_of_def assms(1))
qed

definition part_valid :: "('meta, 'v) metadata_lib \<Rightarrow> part_row \<Rightarrow> bool" where
  "part_valid ml r \<longleftrightarrow> (pr_type r = MetadataPart \<longrightarrow> (\<exists>m n. metadata_from_cbor ml (pr_data r) = Ok (m, n) \<and> n \<le> length (pr_data r)))"

lemma local_bytecode_valid:
  assumes "\<forall>r \<in> set rows. part_valid ml r"
  obtains parts where "local_bytecode_new ml rows = Some (Ok parts)" "raw_bytecode parts = concat (map pr_data rows)"
    "list_ex is_metadata parts \<longleftrightarrow> list_ex (\<lambda>r. pr_type r = MetadataPart) rows"
  using assms
proof (induction rows arbitrary: thesis)
  case Nil
  then show ?case by (simp add: raw_bytecode_def)
next
  case (Cons r rows)
  from Cons.prems(2) obtain p where p: "local_part_of ml r = Some (Ok p)" "part_raw p = pr_data r" "is_metadata p \<longleftrightarrow> pr_type r = MetadataPart"
    by (cases "pr_type r") (auto simp: local_part_of_def part_valid_def slice_def)
  from Cons.IH Cons.prems(2) obtain parts where "local_bytecode_new ml rows = Some (Ok parts)" "raw_bytecode parts = concat (map pr_data rows)"
    "list_ex is_metadata parts \<longleftrightarrow> list_ex (\<lambda>r. pr_type r = MetadataPart) rows" by auto
  with p show ?case by (intro Cons.prems(1)[of "p # parts"]) (auto simp: raw_bytecode_def)
qed

text \<open>Metadata in the code on chain is followed by its length.\<close>

definition metadata_followed :: "('meta, 'v) metadata_lib \<Rightarrow> bytes \<Rightarrow> bool" where
  "metadata_followed ml code \<longleftrightarrow> (\<forall>i \<le> length code. \<forall>m n. metadata_from_cbor ml (drop i code) = Ok (m, n) \<longrightarrow> i + n + 2 \<le> length code)"

lemma compare_parts_loop_total:
  assumes "metadata_followed ml remote" "i + length (raw_bytecode parts) \<le> length remote"
  shows "compare_parts_loop ml remote local parts i \<noteq> None"
  using assms(2)
proof (induction parts arbitrary: i)
  case (Cons p parts)
  show ?case
  proof (cases p)
    case (LocalMain raw)
    with Cons show ?thesis by (auto simp: raw_bytecode_def slice_def)
  next
    case (LocalMetadata raw m len)
    have "i + length raw + length (raw_bytecode parts) \<le> length remote" using Cons.prems LocalMetadata by (simp add: raw_bytecode_def)
    with Cons.IH have ih: "compare_parts_loop ml remote local parts (i + length raw) \<noteq> None" by blast
    have i: "i \<le> length remote" using Cons.prems by simp
    show ?thesis
    proof (cases "metadata_from_cbor ml (drop i remote)")
      case (Inl e)
      with LocalMetadata i show ?thesis by simp
    next
      case (Inr mn)
      obtain m2 n where mn: "mn = (m2, n)" by (cases mn)
      with Inr i assms(1) have "i + n + 2 \<le> length remote" by (auto simp: metadata_followed_def)
      with LocalMetadata i Inr mn ih show ?thesis by (simp add: slice_def Let_def split: option.splits)
    qed
  qed
qed simp

lemma is_match_total:
  assumes "\<forall>r \<in> set rows. part_valid ml r" "metadata_followed ml remote"
  shows "is_match ml rows remote \<noteq> None"
proof -
  obtain parts where "local_bytecode_new ml rows = Some (Ok parts)" using local_bytecode_valid[OF assms(1)] by metis
  then show ?thesis
    using compare_parts_loop_total[OF assms(2), of 0 parts "raw_bytecode parts"]
    by (auto simp: is_match_def compare_bytecode_def Let_def)
qed

lemma is_match_length:
  assumes "\<forall>r \<in> set rows. part_valid ml r" "is_match ml rows remote = Some (Ok mt)"
  shows "length (concat (map pr_data rows)) \<le> length remote"
proof -
  obtain parts where "local_bytecode_new ml rows = Some (Ok parts)" "raw_bytecode parts = concat (map pr_data rows)"
    using local_bytecode_valid[OF assms(1)] by metis
  with assms(2) show ?thesis
    by (auto simp: is_match_def compare_bytecode_def Let_def split: if_splits dest: prefix_length_le)
qed

lemma is_match_own:
  assumes "\<forall>r \<in> set rows. part_valid ml r" "code = concat (map pr_data rows)" "\<exists>r \<in> set rows. pr_type r = MetadataPart"
  shows "is_match ml rows code = Some (Ok Full)"
proof -
  obtain parts where "local_bytecode_new ml rows = Some (Ok parts)" "raw_bytecode parts = code"
    "list_ex is_metadata parts \<longleftrightarrow> list_ex (\<lambda>r. pr_type r = MetadataPart) rows"
    using local_bytecode_valid[OF assms(1)] assms(2) by metis
  then show ?thesis using assms(3) by (auto simp: is_match_def compare_bytecode_def list_ex_iff)
qed

lemma filter_candidates_total:
  "(\<And>b rows. (b, rows) \<in> set cs \<Longrightarrow> is_match ml rows remote \<noteq> None) \<Longrightarrow> filter_candidates ml remote cs \<noteq> None"
  by (induction cs) (fastforce split: option.splits)+

lemma filter_candidates_iff:
  "filter_candidates ml remote cs = Some found \<Longrightarrow>
     (b, mt) \<in> set found \<longleftrightarrow> (\<exists>rows. (b, rows) \<in> set cs \<and> is_match ml rows remote = Some (Ok mt))"
proof (induction cs arbitrary: found)
  case (Cons c cs)
  obtain b2 rows2 where c: "c = (b2, rows2)" by (cases c)
  from Cons.prems c obtain r rest where "is_match ml rows2 remote = Some r" "filter_candidates ml remote cs = Some rest"
    "found = (case r of Inl _ \<Rightarrow> rest | Inr mt \<Rightarrow> (b2, mt) # rest)" by (auto split: option.splits)
  with Cons.IH[of rest] c show ?case by (auto split: sum.splits)
qed simp

lemma build_matches_total:
  "(\<And>b mt. (b, mt) \<in> set cs \<Longrightarrow> build_match_contract lib cl db (br_source_id b) remote mt \<noteq> None) \<Longrightarrow>
     build_matches lib cl db remote cs \<noteq> None"
  by (induction cs) (fastforce split: option.splits)+

lemma build_matches_iff:
  "build_matches lib cl db remote cs = Some ms \<Longrightarrow>
     m \<in> set ms \<longleftrightarrow> (\<exists>b mt. (b, mt) \<in> set cs \<and> build_match_contract lib cl db (br_source_id b) remote mt = Some (Ok m))"
proof (induction cs arbitrary: ms)
  case (Cons c cs)
  obtain b mt where c: "c = (b, mt)" by (cases c)
  from Cons.prems c obtain r rest where "build_match_contract lib cl db (br_source_id b) remote mt = Some r"
    "build_matches lib cl db remote cs = Some rest" "ms = (case r of Inl _ \<Rightarrow> rest | Inr m \<Rightarrow> m # rest)"
    by (auto split: option.splits)
  with Cons.IH[of rest] c show ?case by (auto split: sum.splits)
qed simp

section \<open>Properties of the database\<close>

lemma hex_prefixI:
  assumes "\<And>a b. prefix (hex a) (hex b) \<longleftrightarrow> prefix a b"
  shows "prefix (hex a) (hex (a @ b))"
  by (simp add: assms)

text \<open>What a search needs of the stored rows: metadata parses, and no source is longer than its parts.\<close>

definition raw_of :: "db_bytecode_type \<Rightarrow> ('json, 'h) source_row \<Rightarrow> bytes" where
  "raw_of ty s = (case ty of CreationInput \<Rightarrow> sr_raw_creation_input s | DeployedBytecode \<Rightarrow> sr_raw_deployed_bytecode s)"

definition searchable :: "('meta, 'v) metadata_lib \<Rightarrow> ('json, 'h) bytecode_db \<Rightarrow> bool" where
  "searchable ml db \<longleftrightarrow>
     (\<forall>i r. row (db_parts db) i = Some r \<longrightarrow> part_valid ml r) \<and>
     (\<forall>b r s. row (db_bytecodes db) b = Some r \<longrightarrow> row (db_sources db) (br_source_id r) = Some s \<longrightarrow>
        length (raw_of (br_type r) s) \<le> length (concat (map pr_data (parts_of db b))))"

lemma parts_of_rows: "r \<in> set (parts_of db b) \<Longrightarrow> \<exists>i. row (db_parts db) i = Some r"
  by (auto simp: parts_of_def List.map_filter_def split: prod.splits)

lemma selected_ids: "b \<in> set (map fst (filter (\<lambda>(b, r). Q b r) rows)) \<longleftrightarrow> (\<exists>r. (b, r) \<in> set rows \<and> Q b r)"
  by (auto simp: image_iff)

lemma selected_rows: "(r, x) \<in> set (map (\<lambda>(b, r). (r, f b)) (filter (\<lambda>(b, r). P b) rows)) \<longleftrightarrow> (\<exists>b. (b, r) \<in> set rows \<and> x = f b \<and> P b)"
  by (auto simp: image_iff)

lemma candidate_iff:
  assumes "db_ok lib db"
  shows "(r, rows) \<in> set (find_bytecode_candidates lib db remote) \<longleftrightarrow>
    (\<exists>b p part. row (db_bytecodes db) b = Some r \<and> rows = parts_of db b \<and> br_type r = db_type_of (re_bytecode_type remote)
       \<and> ((b, 0), p) \<in> set (db_bytecode_parts db) \<and> row (db_parts db) p = Some part
       \<and> pr_type part = MainPart \<and> prefix (pr_data_text part) (hex_encode lib (re_data remote)))"
proof -
  have t: "table_ok (db_bytecodes db)" "table_ok (db_parts db)" using assms by (auto simp: db_ok_def)
  note parts = find_part_id_candidates_iff[OF t(2)]
  let ?ids = "find_part_id_candidates (hex_encode lib (re_data remote)) (db_parts db)"
  have first: "(\<exists>((b', order), p) \<in> set (db_bytecode_parts db). b' = b \<and> order = 0 \<and> p \<in> set ?ids)
      \<longleftrightarrow> (\<exists>p. ((b, 0), p) \<in> set (db_bytecode_parts db) \<and> p \<in> set ?ids)" for b
    by force
  have "(r, rows) \<in> set (find_bytecode_candidates lib db remote) \<longleftrightarrow>
    (\<exists>b. (b, r) \<in> set (tb_rows (db_bytecodes db)) \<and> rows = parts_of db b \<and>
      (\<exists>r2. (b, r2) \<in> set (tb_rows (db_bytecodes db)) \<and> br_type r2 = db_type_of (re_bytecode_type remote) \<and>
        (\<exists>p. ((b, 0), p) \<in> set (db_bytecode_parts db) \<and> p \<in> set ?ids)))"
    unfolding find_bytecode_candidates_def Let_def selected_rows selected_ids first ..
  also have "\<dots> \<longleftrightarrow> (\<exists>b. row (db_bytecodes db) b = Some r \<and> rows = parts_of db b \<and> br_type r = db_type_of (re_bytecode_type remote) \<and>
        (\<exists>p. ((b, 0), p) \<in> set (db_bytecode_parts db) \<and> p \<in> set ?ids))"
    unfolding rows_iff[OF t(1)] by (metis option.inject)
  finally show ?thesis unfolding parts by blast
qed

lemma extract_no_args: "length local = length remote \<Longrightarrow> \<not> creation \<Longrightarrow> extract_constructor_args cl remote local ctor creation = Some (Ok None)"
  by (simp add: extract_constructor_args_def slice_def)

lemma extract_total: "length local \<le> length remote \<Longrightarrow> extract_constructor_args cl remote local ctor creation \<noteq> None"
  by (auto simp: extract_constructor_args_def slice_def Let_def split: option.splits)

lemma local_raw_of:
  "(case re_bytecode_type remote of RuntimeCode \<Rightarrow> sr_raw_deployed_bytecode s | _ \<Rightarrow> sr_raw_creation_input s)
     = raw_of (db_type_of (re_bytecode_type remote)) s"
  by (cases "re_bytecode_type remote") (auto simp: raw_of_def)

lemma build_total:
  assumes "\<And>s. row (db_sources db) sid = Some s \<Longrightarrow> length (raw_of (db_type_of (re_bytecode_type remote)) s) \<le> length (re_data remote)"
  shows "build_match_contract lib cl db sid remote mt \<noteq> None"
proof -
  have "(extract_constructor_args cl (re_data remote) l c creation :: (unit compare_error, bytes option) result option) \<noteq> None"
    if "length l \<le> length (re_data remote)" for l c creation
    using that by (rule extract_total)
  then have "build_from_db_data lib cl s files remote mt \<noteq> None" if "row (db_sources db) sid = Some s" for s files
    using assms[OF that] unfolding build_from_db_data_def local_raw_of Let_def
    by (cases "get_constructor cl (sr_abi s)") (auto split: option.splits sum.splits)
  then show ?thesis by (simp add: build_match_contract_def split: option.splits)
qed

lemma find_match_contracts_total:
  assumes "db_ok lib db" "searchable ml db" "metadata_followed ml (re_data remote)"
  shows "find_match_contracts lib cl ml db remote \<noteq> None"
proof -
  have valid: "\<forall>r \<in> set (parts_of db b). part_valid ml r" for b
    using assms(2) parts_of_rows unfolding searchable_def by blast
  note cand = candidate_iff[OF assms(1)]
  have "filter_candidates ml (re_data remote) (find_bytecode_candidates lib db remote) \<noteq> None"
  proof (rule filter_candidates_total)
    fix r rows assume "(r, rows) \<in> set (find_bytecode_candidates lib db remote)"
    then obtain b where "rows = parts_of db b" unfolding cand by blast
    then show "is_match ml rows (re_data remote) \<noteq> None" using is_match_total[OF valid assms(3)] by blast
  qed
  then obtain found where found: "filter_candidates ml (re_data remote) (find_bytecode_candidates lib db remote) = Some found" by auto
  have "build_matches lib cl db remote found \<noteq> None"
  proof (rule build_matches_total, rule build_total)
    fix r mt s assume "(r, mt) \<in> set found" and s: "row (db_sources db) (br_source_id r) = Some s"
    then obtain rows where rows: "(r, rows) \<in> set (find_bytecode_candidates lib db remote)" "is_match ml rows (re_data remote) = Some (Ok mt)"
      using filter_candidates_iff[OF found] by blast
    from rows(1) obtain b where b: "row (db_bytecodes db) b = Some r" "rows = parts_of db b" "br_type r = db_type_of (re_bytecode_type remote)"
      unfolding cand by blast
    with s assms(2) have "length (raw_of (db_type_of (re_bytecode_type remote)) s) \<le> length (concat (map pr_data rows))"
      unfolding searchable_def by metis
    also have "\<dots> \<le> length (re_data remote)" using is_match_length[OF valid rows(2)[unfolded b(2)]] b(2) by simp
    finally show "length (raw_of (db_type_of (re_bytecode_type remote)) s) \<le> length (re_data remote)" .
  qed
  with found show ?thesis by (simp add: find_match_contracts_def)
qed

text \<open>The main parts of a matching bytecode stand at their places in the code on chain.\<close>

definition main_parts_agree :: "part_row list \<Rightarrow> bytes \<Rightarrow> bool" where
  "main_parts_agree rows code \<longleftrightarrow>
     (\<forall>k < length rows. pr_type (rows ! k) = MainPart \<longrightarrow>
        (let start = length (concat (map pr_data (take k rows)))
         in slice code start (start + length (pr_data (rows ! k))) = Some (pr_data (rows ! k))))"

lemma compare_parts_agree:
  assumes "local_bytecode_new ml rows = Some (Ok parts)" "compare_parts_loop ml code local parts i = Some (Ok ())"
    and "k < length rows" "pr_type (rows ! k) = MainPart"
  shows "let start = i + length (concat (map pr_data (take k rows))) in slice code start (start + length (pr_data (rows ! k))) = Some (pr_data (rows ! k))"
  using assms
proof (induction rows arbitrary: parts i k)
  case (Cons r rows)
  from Cons.prems(1) obtain p ps where p: "local_part_of ml r = Some (Ok p)" "local_bytecode_new ml rows = Some (Ok ps)" "parts = p # ps"
    by (auto simp: try_bind_Ok_iff split: option.splits sum.splits)
  from p(1) have raw: "part_raw p = pr_data r" "pr_type r = MainPart \<Longrightarrow> p = LocalMain (pr_data r)"
    by (auto simp: local_part_of_def split: part_type.splits sum.splits prod.splits option.splits)
  have rest: "compare_parts_loop ml code local ps (i + length (pr_data r)) = Some (Ok ())"
    using Cons.prems(2) p(3) raw(1) by (cases p) (auto simp: Let_def split: option.splits sum.splits if_splits prod.splits)
  show ?case
  proof (cases k)
    case 0
    with Cons.prems(2,4) p(3) raw(2) show ?thesis by (auto split: option.splits if_splits)
  next
    case (Suc j)
    with Cons.IH[OF p(2) rest, of j] Cons.prems(3,4) show ?thesis by (simp add: add.assoc)
  qed
qed simp

lemma prefix_parts_agree:
  assumes "prefix (concat (map pr_data rows)) code" "k < length rows"
  shows "let start = length (concat (map pr_data (take k rows))) in slice code start (start + length (pr_data (rows ! k))) = Some (pr_data (rows ! k))"
proof -
  have "rows = take k rows @ rows ! k # drop (Suc k) rows" using assms(2) by (simp add: id_take_nth_drop)
  then have "concat (map pr_data rows) = concat (map pr_data (take k rows)) @ pr_data (rows ! k) @ concat (map pr_data (drop (Suc k) rows))"
    by (metis concat.simps(2) concat_append list.map(2) map_append)
  with assms(1) show ?thesis by (auto simp: prefix_def slice_def)
qed

lemma is_match_agrees:
  assumes "is_match ml rows code = Some (Ok mt)"
  shows "main_parts_agree rows code \<and> (mt = Full \<longrightarrow> prefix (concat (map pr_data rows)) code)"
proof -
  from assms obtain parts where new: "local_bytecode_new ml rows = Some (Ok parts)" and cmp: "compare_bytecode ml code parts = Some (Ok mt)"
    by (auto simp: is_match_def split: option.splits sum.splits)
  have raw: "raw_bytecode parts = concat (map pr_data rows)" using new
  proof (induction rows arbitrary: parts)
    case (Cons r rows)
    then obtain p ps where p: "local_part_of ml r = Some (Ok p)" "local_bytecode_new ml rows = Some (Ok ps)" "parts = p # ps"
      by (auto simp: try_bind_Ok_iff split: option.splits sum.splits)
    from p(1) have "part_raw p = pr_data r"
      by (auto simp: local_part_of_def split: part_type.splits sum.splits prod.splits option.splits)
    with p Cons.IH show ?case by (simp add: raw_bytecode_def)
  qed (simp add: raw_bytecode_def)
  show ?thesis
  proof (cases "prefix (concat (map pr_data rows)) code")
    case True
    then show ?thesis using prefix_parts_agree by (auto simp: main_parts_agree_def)
  next
    case False
    with cmp raw have "mt = Partial" "compare_parts_loop ml code (concat (map pr_data rows)) parts 0 = Some (Ok ())"
      by (auto simp: compare_bytecode_def Let_def try_bind_Ok_iff split: if_splits)
    then show ?thesis using compare_parts_agree[OF new] by (force simp: main_parts_agree_def)
  qed
qed

lemma insert_data_ok:
  assumes "db_ok lib db"
  shows "db_ok lib (snd (insert_data lib s db))"
proof (cases "insert_all lib s db")
  case (Inr x)
  obtain sid inserted db' where "x = (sid, inserted, db')" by (cases x) auto
  with Inr insert_all_effect[OF assms, of s sid inserted db'] show ?thesis by (simp add: insert_data_def)
qed (use assms in \<open>simp add: insert_data_def\<close>)

definition empty_db :: "('json, 'h) bytecode_db" where
  "empty_db = \<lparr>db_files = \<lparr>tb_rows = [], tb_seq = 1\<rparr>, db_sources = \<lparr>tb_rows = [], tb_seq = 1\<rparr>, db_source_files = {},
     db_bytecodes = \<lparr>tb_rows = [], tb_seq = 1\<rparr>, db_parts = \<lparr>tb_rows = [], tb_seq = 1\<rparr>, db_bytecode_parts = []\<rparr>"

lemma empty_db_ok: "db_ok lib empty_db"
  by (simp add: empty_db_def db_ok_def table_ok_def)

text \<open>C38: The database is well formed after any sequence of insertions, whether they add a source, update one
  or fail: in every table the ids are distinct and come from its sequence, the text of a part is the
  hex encoding of its data, a bytecode belongs to a source, an entry of a bytecode points to a
  bytecode and to a part, and a file of a source to both.\<close>

theorem insertions_keep_database_well_formed:
  "db_ok lib (foldl (\<lambda>db s. snd (insert_data lib s db)) empty_db sources)"
  by (induction sources rule: rev_induct) (simp_all add: empty_db_ok insert_data_ok)

text \<open>C32: A search is sound: every contract it reports comes from a stored bytecode of the right kind that
  matches the searched code, which for a blueprint is its init code. The main parts of that
  bytecode stand at their places in the code, and a full match means that the whole stored code
  begins it. When a full match exists, all reported matches are full.\<close>

theorem search_is_sound:
  assumes ok: "db_ok lib db" and run: "find_contract lib cl ml db ty code = Some matches" and m: "m \<in> set matches"
  shows "(\<exists>remote blueprint b r source. remote_of ty code = Some (remote, blueprint) \<and> mc_is_blueprint m = blueprint
      \<and> row (db_bytecodes db) b = Some r \<and> br_type r = db_type_of (re_bytecode_type remote)
      \<and> row (db_sources db) (br_source_id r) = Some source
      \<and> mc_file_name m = sr_file_name source \<and> mc_contract_name m = sr_contract_name source
      \<and> main_parts_agree (parts_of db b) (re_data remote)
      \<and> (mc_match_type m = Full \<longrightarrow> prefix (concat (map pr_data (parts_of db b))) (re_data remote)))
    \<and> (mc_match_type m = Partial \<longrightarrow> (\<forall>m2 \<in> set matches. mc_match_type m2 = Partial))"
proof -
  from run obtain remote blueprint ms where remote: "remote_of ty code = Some (remote, blueprint)"
    and ms: "find_match_contracts lib cl ml db remote = Some ms"
    and matches: "matches = retain_full (map (mc_is_blueprint_update (\<lambda>_. blueprint)) ms)"
    by (auto simp: find_contract_def split: option.splits)
  from ms obtain found where found: "filter_candidates ml (re_data remote) (find_bytecode_candidates lib db remote) = Some found"
    and build: "build_matches lib cl db remote found = Some ms"
    by (auto simp: find_match_contracts_def split: option.splits)
  from m matches obtain m0 where m0: "m0 \<in> set ms" "m = m0\<lparr>mc_is_blueprint := blueprint\<rparr>"
    by (auto simp: retain_full_def split: if_splits)
  from m0(1) obtain r mt where r: "(r, mt) \<in> set found" "build_match_contract lib cl db (br_source_id r) remote mt = Some (Ok m0)"
    unfolding build_matches_iff[OF build] by blast
  from r(2) obtain source where source: "row (db_sources db) (br_source_id r) = Some source" "mc_file_name m0 = sr_file_name source"
    "mc_contract_name m0 = sr_contract_name source" "mc_match_type m0 = mt"
    by (auto simp: build_match_contract_def build_from_db_data_def Let_def split: option.splits sum.splits)
  from r(1) obtain rows where rows: "(r, rows) \<in> set (find_bytecode_candidates lib db remote)" "is_match ml rows (re_data remote) = Some (Ok mt)"
    unfolding filter_candidates_iff[OF found] by blast
  from rows(1) obtain b where b: "row (db_bytecodes db) b = Some r" "rows = parts_of db b" "br_type r = db_type_of (re_bytecode_type remote)"
    unfolding candidate_iff[OF ok] by blast
  have "mc_match_type m = Partial \<longrightarrow> (\<forall>m2 \<in> set matches. mc_match_type m2 = Partial)"
    using m unfolding matches retain_full_def by (auto simp: list_ex_iff split: if_splits) (meson match_type.exhaust)+
  then show ?thesis using remote m0(2) source b is_match_agrees[OF rows(2)] by auto
qed


text \<open>A source with one part of metadata, stored in the empty database.\<close>

definition sample_hex :: "bytes \<Rightarrow> string" where
  "sample_hex = map (\<lambda>b. char_of (unat b))"

definition sample_lib :: "(unit, string) db_lib" where
  "sample_lib = \<lparr>md5_text = id, md5_bytes = sample_hex, md5_json = (\<lambda>_. []), md5_ids = map char_of, hex_encode = sample_hex\<rparr>"

definition sample_metadata :: "(unit, unit) metadata_lib" where
  "sample_metadata = \<lparr>metadata_from_cbor = (\<lambda>bs. case bs of b # _ \<Rightarrow> if b = 2 then Ok ((), 1) else Err ''no'' | [] \<Rightarrow> Err ''no''),
     metadata_solc = (\<lambda>_. None)\<rparr>"

definition sample_ctors :: "(unit, unit) ctor_lib" where
  "sample_ctors = \<lparr>get_constructor = (\<lambda>_. Ok None), ctor_inputs = (\<lambda>_. 0), ctor_decodes = (\<lambda>_ _. False),
     parse_libraries = (\<lambda>_. Ok None), json_string = (\<lambda>_. ''{}'')\<rparr>"

definition stored_sample :: "unit database_ready_source" where
  "stored_sample = \<lparr>ds_file_name = ''f'', ds_contract_name = ''C'', ds_compiler_version = ''v'', ds_compiler_settings = (),
     ds_source_type = SolidityType, ds_source_files = [(''f'', ''contract C'')], ds_abi = None, ds_compilation_artifacts = None,
     ds_creation_code_artifacts = None, ds_runtime_code_artifacts = None, ds_raw_creation_code = [1], ds_raw_runtime_code = [1, 2, 0, 1],
     ds_creation_input_parts = [Main [1]], ds_deployed_bytecode_parts = [Main [1], Meta [2, 0, 1]]\<rparr>"

definition filled_db :: "(unit, string) bytecode_db" where
  "filled_db = \<lparr>db_files = \<lparr>tb_rows = [(1, (''f'', ''contract C''))], tb_seq = 2\<rparr>,
     db_sources = \<lparr>tb_rows = [(1, source_row_of sample_lib stored_sample [1])], tb_seq = 2\<rparr>, db_source_files = {(1, 1)},
     db_bytecodes = \<lparr>tb_rows = [(1, \<lparr>br_source_id = 1, br_type = CreationInput\<rparr>), (2, \<lparr>br_source_id = 1, br_type = DeployedBytecode\<rparr>)], tb_seq = 3\<rparr>,
     db_parts = \<lparr>tb_rows = [(1, part_row_of sample_lib (Main [1])), (3, part_row_of sample_lib (Meta [2, 0, 1]))], tb_seq = 4\<rparr>,
     db_bytecode_parts = [((1, 0), 1), ((2, 0), 1), ((2, 1), 3)]\<rparr>"

lemma sample_inserted: "insert_data sample_lib stored_sample empty_db = (Ok 1, filled_db)"
  by (simp add: insert_data_def insert_all_def insert_source_details_def insert_bytecodes_def insert_then_select_def
      insert_bytecode_part_def insert_source_files_def empty_db_def stored_sample_def filled_db_def source_row_of_def part_row_of_def)

lemma sample_parts_of:
  "parts_of filled_db b = (if b = 1 then [part_row_of sample_lib (Main [1])]
     else if b = 2 then [part_row_of sample_lib (Main [1]), part_row_of sample_lib (Meta [2, 0, 1])] else [])"
  by (simp add: parts_of_def filled_db_def List.map_filter_def)

lemma sample_searchable: "searchable sample_metadata filled_db"
  by (auto simp: searchable_def sample_parts_of) 
     (auto simp: filled_db_def part_valid_def part_row_of_def sample_metadata_def raw_of_def source_row_of_def stored_sample_def split: if_splits)

lemma sample_followed: "metadata_followed sample_metadata [1, 2, 0, 1]"
  by (auto simp: metadata_followed_def sample_metadata_def le_Suc_eq numeral_eq_Suc split: if_splits)

lemma prefix_map_inj: "inj f \<Longrightarrow> prefix (map f a) (map f b) \<longleftrightarrow> prefix a b"
proof (induction a arbitrary: b)
  case (Cons x a)
  then show ?case by (cases b) (auto simp: inj_eq)
qed simp

lemma sample_hex_prefix: "prefix (hex_encode sample_lib a) (hex_encode sample_lib b) \<longleftrightarrow> prefix a b"
proof -
  have "inj (\<lambda>b :: 8 word. char_of (unat b) :: char)"
  proof (rule injI)
    fix a b :: "8 word"
    assume "(char_of (unat a) :: char) = char_of (unat b)"
    then have "unat a mod 256 = unat b mod 256" by (simp add: char_of_eq_iff take_bit_eq_mod)
    moreover have "unat a < 256" "unat b < 256" using unsigned_less[of a, where ?'a = nat] unsigned_less[of b, where ?'a = nat] by simp_all
    ultimately have "unat a = unat b" by simp
    then show "a = b" by (rule unsigned_word_eqI)
  qed
  then show ?thesis by (simp add: sample_lib_def sample_hex_def prefix_map_inj)
qed


theorem search_is_sound_witness:
  "\<exists>matches m. find_contract sample_lib sample_ctors sample_metadata filled_db CreationInput [1] = Some matches \<and> m \<in> set matches
     \<and> (\<exists>b. main_parts_agree (parts_of filled_db b) [1]) \<and> mc_match_type m = Partial"
proof -
  have ok: "db_ok sample_lib filled_db" using insert_data_ok[OF empty_db_ok, of sample_lib stored_sample] by (simp add: sample_inserted)
  let ?remote = "\<lparr>re_bytecode_type = CreationCode, re_data = [1]\<rparr>" and ?r = "\<lparr>br_source_id = 1, br_type = CreationInput\<rparr>"
  have fields: "tb_rows (db_bytecodes filled_db) = [(1, ?r), (2, \<lparr>br_source_id = 1, br_type = DeployedBytecode\<rparr>)]"
    "db_bytecode_parts filled_db = [((1, 0), 1), ((2, 0), 1), ((2, 1), 3)]"
    "tb_rows (db_parts filled_db) = [(1, part_row_of sample_lib (Main [1])), (3, part_row_of sample_lib (Meta [2, 0, 1]))]"
    "tb_rows (db_sources filled_db) = [(1, source_row_of sample_lib stored_sample [1])]"
    by (simp_all add: filled_db_def)
  have "find_part_id_candidates (hex_encode sample_lib [1]) (db_parts filled_db) = [1]"
    by (simp add: find_part_id_candidates_def fields part_row_of_def sample_lib_def sample_hex_def)
  then have "find_bytecode_candidates sample_lib filled_db ?remote = [(?r, [part_row_of sample_lib (Main [1])])]"
    by (simp add: find_bytecode_candidates_def fields sample_parts_of)
  moreover have "is_match sample_metadata [part_row_of sample_lib (Main [1])] [1] = Some (Ok Partial)"
    by (simp add: is_match_def local_part_of_def part_row_of_def compare_bytecode_def raw_bytecode_def)
  moreover obtain m where "build_match_contract sample_lib sample_ctors filled_db 1 ?remote Partial = Some (Ok m)" "mc_match_type m = Partial"
    by (simp add: build_match_contract_def build_from_db_data_def extract_constructor_args_def slice_def fields sample_ctors_def
        source_row_of_def stored_sample_def Let_def)
  ultimately have "find_match_contracts sample_lib sample_ctors sample_metadata filled_db ?remote = Some [m]" "mc_match_type m = Partial"
    by (simp_all add: find_match_contracts_def)
  then have run: "find_contract sample_lib sample_ctors sample_metadata filled_db CreationInput [1] = Some [m\<lparr>mc_is_blueprint := False\<rparr>]"
    "mc_match_type (m\<lparr>mc_is_blueprint := False\<rparr>) = Partial"
    by (simp_all add: find_contract_def remote_of_def from_creation_code_def retain_full_def)
  from search_is_sound[OF ok run(1), of "m\<lparr>mc_is_blueprint := False\<rparr>"] run show ?thesis by (auto simp: remote_of_def from_creation_code_def)
qed

text \<open>The comparison looks at two bytes after the metadata but only checks that there is one.\<close>

theorem metadata_one_byte_before_the_end_panics:
  "compare_bytecode \<lparr>metadata_from_cbor = (\<lambda>_. Ok ((), 2)), metadata_solc = (\<lambda>_. None)\<rparr> [1, 9, 9, 9]
     [LocalMain [1], LocalMetadata [2, 0, 1] () [0, 1]] = None"
  by (simp add: compare_bytecode_def raw_bytecode_def slice_def Let_def)

end
