(* ===== verification/Tac_Database.thy ===== *)
theory Tac_Database
  imports Prelude "HOL-Library.Word"
begin

text \<open>
  The database of the operation lifecycle service
  (\<^verbatim>\<open>tac-operation-lifecycle/tac-operation-lifecycle-logic/src/database.rs\<close>, \<^verbatim>\<open>utils.rs\<close>): intervals of time that have to be
  asked for, operations found in them, the stages and transactions of an operation.

  The tables are lists of rows; a statement reads or changes them at once. Every statement may fail: the
  parameter \<open>F\<close> gives the error of the n-th statement of a connection, if it has one. A failed statement inside
  a transaction makes the transaction void, as PostgreSQL does, even when the program ignores the
  error. A panic is an outcome of its own.

  A \<open>NaiveDateTime\<close> is its distance from 1970 in microseconds, the resolution of the
  database. Which seconds \<open>chrono\<close> can represent is the parameter \<open>rep\<close>; what it does with them is its documentation. Rows that an SQL
  statement may return in any order come in the order of the table, and equal sort keys keep it.
\<close>

section \<open>Outcomes and connections\<close>

datatype db_err =
    Driver string
  | TransactionAborted
  | RecordNotUpdated
  | ForeignKeyViolation string
  | NullValue string
  | AnyhowError string

datatype 'a outcome = Done 'a | Failed db_err | Panicked

type_synonym faults = "nat \<Rightarrow> db_err option"

record 'd conn =
  conn_db :: 'd
  conn_clock :: nat
  conn_aborted :: bool

type_synonym ('d, 'a) io = "'d conn \<Rightarrow> 'a outcome \<times> 'd conn"

definition pure_io :: "'a \<Rightarrow> ('d, 'a) io" where
  "pure_io x c = (Done x, c)"

definition fail_io :: "db_err \<Rightarrow> ('d, 'a) io" where
  "fail_io e c = (Failed e, c)"

definition panic_io :: "('d, 'a) io" where
  "panic_io c = (Panicked, c)"

text \<open>The operator \<open>?\<close>: an error or a panic ends the function.\<close>

definition bind_io :: "('d, 'a) io \<Rightarrow> ('a \<Rightarrow> ('d, 'b) io) \<Rightarrow> ('d, 'b) io" where
  "bind_io m f c = (case m c of
       (Done x, c') \<Rightarrow> f x c'
     | (Failed e, c') \<Rightarrow> (Failed e, c')
     | (Panicked, c') \<Rightarrow> (Panicked, c'))"

text \<open>\<open>let _ = m\<close>: an error is dropped, a panic is not.\<close>

definition ignore_error :: "('d, 'a) io \<Rightarrow> ('d, unit) io" where
  "ignore_error m c = (case m c of
       (Panicked, c') \<Rightarrow> (Panicked, c')
     | (_, c') \<Rightarrow> (Done (), c'))"

text \<open>A value that is computed before it is used, with a panic when there is none (\<open>unwrap\<close>).\<close>

definition unwrap_io :: "'a option \<Rightarrow> ('d, 'a) io" where
  "unwrap_io v = (case v of None \<Rightarrow> panic_io | Some x \<Rightarrow> pure_io x)"

definition run_statement :: "faults \<Rightarrow> ('d \<Rightarrow> (db_err, 'a) result \<times> 'd) \<Rightarrow> ('d, 'a) io" where
  "run_statement F f c = (case F (conn_clock c) of
       Some e \<Rightarrow> (Failed e, c\<lparr>conn_clock := Suc (conn_clock c)\<rparr>)
     | None \<Rightarrow> (case f (conn_db c) of
           (Inl e, _) \<Rightarrow> (Failed e, c\<lparr>conn_clock := Suc (conn_clock c)\<rparr>)
         | (Inr x, d) \<Rightarrow> (Done x, c\<lparr>conn_db := d, conn_clock := Suc (conn_clock c)\<rparr>)))"

definition tx_statement :: "faults \<Rightarrow> ('d \<Rightarrow> (db_err, 'a) result \<times> 'd) \<Rightarrow> ('d, 'a) io" where
  "tx_statement F f c =
     (if conn_aborted c then (Failed TransactionAborted, c\<lparr>conn_clock := Suc (conn_clock c)\<rparr>)
      else case run_statement F f c of
          (Failed e, c') \<Rightarrow> (Failed e, c'\<lparr>conn_aborted := True\<rparr>)
        | r \<Rightarrow> r)"

text \<open>\<open>DatabaseConnection::transaction\<close>: begin, the body, and commit when the body gives \<open>Ok\<close>. The commit of an
  aborted transaction succeeds and undoes it.\<close>

definition transaction :: "faults \<Rightarrow> ('d, 'a) io \<Rightarrow> ('d, 'a) io" where
  "transaction F body c = (case F (conn_clock c) of
       Some e \<Rightarrow> (Failed e, c\<lparr>conn_clock := Suc (conn_clock c)\<rparr>)
     | None \<Rightarrow> (case body (c\<lparr>conn_clock := Suc (conn_clock c), conn_aborted := False\<rparr>) of
           (Done x, c') \<Rightarrow> (case F (conn_clock c') of
               Some e \<Rightarrow> (Failed e, c\<lparr>conn_clock := Suc (conn_clock c')\<rparr>)
             | None \<Rightarrow> (Done x, c\<lparr>conn_db := (if conn_aborted c' then conn_db c else conn_db c'),
                                  conn_clock := Suc (conn_clock c')\<rparr>))
         | (r, c') \<Rightarrow> (r, c\<lparr>conn_clock := conn_clock c'\<rparr>)))"

section \<open>Times\<close>

definition as_i64 :: "nat \<Rightarrow> int" where
  "as_i64 n = (if n < 2 ^ 63 then int n else int n - 2 ^ 64)"

definition as_u64 :: "int \<Rightarrow> nat" where
  "as_u64 i = nat (i mod 2 ^ 64)"

definition micros_per_sec :: int where "micros_per_sec = 1000000"

definition timestamp_to_naive :: "(int \<Rightarrow> bool) \<Rightarrow> int \<Rightarrow> int option" where
  "timestamp_to_naive rep t = (if rep t then Some (t * micros_per_sec) else None)"

text \<open>\<open>naive.and_utc().timestamp()\<close>, rounded down to whole seconds.\<close>

definition timestamp_of :: "int \<Rightarrow> int" where
  "timestamp_of t = t div micros_per_sec"

section \<open>Tables\<close>

datatype status_enum = Pending | Processing | Completed | FailedStatus

datatype order_direction = LatestFirst | EarliestFirst

record interval =
  iv_id :: nat
  iv_start :: int
  iv_finish :: int
  iv_inserted_at :: int
  iv_updated_at :: int
  iv_status :: status_enum
  iv_next_retry :: "int option"
  iv_retry_count :: "16 word"

record operation =
  op_id :: string
  op_type :: "string option"
  op_timestamp :: int
  op_next_retry :: "int option"
  op_status :: status_enum
  op_retry_count :: "16 word"
  op_inserted_at :: int
  op_updated_at :: int
  op_sender_address :: "string option"
  op_sender_blockchain :: "string option"

record operation_stage =
  stage_id :: nat
  stage_operation_id :: string
  stage_type_id :: int
  stage_success :: bool
  stage_timestamp :: int
  stage_note :: "string option"
  stage_inserted_at :: int

record tx_row =
  tx_id :: nat
  tx_stage_id :: nat
  tx_hash :: string
  tx_blockchain_type :: string
  tx_inserted_at :: int

record 'n meta_row =
  meta_operation_id :: string
  tac_valid_executors :: "string list option"
  ton_valid_executors :: "string list option"
  tac_protocol_fee :: "'n option"
  tac_executor_fee :: "'n option"
  tac_token_fee_symbol :: "string option"
  ton_protocol_fee :: "'n option"
  ton_executor_fee :: "'n option"
  ton_token_fee_symbol :: "string option"

record watermark =
  wm_id :: nat
  wm_timestamp :: int

text \<open>The tables, with the sequences that give the next identifier.\<close>

record 'n tac_db =
  db_intervals :: "interval list"
  db_operations :: "operation list"
  db_stages :: "operation_stage list"
  db_transactions :: "tx_row list"
  db_metas :: "'n meta_row list"
  db_stage_types :: "(int \<times> string) list"
  db_watermarks :: "watermark list"
  db_next_interval :: nat
  db_next_stage :: nat
  db_next_tx :: nat
  db_next_watermark :: nat

definition order_by :: "('r \<Rightarrow> int) \<Rightarrow> order_direction \<Rightarrow> 'r list \<Rightarrow> 'r list" where
  "order_by f d rows = (case d of
       EarliestFirst \<Rightarrow> sort_key f rows
     | LatestFirst \<Rightarrow> sort_key (\<lambda>r. - f r) rows)"

section \<open>The watermark\<close>

definition get_watermark :: "nat \<Rightarrow> faults \<Rightarrow> ('n tac_db, nat) io" where
  "get_watermark start_timestamp F =
     bind_io (run_statement F (\<lambda>d. (Ok (order_by wm_timestamp EarliestFirst (db_watermarks d)), d)))
       (\<lambda>existing_watermark. case existing_watermark of
            [] \<Rightarrow> pure_io start_timestamp
          | w # _ \<Rightarrow> pure_io (as_u64 (timestamp_of (wm_timestamp w))))"

text \<open>The two forms of \<open>save\<close>: an update of the row with the identifier, or an insertion.\<close>

definition update_watermark :: "nat \<Rightarrow> int \<Rightarrow> 'n tac_db \<Rightarrow> (db_err, unit) result \<times> 'n tac_db" where
  "update_watermark i t d =
     (if i \<in> wm_id ` set (db_watermarks d)
      then (Ok (), d\<lparr>db_watermarks := map (\<lambda>w. if wm_id w = i then w\<lparr>wm_timestamp := t\<rparr> else w) (db_watermarks d)\<rparr>)
      else (Err RecordNotUpdated, d))"

definition insert_watermark :: "int \<Rightarrow> 'n tac_db \<Rightarrow> (db_err, unit) result \<times> 'n tac_db" where
  "insert_watermark t d =
     (Ok (), d\<lparr>db_watermarks := db_watermarks d @ [\<lparr>wm_id = db_next_watermark d, wm_timestamp = t\<rparr>],
              db_next_watermark := Suc (db_next_watermark d)\<rparr>)"

definition set_watermark_internal :: "(int \<Rightarrow> bool) \<Rightarrow> faults \<Rightarrow> nat \<Rightarrow> ('n tac_db, unit) io" where
  "set_watermark_internal rep F timestamp =
     bind_io (tx_statement F (\<lambda>d. (Ok (order_by wm_timestamp EarliestFirst (db_watermarks d)), d))) (\<lambda>existing.
     bind_io (unwrap_io (timestamp_to_naive rep (as_i64 timestamp))) (\<lambda>timestamp_naive.
       case existing of
         w # _ \<Rightarrow> tx_statement F (update_watermark (wm_id w) timestamp_naive)
       | [] \<Rightarrow> tx_statement F (insert_watermark timestamp_naive)))"

definition set_watermark :: "(int \<Rightarrow> bool) \<Rightarrow> faults \<Rightarrow> nat \<Rightarrow> ('n tac_db, unit) io" where
  "set_watermark rep F timestamp = transaction F (ignore_error (set_watermark_internal rep F timestamp))"

definition get_latest_operation_timestamp :: "faults \<Rightarrow> ('n tac_db, nat option) io" where
  "get_latest_operation_timestamp F =
     bind_io (run_statement F (\<lambda>d. (Ok (map op_timestamp (db_operations d)), d)))
       (\<lambda>ts. pure_io (if ts = [] then None else Some (as_u64 (timestamp_of (Max (set ts))))))"

section \<open>Intervals\<close>

definition new_interval :: "status_enum \<Rightarrow> int \<Rightarrow> int \<Rightarrow> int \<Rightarrow> interval" where
  "new_interval st now start finish =
     \<lparr>iv_id = 0, iv_start = start, iv_finish = finish, iv_inserted_at = now, iv_updated_at = now,
      iv_status = st, iv_next_retry = None, iv_retry_count = 0\<rparr>"

text \<open>\<open>insert_many\<close>: the rows get the next identifiers of the sequence.\<close>

definition insert_intervals :: "interval list \<Rightarrow> 'n tac_db \<Rightarrow> (db_err, unit) result \<times> 'n tac_db" where
  "insert_intervals rows d =
     (Ok (), d\<lparr>db_intervals := db_intervals d @
                map (\<lambda>(i, r). r\<lparr>iv_id := db_next_interval d + i\<rparr>) (enumerate 0 rows),
              db_next_interval := db_next_interval d + length rows\<rparr>)"

text \<open>\<open>generate_pending_interval\<close> and \<open>add_completed_interval\<close> differ in the status of the row.\<close>

definition add_interval ::
  "status_enum \<Rightarrow> (int \<Rightarrow> bool) \<Rightarrow> faults \<Rightarrow> int \<Rightarrow> nat \<Rightarrow> nat \<Rightarrow> ('n tac_db, unit) io" where
  "add_interval st rep F now from to =
     bind_io (unwrap_io (timestamp_to_naive rep (as_i64 from))) (\<lambda>start_naive.
     bind_io (unwrap_io (timestamp_to_naive rep (as_i64 to))) (\<lambda>finish_naive.
       transaction F
         (bind_io (tx_statement F (insert_intervals [new_interval st now start_naive finish_naive])) (\<lambda>_.
            ignore_error (set_watermark_internal rep F to)))))"

definition generate_pending_interval ::
  "(int \<Rightarrow> bool) \<Rightarrow> faults \<Rightarrow> int \<Rightarrow> nat \<Rightarrow> nat \<Rightarrow> ('n tac_db, unit) io" where
  "generate_pending_interval = add_interval Pending"

definition add_completed_interval ::
  "(int \<Rightarrow> bool) \<Rightarrow> faults \<Rightarrow> int \<Rightarrow> nat \<Rightarrow> nat \<Rightarrow> ('n tac_db, unit) io" where
  "add_completed_interval = add_interval Completed"

text \<open>\<open>(from..to).step_by(step)\<close>; a step of zero panics.\<close>

function step_from :: "nat \<Rightarrow> nat \<Rightarrow> nat \<Rightarrow> nat list" where
  "step_from from to step = (if from < to \<and> 0 < step then from # step_from (from + step) to step else [])"
  by auto
termination by (relation "measure (\<lambda>(from, to, step). to - from)") auto

declare step_from.simps [simp del]

definition step_by :: "nat \<Rightarrow> nat \<Rightarrow> nat \<Rightarrow> nat list option" where
  "step_by from to step = (if step = 0 then None else Some (step_from from to step))"

text \<open>A fallible map: the first panic ends it.\<close>

fun map_panic :: "('a \<Rightarrow> 'b option) \<Rightarrow> 'a list \<Rightarrow> 'b list option" where
  "map_panic f [] = Some []"
| "map_panic f (x # xs) = (case f x of None \<Rightarrow> None | Some y \<Rightarrow> map_option ((#) y) (map_panic f xs))"

definition pending_interval ::
  "(int \<Rightarrow> bool) \<Rightarrow> int \<Rightarrow> nat \<Rightarrow> nat \<Rightarrow> nat \<Rightarrow> interval option" where
  "pending_interval rep now to period_secs timestamp =
     (case timestamp_to_naive rep (as_i64 timestamp) of
        None \<Rightarrow> None
      | Some start_naive \<Rightarrow>
          (case timestamp_to_naive rep (as_i64 (min ((timestamp + period_secs) mod 2 ^ 64) to)) of
             None \<Rightarrow> None
           | Some finish_naive \<Rightarrow> Some (new_interval Pending now start_naive finish_naive)))"

definition DB_BATCH_SIZE :: nat where "DB_BATCH_SIZE = 1000"

definition store_chunk :: "(int \<Rightarrow> bool) \<Rightarrow> faults \<Rightarrow> interval list \<Rightarrow> ('n tac_db, unit) io" where
  "store_chunk rep F chunk =
     transaction F
       (bind_io (tx_statement F (insert_intervals chunk)) (\<lambda>_.
          if chunk = [] then pure_io ()
          else ignore_error (set_watermark_internal rep F (as_u64 (timestamp_of (iv_finish (last chunk)))))))"

fun store_chunks :: "(int \<Rightarrow> bool) \<Rightarrow> faults \<Rightarrow> interval list list \<Rightarrow> ('n tac_db, unit) io" where
  "store_chunks rep F [] = pure_io ()"
| "store_chunks rep F (c # cs) = bind_io (store_chunk rep F c) (\<lambda>_. store_chunks rep F cs)"

definition generate_pending_intervals ::
  "(int \<Rightarrow> bool) \<Rightarrow> faults \<Rightarrow> int \<Rightarrow> nat \<Rightarrow> nat \<Rightarrow> nat \<Rightarrow> ('n tac_db, nat) io" where
  "generate_pending_intervals rep F now from to period_secs =
     bind_io (unwrap_io (step_by from to period_secs)) (\<lambda>timestamps.
     bind_io (unwrap_io (map_panic (pending_interval rep now to period_secs) timestamps)) (\<lambda>intervals.
     bind_io (store_chunks rep F (chunks DB_BATCH_SIZE intervals)) (\<lambda>_.
       pure_io (length intervals))))"

definition update_interval :: "nat \<Rightarrow> (interval \<Rightarrow> interval) \<Rightarrow> 'n tac_db \<Rightarrow> (db_err, unit) result \<times> 'n tac_db" where
  "update_interval i f d =
     (if i \<in> iv_id ` set (db_intervals d)
      then (Ok (), d\<lparr>db_intervals := map (\<lambda>r. if iv_id r = i then f r else r) (db_intervals d)\<rparr>)
      else (Err RecordNotUpdated, d))"

definition set_interval_status :: "faults \<Rightarrow> interval \<Rightarrow> status_enum \<Rightarrow> ('n tac_db, unit) io" where
  "set_interval_status F model st = run_statement F (update_interval (iv_id model) (\<lambda>r. r\<lparr>iv_status := st\<rparr>))"

definition set_interval_status_by_id :: "faults \<Rightarrow> nat \<Rightarrow> status_enum \<Rightarrow> ('n tac_db, unit) io" where
  "set_interval_status_by_id F i st =
     bind_io (run_statement F (\<lambda>d. (Ok (find (\<lambda>r. iv_id r = i) (db_intervals d)), d))) (\<lambda>found.
       case found of
         Some model \<Rightarrow> set_interval_status F model st
       | None \<Rightarrow> fail_io (AnyhowError ''interval not found''))"

text \<open>The statement of \<open>build_interval_query\<close>: select the rows that meet the conditions, in order, up to
  a limit, lock them and set their status, and return them as they are now.\<close>

definition claim_intervals ::
  "(interval \<Rightarrow> bool) \<Rightarrow> (interval \<Rightarrow> int) \<Rightarrow> order_direction \<Rightarrow> nat \<Rightarrow> status_enum
    \<Rightarrow> 'n tac_db \<Rightarrow> (db_err, interval list) result \<times> 'n tac_db" where
  "claim_intervals cond field dir limit st d =
     (let ids = iv_id ` set (take limit (order_by field dir (filter cond (db_intervals d))));
          rows = map (\<lambda>r. if iv_id r \<in> ids then r\<lparr>iv_status := st\<rparr> else r) (db_intervals d)
      in (Ok (filter (\<lambda>r. iv_id r \<in> ids) rows), d\<lparr>db_intervals := rows\<rparr>))"

definition optional_bound :: "(int \<Rightarrow> bool) \<Rightarrow> nat option \<Rightarrow> int option option" where
  "optional_bound rep t = (case t of
       None \<Rightarrow> Some None
     | Some s \<Rightarrow> map_option Some (timestamp_to_naive rep (as_i64 s)))"

definition pending_condition :: "int option \<Rightarrow> int option \<Rightarrow> interval \<Rightarrow> bool" where
  "pending_condition from to r \<longleftrightarrow>
     iv_status r = Pending \<and>
     (case from of None \<Rightarrow> True | Some s \<Rightarrow> s \<le> iv_start r) \<and>
     (case to of None \<Rightarrow> True | Some f \<Rightarrow> iv_finish r < f)"

definition query_pending_intervals ::
  "(int \<Rightarrow> bool) \<Rightarrow> faults \<Rightarrow> nat \<Rightarrow> order_direction \<Rightarrow> nat option \<Rightarrow> nat option \<Rightarrow> ('n tac_db, interval list) io" where
  "query_pending_intervals rep F num order from to =
     bind_io (unwrap_io (optional_bound rep from)) (\<lambda>start_naive.
     bind_io (unwrap_io (optional_bound rep to)) (\<lambda>finish_naive.
       run_statement F (claim_intervals (pending_condition start_naive finish_naive) iv_start order num Processing)))"

definition retry_due :: "status_enum \<Rightarrow> int option \<Rightarrow> int \<Rightarrow> bool" where
  "retry_due st next_retry now_naive \<longleftrightarrow> st = FailedStatus \<and> (case next_retry of None \<Rightarrow> False | Some t \<Rightarrow> t < now_naive)"

definition query_failed_intervals ::
  "(int \<Rightarrow> bool) \<Rightarrow> faults \<Rightarrow> int \<Rightarrow> nat \<Rightarrow> ('n tac_db, interval list) io" where
  "query_failed_intervals rep F now num =
     bind_io (unwrap_io (timestamp_to_naive rep (timestamp_of now))) (\<lambda>now_naive.
       run_statement F (claim_intervals (\<lambda>r. retry_due (iv_status r) (iv_next_retry r) now_naive)
         (\<lambda>r. case iv_next_retry r of None \<Rightarrow> 0 | Some t \<Rightarrow> t) EarliestFirst num Processing))"

definition set_interval_retry :: "faults \<Rightarrow> int \<Rightarrow> interval \<Rightarrow> int \<Rightarrow> ('n tac_db, unit) io" where
  "set_interval_retry F now model retry_after_delay_sec =
     run_statement F (update_interval (iv_id model) (\<lambda>r. r\<lparr>
       iv_next_retry := Some (now + retry_after_delay_sec * micros_per_sec),
       iv_retry_count := iv_retry_count model + 1,
       iv_status := FailedStatus,
       iv_updated_at := now\<rparr>))"

definition reset_processing_intervals :: "faults \<Rightarrow> ('n tac_db, nat) io" where
  "reset_processing_intervals F = run_statement F (\<lambda>d.
     (Ok (length (filter (\<lambda>r. iv_status r = Processing) (db_intervals d))),
      d\<lparr>db_intervals := map (\<lambda>r. if iv_status r = Processing then r\<lparr>iv_status := Pending\<rparr> else r) (db_intervals d)\<rparr>))"

section \<open>Operations\<close>

record api_operation =
  api_id :: string
  api_timestamp :: nat

definition pending_operation :: "(int \<Rightarrow> bool) \<Rightarrow> int \<Rightarrow> api_operation \<Rightarrow> operation option" where
  "pending_operation rep now p = map_option (\<lambda>t.
     \<lparr>op_id = api_id p, op_type = None, op_timestamp = t, op_next_retry = None, op_status = Pending,
      op_retry_count = 0, op_inserted_at = now, op_updated_at = now,
      op_sender_address = None, op_sender_blockchain = None\<rparr>)
     (timestamp_to_naive rep (as_i64 (api_timestamp p)))"

text \<open>\<open>INSERT ... ON CONFLICT (id) DO NOTHING\<close>, row by row; the result counts the rows inserted.\<close>

fun insert_operations :: "operation list \<Rightarrow> 'n tac_db \<Rightarrow> (db_err, nat) result \<times> 'n tac_db" where
  "insert_operations [] d = (Ok 0, d)"
| "insert_operations (r # rs) d =
     (if op_id r \<in> op_id ` set (db_operations d) then insert_operations rs d
      else (case insert_operations rs (d\<lparr>db_operations := db_operations d @ [r]\<rparr>) of
              (Inr n, d') \<Rightarrow> (Ok (Suc n), d')
            | (Inl e, d') \<Rightarrow> (Err e, d')))"

definition insert_pending_operations ::
  "(int \<Rightarrow> bool) \<Rightarrow> faults \<Rightarrow> int \<Rightarrow> api_operation list \<Rightarrow> ('n tac_db, unit) io" where
  "insert_pending_operations rep F now ops =
     bind_io (unwrap_io (map_panic (pending_operation rep now) ops)) (\<lambda>models.
     bind_io (run_statement F (insert_operations models)) (\<lambda>cnt. pure_io ()))"

text \<open>The same for operations. The statement does not return the column \<open>op_type\<close>, which is
  therefore absent in the rows it gives.\<close>

definition claim_operations ::
  "(operation \<Rightarrow> bool) \<Rightarrow> (operation \<Rightarrow> int) \<Rightarrow> order_direction \<Rightarrow> nat \<Rightarrow> status_enum
    \<Rightarrow> 'n tac_db \<Rightarrow> (db_err, operation list) result \<times> 'n tac_db" where
  "claim_operations cond field dir limit st d =
     (let ids = op_id ` set (take limit (order_by field dir (filter cond (db_operations d))));
          rows = map (\<lambda>r. if op_id r \<in> ids then r\<lparr>op_status := st\<rparr> else r) (db_operations d)
      in (Ok (map (\<lambda>r. r\<lparr>op_type := None\<rparr>) (filter (\<lambda>r. op_id r \<in> ids) rows)), d\<lparr>db_operations := rows\<rparr>))"

definition query_new_operations :: "faults \<Rightarrow> nat \<Rightarrow> order_direction \<Rightarrow> ('n tac_db, operation list) io" where
  "query_new_operations F num order =
     run_statement F (claim_operations (\<lambda>r. op_status r = Pending \<and> op_type r = None) op_timestamp order num Processing)"

definition query_pending_operations :: "faults \<Rightarrow> nat \<Rightarrow> order_direction \<Rightarrow> ('n tac_db, operation list) io" where
  "query_pending_operations F num order =
     run_statement F (claim_operations (\<lambda>r. op_status r = Pending \<and> op_type r = Some ''PENDING'') op_timestamp order num Processing)"

definition query_failed_operations ::
  "(int \<Rightarrow> bool) \<Rightarrow> faults \<Rightarrow> int \<Rightarrow> nat \<Rightarrow> order_direction \<Rightarrow> ('n tac_db, operation list) io" where
  "query_failed_operations rep F now num order =
     bind_io (unwrap_io (timestamp_to_naive rep (timestamp_of now))) (\<lambda>now_naive.
       run_statement F (claim_operations (\<lambda>r. retry_due (op_status r) (op_next_retry r) now_naive)
         (\<lambda>r. case op_next_retry r of None \<Rightarrow> 0 | Some t \<Rightarrow> t) order num Processing))"

definition update_operation :: "string \<Rightarrow> (operation \<Rightarrow> operation) \<Rightarrow> 'n tac_db \<Rightarrow> (db_err, unit) result \<times> 'n tac_db" where
  "update_operation i f d =
     (if i \<in> op_id ` set (db_operations d)
      then (Ok (), d\<lparr>db_operations := map (\<lambda>r. if op_id r = i then f r else r) (db_operations d)\<rparr>)
      else (Err RecordNotUpdated, d))"

definition set_operation_retry :: "faults \<Rightarrow> int \<Rightarrow> operation \<Rightarrow> int \<Rightarrow> ('n tac_db, unit) io" where
  "set_operation_retry F now model retry_after_delay_sec =
     run_statement F (update_operation (op_id model) (\<lambda>r. r\<lparr>
       op_next_retry := Some (now + retry_after_delay_sec * micros_per_sec),
       op_retry_count := op_retry_count model + 1,
       op_status := FailedStatus,
       op_updated_at := now\<rparr>))"

definition reset_processing_operations :: "faults \<Rightarrow> ('n tac_db, nat) io" where
  "reset_processing_operations F = run_statement F (\<lambda>d.
     (Ok (length (filter (\<lambda>r. op_status r = Processing) (db_operations d))),
      d\<lparr>db_operations := map (\<lambda>r. if op_status r = Processing then r\<lparr>op_status := Pending\<rparr> else r) (db_operations d)\<rparr>))"

section \<open>Data of an operation\<close>

datatype operation_type = PendingType | TonTacTon | TacTon | TonTac | Rollback | UnknownType | ErrorType

datatype stage_type =
  CollectedInTAC | IncludedInTACConsensus | ExecutedInTAC | CollectedInTON | IncludedInTONConsensus | ExecutedInTON

datatype blockchain_type = Tac | Ton | UnknownChain

record api_transaction =
  atx_hash :: string
  atx_blockchain_type :: blockchain_type

record stage_data =
  sd_success :: bool
  sd_timestamp :: nat
  sd_transactions :: "api_transaction list"
  sd_note :: "string option"

record api_stage =
  exists_stage :: bool
  stage_data_of :: "stage_data option"

record api_address =
  addr_address :: string
  addr_blockchain_type :: blockchain_type

record fee_value =
  protocol_fee :: string
  executor_fee :: string
  token_fee_symbol :: string

record meta_info =
  initial_caller :: "api_address option"
  valid_executors :: "blockchain_type \<Rightarrow> string list option option"
  fee_info :: "blockchain_type \<Rightarrow> fee_value option option"

text \<open>The stages of an operation are a hash map; the list has its entries in the order in which the map is read.\<close>

record operation_data =
  od_operation_type :: operation_type
  od_meta_info :: "meta_info option"
  od_stages :: "(stage_type \<times> api_stage) list"

fun operation_type_to_string :: "operation_type \<Rightarrow> string" where
  "operation_type_to_string PendingType = ''PENDING''"
| "operation_type_to_string TonTacTon = ''TON-TAC-TON''"
| "operation_type_to_string TacTon = ''TAC-TON''"
| "operation_type_to_string TonTac = ''TON-TAC''"
| "operation_type_to_string Rollback = ''ROLLBACK''"
| "operation_type_to_string UnknownType = ''UNKNOWN''"
| "operation_type_to_string ErrorType = ''ERROR_TYPE''"

fun operation_type_to_id :: "operation_type \<Rightarrow> int" where
  "operation_type_to_id PendingType = 1"
| "operation_type_to_id TonTacTon = 2"
| "operation_type_to_id TacTon = 3"
| "operation_type_to_id TonTac = 4"
| "operation_type_to_id Rollback = 5"
| "operation_type_to_id UnknownType = 6"
| "operation_type_to_id ErrorType = 0"

definition is_finalized :: "operation_type \<Rightarrow> bool" where
  "is_finalized t \<longleftrightarrow> t \<noteq> PendingType \<and> t \<noteq> UnknownType"

fun stage_to_id :: "stage_type \<Rightarrow> int" where
  "stage_to_id CollectedInTAC = 1"
| "stage_to_id IncludedInTACConsensus = 2"
| "stage_to_id ExecutedInTAC = 3"
| "stage_to_id CollectedInTON = 4"
| "stage_to_id IncludedInTONConsensus = 5"
| "stage_to_id ExecutedInTON = 6"

fun stage_to_string :: "stage_type \<Rightarrow> string" where
  "stage_to_string CollectedInTAC = ''CollectedInTAC''"
| "stage_to_string IncludedInTACConsensus = ''IncludedInTACConsensus''"
| "stage_to_string ExecutedInTAC = ''ExecutedInTAC''"
| "stage_to_string CollectedInTON = ''CollectedInTON''"
| "stage_to_string IncludedInTONConsensus = ''IncludedInTONConsensus''"
| "stage_to_string ExecutedInTON = ''ExecutedInTON''"

fun blockchain_to_string :: "blockchain_type \<Rightarrow> string" where
  "blockchain_to_string Tac = ''Tac''"
| "blockchain_to_string Ton = ''Ton''"
| "blockchain_to_string UnknownChain = ''Unknown''"

text \<open>Insert a stage type, or set the name of the one that is there. Another row with the name is a violation of uniqueness.\<close>

definition upsert_stage_type :: "int \<Rightarrow> string \<Rightarrow> 'n tac_db \<Rightarrow> (db_err, unit) result \<times> 'n tac_db" where
  "upsert_stage_type i name d =
     (if \<exists>p \<in> set (db_stage_types d). fst p \<noteq> i \<and> snd p = name then (Err (Driver ''duplicate key value''), d)
      else if i \<in> fst ` set (db_stage_types d)
      then (Ok (), d\<lparr>db_stage_types := map (\<lambda>p. if fst p = i then (i, name) else p) (db_stage_types d)\<rparr>)
      else (Ok (), d\<lparr>db_stage_types := db_stage_types d @ [(i, name)]\<rparr>))"

fun register_stage_types :: "faults \<Rightarrow> (int \<times> string) list \<Rightarrow> ('n tac_db, unit) io" where
  "register_stage_types F [] = pure_io ()"
| "register_stage_types F ((i, name) # types) =
     bind_io (run_statement F (upsert_stage_type i name)) (\<lambda>_. register_stage_types F types)"

definition is_hexdigit :: "char \<Rightarrow> bool" where
  "is_hexdigit c \<longleftrightarrow> c \<in> set ''0123456789abcdefABCDEF''"

definition is_generic_hash :: "string \<Rightarrow> bool" where
  "is_generic_hash q \<longleftrightarrow> take 2 q = ''0x'' \<and> length q = 66 \<and> list_all is_hexdigit (drop 2 q)"

definition is_tac_address :: "string \<Rightarrow> bool" where
  "is_tac_address q \<longleftrightarrow> take 2 q = ''0x'' \<and> length q = 42 \<and> list_all is_hexdigit (drop 2 q)"

definition is_ton_address :: "(string \<Rightarrow> string option) \<Rightarrow> string \<Rightarrow> bool" where
  "is_ton_address ton_address q \<longleftrightarrow> ton_address q \<noteq> None"

text \<open>\<open>str::to_lowercase\<close> on the strings it is applied to, which are ASCII.\<close>

definition lower_char :: "char \<Rightarrow> char" where
  "lower_char c = (if 65 \<le> (of_char c :: nat) \<and> (of_char c :: nat) \<le> 90 then char_of ((of_char c :: nat) + 32) else c)"

text \<open>The parameter \<open>ton_address\<close> parses an address with \<open>tonlib\<close> and prints it in its standard form.\<close>

definition blockchain_address_to_db_format :: "(string \<Rightarrow> string option) \<Rightarrow> string \<Rightarrow> (db_err, string) result" where
  "blockchain_address_to_db_format ton_address addr =
     (if is_tac_address addr then Ok (map lower_char addr)
      else case ton_address addr of
          Some a \<Rightarrow> Ok a
        | None \<Rightarrow> Err (AnyhowError ''unknown address format''))"

definition remove_operation_associated_stages :: "faults \<Rightarrow> string \<Rightarrow> ('n tac_db, unit) io" where
  "remove_operation_associated_stages F operation_id = tx_statement F (\<lambda>d.
     let gone = {s \<in> set (db_stages d). stage_operation_id s = operation_id} in
     (Ok (), d\<lparr>db_stages := filter (\<lambda>s. stage_operation_id s \<noteq> operation_id) (db_stages d),
              db_transactions := filter (\<lambda>t. tx_stage_id t \<notin> stage_id ` gone) (db_transactions d)\<rparr>))"

definition sender_of :: "(string \<Rightarrow> string option) \<Rightarrow> operation_data \<Rightarrow> (string \<times> string) option" where
  "sender_of ton_address od =
     Option.bind (od_meta_info od) (\<lambda>m. Option.bind (initial_caller m) (\<lambda>caller.
       case blockchain_address_to_db_format ton_address (addr_address caller) of
         Inr a \<Rightarrow> Some (a, blockchain_to_string (addr_blockchain_type caller))
       | Inl _ \<Rightarrow> None))"

definition set_operation_base_properties ::
  "(string \<Rightarrow> string option) \<Rightarrow> faults \<Rightarrow> int \<Rightarrow> operation \<Rightarrow> operation_data \<Rightarrow> status_enum \<Rightarrow> ('n tac_db, unit) io" where
  "set_operation_base_properties ton_address F now model od new_status =
     tx_statement F (update_operation (op_id model) (\<lambda>r.
       let r' = r\<lparr>op_updated_at := now, op_type := Some (operation_type_to_string (od_operation_type od)),
                  op_status := new_status\<rparr>
       in case sender_of ton_address od of
            Some (a, b) \<Rightarrow> r'\<lparr>op_sender_address := Some a, op_sender_blockchain := Some b\<rparr>
          | None \<Rightarrow> r'))"

definition insert_stage ::
  "string \<Rightarrow> int \<Rightarrow> bool \<Rightarrow> int \<Rightarrow> string option \<Rightarrow> int \<Rightarrow> 'n tac_db \<Rightarrow> (db_err, nat) result \<times> 'n tac_db" where
  "insert_stage operation_id type_id success t note now d =
     (if operation_id \<notin> op_id ` set (db_operations d) then (Err (ForeignKeyViolation ''fk_stage_operation''), d)
      else if type_id \<notin> fst ` set (db_stage_types d) then (Err (ForeignKeyViolation ''fk_stage_type''), d)
      else (Ok (db_next_stage d),
            d\<lparr>db_stages := db_stages d @ [\<lparr>stage_id = db_next_stage d, stage_operation_id = operation_id,
                stage_type_id = type_id, stage_success = success, stage_timestamp = t, stage_note = note,
                stage_inserted_at = now\<rparr>],
              db_next_stage := Suc (db_next_stage d)\<rparr>))"

definition insert_transactions :: "nat \<Rightarrow> int \<Rightarrow> api_transaction list \<Rightarrow> 'n tac_db \<Rightarrow> (db_err, unit) result \<times> 'n tac_db" where
  "insert_transactions sid now txs d =
     (if sid \<notin> stage_id ` set (db_stages d) then (Err (ForeignKeyViolation ''fk_transaction_stage''), d)
      else (Ok (), d\<lparr>db_transactions := db_transactions d @ map (\<lambda>(i, t).
                \<lparr>tx_id = db_next_tx d + i, tx_stage_id = sid, tx_hash = atx_hash t,
                 tx_blockchain_type = blockchain_to_string (atx_blockchain_type t), tx_inserted_at = now\<rparr>) (enumerate 0 txs),
              db_next_tx := db_next_tx d + length txs\<rparr>))"

text \<open>What the object mapper does with an \<open>insert_many\<close> of no rows is the parameter \<open>no_rows\<close>: an error, or nothing.\<close>

fun store_operation_stages ::
  "db_err option \<Rightarrow> (int \<Rightarrow> bool) \<Rightarrow> faults \<Rightarrow> int \<Rightarrow> string \<Rightarrow> (stage_type \<times> api_stage) list \<Rightarrow> ('n tac_db, unit) io" where
  "store_operation_stages no_rows rep F now operation_id [] = pure_io ()"
| "store_operation_stages no_rows rep F now operation_id ((ty, st) # stages) =
     (case stage_data_of st of
        None \<Rightarrow> store_operation_stages no_rows rep F now operation_id stages
      | Some data \<Rightarrow>
          bind_io (unwrap_io (timestamp_to_naive rep (as_i64 (sd_timestamp data)))) (\<lambda>t.
          bind_io (tx_statement F (insert_stage operation_id (stage_to_id ty) (sd_success data) t (sd_note data) now)) (\<lambda>sid.
          bind_io (tx_statement F (\<lambda>d.
              if sd_transactions data = [] then (case no_rows of None \<Rightarrow> (Ok (), d) | Some e \<Rightarrow> (Err e, d))
              else insert_transactions sid now (sd_transactions data) d)) (\<lambda>_.
            store_operation_stages no_rows rep F now operation_id stages))))"

definition meta_model :: "(string \<Rightarrow> 'n option) \<Rightarrow> string \<Rightarrow> meta_info \<Rightarrow> 'n meta_row" where
  "meta_model parse_decimal operation_id m =
     (let get_fee = (\<lambda>chain. Option.bind (fee_info m chain) (\<lambda>f. f));
          get_executors = (\<lambda>chain. Option.bind (valid_executors m chain) (\<lambda>v. v))
      in \<lparr>meta_operation_id = operation_id,
          tac_valid_executors = get_executors Tac,
          ton_valid_executors = get_executors Ton,
          tac_protocol_fee = Option.bind (get_fee Tac) (\<lambda>fee. parse_decimal (protocol_fee fee)),
          tac_executor_fee = Option.bind (get_fee Tac) (\<lambda>fee. parse_decimal (executor_fee fee)),
          tac_token_fee_symbol = map_option token_fee_symbol (get_fee Tac),
          ton_protocol_fee = Option.bind (get_fee Ton) (\<lambda>fee. parse_decimal (protocol_fee fee)),
          ton_executor_fee = Option.bind (get_fee Ton) (\<lambda>fee. parse_decimal (executor_fee fee)),
          ton_token_fee_symbol = map_option token_fee_symbol (get_fee Ton)\<rparr>)"

definition store_operation_metainfo ::
  "(string \<Rightarrow> 'n option) \<Rightarrow> faults \<Rightarrow> string \<Rightarrow> meta_info \<Rightarrow> ('n tac_db, unit) io" where
  "store_operation_metainfo parse_decimal F operation_id m = tx_statement F (\<lambda>d.
     let row = meta_model parse_decimal operation_id m in
     if operation_id \<in> meta_operation_id ` set (db_metas d)
     then (Ok (), d\<lparr>db_metas := map (\<lambda>r. if meta_operation_id r = operation_id then row else r) (db_metas d)\<rparr>)
     else (Ok (), d\<lparr>db_metas := db_metas d @ [row]\<rparr>))"

text \<open>The libraries this part calls.\<close>

record 'n tac_lib =
  ton_address :: "string \<Rightarrow> string option"
  parse_decimal :: "string \<Rightarrow> 'n option"
  no_rows :: "db_err option"

definition set_operation_data ::
  "'n tac_lib \<Rightarrow> (int \<Rightarrow> bool) \<Rightarrow> faults \<Rightarrow> int \<Rightarrow> operation \<Rightarrow> operation_data \<Rightarrow> status_enum \<Rightarrow> ('n tac_db, unit) io" where
  "set_operation_data L rep F now model od new_status =
     transaction F
       (bind_io (remove_operation_associated_stages F (op_id model)) (\<lambda>_.
        bind_io (set_operation_base_properties (ton_address L) F now model od new_status) (\<lambda>_.
        bind_io (store_operation_stages (no_rows L) rep F now (op_id model) (od_stages od)) (\<lambda>_.
          case od_meta_info od of
            Some m \<Rightarrow> store_operation_metainfo (parse_decimal L) F (op_id model) m
          | None \<Rightarrow> pure_io ()))))"

section \<open>Statistics\<close>

record interval_statistic =
  first_timestamp :: nat
  last_timestamp :: nat
  total_intervals :: nat
  pending_intervals :: nat
  processing_intervals :: nat
  finalized_intervals :: nat
  failed_intervals :: nat
  finalized_period :: nat

definition count_status :: "status_enum \<Rightarrow> status_enum list \<Rightarrow> nat" where
  "count_status st sts = length (filter (\<lambda>s. s = st) sts)"

text \<open>\<open>MIN\<close>, \<open>MAX\<close> and \<open>SUM\<close> of no rows are null. The columns of the first two are read as optional, the sum is
  not. Starts and ends are whole seconds, so the cast of the sum to an integer is exact.\<close>

definition sql_min :: "int list \<Rightarrow> int option" where
  "sql_min xs = (if xs = [] then None else Some (Min (set xs)))"

definition sql_max :: "int list \<Rightarrow> int option" where
  "sql_max xs = (if xs = [] then None else Some (Max (set xs)))"

definition sql_sum :: "int list \<Rightarrow> int option" where
  "sql_sum xs = (if xs = [] then None else Some (sum_list xs))"

definition timestamp_or_zero :: "int option \<Rightarrow> nat" where
  "timestamp_or_zero t = (case t of None \<Rightarrow> 0 | Some t \<Rightarrow> as_u64 (timestamp_of t))"

definition get_intervals_statistic :: "faults \<Rightarrow> ('n tac_db, interval_statistic) io" where
  "get_intervals_statistic F =
     bind_io (run_statement F (\<lambda>d. (Ok (db_intervals d), d))) (\<lambda>rows.
       case sql_sum (map (\<lambda>r. if iv_status r = Completed then timestamp_of (iv_finish r - iv_start r) else 0) rows) of
         None \<Rightarrow> fail_io (NullValue ''finalized_period'')
       | Some period \<Rightarrow> pure_io
           \<lparr>first_timestamp = timestamp_or_zero (sql_min (map iv_start rows)),
            last_timestamp = timestamp_or_zero (sql_max (map iv_finish rows)),
            total_intervals = length rows,
            pending_intervals = count_status Pending (map iv_status rows),
            processing_intervals = count_status Processing (map iv_status rows),
            finalized_intervals = count_status Completed (map iv_status rows),
            failed_intervals = count_status FailedStatus (map iv_status rows),
            finalized_period = as_u64 period\<rparr>)"

record operation_statistic =
  max_timestamp :: nat
  total_operations :: nat
  pending_operations :: nat
  processing_operations :: nat
  finalized_operations :: nat
  failed_operations :: nat

definition get_operations_statistic :: "faults \<Rightarrow> ('n tac_db, operation_statistic) io" where
  "get_operations_statistic F =
     bind_io (run_statement F (\<lambda>d. (Ok (db_operations d), d))) (\<lambda>rows. pure_io
       \<lparr>max_timestamp = timestamp_or_zero (sql_max (map op_timestamp rows)),
        total_operations = length rows,
        pending_operations = count_status Pending (map op_status rows),
        processing_operations = count_status Processing (map op_status rows),
        finalized_operations = count_status Completed (map op_status rows),
        failed_operations = count_status FailedStatus (map op_status rows)\<rparr>)"

section \<open>Reading operations\<close>

definition get_brief_operation_by_id :: "faults \<Rightarrow> string \<Rightarrow> ('n tac_db, operation option) io" where
  "get_brief_operation_by_id F i = run_statement F (\<lambda>d. (Ok (find (\<lambda>r. op_id r = i) (db_operations d)), d))"

text \<open>A row of the two left joins: an operation, a stage of it if there is one, a transaction of the stage if there is one.\<close>

type_synonym joined_row = "operation \<times> operation_stage option \<times> tx_row option"

definition joined_rows :: "(operation \<Rightarrow> bool) \<Rightarrow> 'n tac_db \<Rightarrow> joined_row list" where
  "joined_rows cond d = concat (map (\<lambda>r.
     let ss = filter (\<lambda>s. stage_operation_id s = op_id r) (db_stages d) in
     if ss = [] then [(r, None, None)]
     else concat (map (\<lambda>s.
       let ts = filter (\<lambda>t. tx_stage_id t = stage_id s) (db_transactions d) in
       if ts = [] then [(r, Some s, None)] else map (\<lambda>t. (r, Some s, Some t)) ts) ss))
     (filter cond (db_operations d)))"

text \<open>\<open>HashMap::entry(key).or_insert_with(..)\<close> followed by a change of the entry.\<close>

fun change_entry :: "'k \<Rightarrow> 'v \<Rightarrow> ('v \<Rightarrow> 'v) \<Rightarrow> ('k \<times> 'v) list \<Rightarrow> ('k \<times> 'v) list" where
  "change_entry k new f [] = [(k, f new)]"
| "change_entry k new f ((k', v) # m) = (if k' = k then (k', f v) # m else (k', v) # change_entry k new f m)"

definition operation_model :: "int \<Rightarrow> operation \<Rightarrow> operation" where
  "operation_model now r = r\<lparr>op_next_retry := None, op_retry_count := 0, op_inserted_at := now, op_updated_at := now\<rparr>"

definition stage_model :: "int \<Rightarrow> operation_stage \<Rightarrow> operation_stage" where
  "stage_model now s = s\<lparr>stage_inserted_at := now\<rparr>"

definition tx_model :: "int \<Rightarrow> tx_row \<Rightarrow> tx_row" where
  "tx_model now t = t\<lparr>tx_inserted_at := now\<rparr>"

type_synonym full_operation = "operation \<times> (operation_stage \<times> tx_row list) list"

type_synonym stages_map = "(nat \<times> (operation_stage \<times> tx_row list)) list"

definition add_joined_stage :: "int \<Rightarrow> operation_stage \<Rightarrow> tx_row option \<Rightarrow> stages_map \<Rightarrow> stages_map" where
  "add_joined_stage now s t =
     change_entry (stage_id s) (stage_model now s, []) (\<lambda>(sm, txs). (sm, txs @ (case t of None \<Rightarrow> [] | Some t \<Rightarrow> [tx_model now t])))"

fun add_joined_row ::
  "int \<Rightarrow> joined_row \<Rightarrow> (string \<times> operation \<times> stages_map) list \<Rightarrow> (string \<times> operation \<times> stages_map) list" where
  "add_joined_row now (r, s, t) = change_entry (op_id r) (operation_model now r, []) (\<lambda>(om, stages).
     (om, case s of None \<Rightarrow> stages | Some s \<Rightarrow> add_joined_stage now s t stages))"

definition collect_operations :: "int \<Rightarrow> joined_row list \<Rightarrow> full_operation list" where
  "collect_operations now rows =
     map (\<lambda>(_, om, stages). (om, sort_key (\<lambda>(s, _). stage_timestamp s) (map snd stages)))
       (fold (add_joined_row now) rows [])"

definition get_full_operations :: "faults \<Rightarrow> int \<Rightarrow> ('n tac_db \<Rightarrow> operation \<Rightarrow> bool) \<Rightarrow> ('n tac_db, full_operation list) io" where
  "get_full_operations F now cond =
     bind_io (run_statement F (\<lambda>d. (Ok (joined_rows (cond d) d), d))) (\<lambda>joined. pure_io (collect_operations now joined))"

definition get_full_operation_by_id :: "faults \<Rightarrow> int \<Rightarrow> string \<Rightarrow> ('n tac_db, full_operation option) io" where
  "get_full_operation_by_id F now i =
     bind_io (get_full_operations F now (\<lambda>_ r. op_id r = i)) (\<lambda>arr.
       pure_io (case arr of [] \<Rightarrow> None | x # _ \<Rightarrow> Some x))"

definition has_transaction :: "string \<Rightarrow> 'n tac_db \<Rightarrow> operation \<Rightarrow> bool" where
  "has_transaction h d r \<longleftrightarrow> list_ex (\<lambda>s. stage_operation_id s = op_id r \<and>
     list_ex (\<lambda>t. tx_stage_id t = stage_id s \<and> tx_hash t = h) (db_transactions d)) (db_stages d)"

definition get_full_operations_by_tx_hash :: "faults \<Rightarrow> int \<Rightarrow> string \<Rightarrow> ('n tac_db, full_operation list) io" where
  "get_full_operations_by_tx_hash F now h = get_full_operations F now (has_transaction h)"

section \<open>Pages of operations\<close>

record logic_pagination =
  pg_count :: nat
  earlier_timestamp :: nat

definition PAGE_SIZE :: nat where "PAGE_SIZE = 50"

definition calculate_pagination :: "operation list \<Rightarrow> logic_pagination option \<Rightarrow> nat \<Rightarrow> logic_pagination" where
  "calculate_pagination ops pagination_input page_size =
     \<lparr>pg_count = (case pagination_input of None \<Rightarrow> 0 | Some p \<Rightarrow> pg_count p) + page_size,
      earlier_timestamp = as_u64 (timestamp_of (op_timestamp (last ops)))\<rparr>"

definition add_to_query :: "(int \<Rightarrow> bool) \<Rightarrow> logic_pagination \<Rightarrow> (operation \<Rightarrow> bool) option" where
  "add_to_query rep p = map_option (\<lambda>ts r. op_timestamp r < ts) (timestamp_to_naive rep (as_i64 (earlier_timestamp p)))"

definition query_operations_with_pagination ::
  "faults \<Rightarrow> ('n tac_db \<Rightarrow> operation list) \<Rightarrow> logic_pagination option \<Rightarrow> nat
    \<Rightarrow> ('n tac_db, operation list \<times> logic_pagination option) io" where
  "query_operations_with_pagination F query pagination_input page_size =
     bind_io (run_statement F (\<lambda>d. (Ok (take (page_size + 1) (query d)), d))) (\<lambda>ops.
       let operations = take page_size ops in
       if page_size < length ops
       then (if operations = [] then panic_io
             else pure_io (operations, Some (calculate_pagination operations pagination_input page_size)))
       else pure_io (operations, None))"

text \<open>The common end of the three listings: the page filter, the order and the page.\<close>

definition list_page ::
  "(int \<Rightarrow> bool) \<Rightarrow> faults \<Rightarrow> ('n tac_db \<Rightarrow> operation \<Rightarrow> bool) \<Rightarrow> logic_pagination option
    \<Rightarrow> ('n tac_db, operation list \<times> logic_pagination option) io" where
  "list_page rep F cond pagination_input =
     bind_io (unwrap_io (case pagination_input of None \<Rightarrow> Some (\<lambda>_. True) | Some p \<Rightarrow> add_to_query rep p)) (\<lambda>earlier.
       query_operations_with_pagination F
         (\<lambda>d. order_by op_timestamp LatestFirst (filter (\<lambda>r. cond d r \<and> earlier r) (db_operations d)))
         pagination_input PAGE_SIZE)"

definition get_operations_page ::
  "(int \<Rightarrow> bool) \<Rightarrow> faults \<Rightarrow> logic_pagination option \<Rightarrow> ('n tac_db, operation list \<times> logic_pagination option) io" where
  "get_operations_page rep F pagination_input = list_page rep F (\<lambda>_ _. True) pagination_input"

definition get_brief_operations_by_sender ::
  "(string \<Rightarrow> string option) \<Rightarrow> (int \<Rightarrow> bool) \<Rightarrow> faults \<Rightarrow> string \<Rightarrow> logic_pagination option
    \<Rightarrow> ('n tac_db, operation list \<times> logic_pagination option) io" where
  "get_brief_operations_by_sender ton rep F addr pagination_input =
     (case blockchain_address_to_db_format ton addr of
        Inl e \<Rightarrow> fail_io e
      | Inr address_cast \<Rightarrow> list_page rep F (\<lambda>_ r. op_sender_address r = Some address_cast) pagination_input)"

definition get_brief_operations_by_tx_hash ::
  "(int \<Rightarrow> bool) \<Rightarrow> faults \<Rightarrow> string \<Rightarrow> logic_pagination option \<Rightarrow> ('n tac_db, operation list \<times> logic_pagination option) io" where
  "get_brief_operations_by_tx_hash rep F h pagination_input = list_page rep F (has_transaction h) pagination_input"

definition search_operations ::
  "(string \<Rightarrow> string option) \<Rightarrow> (int \<Rightarrow> bool) \<Rightarrow> faults \<Rightarrow> string \<Rightarrow> logic_pagination option
    \<Rightarrow> ('n tac_db, operation list \<times> logic_pagination option) io" where
  "search_operations ton rep F q pagination_input =
     (if is_generic_hash q
      then bind_io (get_brief_operation_by_id F q) (\<lambda>found.
             case found of
               Some r \<Rightarrow> pure_io ([r], None)
             | None \<Rightarrow> get_brief_operations_by_tx_hash rep F q pagination_input)
      else if is_tac_address q \<or> is_ton_address ton q
      then get_brief_operations_by_sender ton rep F q pagination_input
      else pure_io ([], None))"

section \<open>Effects of the operations on the tables\<close>

named_theorems tac_simps \<open>rewrite rules for actions on the database\<close>

lemma io_simps [tac_simps]:
  "pure_io x c = (Done x, c)"
  "fail_io e c = (Failed e, c)"
  "panic_io c = (Panicked, c)"
  "unwrap_io None c = (Panicked, c)"
  "unwrap_io (Some x) c = (Done x, c)"
  by (simp_all add: pure_io_def fail_io_def panic_io_def unwrap_io_def)

lemma bind_io_simps [simp]:
  "bind_io (pure_io x) f = f x"
  "bind_io (fail_io e) f = fail_io e"
  "bind_io panic_io f = panic_io"
  "unwrap_io (Some x) = pure_io x"
  "unwrap_io None = panic_io"
  by (rule ext, simp add: bind_io_def pure_io_def fail_io_def panic_io_def unwrap_io_def)+

lemma run_statement_effect:
  assumes "run_statement F f c = (r, c')"
  obtains (fault) e where "r = Failed e" "conn_db c' = conn_db c" "F (conn_clock c) = Some e"
  | (refused) e d where "r = Failed e" "conn_db c' = conn_db c" "f (conn_db c) = (Err e, d)"
  | (ran) x where "r = Done x" "f (conn_db c) = (Ok x, conn_db c')" "F (conn_clock c) = None"
  using assms
  by (auto simp: run_statement_def split: option.splits prod.splits sum.splits)

text \<open>After a transaction the tables are as before, or as its body leaves them when no statement of it failed.\<close>

lemma transaction_effect:
  assumes "transaction F body c = (r, c')"
  obtains (undone) "conn_db c' = conn_db c"
  | (ran) x c'' where "r = Done x" "body (c\<lparr>conn_clock := Suc (conn_clock c), conn_aborted := False\<rparr>) = (Done x, c'')"
      "\<not> conn_aborted c''" "conn_db c' = conn_db c''"
  using assms
  by (auto simp: transaction_def split: option.splits prod.splits outcome.splits if_splits)

text \<open>What setting the watermark does to the tables.\<close>

definition put_watermark :: "int \<Rightarrow> 'n tac_db \<Rightarrow> 'n tac_db" where
  "put_watermark t d = (case order_by wm_timestamp EarliestFirst (db_watermarks d) of
       w # _ \<Rightarrow> snd (update_watermark (wm_id w) t d)
     | [] \<Rightarrow> snd (insert_watermark t d))"

lemma order_by_set [simp]: "set (order_by f dir xs) = set xs"
  by (cases dir) (simp_all add: order_by_def)

lemma order_by_empty [simp]: "order_by f dir [] = []"
  by (cases dir) (simp_all add: order_by_def)

lemma order_by_nil [simp]: "order_by f dir xs = [] \<longleftrightarrow> xs = []"
  using order_by_set[of f dir xs] by (metis empty_set set_empty)

lemma update_watermark_present:
  "order_by f dir (db_watermarks d) = w # ws \<Longrightarrow> fst (update_watermark (wm_id w) t d) = Ok ()"
  using order_by_set[of f dir "db_watermarks d"] by (auto simp: update_watermark_def)

lemma set_watermark_internal_effect:
  assumes "set_watermark_internal rep F t c = (r, c')" "\<not> conn_aborted c'" "\<not> conn_aborted c"
  shows "r = Panicked \<or> (r = Done () \<and> rep (as_i64 t) \<and> conn_db c' = put_watermark (as_i64 t * micros_per_sec) (conn_db c))"
  using assms update_watermark_present
  by (auto simp: set_watermark_internal_def bind_io_def tx_statement_def run_statement_def tac_simps put_watermark_def
        timestamp_to_naive_def unwrap_io_def insert_watermark_def
      split: option.splits prod.splits outcome.splits if_splits list.splits sum.splits)

lemma ignore_error_effect:
  "ignore_error m c = (Done x, c') \<longleftrightarrow> (\<exists>r. m c = (r, c') \<and> r \<noteq> Panicked)"
  by (auto simp: ignore_error_def split: prod.splits outcome.splits)

definition put_intervals :: "interval list \<Rightarrow> 'n tac_db \<Rightarrow> 'n tac_db" where
  "put_intervals rows d = snd (insert_intervals rows d)"

text \<open>An insertion of intervals with the new watermark, in one transaction.\<close>

lemma interval_transaction_effect:
  assumes "transaction F (bind_io (tx_statement F (insert_intervals rows)) (\<lambda>_. ignore_error (set_watermark_internal rep F t))) c
      = (r, c')"
  shows "conn_db c' = conn_db c \<or>
    (r = Done () \<and> rep (as_i64 t) \<and> conn_db c' = put_watermark (as_i64 t * micros_per_sec) (put_intervals rows (conn_db c)))"
  using assms
proof (cases rule: transaction_effect)
  case (ran x c'')
  let ?c = "c\<lparr>conn_clock := Suc (conn_clock c), conn_aborted := False\<rparr>"
  obtain c1 where c1: "tx_statement F (insert_intervals rows) ?c = (Done (), c1)"
    "ignore_error (set_watermark_internal rep F t) c1 = (Done x, c'')"
    using ran(2) by (auto simp: bind_io_def split: prod.splits outcome.splits)
  have ins: "conn_db c1 = put_intervals rows (conn_db c)" "\<not> conn_aborted c1"
    using c1(1) by (auto simp: tx_statement_def run_statement_def put_intervals_def insert_intervals_def
        split: option.splits prod.splits outcome.splits if_splits)
  obtain r' where "set_watermark_internal rep F t c1 = (r', c'')" "r' \<noteq> Panicked"
    using c1(2) by (auto simp: ignore_error_effect)
  from set_watermark_internal_effect[OF this(1) ran(3) ins(2)] this(2) ins(1) ran show ?thesis by simp
qed simp

lemma add_interval_effect:
  assumes "add_interval st rep F now from to c = (r, c')"
  shows "conn_db c' = conn_db c \<or>
    (r = Done () \<and> rep (as_i64 to) \<and> conn_db c' = put_watermark (as_i64 to * micros_per_sec)
       (put_intervals [new_interval st now (as_i64 from * micros_per_sec) (as_i64 to * micros_per_sec)] (conn_db c)))"
  using assms interval_transaction_effect[of F _ rep to c r c']
  by (simp add: add_interval_def timestamp_to_naive_def tac_simps split: if_splits)

text \<open>Faults of a lost connection, which stays lost during one call.\<close>

definition connection_faults :: "faults \<Rightarrow> bool" where
  "connection_faults F \<longleftrightarrow> (\<forall>k. F k \<noteq> None \<longrightarrow> F (Suc k) \<noteq> None)"

lemma connection_faultsD: "connection_faults F \<Longrightarrow> F k = Some e \<Longrightarrow> F (Suc k) = None \<Longrightarrow> False"
  by (auto simp: connection_faults_def)

lemma update_watermark_not_refused:
  "order_by f dir (db_watermarks d) = w # ws \<Longrightarrow> update_watermark (wm_id w) t d = (Err e, d') \<Longrightarrow> False"
  using update_watermark_present[of f dir d w ws t] by simp

lemma set_watermark_internal_aborted:
  assumes "connection_faults F" "set_watermark_internal rep F t c = (r, c')" "conn_aborted c'" "\<not> conn_aborted c"
  shows "F (conn_clock c') \<noteq> None"
  using assms
  by (auto simp: set_watermark_internal_def bind_io_def tx_statement_def run_statement_def tac_simps
        timestamp_to_naive_def unwrap_io_def insert_watermark_def dest: connection_faultsD update_watermark_not_refused
      split: option.splits prod.splits outcome.splits if_splits list.splits sum.splits)

definition chunk_end :: "interval list \<Rightarrow> nat" where
  "chunk_end chunk = as_u64 (timestamp_of (iv_finish (last chunk)))"

definition put_chunk :: "interval list \<Rightarrow> 'n tac_db \<Rightarrow> 'n tac_db" where
  "put_chunk chunk d = put_watermark (as_i64 (chunk_end chunk) * micros_per_sec) (put_intervals chunk d)"

lemma transaction_committed:
  assumes "transaction F body c = (Done x, c')"
  obtains c'' where "body (c\<lparr>conn_clock := Suc (conn_clock c), conn_aborted := False\<rparr>) = (Done x, c'')"
    "F (conn_clock c'') = None" "conn_db c' = (if conn_aborted c'' then conn_db c else conn_db c'')"
  using assms
  by (auto simp: transaction_def split: option.splits prod.splits outcome.splits if_splits)

lemma store_chunk_effect:
  assumes faults: "connection_faults F" and ne: "chunk \<noteq> []" and run: "store_chunk rep F chunk c = (r, c')"
  shows "if r = Done () then conn_db c' = put_chunk chunk (conn_db c) else conn_db c' = conn_db c"
proof -
  let ?body = "bind_io (tx_statement F (insert_intervals chunk)) (\<lambda>_. ignore_error (set_watermark_internal rep F (chunk_end chunk)))"
  have run: "transaction F ?body c = (r, c')" using run ne by (simp add: store_chunk_def chunk_end_def)
  show ?thesis
  proof (cases "r = Done ()")
    case True
    let ?c = "c\<lparr>conn_clock := Suc (conn_clock c), conn_aborted := False\<rparr>"
    from run[unfolded True] obtain c'' where c'': "?body ?c = (Done (), c'')" "F (conn_clock c'') = None"
      "conn_db c' = (if conn_aborted c'' then conn_db c else conn_db c'')"
      by (rule transaction_committed)
    from c''(1) obtain c1 r' where c1: "tx_statement F (insert_intervals chunk) ?c = (Done (), c1)"
      "set_watermark_internal rep F (chunk_end chunk) c1 = (r', c'')" "r' \<noteq> Panicked"
      by (auto simp: bind_io_def ignore_error_effect split: prod.splits outcome.splits)
    have ins: "conn_db c1 = put_intervals chunk (conn_db c)" "\<not> conn_aborted c1"
      using c1(1) by (auto simp: tx_statement_def run_statement_def put_intervals_def insert_intervals_def
          split: option.splits prod.splits outcome.splits if_splits)
    have fine: "\<not> conn_aborted c''" using set_watermark_internal_aborted[OF faults c1(2)] c''(2) ins(2) by auto
    from set_watermark_internal_effect[OF c1(2) fine ins(2)] c1(3) have "conn_db c'' = put_chunk chunk (conn_db c)"
      by (simp add: put_chunk_def ins(1))
    then show ?thesis using True c''(3) fine by simp
  next
    case False
    then show ?thesis using interval_transaction_effect[OF run] by auto
  qed
qed

text \<open>Under such faults the batches that are stored are the first ones.\<close>

lemma store_chunks_effect:
  assumes "connection_faults F" "[] \<notin> set cs" "store_chunks rep F cs c = (r, c')"
  shows "\<exists>n. conn_db c' = fold put_chunk (take n cs) (conn_db c) \<and> (r = Done () \<longrightarrow> length cs \<le> n)"
  using assms(2, 3)
proof (induction cs arbitrary: c)
  case Nil
  then show ?case by (simp add: tac_simps)
next
  case (Cons chunk cs)
  obtain r1 c1 where one: "store_chunk rep F chunk c = (r1, c1)" by (cases "store_chunk rep F chunk c")
  note eff = store_chunk_effect[OF assms(1) _ one]
  show ?case
  proof (cases "r1 = Done ()")
    case True
    then have "store_chunks rep F cs c1 = (r, c')" using Cons.prems(2) one by (simp add: bind_io_def)
    from Cons.IH[OF _ this] Cons.prems(1) obtain n where
      "conn_db c' = fold put_chunk (take n cs) (conn_db c1)" "r = Done () \<longrightarrow> length cs \<le> n" by auto
    moreover have "conn_db c1 = put_chunk chunk (conn_db c)" using eff True Cons.prems(1) by auto
    ultimately have "conn_db c' = fold put_chunk (take (Suc n) (chunk # cs)) (conn_db c) \<and> (r = Done () \<longrightarrow> length (chunk # cs) \<le> Suc n)"
      by simp
    then show ?thesis by blast
  next
    case False
    then have "r \<noteq> Done ()" "c' = c1" using Cons.prems(2) one
      by (auto simp: bind_io_def split: outcome.splits)
    moreover have "conn_db c1 = conn_db c" using eff False Cons.prems(1) by auto
    ultimately have "conn_db c' = fold put_chunk (take 0 (chunk # cs)) (conn_db c) \<and> (r = Done () \<longrightarrow> length (chunk # cs) \<le> 0)" by simp
    then show ?thesis by blast
  qed
qed

text \<open>The tables after an insertion of intervals and a change of the watermark.\<close>

lemma put_watermark_tables [simp]:
  "db_intervals (put_watermark t d) = db_intervals d"
  "db_operations (put_watermark t d) = db_operations d"
  "db_next_interval (put_watermark t d) = db_next_interval d"
  by (simp_all add: put_watermark_def update_watermark_def insert_watermark_def split: list.splits)

lemma put_watermark_single:
  assumes "length (db_watermarks d) \<le> 1"
  obtains w where "db_watermarks (put_watermark t d) = [w]" "wm_timestamp w = t"
proof (cases "db_watermarks d")
  case Nil
  then show ?thesis using that by (simp add: put_watermark_def insert_watermark_def)
next
  case (Cons w ws)
  then have "db_watermarks d = [w]" using assms by simp
  moreover have "order_by wm_timestamp EarliestFirst [w] = [w]" by (simp add: order_by_def)
  ultimately show ?thesis using that by (simp add: put_watermark_def update_watermark_def)
qed

lemma put_intervals_tables [simp]:
  "db_intervals (put_intervals rows d) =
     db_intervals d @ map (\<lambda>(i, r). r\<lparr>iv_id := db_next_interval d + i\<rparr>) (enumerate 0 rows)"
  "db_operations (put_intervals rows d) = db_operations d"
  "db_watermarks (put_intervals rows d) = db_watermarks d"
  "db_next_interval (put_intervals rows d) = db_next_interval d + length rows"
  by (simp_all add: put_intervals_def insert_intervals_def)

end
