(* ===== verification/Tac_Indexer.thy ===== *)
theory Tac_Indexer
  imports Tac_Database
begin

text \<open>
  The indexer of the operation lifecycle service
  (\<^verbatim>\<open>tac-operation-lifecycle/tac-operation-lifecycle-logic/src/indexer.rs\<close> and the client in \<^verbatim>\<open>client/mod.rs\<close>).

  The indexer asks a remote service for the operations of every interval of time up to now. Past time is cut into
  intervals at the start of the program; streams claim intervals from the database and hand them to jobs that run concurrently. A thread
  of its own polls for new operations. A job or the thread can be interrupted by the others at each of its requests and statements, every
  statement may fail, and the program may be killed and started again at any time: the step relation
  \<open>indexer_step\<close> has one step for each stretch between two such points.
\<close>

section \<open>The client\<close>

text \<open>An answer of the remote service to one request for operations.\<close>

datatype page_reply = EmptyText | Page nat "api_operation list"

type_synonym page_service = "nat \<Rightarrow> nat \<Rightarrow> nat \<Rightarrow> (string, page_reply) result"

text \<open>The loop over the pages. The total of a page is a \<open>u32\<close>, which bounds the number of requests.\<close>

function get_operations_loop ::
  "(nat \<Rightarrow> (string, page_reply) result) \<Rightarrow> api_operation list \<Rightarrow> (string, api_operation list) result" where
  "get_operations_loop request all_operations =
     (case request (length all_operations) of
        Inl e \<Rightarrow> Err e
      | Inr EmptyText \<Rightarrow> Ok all_operations
      | Inr (Page n_total operations) \<Rightarrow>
          (let all' = all_operations @ operations in
           if n_total mod 2 ^ 32 \<le> length all' \<or> operations = [] then Ok all'
           else get_operations_loop request all'))"
  by auto
termination
proof (relation "measure (\<lambda>(request, all). 2 ^ 32 - length all)", goal_cases)
  case (2 request all p n_total ops all')
  have "length all < length all'" using 2 by simp
  moreover have "length all' < 2 ^ 32"
    using 2 mod_less_divisor[of "2 ^ 32" n_total] by (simp del: mod_less_divisor)
  ultimately show ?case by (simp del: length_append)
qed simp

declare get_operations_loop.simps [simp del]

definition get_operations :: "page_service \<Rightarrow> nat \<Rightarrow> nat \<Rightarrow> (string, api_operation list) result" where
  "get_operations service start_ts end_ts = get_operations_loop (service start_ts end_ts) []"

section \<open>The indexer\<close>

record indexer_settings =
  start_timestamp :: nat
  catchup_interval :: nat
  intervals_query_batch :: nat
  intervals_retry_batch :: nat
  operations_query_batch :: nat
  operations_retry_batch :: nat
  forever_pending_age :: int

definition REALTIME_LAG_MINUTES :: int where "REALTIME_LAG_MINUTES = 10"

text \<open>\<open>Indexer::new\<close>: the boundary between historical and realtime intervals.\<close>

definition new_indexer :: "faults \<Rightarrow> int \<Rightarrow> ('n tac_db, nat) io" where
  "new_indexer F now c =
     (let hard = as_u64 (timestamp_of (now - REALTIME_LAG_MINUTES * 60 * micros_per_sec)) in
      case get_latest_operation_timestamp F c of
        (Done (Some ts), c') \<Rightarrow> (Done (max hard ts), c')
      | (Panicked, c') \<Rightarrow> (Panicked, c')
      | (_, c') \<Rightarrow> (Done (max hard 0), c'))"

definition generate_historical_intervals ::
  "indexer_settings \<Rightarrow> (int \<Rightarrow> bool) \<Rightarrow> faults \<Rightarrow> int \<Rightarrow> nat \<Rightarrow> ('n tac_db, nat) io" where
  "generate_historical_intervals S rep F now up_to =
     bind_io (get_watermark (start_timestamp S) F) (\<lambda>watermark.
       generate_pending_intervals rep F now (max watermark (start_timestamp S)) up_to (catchup_interval S))"

definition stage_types_map :: "(int \<times> string) list" where
  "stage_types_map = map (\<lambda>s. (stage_to_id s, stage_to_string s))
     [CollectedInTAC, IncludedInTACConsensus, ExecutedInTAC, CollectedInTON, IncludedInTONConsensus, ExecutedInTON]"

definition ensure_stages_types_exist :: "faults \<Rightarrow> ('n tac_db, unit) io" where
  "ensure_stages_types_exist F = ignore_error (register_stage_types F stage_types_map)"

text \<open>\<open>Indexer::start\<close> up to the point where the streams run; the result is the first boundary of the realtime thread.\<close>

definition start_indexer ::
  "indexer_settings \<Rightarrow> (int \<Rightarrow> bool) \<Rightarrow> faults \<Rightarrow> int \<Rightarrow> nat \<Rightarrow> ('n tac_db, nat) io" where
  "start_indexer S rep F now realtime_boundary =
     bind_io (ensure_stages_types_exist F) (\<lambda>_.
     bind_io (generate_historical_intervals S rep F now realtime_boundary) (\<lambda>_.
     bind_io (reset_processing_intervals F) (\<lambda>_.
     bind_io (reset_processing_operations F) (\<lambda>_.
       get_watermark (start_timestamp S) F))))"

section \<open>Jobs\<close>

definition retry_delay :: "16 word \<Rightarrow> int" where
  "retry_delay retry_count = 5 * sint (retry_count + 1)"

definition request_start :: "interval \<Rightarrow> nat" where
  "request_start iv = as_u64 (timestamp_of (iv_start iv))"

definition request_end :: "interval \<Rightarrow> nat" where
  "request_end iv = as_u64 (timestamp_of (iv_finish iv))"

definition fetch_historical_operations ::
  "page_service \<Rightarrow> (int \<Rightarrow> bool) \<Rightarrow> faults \<Rightarrow> int \<Rightarrow> interval \<Rightarrow> ('n tac_db, nat) io" where
  "fetch_historical_operations service rep F now iv =
     (case get_operations service (request_start iv + 1) (request_end iv) of
        Inl e \<Rightarrow> fail_io (AnyhowError e)
      | Inr operations \<Rightarrow>
          bind_io (if operations = [] then pure_io () else insert_pending_operations rep F now operations) (\<lambda>_.
          bind_io (set_interval_status F iv Completed) (\<lambda>_.
            pure_io (length operations))))"

definition process_interval_with_retries ::
  "page_service \<Rightarrow> (int \<Rightarrow> bool) \<Rightarrow> faults \<Rightarrow> int \<Rightarrow> interval \<Rightarrow> ('n tac_db, unit) io" where
  "process_interval_with_retries service rep F now iv c =
     (case fetch_historical_operations service rep F now iv c of
        (Done _, c') \<Rightarrow> (Done (), c')
      | (Failed _, c') \<Rightarrow> ignore_error (set_interval_retry F now iv (retry_delay (iv_retry_count iv))) c'
      | (Panicked, c') \<Rightarrow> (Panicked, c'))"

text \<open>The same function between two of its await points. The result is the rest of the job, if any.\<close>

datatype interval_job =
    FetchOperations interval
  | InsertOperations interval "api_operation list"
  | CompleteInterval interval
  | RetryInterval interval

fun job_interval :: "interval_job \<Rightarrow> interval" where
  "job_interval (FetchOperations iv) = iv"
| "job_interval (InsertOperations iv ops) = iv"
| "job_interval (CompleteInterval iv) = iv"
| "job_interval (RetryInterval iv) = iv"

definition on_error :: "'b \<Rightarrow> 'b \<Rightarrow> ('d, 'a) io \<Rightarrow> ('d, 'b) io" where
  "on_error failed ok m c = (case m c of
       (Done _, c') \<Rightarrow> (Done ok, c')
     | (Failed _, c') \<Rightarrow> (Done failed, c')
     | (Panicked, c') \<Rightarrow> (Panicked, c'))"

fun advance_interval_job ::
  "page_service \<Rightarrow> (int \<Rightarrow> bool) \<Rightarrow> faults \<Rightarrow> int \<Rightarrow> interval_job \<Rightarrow> ('n tac_db, interval_job option) io" where
  "advance_interval_job service rep F now (FetchOperations iv) =
     (case get_operations service (request_start iv + 1) (request_end iv) of
        Inl _ \<Rightarrow> pure_io (Some (RetryInterval iv))
      | Inr operations \<Rightarrow> pure_io (Some
          (if operations = [] then CompleteInterval iv else InsertOperations iv operations)))"
| "advance_interval_job service rep F now (InsertOperations iv operations) =
     on_error (Some (RetryInterval iv)) (Some (CompleteInterval iv)) (insert_pending_operations rep F now operations)"
| "advance_interval_job service rep F now (CompleteInterval iv) =
     on_error (Some (RetryInterval iv)) None (set_interval_status F iv Completed)"
| "advance_interval_job service rep F now (RetryInterval iv) =
     on_error None None (set_interval_retry F now iv (retry_delay (iv_retry_count iv)))"

text \<open>The realtime thread between two of its await points.\<close>

datatype realtime_task =
    PollRealtime nat
  | StoreRealtime nat "api_operation list"
  | RecordRealtime nat nat

fun realtime_bnd :: "realtime_task \<Rightarrow> nat" where
  "realtime_bnd (PollRealtime b) = b"
| "realtime_bnd (StoreRealtime b ops) = b"
| "realtime_bnd (RecordRealtime b m) = b"

fun advance_realtime ::
  "page_service \<Rightarrow> (int \<Rightarrow> bool) \<Rightarrow> faults \<Rightarrow> int \<Rightarrow> realtime_task \<Rightarrow> ('n tac_db, realtime_task) io" where
  "advance_realtime service rep F now (PollRealtime bnd) =
     (case get_operations service bnd (as_u64 (timestamp_of now)) of
        Inl _ \<Rightarrow> pure_io (PollRealtime bnd)
      | Inr operations \<Rightarrow> pure_io (if operations = [] then PollRealtime bnd else StoreRealtime bnd operations))"
| "advance_realtime service rep F now (StoreRealtime bnd operations) =
     (let max_ts = Max (set (map api_timestamp operations)) in
      on_error (PollRealtime bnd) (if bnd < max_ts then RecordRealtime bnd max_ts else PollRealtime bnd)
        (insert_pending_operations rep F now operations))"
| "advance_realtime service rep F now (RecordRealtime bnd max_ts) =
     bind_io (ignore_error (add_completed_interval rep F now bnd max_ts)) (\<lambda>_.
       pure_io (PollRealtime ((max_ts + 1) mod 2 ^ 64)))"

text \<open>Profiling data for operations. The answer of the service is a hash map, given in the order in which it is read.\<close>

definition new_operation_status :: "int \<Rightarrow> operation \<Rightarrow> operation_data \<Rightarrow> status_enum" where
  "new_operation_status forever_pending_operation_cap model od =
     (if is_finalized (od_operation_type od) then Completed
      else if od_operation_type od = PendingType \<and> timestamp_of (op_timestamp model) < forever_pending_operation_cap
      then Completed
      else Pending)"

fun store_operations_data ::
  "'n tac_lib \<Rightarrow> (int \<Rightarrow> bool) \<Rightarrow> faults \<Rightarrow> int \<Rightarrow> int \<Rightarrow> operation list \<Rightarrow> (string \<times> operation_data) list \<Rightarrow> ('n tac_db, unit) io" where
  "store_operations_data L rep F now cap jobs [] = pure_io ()"
| "store_operations_data L rep F now cap jobs ((i, od) # answers) =
     (case find (\<lambda>j. op_id j = i) jobs of
        Some model \<Rightarrow>
          bind_io (ignore_error (set_operation_data L rep F now model od (new_operation_status cap model od))) (\<lambda>_.
            store_operations_data L rep F now cap jobs answers)
      | None \<Rightarrow> store_operations_data L rep F now cap jobs answers)"

fun retry_operations :: "faults \<Rightarrow> int \<Rightarrow> operation list \<Rightarrow> ('n tac_db, unit) io" where
  "retry_operations F now [] = pure_io ()"
| "retry_operations F now (model # jobs) =
     bind_io (ignore_error (set_operation_retry F now model (retry_delay (op_retry_count model)))) (\<lambda>_.
       retry_operations F now jobs)"

definition process_operation_with_retries ::
  "'n tac_lib \<Rightarrow> indexer_settings \<Rightarrow> (int \<Rightarrow> bool) \<Rightarrow> faults \<Rightarrow> int
    \<Rightarrow> (string, (string \<times> operation_data) list) result \<Rightarrow> operation list \<Rightarrow> ('n tac_db, unit) io" where
  "process_operation_with_retries L S rep F now answer jobs =
     (case answer of
        Inr operations_map \<Rightarrow>
          store_operations_data L rep F now (timestamp_of (now - forever_pending_age S)) jobs operations_map
      | Inl _ \<Rightarrow> retry_operations F now jobs)"

section \<open>The program as a step relation\<close>

text \<open>\<open>ix_boundary\<close> is the realtime boundary while the streams run; \<open>ix_jobs\<close> and \<open>ix_operations\<close> are the jobs the streams have handed out.\<close>

record 'n indexer_state =
  ix_db :: "'n tac_db"
  ix_boundary :: "nat option"
  ix_realtime :: "realtime_task option"
  ix_jobs :: "interval_job list"
  ix_operations :: "operation list"

definition conn_of :: "'n tac_db \<Rightarrow> 'n tac_db conn" where
  "conn_of d = \<lparr>conn_db = d, conn_clock = 0, conn_aborted = False\<rparr>"

text \<open>The three streams of pending intervals, by their direction and bounds.\<close>

definition interval_streams :: "nat \<Rightarrow> (order_direction \<times> nat option \<times> nat option) list" where
  "interval_streams boundary =
     [(EarliestFirst, Some boundary, None), (LatestFirst, None, Some boundary), (EarliestFirst, None, Some boundary)]"

definition drop_nth :: "nat \<Rightarrow> 'a list \<Rightarrow> 'a list" where
  "drop_nth i xs = take i xs @ drop (Suc i) xs"

text \<open>What becomes of the program after a piece of a stream: rows become jobs, an error is logged, a panic ends the streams and their jobs.\<close>

definition after_claim :: "('a list \<Rightarrow> 'n indexer_state \<Rightarrow> 'n indexer_state) \<Rightarrow> 'a list outcome \<times> 'n tac_db conn
    \<Rightarrow> 'n indexer_state \<Rightarrow> 'n indexer_state" where
  "after_claim add r s = (case r of
       (Done rows, c) \<Rightarrow> add rows (s\<lparr>ix_db := conn_db c\<rparr>)
     | (Failed _, c) \<Rightarrow> s\<lparr>ix_db := conn_db c\<rparr>
     | (Panicked, c) \<Rightarrow> s\<lparr>ix_db := conn_db c, ix_boundary := None, ix_jobs := [], ix_operations := []\<rparr>)"

definition add_jobs :: "interval list \<Rightarrow> 'n indexer_state \<Rightarrow> 'n indexer_state" where
  "add_jobs rows s = s\<lparr>ix_jobs := ix_jobs s @ map FetchOperations rows\<rparr>"

definition add_operations :: "operation list \<Rightarrow> 'n indexer_state \<Rightarrow> 'n indexer_state" where
  "add_operations rows s = s\<lparr>ix_operations := ix_operations s @ rows\<rparr>"

definition after_job :: "nat \<Rightarrow> interval_job option outcome \<times> 'n tac_db conn \<Rightarrow> 'n indexer_state \<Rightarrow> 'n indexer_state" where
  "after_job i r s = (case r of
       (Done (Some j), c) \<Rightarrow> s\<lparr>ix_db := conn_db c, ix_jobs := (ix_jobs s)[i := j]\<rparr>
     | (Done None, c) \<Rightarrow> s\<lparr>ix_db := conn_db c, ix_jobs := drop_nth i (ix_jobs s)\<rparr>
     | (Failed _, c) \<Rightarrow> s\<lparr>ix_db := conn_db c, ix_jobs := drop_nth i (ix_jobs s)\<rparr>
     | (Panicked, c) \<Rightarrow> s\<lparr>ix_db := conn_db c, ix_boundary := None, ix_jobs := [], ix_operations := []\<rparr>)"

definition after_operation :: "nat \<Rightarrow> unit outcome \<times> 'n tac_db conn \<Rightarrow> 'n indexer_state \<Rightarrow> 'n indexer_state" where
  "after_operation i r s = (case r of
       (Panicked, c) \<Rightarrow> s\<lparr>ix_db := conn_db c, ix_boundary := None, ix_jobs := [], ix_operations := []\<rparr>
     | (_, c) \<Rightarrow> s\<lparr>ix_db := conn_db c, ix_operations := drop_nth i (ix_operations s)\<rparr>)"

definition after_realtime :: "realtime_task outcome \<times> 'n tac_db conn \<Rightarrow> 'n indexer_state \<Rightarrow> 'n indexer_state" where
  "after_realtime r s = (case r of
       (Done t, c) \<Rightarrow> s\<lparr>ix_db := conn_db c, ix_realtime := Some t\<rparr>
     | (_, c) \<Rightarrow> s\<lparr>ix_db := conn_db c, ix_realtime := None\<rparr>)"

definition after_start :: "nat \<Rightarrow> nat outcome \<times> 'n tac_db conn \<Rightarrow> 'n indexer_state \<Rightarrow> 'n indexer_state" where
  "after_start boundary r s = (case r of
       (Done wm, c) \<Rightarrow> s\<lparr>ix_db := conn_db c, ix_boundary := Some boundary, ix_realtime := Some (PollRealtime wm)\<rparr>
     | (_, c) \<Rightarrow> s\<lparr>ix_db := conn_db c\<rparr>)"

definition stopped :: "'n indexer_state \<Rightarrow> bool" where
  "stopped s \<longleftrightarrow> ix_boundary s = None \<and> ix_realtime s = None"

text \<open>The clock of the host is past 1970 and within the range of dates.\<close>

definition clock_ok :: "int \<Rightarrow> bool" where
  "clock_ok now \<longleftrightarrow> REALTIME_LAG_MINUTES * 60 * micros_per_sec \<le> now \<and> now < 2 ^ 62"

inductive indexer_step ::
  "'n tac_lib \<Rightarrow> indexer_settings \<Rightarrow> (int \<Rightarrow> bool) \<Rightarrow> page_service set \<Rightarrow> 'n indexer_state \<Rightarrow> 'n indexer_state \<Rightarrow> bool"
  for L S rep services where
  start: "stopped s \<Longrightarrow> connection_faults F \<Longrightarrow> clock_ok now \<Longrightarrow>
     new_indexer F' now (conn_of (ix_db s)) = (Done boundary, c) \<Longrightarrow>
     indexer_step L S rep services s (after_start boundary (start_indexer S rep F now boundary (conn_of (conn_db c))) s)"
| killed: "indexer_step L S rep services s (s\<lparr>ix_boundary := None, ix_realtime := None, ix_jobs := [], ix_operations := []\<rparr>)"
| claim_pending: "ix_boundary s = Some boundary \<Longrightarrow> (direction, from, to) \<in> set (interval_streams boundary) \<Longrightarrow>
     indexer_step L S rep services s (after_claim add_jobs
       (query_pending_intervals rep F (intervals_query_batch S) direction from to (conn_of (ix_db s))) s)"
| claim_failed: "ix_boundary s = Some boundary \<Longrightarrow>
     indexer_step L S rep services s (after_claim add_jobs
       (query_failed_intervals rep F now (intervals_retry_batch S) (conn_of (ix_db s))) s)"
| job: "i < length (ix_jobs s) \<Longrightarrow> service \<in> services \<Longrightarrow>
     indexer_step L S rep services s (after_job i (advance_interval_job service rep F now (ix_jobs s ! i) (conn_of (ix_db s))) s)"
| realtime: "ix_realtime s = Some t \<Longrightarrow> service \<in> services \<Longrightarrow> clock_ok now \<Longrightarrow>
     indexer_step L S rep services s (after_realtime (advance_realtime service rep F now t (conn_of (ix_db s))) s)"
| claim_new_operations: "ix_boundary s = Some boundary \<Longrightarrow>
     indexer_step L S rep services s (after_claim add_operations
       (query_new_operations F (operations_query_batch S) LatestFirst (conn_of (ix_db s))) s)"
| claim_pending_operations: "ix_boundary s = Some boundary \<Longrightarrow>
     indexer_step L S rep services s (after_claim add_operations
       (query_pending_operations F (operations_query_batch S) LatestFirst (conn_of (ix_db s))) s)"
| claim_failed_operations: "ix_boundary s = Some boundary \<Longrightarrow>
     indexer_step L S rep services s (after_claim add_operations
       (query_failed_operations rep F now (operations_retry_batch S) EarliestFirst (conn_of (ix_db s))) s)"
| operation: "i < length (ix_operations s) \<Longrightarrow>
     indexer_step L S rep services s (after_operation i
       (process_operation_with_retries L S rep F now answer [ix_operations s ! i] (conn_of (ix_db s))) s)"

definition empty_db :: "'n tac_db" where
  "empty_db = \<lparr>db_intervals = [], db_operations = [], db_stages = [], db_transactions = [], db_metas = [],
     db_stage_types = [], db_watermarks = [], db_next_interval = 1, db_next_stage = 1, db_next_tx = 1,
     db_next_watermark = 1\<rparr>"

definition initial_state :: "'n indexer_state" where
  "initial_state = \<lparr>ix_db = empty_db, ix_boundary = None, ix_realtime = None, ix_jobs = [], ix_operations = []\<rparr>"

definition indexer_reachable ::
  "'n tac_lib \<Rightarrow> indexer_settings \<Rightarrow> (int \<Rightarrow> bool) \<Rightarrow> page_service set \<Rightarrow> 'n indexer_state \<Rightarrow> bool" where
  "indexer_reachable L S rep services s \<longleftrightarrow> (indexer_step L S rep services)\<^sup>*\<^sup>* initial_state s"

end
