(* ===== verification/Tac_Runs.thy ===== *)
theory Tac_Runs
  imports Tac_Indexer
begin

text \<open>
  Properties of the runs of the indexer: what a client gets from a service that answers in pages, which intervals are
  generated, that no two jobs work on the same interval, that no operation of the remote service is
  lost up to the watermark, whatever the interleaving, the faults and the restarts, and two kinds of rows that no
  stream ever picks up.
\<close>

section \<open>Times\<close>

definition whole :: "int \<Rightarrow> bool" where
  "whole t \<longleftrightarrow> (\<exists>n. n < 2 ^ 62 \<and> t = int n * micros_per_sec)"

lemma as_i64_small [simp]: "n < 2 ^ 62 \<Longrightarrow> as_i64 n = int n"
  by (simp add: as_i64_def)

lemma as_u64_small [simp]: "n < 2 ^ 62 \<Longrightarrow> as_u64 (int n) = n"
  by (simp add: as_u64_def)

lemma micros_pos [simp]: "0 < micros_per_sec" "micros_per_sec \<noteq> 0" "\<not> micros_per_sec < 0" "\<not> micros_per_sec \<le> 0"
  by (simp_all add: micros_per_sec_def)

lemma timestamp_of_whole [simp]: "timestamp_of (a * micros_per_sec) = a"
  by (simp add: timestamp_of_def)

lemma wholeI: "n < 2 ^ 62 \<Longrightarrow> whole (int n * micros_per_sec)"
  by (auto simp: whole_def)

section \<open>The client\<close>

text \<open>A service that answers with pages of the operations of \<open>R\<close> in the requested range, or with an error.\<close>

definition serves :: "api_operation set \<Rightarrow> page_service \<Rightarrow> bool" where
  "serves R service \<longleftrightarrow> (\<forall>a b. \<exists>l. set l = {p \<in> R. a \<le> api_timestamp p \<and> api_timestamp p \<le> b} \<and> length l < 2 ^ 32 \<and>
     (\<forall>k. case service a b k of
            Inl _ \<Rightarrow> True
          | Inr EmptyText \<Rightarrow> False
          | Inr (Page n ops) \<Rightarrow> n = length l \<and> (\<exists>m. ops = take m (drop k l) \<and> (k < length l \<longrightarrow> 0 < m))))"

lemma get_operations_loop_pages:
  assumes "\<And>k. case request k of
            Inl _ \<Rightarrow> True
          | Inr EmptyText \<Rightarrow> False
          | Inr (Page n ops) \<Rightarrow> n = length l \<and> (\<exists>m. ops = take m (drop k l) \<and> (k < length l \<longrightarrow> 0 < m))"
    and "length l < 2 ^ 32" "all = take (length all) l"
  shows "get_operations_loop request all = Ok l \<or> (\<exists>e k. request k = Err e \<and> get_operations_loop request all = Err e)"
  using assms
proof (induction request all rule: get_operations_loop.induct)
  case (1 request all)
  show ?case
  proof (cases "request (length all)")
    case (Inl e)
    then show ?thesis by (auto simp: get_operations_loop.simps)
  next
    case (Inr reply)
    then obtain n ops where page: "request (length all) = Ok (Page n ops)"
      using "1.prems"(1)[of "length all"] by (cases reply) auto
    then obtain m where m: "n = length l" "ops = take m (drop (length all) l)" "length all < length l \<longrightarrow> 0 < m"
      using "1.prems"(1)[of "length all"] by auto
    have le: "length all \<le> length l"
      using "1.prems"(3) by (metis length_take min.cobounded1 min.commute)
    have next_all: "all @ ops = take (length (all @ ops)) l"
    proof -
      have "all @ ops = take (length all + m) l" using "1.prems"(3) m(2) by (metis take_add)
      then show ?thesis by (metis length_take min.commute min_def take_all_iff nle_le)
    qed
    show ?thesis
    proof (cases "n mod 2 ^ 32 \<le> length (all @ ops) \<or> ops = []")
      case True
      have "all @ ops = l"
      proof (cases "ops = []")
        case True
        then have "length all = length l" using m le by (cases "length all < length l") auto
        then show ?thesis using True "1.prems"(3) by simp
      next
        case False
        then have "length l \<le> length (all @ ops)" using True m(1) "1.prems"(2) by simp
        then show ?thesis using next_all by simp
      qed
      moreover have "get_operations_loop request all = Ok (all @ ops)"
        using page True by (simp add: get_operations_loop.simps[of request all])
      ultimately show ?thesis by simp
    next
      case False
      have "get_operations_loop request all = get_operations_loop request (all @ ops)"
        using page False by (simp add: get_operations_loop.simps[of request all])
      moreover have "get_operations_loop request (all @ ops) = Ok l \<or>
          (\<exists>e k. request k = Err e \<and> get_operations_loop request (all @ ops) = Err e)"
        by (rule "1.IH"[OF page refl refl False "1.prems"(1, 2) next_all])
      ultimately show ?thesis by simp
    qed
  qed
qed

lemma get_operations_served:
  assumes "serves R service" "get_operations service a b = Ok ops"
  shows "set ops = {p \<in> R. a \<le> api_timestamp p \<and> api_timestamp p \<le> b}"
proof -
  from assms(1) obtain l where l: "set l = {p \<in> R. a \<le> api_timestamp p \<and> api_timestamp p \<le> b}" "length l < 2 ^ 32"
    "\<And>k. case service a b k of
            Inl _ \<Rightarrow> True
          | Inr EmptyText \<Rightarrow> False
          | Inr (Page n ops) \<Rightarrow> n = length l \<and> (\<exists>m. ops = take m (drop k l) \<and> (k < length l \<longrightarrow> 0 < m))"
    unfolding serves_def by blast
  from get_operations_loop_pages[OF l(3) l(2), of "[]"] assms(2) have "ops = l" by (auto simp: get_operations_def)
  with l(1) show ?thesis by simp
qed

section \<open>Generated intervals\<close>

fun contiguous :: "int \<Rightarrow> interval list \<Rightarrow> bool" where
  "contiguous a [] \<longleftrightarrow> True"
| "contiguous a (r # rs) \<longleftrightarrow> iv_start r = a \<and> a < iv_finish r \<and> whole a \<and> whole (iv_finish r) \<and> iv_status r = Pending \<and>
     contiguous (iv_finish r) rs"

fun end_of :: "int \<Rightarrow> interval list \<Rightarrow> int" where
  "end_of a [] = a"
| "end_of a (r # rs) = end_of (iv_finish r) rs"

lemma end_of_last: "rs \<noteq> [] \<Longrightarrow> end_of a rs = iv_finish (last rs)"
  by (induction rs arbitrary: a) auto

lemma end_of_append [simp]: "end_of a (xs @ ys) = end_of (end_of a xs) ys"
  by (induction xs arbitrary: a) auto

lemma contiguous_append [simp]: "contiguous a (xs @ ys) \<longleftrightarrow> contiguous a xs \<and> contiguous (end_of a xs) ys"
  by (induction xs arbitrary: a) auto

lemma contiguous_whole: "contiguous a rs \<Longrightarrow> rs \<noteq> [] \<Longrightarrow> whole (end_of a rs)"
  by (induction rs arbitrary: a) (metis contiguous.simps(2) end_of.simps list.exhaust)+

lemma contiguous_covers:
  "contiguous a rs \<Longrightarrow> a < t \<Longrightarrow> t \<le> end_of a rs \<Longrightarrow> \<exists>r \<in> set rs. iv_start r < t \<and> t \<le> iv_finish r"
proof (induction rs arbitrary: a)
  case (Cons r rs)
  then show ?case by (cases "t \<le> iv_finish r") auto
qed simp

lemma generated_contiguous:
  assumes "map_panic (pending_interval rep now to p) (step_from from to p) = Some ivs"
    and "to < 2 ^ 62" "0 < p" "p < 2 ^ 62"
  shows "contiguous (int from * micros_per_sec) ivs \<and> (from < to \<longrightarrow> end_of (int from * micros_per_sec) ivs = int to * micros_per_sec)
    \<and> length ivs = (to - from + p - 1) div p"
  using assms
proof (induction "from" to p arbitrary: ivs rule: step_from.induct)
  case (1 "from" to p)
  show ?case
  proof (cases "from < to")
    case True
    let ?f = "min (from + p) to"
    have small: "min ((from + p) mod 2 ^ 64) to = ?f" using "1.prems" True by simp
    have first: "pending_interval rep now to p from \<in>
        {None, Some (new_interval Pending now (int from * micros_per_sec) (int ?f * micros_per_sec))}"
      using True "1.prems" unfolding pending_interval_def small
      by (auto simp: timestamp_to_naive_def simp del: of_nat_min split: option.splits)
    have "step_from from to p = from # step_from (from + p) to p" using True "1.prems"(3) by (simp add: step_from.simps[of "from"])
    from "1.prems"(1)[unfolded this] obtain rest where rest: "map_panic (pending_interval rep now to p) (step_from (from + p) to p) = Some rest"
      "ivs = new_interval Pending now (int from * micros_per_sec) (int ?f * micros_per_sec) # rest"
      using first by (auto simp del: of_nat_min split: option.splits)
    note ih = "1.IH"[OF _ rest(1) "1.prems"(2-4)]
    have div: "(to - from + p - 1) div p = Suc ((to - (from + p) + p - 1) div p)"
    proof (cases "to \<le> from + p")
      case True
      then have "(to - (from + p) + p - 1) div p = 0" using "1.prems"(3) by simp
      moreover have "to - from + p - 1 = (to - from - 1) + p" using \<open>from < to\<close> by simp
      moreover have "((to - from - 1) + p) div p = 1" using True \<open>from < to\<close> "1.prems"(3) by (simp add: div_nat_eqI)
      ultimately show ?thesis by simp
    next
      case False
      then have "to - from + p - 1 = (to - (from + p) + p - 1) + p" using "1.prems"(3) by simp
      then have "(to - from + p - 1) div p = ((to - (from + p) + p - 1) + p) div p" by (rule arg_cong)
      also have "\<dots> = Suc ((to - (from + p) + p - 1) div p)" using "1.prems"(3) by (rule div_add_self2[OF less_imp_neq[THEN not_sym], THEN trans]) simp
      finally show ?thesis .
    qed
    have w: "whole (int from * micros_per_sec)" "whole (int ?f * micros_per_sec)"
      using True "1.prems"(2) by (auto intro!: wholeI simp del: of_nat_min)
    have "contiguous (int ?f * micros_per_sec) rest \<and> end_of (int ?f * micros_per_sec) rest = int to * micros_per_sec \<and>
        length rest = (to - (from + p) + p - 1) div p"
    proof (cases "from + p < to")
      case True
      then show ?thesis using ih "1.prems"(3) by simp
    next
      case False
      then have "rest = []" using rest(1) by (simp add: step_from.simps[of "from + p"])
      then show ?thesis using False "1.prems"(3) by simp
    qed
    then show ?thesis using rest(2) w True "1.prems"(3) div
      by (simp add: new_interval_def del: of_nat_min)
  next
    case False
    then show ?thesis using "1.prems" by (simp add: step_from.simps[of "from"])
  qed
qed

section \<open>Completeness up to a point in time\<close>

definition known_ids :: "'n tac_db \<Rightarrow> string set" where
  "known_ids d = op_id ` set (db_operations d)"

text \<open>A time that an interval still has to be asked for covers.\<close>

definition outstanding :: "interval list \<Rightarrow> int \<Rightarrow> bool" where
  "outstanding rows t \<longleftrightarrow> (\<exists>r \<in> set rows. iv_status r \<noteq> Completed \<and> iv_start r < t \<and> t \<le> iv_finish r)"

definition micros :: "api_operation \<Rightarrow> int" where
  "micros p = int (api_timestamp p) * micros_per_sec"

text \<open>Every operation of the remote service after \<open>lo\<close> and up to the time \<open>a\<close> is in the database or will be asked for.\<close>

definition complete_upto :: "api_operation set \<Rightarrow> nat \<Rightarrow> int \<Rightarrow> 'n tac_db \<Rightarrow> bool" where
  "complete_upto R lo a d \<longleftrightarrow> (\<forall>p \<in> R. lo < api_timestamp p \<longrightarrow> micros p \<le> a \<longrightarrow>
     api_id p \<in> known_ids d \<or> outstanding (db_intervals d) (micros p))"

lemma complete_upto_mono:
  assumes "complete_upto R lo a d" "known_ids d \<subseteq> known_ids d'"
    and "\<And>t. outstanding (db_intervals d) t \<Longrightarrow> outstanding (db_intervals d') t"
  shows "complete_upto R lo a d'"
  using assms unfolding complete_upto_def by blast

lemma complete_upto_start: "a \<le> int lo * micros_per_sec \<Longrightarrow> complete_upto R lo a d"
proof (unfold complete_upto_def, intro ballI impI)
  fix p assume "a \<le> int lo * micros_per_sec" "lo < api_timestamp p" "micros p \<le> a"
  moreover have "int lo * micros_per_sec < micros p"
    using \<open>lo < api_timestamp p\<close> by (simp add: micros_def)
  ultimately show "api_id p \<in> known_ids d \<or> outstanding (db_intervals d) (micros p)" by linarith
qed

text \<open>The type invariant of the tables.\<close>

definition wf_tac :: "'n tac_db \<Rightarrow> bool" where
  "wf_tac d \<longleftrightarrow>
     distinct (map iv_id (db_intervals d)) \<and>
     (\<forall>r \<in> set (db_intervals d). iv_id r < db_next_interval d \<and> whole (iv_start r) \<and> whole (iv_finish r)) \<and>
     distinct (map op_id (db_operations d)) \<and>
     (\<forall>r \<in> set (db_operations d). whole (op_timestamp r)) \<and>
     length (db_watermarks d) \<le> 1 \<and>
     (\<forall>w \<in> set (db_watermarks d). whole (wm_timestamp w))"

definition complete_db :: "api_operation set \<Rightarrow> nat \<Rightarrow> 'n tac_db \<Rightarrow> bool" where
  "complete_db R lo d \<longleftrightarrow> wf_tac d \<and> (\<forall>w \<in> set (db_watermarks d). complete_upto R lo (wm_timestamp w) d)"

lemma outstanding_append [simp]: "outstanding (xs @ ys) t \<longleftrightarrow> outstanding xs t \<or> outstanding ys t"
  by (auto simp: outstanding_def)

lemma outstanding_map:
  assumes "\<And>r. r \<in> set rows \<Longrightarrow> iv_start (f r) = iv_start r \<and> iv_finish (f r) = iv_finish r \<and> (iv_status (f r) = Completed \<longrightarrow> iv_status r = Completed)"
    and "outstanding rows t"
  shows "outstanding (map f rows) t"
  using assms unfolding outstanding_def by fastforce

text \<open>New rows get new identifiers.\<close>

lemma numbered_ids: "map iv_id (map (\<lambda>(i, r). r\<lparr>iv_id := k + i\<rparr>) (enumerate n rows)) = map ((+) k) [n..<n + length rows]"
  by (induction rows arbitrary: n) (simp_all add: upt_conv_Cons del: upt_Suc)

lemma numbered_set:
  "r \<in> set (map (\<lambda>(i, r). r\<lparr>iv_id := k + i\<rparr>) (enumerate n rows)) \<Longrightarrow> \<exists>r' \<in> set rows. \<exists>i < n + length rows. r = r'\<lparr>iv_id := k + i\<rparr>"
  by (auto simp: in_set_enumerate_eq) (metis add.commute le_add_diff_inverse less_diff_conv2 nth_mem)

lemma numbered_outstanding:
  "outstanding (map (\<lambda>(i, r). r\<lparr>iv_id := k + i\<rparr>) (enumerate n rows)) t \<longleftrightarrow> outstanding rows t"
  by (induction rows arbitrary: n) (simp_all add: outstanding_def)

lemma put_intervals_wf:
  assumes "wf_tac d" "\<And>r. r \<in> set rows \<Longrightarrow> whole (iv_start r) \<and> whole (iv_finish r)"
  shows "wf_tac (put_intervals rows d)"
proof -
  let ?new = "map (\<lambda>(i, r). r\<lparr>iv_id := db_next_interval d + i\<rparr>) (enumerate 0 rows)"
  have ids: "map iv_id ?new = map ((+) (db_next_interval d)) [0..<length rows]" using numbered_ids[of _ 0] by simp
  have new_ids: "iv_id ` set ?new = (+) (db_next_interval d) ` {0..<length rows}" using ids by (metis set_map set_upt)
  have old_ids: "iv_id ` set (db_intervals d) \<subseteq> {..<db_next_interval d}" using assms(1) by (auto simp: wf_tac_def)
  have "distinct (map iv_id ?new)" unfolding ids by (simp add: distinct_map)
  moreover have "distinct (map iv_id (db_intervals d))" using assms(1) by (simp add: wf_tac_def)
  moreover have "set (map iv_id (db_intervals d)) \<inter> set (map iv_id ?new) = {}"
    unfolding set_map[of iv_id] new_ids using old_ids by fastforce
  ultimately have "distinct (map iv_id (db_intervals d @ ?new))" by (simp only: map_append distinct_append)
  moreover have "iv_id r < db_next_interval d + length rows \<and> whole (iv_start r) \<and> whole (iv_finish r)"
    if "r \<in> set (db_intervals d @ ?new)" for r
  proof (cases "r \<in> set ?new")
    case True
    then show ?thesis using numbered_set[OF True] assms(2) by auto
  next
    case False
    then show ?thesis using that assms(1) by (fastforce simp: wf_tac_def)
  qed
  ultimately show ?thesis using assms(1) unfolding wf_tac_def put_intervals_tables by blast
qed

lemma put_watermark_wf: "wf_tac d \<Longrightarrow> whole t \<Longrightarrow> wf_tac (put_watermark t d)"
  by (rule put_watermark_single[of d t]) (auto simp: wf_tac_def)

lemma put_interval_complete:
  assumes d: "complete_db R lo d" and rows: "\<And>r. r \<in> set rows \<Longrightarrow> whole (iv_start r) \<and> whole (iv_finish r)"
    and t: "whole t" "complete_upto R lo t (put_intervals rows d)"
  shows "complete_db R lo (put_watermark t (put_intervals rows d))"
proof -
  have wf: "wf_tac (put_intervals rows d)" using d rows by (auto simp: complete_db_def intro: put_intervals_wf)
  then have one: "length (db_watermarks (put_intervals rows d)) \<le> 1" by (simp add: wf_tac_def)
  have "complete_upto R lo t (put_watermark t (put_intervals rows d))"
    using t(2) by (simp add: complete_upto_def known_ids_def)
  then show ?thesis
    using put_watermark_wf[OF wf t(1)] put_watermark_single[OF one, of t] unfolding complete_db_def
    by (metis list.set_cases empty_iff empty_set set_ConsD)
qed

lemma whole_end: "whole t \<Longrightarrow> as_i64 (as_u64 (timestamp_of t)) * micros_per_sec = t"
  by (auto simp: whole_def)

lemma contiguous_elems: "contiguous a rs \<Longrightarrow> r \<in> set rs \<Longrightarrow> whole (iv_start r) \<and> whole (iv_finish r) \<and> iv_status r = Pending"
  by (induction rs arbitrary: a) auto

lemma put_chunk_complete:
  assumes d: "complete_db R lo d" "complete_upto R lo a d" and rows: "contiguous a rows" "rows \<noteq> []"
  shows "complete_db R lo (put_chunk rows d) \<and> complete_upto R lo (end_of a rows) (put_chunk rows d)"
proof -
  have whole: "whole (end_of a rows)" using contiguous_whole[OF rows] .
  have t: "as_i64 (chunk_end rows) * micros_per_sec = end_of a rows"
    using whole by (simp add: chunk_end_def end_of_last[OF rows(2)] whole_end)
  have new: "outstanding rows u" if "a < u" "u \<le> end_of a rows" for u
    using contiguous_covers[OF rows(1) that] contiguous_elems[OF rows(1)] by (fastforce simp: outstanding_def)
  have upto: "complete_upto R lo (end_of a rows) (put_intervals rows d)"
    unfolding complete_upto_def
  proof (intro ballI impI)
    fix p assume p: "p \<in> R" "lo < api_timestamp p" "micros p \<le> end_of a rows"
    show "api_id p \<in> known_ids (put_intervals rows d) \<or> outstanding (db_intervals (put_intervals rows d)) (micros p)"
    proof (cases "micros p \<le> a")
      case True
      then show ?thesis using d(2) p by (auto simp: complete_upto_def known_ids_def)
    next
      case False
      then show ?thesis using new p(3) by (simp add: numbered_outstanding)
    qed
  qed
  have "complete_db R lo (put_watermark (end_of a rows) (put_intervals rows d))"
    by (rule put_interval_complete[OF d(1) _ whole upto]) (use contiguous_elems[OF rows(1)] in blast)
  moreover have "complete_upto R lo (end_of a rows) (put_watermark (end_of a rows) (put_intervals rows d))"
    using upto by (simp add: complete_upto_def known_ids_def)
  ultimately show ?thesis by (simp add: put_chunk_def t)
qed

lemma put_chunks_complete:
  assumes "complete_db R lo d" "complete_upto R lo a d" "contiguous a (concat cs)" "[] \<notin> set cs"
  shows "complete_db R lo (fold put_chunk cs d)"
  using assms
proof (induction cs arbitrary: a d)
  case (Cons chunk cs)
  from put_chunk_complete[OF Cons.prems(1, 2)] Cons.prems(3, 4)
  have "complete_db R lo (put_chunk chunk d)" "complete_upto R lo (end_of a chunk) (put_chunk chunk d)" by auto
  from Cons.IH[OF this] Cons.prems(3, 4) show ?case by simp
qed simp

section \<open>Actions that keep a property of the tables\<close>

definition keeps :: "('d \<Rightarrow> bool) \<Rightarrow> ('d, 'a) io \<Rightarrow> bool" where
  "keeps P m \<longleftrightarrow> (\<forall>c. P (conn_db c) \<longrightarrow> P (conn_db (snd (m c))))"

named_theorems keeps_intros \<open>rules for actions that keep a property\<close>

lemma keepsD: "keeps P m \<Longrightarrow> m c = (r, c') \<Longrightarrow> P (conn_db c) \<Longrightarrow> P (conn_db c')"
  by (metis keeps_def snd_conv)

lemma keeps_pure [keeps_intros]: "keeps P (pure_io x)" "keeps P (fail_io e)" "keeps P panic_io"
  by (simp_all add: keeps_def pure_io_def fail_io_def panic_io_def)

lemma keeps_unwrap [keeps_intros]: "keeps P (unwrap_io v)"
  by (cases v) (simp_all add: keeps_pure)

lemma keeps_bind [keeps_intros]:
  assumes "keeps P m" "\<And>x. keeps P (f x)"
  shows "keeps P (bind_io m f)"
  unfolding keeps_def
proof (intro allI impI)
  fix c :: "'a conn" assume P: "P (conn_db c)"
  obtain r c' where m: "m c = (r, c')" by (cases "m c")
  then have "P (conn_db c')" using keepsD[OF assms(1) m P] by simp
  then show "P (conn_db (snd (bind_io m f c)))"
    using assms(2) m by (cases r) (auto simp: bind_io_def keeps_def)
qed

lemma keeps_ignore [keeps_intros]: "keeps P m \<Longrightarrow> keeps P (ignore_error m)"
  by (auto simp: keeps_def ignore_error_def split: prod.splits outcome.splits)

lemma keeps_run [keeps_intros]:
  "(\<And>d x d'. P d \<Longrightarrow> f d = (Ok x, d') \<Longrightarrow> P d') \<Longrightarrow> keeps P (run_statement F f)"
  unfolding keeps_def by (auto simp: run_statement_def split: option.splits prod.splits sum.splits)

lemma keeps_tx [keeps_intros]:
  "(\<And>d x d'. P d \<Longrightarrow> f d = (Ok x, d') \<Longrightarrow> P d') \<Longrightarrow> keeps P (tx_statement F f)"
  unfolding keeps_def tx_statement_def by (auto simp: run_statement_def split: option.splits prod.splits sum.splits outcome.splits)

lemma keeps_transaction [keeps_intros]:
  assumes "keeps P body"
  shows "keeps P (transaction F body)"
  unfolding keeps_def
proof (intro allI impI)
  fix c :: "'a conn" assume P: "P (conn_db c)"
  obtain r c' where "transaction F body c = (r, c')" by (cases "transaction F body c")
  then show "P (conn_db (snd (transaction F body c)))"
  proof (cases rule: transaction_effect)
    case undone
    then show ?thesis using P \<open>transaction F body c = (r, c')\<close> by simp
  next
    case (ran x c'')
    have "P (conn_db c'')" using keepsD[OF assms ran(2)] P by simp
    then show ?thesis using ran \<open>transaction F body c = (r, c')\<close> by simp
  qed
qed

section \<open>Steps that keep the tables complete\<close>

definition good :: "api_operation set \<Rightarrow> nat \<Rightarrow> int \<Rightarrow> 'n tac_db \<Rightarrow> bool" where
  "good R lo a d \<longleftrightarrow> complete_db R lo d \<and> complete_upto R lo a d"

text \<open>A change of rows of the intervals that keeps their identity and does not complete them.\<close>

definition keeps_rows :: "interval list \<Rightarrow> (interval \<Rightarrow> interval) \<Rightarrow> bool" where
  "keeps_rows rows f \<longleftrightarrow> (\<forall>r \<in> set rows. iv_id (f r) = iv_id r \<and> iv_start (f r) = iv_start r \<and> iv_finish (f r) = iv_finish r)"

lemma wf_tac_map:
  assumes "wf_tac d" "keeps_rows (db_intervals d) f"
  shows "wf_tac (d\<lparr>db_intervals := map f (db_intervals d)\<rparr>)"
proof -
  have "map iv_id (map f (db_intervals d)) = map iv_id (db_intervals d)" using assms(2) by (simp add: keeps_rows_def)
  then show ?thesis using assms by (auto simp: wf_tac_def keeps_rows_def simp del: map_map)
qed

lemma good_map:
  assumes g: "good R lo a d" and f: "keeps_rows (db_intervals d) f"
    and fin: "\<And>r t p. r \<in> set (db_intervals d) \<Longrightarrow> iv_status (f r) = Completed \<Longrightarrow> iv_status r \<noteq> Completed \<Longrightarrow>
      p \<in> R \<Longrightarrow> iv_start r < micros p \<Longrightarrow> micros p \<le> iv_finish r \<Longrightarrow> api_id p \<in> known_ids d"
  shows "good R lo a (d\<lparr>db_intervals := map f (db_intervals d)\<rparr>)"
proof -
  let ?d = "d\<lparr>db_intervals := map f (db_intervals d)\<rparr>"
  have upto: "complete_upto R lo b ?d" if "complete_upto R lo b d" for b
    unfolding complete_upto_def
  proof (intro ballI impI)
    fix p assume p: "p \<in> R" "lo < api_timestamp p" "micros p \<le> b"
    then have "api_id p \<in> known_ids d \<or> outstanding (db_intervals d) (micros p)" using that by (auto simp: complete_upto_def)
    then show "api_id p \<in> known_ids ?d \<or> outstanding (db_intervals ?d) (micros p)"
    proof
      assume "outstanding (db_intervals d) (micros p)"
      then obtain r where r: "r \<in> set (db_intervals d)" "iv_status r \<noteq> Completed" "iv_start r < micros p" "micros p \<le> iv_finish r"
        by (auto simp: outstanding_def)
      show ?thesis
      proof (cases "iv_status (f r) = Completed")
        case True
        then show ?thesis using fin[OF r(1) True r(2) p(1) r(3, 4)] by (simp add: known_ids_def)
      next
        case False
        then show ?thesis using r f by (auto simp: outstanding_def keeps_rows_def)
      qed
    qed (simp add: known_ids_def)
  qed
  show ?thesis using g wf_tac_map[OF _ f] upto by (auto simp: good_def complete_db_def)
qed

text \<open>A change of other tables, and of operations that keeps their identity and time.\<close>

lemma good_frame:
  assumes "good R lo a d" "db_intervals d' = db_intervals d" "db_watermarks d' = db_watermarks d"
    and "db_next_interval d' = db_next_interval d"
    and ops: "map (\<lambda>r. (op_id r, op_timestamp r)) (db_operations d') = map (\<lambda>r. (op_id r, op_timestamp r)) (db_operations d)"
  shows "good R lo a d'"
proof -
  have ids: "map op_id (db_operations d') = map op_id (db_operations d)"
    using arg_cong[OF ops, of "map fst"] by (simp add: comp_def)
  have times: "op_timestamp ` set (db_operations d') = op_timestamp ` set (db_operations d)"
    using arg_cong[OF ops, of "\<lambda>x. set (map snd x)"] by (simp add: image_image)
  have known: "known_ids d' = known_ids d" using arg_cong[OF ids, of set] by (simp add: known_ids_def)
  have "(\<forall>r \<in> set (db_operations d'). whole (op_timestamp r)) = (\<forall>r \<in> set (db_operations d). whole (op_timestamp r))"
    using times by (metis (no_types, lifting) image_iff)
  then show ?thesis using assms(1-4) ids known by (simp add: good_def complete_db_def complete_upto_def wf_tac_def)
qed

text \<open>New operations.\<close>

lemma insert_operations_effect:
  "\<exists>new n. insert_operations rs d = (Ok n, d\<lparr>db_operations := db_operations d @ new\<rparr>) \<and> set new \<subseteq> set rs \<and>
     op_id ` set new \<union> op_id ` set (db_operations d) = op_id ` set rs \<union> op_id ` set (db_operations d) \<and>
     (distinct (map op_id (db_operations d)) \<longrightarrow> distinct (map op_id (db_operations d @ new)))"
proof (induction rs arbitrary: d)
  case Nil
  show ?case by (rule exI[of _ "[]"]) simp
next
  case (Cons r rs)
  show ?case
  proof (cases "op_id r \<in> op_id ` set (db_operations d)")
    case True
    then have same: "insert_operations (r # rs) d = insert_operations rs d" "op_id ` set (r # rs) \<union> op_id ` set (db_operations d) = op_id ` set rs \<union> op_id ` set (db_operations d)"
      by (auto simp: insert_absorb)
    show ?thesis unfolding same using Cons.IH[of d] by (meson set_subset_Cons subset_trans)
  next
    case False
    let ?d = "d\<lparr>db_operations := db_operations d @ [r]\<rparr>"
    from Cons.IH[of ?d] obtain new n where new: "insert_operations rs ?d = (Ok n, ?d\<lparr>db_operations := db_operations ?d @ new\<rparr>)"
      "set new \<subseteq> set rs" "op_id ` set new \<union> op_id ` set (db_operations ?d) = op_id ` set rs \<union> op_id ` set (db_operations ?d)"
      "distinct (map op_id (db_operations ?d)) \<longrightarrow> distinct (map op_id (db_operations ?d @ new))"
      by (elim exE conjE) (rule that, assumption+)
    show ?thesis
    proof (rule exI[of _ "r # new"], rule exI[of _ "Suc n"], intro conjI impI)
      show "insert_operations (r # rs) d = (Ok (Suc n), d\<lparr>db_operations := db_operations d @ r # new\<rparr>)"
        using new(1) False by simp
      show "set (r # new) \<subseteq> set (r # rs)" using new(2) by auto
      show "op_id ` set (r # new) \<union> op_id ` set (db_operations d) = op_id ` set (r # rs) \<union> op_id ` set (db_operations d)"
        using new(3) by (simp add: Un_insert_left)
      assume "distinct (map op_id (db_operations d))"
      then show "distinct (map op_id (db_operations d @ r # new))" using new(4) False by simp
    qed
  qed
qed

lemma map_panic_Some: "map_panic f xs = Some ys \<Longrightarrow> list_all2 (\<lambda>x y. f x = Some y) xs ys"
  by (induction xs arbitrary: ys) (auto split: option.splits)

lemma pending_models:
  assumes "map_panic (pending_operation rep now) ops = Some models" "\<And>p. p \<in> set ops \<Longrightarrow> api_timestamp p < 2 ^ 62"
  shows "op_id ` set models = api_id ` set ops" "\<And>m. m \<in> set models \<Longrightarrow> whole (op_timestamp m)"
proof -
  have all: "list_all2 (\<lambda>p m. pending_operation rep now p = Some m) ops models" using map_panic_Some[OF assms(1)] .
  have one: "op_id m = api_id p \<and> op_timestamp m = as_i64 (api_timestamp p) * micros_per_sec" if "pending_operation rep now p = Some m" for p m
    using that by (auto simp: pending_operation_def timestamp_to_naive_def split: if_splits)
  have "map op_id models = map api_id ops" using all one by (induction rule: list_all2_induct) auto
  then show "op_id ` set models = api_id ` set ops" by (metis set_map)
  fix m assume "m \<in> set models"
  then obtain i where i: "i < length models" "m = models ! i" by (auto simp: in_set_conv_nth)
  then have "ops ! i \<in> set ops" "pending_operation rep now (ops ! i) = Some m"
    using all by (auto simp: list_all2_conv_all_nth)
  then show "whole (op_timestamp m)" using one assms(2) by (auto intro: wholeI)
qed

lemma good_insert:
  assumes "good R lo a d" "\<And>m. m \<in> set new \<Longrightarrow> whole (op_timestamp m)" "distinct (map op_id (db_operations d @ new))"
  shows "good R lo a (d\<lparr>db_operations := db_operations d @ new\<rparr>)"
proof -
  let ?d = "d\<lparr>db_operations := db_operations d @ new\<rparr>"
  have known: "known_ids d \<subseteq> known_ids ?d" by (auto simp: known_ids_def)
  have "complete_upto R lo b ?d" if "complete_upto R lo b d" for b
    by (rule complete_upto_mono[OF that known]) simp
  then show ?thesis using assms by (auto simp: good_def complete_db_def wf_tac_def)
qed

lemma insert_pending_effect:
  assumes g: "good R lo a (conn_db c)" and ops: "\<And>p. p \<in> set ops \<Longrightarrow> api_timestamp p < 2 ^ 62"
    and run: "insert_pending_operations rep F now ops c = (r, c')"
  shows "good R lo a (conn_db c') \<and> known_ids (conn_db c) \<subseteq> known_ids (conn_db c') \<and>
    db_intervals (conn_db c') = db_intervals (conn_db c) \<and> db_watermarks (conn_db c') = db_watermarks (conn_db c) \<and>
    (r = Done () \<longrightarrow> api_id ` set ops \<subseteq> known_ids (conn_db c'))"
proof (cases "map_panic (pending_operation rep now) ops")
  case None
  then show ?thesis using run g by (auto simp: insert_pending_operations_def tac_simps)
next
  case (Some models)
  note models = pending_models[OF Some ops]
  obtain r1 c1 where one: "run_statement F (insert_operations models) c = (r1, c1)" by (cases "run_statement F (insert_operations models) c")
  have c': "c' = c1" "r = Done () \<longleftrightarrow> (\<exists>n. r1 = Done n)" using run Some one
    by (auto simp: insert_pending_operations_def bind_io_def tac_simps split: outcome.splits)
  from one show ?thesis
  proof (cases rule: run_statement_effect)
    case (ran n)
    from insert_operations_effect[of models "conn_db c"] obtain new n' where new:
      "insert_operations models (conn_db c) = (Ok n', (conn_db c)\<lparr>db_operations := db_operations (conn_db c) @ new\<rparr>)"
      "set new \<subseteq> set models"
      "op_id ` set new \<union> op_id ` set (db_operations (conn_db c)) = op_id ` set models \<union> op_id ` set (db_operations (conn_db c))"
      "distinct (map op_id (db_operations (conn_db c))) \<longrightarrow> distinct (map op_id (db_operations (conn_db c) @ new))"
      by (elim exE conjE) (rule that, assumption+)
    have d': "conn_db c1 = (conn_db c)\<lparr>db_operations := db_operations (conn_db c) @ new\<rparr>" using ran(2) new(1) by simp
    have "good R lo a (conn_db c1)" unfolding d'
      by (rule good_insert[OF g]) (use new models(2) g in \<open>auto simp: good_def complete_db_def wf_tac_def\<close>)
    moreover have known: "known_ids (conn_db c1) = known_ids (conn_db c) \<union> api_id ` set ops"
      using new(3) models(1) by (simp add: d' known_ids_def image_Un Un_commute)
    ultimately show ?thesis unfolding c' known by (simp add: d')
  qed (use c' g in auto)
qed

section \<open>Claims\<close>

lemma claim_intervals_effect:
  assumes wf: "wf_tac d" and claim: "claim_intervals cond field dir limit st d = (Ok rows, d')"
  obtains ids where "d' = d\<lparr>db_intervals := map (\<lambda>r. if iv_id r \<in> ids then r\<lparr>iv_status := st\<rparr> else r) (db_intervals d)\<rparr>"
    "rows = filter (\<lambda>r. iv_id r \<in> ids) (db_intervals d')"
    "\<And>r. r \<in> set (db_intervals d) \<Longrightarrow> iv_id r \<in> ids \<Longrightarrow> cond r"
proof -
  let ?ids = "iv_id ` set (take limit (order_by field dir (filter cond (db_intervals d))))"
  have "cond r" if "r \<in> set (db_intervals d)" "iv_id r \<in> ?ids" for r
  proof -
    from that(2) obtain r' where r': "r' \<in> set (take limit (order_by field dir (filter cond (db_intervals d))))" "iv_id r' = iv_id r" by auto
    from in_set_takeD[OF r'(1)] have "r' \<in> set (filter cond (db_intervals d))" by simp
    moreover have "inj_on iv_id (set (db_intervals d))" using wf by (simp add: wf_tac_def distinct_map)
    ultimately show ?thesis using r'(2) that(1) by (auto dest: inj_onD)
  qed
  moreover have "d' = d\<lparr>db_intervals := map (\<lambda>r. if iv_id r \<in> ?ids then r\<lparr>iv_status := st\<rparr> else r) (db_intervals d)\<rparr>"
    using claim by (simp add: claim_intervals_def Let_def)
  moreover from this have "rows = filter (\<lambda>r. iv_id r \<in> ?ids) (db_intervals d')"
    using claim by (simp add: claim_intervals_def Let_def)
  ultimately show ?thesis by (rule that[rotated 2])
qed

text \<open>The row of an interval that a job works on.\<close>

definition processing :: "'n tac_db \<Rightarrow> interval \<Rightarrow> bool" where
  "processing d iv \<longleftrightarrow> (\<exists>r \<in> set (db_intervals d). iv_id r = iv_id iv \<and> iv_start r = iv_start iv \<and> iv_finish r = iv_finish iv \<and>
     iv_status r = Processing)"

lemma processing_map:
  assumes "processing d iv"
    and "\<And>r. iv_id r = iv_id iv \<Longrightarrow> iv_status r = Processing \<Longrightarrow>
      iv_id (f r) = iv_id r \<and> iv_start (f r) = iv_start r \<and> iv_finish (f r) = iv_finish r \<and> iv_status (f r) = Processing"
  shows "processing (d\<lparr>db_intervals := map f (db_intervals d)\<rparr>) iv"
proof -
  from assms(1) obtain r where r: "r \<in> set (db_intervals d)" "iv_id r = iv_id iv" "iv_start r = iv_start iv"
    "iv_finish r = iv_finish iv" "iv_status r = Processing" by (auto simp: processing_def)
  then show ?thesis using assms(2)[OF r(2, 5)] unfolding processing_def by (intro bexI[of _ "f r"]) auto
qed

definition in_interval :: "interval \<Rightarrow> api_operation \<Rightarrow> bool" where
  "in_interval iv p \<longleftrightarrow> iv_start iv < micros p \<and> micros p \<le> iv_finish iv"

fun job_ok :: "api_operation set \<Rightarrow> 'n tac_db \<Rightarrow> interval_job \<Rightarrow> bool" where
  "job_ok R d (InsertOperations iv ops) \<longleftrightarrow> processing d iv \<and> set ops = {p \<in> R. in_interval iv p}"
| "job_ok R d (CompleteInterval iv) \<longleftrightarrow> processing d iv \<and> (\<forall>p \<in> R. in_interval iv p \<longrightarrow> api_id p \<in> known_ids d)"
| "job_ok R d (FetchOperations iv) \<longleftrightarrow> processing d iv"
| "job_ok R d (RetryInterval iv) \<longleftrightarrow> processing d iv"

definition jobs_ok :: "api_operation set \<Rightarrow> 'n tac_db \<Rightarrow> interval_job list \<Rightarrow> bool" where
  "jobs_ok R d jobs \<longleftrightarrow> distinct (map (\<lambda>j. iv_id (job_interval j)) jobs) \<and> (\<forall>j \<in> set jobs. job_ok R d j)"

lemma job_ok_processing: "job_ok R d j \<Longrightarrow> processing d (job_interval j)"
  by (cases j) auto

lemma job_ok_mono:
  "job_ok R d j \<Longrightarrow> known_ids d \<subseteq> known_ids d' \<Longrightarrow> (processing d (job_interval j) \<Longrightarrow> processing d' (job_interval j)) \<Longrightarrow> job_ok R d' j"
  by (cases j) auto

lemma jobs_ok_mono:
  "jobs_ok R d jobs \<Longrightarrow> known_ids d \<subseteq> known_ids d' \<Longrightarrow>
   (\<And>j. j \<in> set jobs \<Longrightarrow> processing d (job_interval j) \<Longrightarrow> processing d' (job_interval j)) \<Longrightarrow> jobs_ok R d' jobs"
  unfolding jobs_ok_def using job_ok_mono by blast

text \<open>A claim of intervals that no job works on.\<close>

lemma claim_ok:
  assumes g: "good R lo a d" and jobs: "jobs_ok R d jobs"
    and claim: "claim_intervals cond field dir limit Processing d = (Ok rows, d')"
    and idle: "\<And>r. cond r \<Longrightarrow> iv_status r = Pending \<or> iv_status r = FailedStatus"
  shows "good R lo a d' \<and> jobs_ok R d' (jobs @ map FetchOperations rows)"
proof -
  have wf: "wf_tac d" using g by (simp add: good_def complete_db_def)
  from claim_intervals_effect[OF wf claim] obtain ids where
    d': "d' = d\<lparr>db_intervals := map (\<lambda>r. if iv_id r \<in> ids then r\<lparr>iv_status := Processing\<rparr> else r) (db_intervals d)\<rparr>"
    and rows: "rows = filter (\<lambda>r. iv_id r \<in> ids) (db_intervals d')"
    and cond: "\<And>r. r \<in> set (db_intervals d) \<Longrightarrow> iv_id r \<in> ids \<Longrightarrow> cond r"
    by blast
  have g': "good R lo a d'" unfolding d'
    by (rule good_map[OF g]) (auto simp: keeps_rows_def split: if_splits)
  then have wf': "distinct (map iv_id (db_intervals d'))" by (simp add: good_def complete_db_def wf_tac_def)
  have proc: "processing d' iv" if "processing d iv" for iv
    unfolding d' by (rule processing_map[OF that]) simp
  have old: "jobs_ok R d' jobs" by (rule jobs_ok_mono[OF jobs]) (auto simp: proc, simp add: d' known_ids_def)
  have new: "processing d' r \<and> iv_id r \<in> ids" if "r \<in> set rows" for r
    using that unfolding rows by (auto simp: d' processing_def)
  have "iv_id (job_interval j) \<notin> ids" if j: "j \<in> set jobs" for j
  proof
    assume mem: "iv_id (job_interval j) \<in> ids"
    have "processing d (job_interval j)" using jobs j by (auto simp: jobs_ok_def dest: job_ok_processing)
    then obtain r where "r \<in> set (db_intervals d)" "iv_id r = iv_id (job_interval j)" "iv_status r = Processing" by (auto simp: processing_def)
    with cond[of r] idle[of r] mem show False by auto
  qed
  then have disj: "(\<lambda>j. iv_id (job_interval j)) ` set jobs \<inter> iv_id ` set rows = {}" using new by fastforce
  have "distinct (map iv_id rows)" unfolding rows using wf' by (simp add: distinct_map_filter)
  then have "distinct (map (\<lambda>j. iv_id (job_interval j)) (jobs @ map FetchOperations rows))"
    using old disj by (simp add: jobs_ok_def comp_def image_image)
  then show ?thesis using g' old new by (auto simp: jobs_ok_def)
qed

section \<open>The start of the program\<close>

lemma get_watermark_effect:
  assumes "get_watermark lo F c = (Done w, c')"
  shows "conn_db c' = conn_db c \<and> (if db_watermarks (conn_db c) = [] then w = lo
    else \<exists>x \<in> set (db_watermarks (conn_db c)). w = as_u64 (timestamp_of (wm_timestamp x)))"
proof -
  obtain rows where rows: "run_statement F (\<lambda>d. (Ok (order_by wm_timestamp EarliestFirst (db_watermarks d)), d)) c = (Done rows, c')"
    "(case rows of [] \<Rightarrow> pure_io lo | x # _ \<Rightarrow> pure_io (as_u64 (timestamp_of (wm_timestamp x)))) c' = (Done w, c')"
    using assms by (auto simp: get_watermark_def bind_io_def tac_simps split: prod.splits outcome.splits list.splits)
  from rows(1) have r: "rows = order_by wm_timestamp EarliestFirst (db_watermarks (conn_db c))" "conn_db c' = conn_db c"
    by (auto simp: run_statement_def split: option.splits)
  show ?thesis
  proof (cases rows)
    case Nil
    then show ?thesis using r rows(2) by (simp add: tac_simps)
  next
    case (Cons x xs)
    then have "x \<in> set (db_watermarks (conn_db c))" using r(1) by (metis list.set_intros(1) order_by_set)
    then show ?thesis using Cons r rows(2) by (auto simp: tac_simps)
  qed
qed

lemma watermark_complete:
  assumes d: "complete_db R lo (conn_db c)" and lo: "lo < 2 ^ 62" and w: "get_watermark lo F c = (Done w, c')"
  shows "w < 2 ^ 62 \<and> complete_upto R lo (int w * micros_per_sec) (conn_db c)"
proof (cases "db_watermarks (conn_db c) = []")
  case True
  then show ?thesis using get_watermark_effect[OF w] lo by (simp add: complete_upto_start)
next
  case False
  then obtain x where x: "x \<in> set (db_watermarks (conn_db c))" "w = as_u64 (timestamp_of (wm_timestamp x))"
    using get_watermark_effect[OF w] by auto
  then have "whole (wm_timestamp x)" "complete_upto R lo (wm_timestamp x) (conn_db c)"
    using d by (auto simp: complete_db_def wf_tac_def)
  then show ?thesis using x(2) by (auto simp: whole_def)
qed

lemma complete_upto_less: "complete_upto R lo a d \<Longrightarrow> b \<le> a \<Longrightarrow> complete_upto R lo b d"
  by (auto simp: complete_upto_def)

lemma good_0: "good R lo 0 d \<longleftrightarrow> complete_db R lo d"
  by (simp add: good_def complete_upto_start micros_per_sec_def)

lemma generate_pending_intervals_complete:
  assumes d: "complete_db R lo (conn_db c)" "complete_upto R lo (int from * micros_per_sec) (conn_db c)"
    and small: "to < 2 ^ 62" "p < 2 ^ 62" and F: "connection_faults F"
    and run: "generate_pending_intervals rep F now from to p c = (r, c')"
  shows "complete_db R lo (conn_db c')"
proof (cases "0 < p \<and> (\<exists>ivs. map_panic (pending_interval rep now to p) (step_from from to p) = Some ivs)")
  case True
  then obtain ivs where p: "0 < p" and ivs: "map_panic (pending_interval rep now to p) (step_from from to p) = Some ivs" by blast
  have cont: "contiguous (int from * micros_per_sec) ivs" using generated_contiguous[OF ivs small(1) p small(2)] by simp
  obtain r1 c1 where st: "store_chunks rep F (chunks DB_BATCH_SIZE ivs) c = (r1, c1)" by (cases "store_chunks rep F (chunks DB_BATCH_SIZE ivs) c")
  have "conn_db c' = conn_db c1" using run p ivs st
    by (auto simp: generate_pending_intervals_def step_by_def bind_io_def tac_simps split: outcome.splits)
  moreover obtain n where "conn_db c1 = fold put_chunk (take n (chunks DB_BATCH_SIZE ivs)) (conn_db c)"
    using store_chunks_effect[OF F chunks_nonempty st] by blast
  moreover have "complete_db R lo (fold put_chunk (take n (chunks DB_BATCH_SIZE ivs)) (conn_db c))"
  proof (rule put_chunks_complete[OF d])
    have "concat (take n (chunks DB_BATCH_SIZE ivs)) @ concat (drop n (chunks DB_BATCH_SIZE ivs)) = ivs"
      using chunks_concat[of DB_BATCH_SIZE ivs] by (simp add: DB_BATCH_SIZE_def flip: concat_append)
    then show "contiguous (int from * micros_per_sec) (concat (take n (chunks DB_BATCH_SIZE ivs)))"
      using cont by (metis contiguous_append)
    show "[] \<notin> set (take n (chunks DB_BATCH_SIZE ivs))" using chunks_nonempty in_set_takeD by metis
  qed
  ultimately show ?thesis by simp
next
  case False
  then have "conn_db c' = conn_db c" using run
    by (cases "map_panic (pending_interval rep now to p) (step_from from to p)")
      (auto simp: generate_pending_intervals_def step_by_def tac_simps split: if_splits)
  then show ?thesis using d(1) by simp
qed

lemma generate_historical_complete:
  assumes d: "complete_db R (start_timestamp S) (conn_db c)"
    and S: "start_timestamp S < 2 ^ 62" "catchup_interval S < 2 ^ 62" "to < 2 ^ 62" and F: "connection_faults F"
    and run: "generate_historical_intervals S rep F now to c = (r, c')"
  shows "complete_db R (start_timestamp S) (conn_db c')"
proof -
  obtain r1 c1 where w: "get_watermark (start_timestamp S) F c = (r1, c1)" by (cases "get_watermark (start_timestamp S) F c")
  have same: "conn_db c1 = conn_db c"
    using w by (auto simp: get_watermark_def bind_io_def run_statement_def tac_simps split: option.splits list.splits)
  show ?thesis
  proof (cases r1)
    case (Done v)
    let ?from = "max v (start_timestamp S)"
    have "complete_upto R (start_timestamp S) (int ?from * micros_per_sec) (conn_db c)"
      using watermark_complete[OF d S(1) w[unfolded Done]] by (simp add: max_def complete_upto_start)
    moreover have "generate_pending_intervals rep F now ?from to (catchup_interval S) c1 = (r, c')"
      using run w Done by (simp add: generate_historical_intervals_def bind_io_def)
    ultimately show ?thesis using generate_pending_intervals_complete[OF _ _ S(3, 2) F] d same by metis
  qed (use run w same d in \<open>auto simp: generate_historical_intervals_def bind_io_def\<close>)
qed

lemma register_stage_types_keeps: "keeps (good R lo a) (register_stage_types F types)"
proof (induction types)
  case Nil
  show ?case by (simp add: keeps_intros)
next
  case (Cons t types)
  have stmt: "keeps (good R lo a) (run_statement F (upsert_stage_type i name))" for i name
    by (intro keeps_intros) (erule good_frame, auto simp: upsert_stage_type_def split: if_splits)
  obtain i name where t: "t = (i, name)" by (cases t)
  show ?case unfolding t register_stage_types.simps by (rule keeps_bind[OF stmt Cons])
qed

lemma ensure_stages_keeps: "keeps (good R lo a) (ensure_stages_types_exist F)"
  unfolding ensure_stages_types_exist_def by (rule keeps_ignore[OF register_stage_types_keeps])

lemma reset_intervals_keeps: "keeps (good R lo a) (reset_processing_intervals F)"
  unfolding reset_processing_intervals_def
  by (intro keeps_intros) (auto intro!: good_map simp: keeps_rows_def split: if_splits)

lemma reset_operations_keeps: "keeps (good R lo a) (reset_processing_operations F)"
  unfolding reset_processing_operations_def
  by (intro keeps_intros) (erule good_frame, auto)

lemma start_complete:
  assumes d: "complete_db R (start_timestamp S) (conn_db c)"
    and S: "start_timestamp S < 2 ^ 62" "catchup_interval S < 2 ^ 62" "boundary < 2 ^ 62" and F: "connection_faults F"
    and run: "start_indexer S rep F now boundary c = (r, c')"
  shows "complete_db R (start_timestamp S) (conn_db c') \<and>
    (\<forall>w. r = Done w \<longrightarrow> w < 2 ^ 62 \<and> complete_upto R (start_timestamp S) (int w * micros_per_sec) (conn_db c'))"
proof -
  let ?lo = "start_timestamp S"
  note keep = keepsD[where P = "good R ?lo 0", unfolded good_0]
  obtain r1 c1 where 1: "ensure_stages_types_exist F c = (r1, c1)" by (cases "ensure_stages_types_exist F c")
  have d1: "complete_db R ?lo (conn_db c1)" using keep[OF ensure_stages_keeps[of R ?lo 0 F, unfolded good_0] 1] d by simp
  obtain r2 c2 where 2: "generate_historical_intervals S rep F now boundary c1 = (r2, c2)"
    by (cases "generate_historical_intervals S rep F now boundary c1")
  have d2: "complete_db R ?lo (conn_db c2)" by (rule generate_historical_complete[OF d1 S F 2])
  obtain r3 c3 where 3: "reset_processing_intervals F c2 = (r3, c3)" by (cases "reset_processing_intervals F c2")
  have d3: "complete_db R ?lo (conn_db c3)" using keepsD[OF reset_intervals_keeps[of R ?lo 0] 3] d2 by (simp add: good_0)
  obtain r4 c4 where 4: "reset_processing_operations F c3 = (r4, c4)" by (cases "reset_processing_operations F c3")
  have d4: "complete_db R ?lo (conn_db c4)" using keepsD[OF reset_operations_keeps[of R ?lo 0] 4] d3 by (simp add: good_0)
  obtain r5 c5 where 5: "get_watermark ?lo F c4 = (r5, c5)" by (cases "get_watermark ?lo F c4")
  have same: "conn_db c5 = conn_db c4"
    using 5 by (auto simp: get_watermark_def bind_io_def run_statement_def tac_simps split: option.splits list.splits)
  show ?thesis
    using run 1 2 3 4 5 d1 d2 d3 d4 same watermark_complete[OF d4 S(1)]
    by (auto simp: start_indexer_def bind_io_def split: outcome.splits)
qed

section \<open>The invariant of a run\<close>

definition rt_time :: "realtime_task option \<Rightarrow> int" where
  "rt_time rt = (case rt of None \<Rightarrow> 0 | Some t \<Rightarrow> (int (realtime_bnd t) - 1) * micros_per_sec)"

fun rt_ok :: "api_operation set \<Rightarrow> 'n tac_db \<Rightarrow> realtime_task option \<Rightarrow> bool" where
  "rt_ok R d None \<longleftrightarrow> True"
| "rt_ok R d (Some (PollRealtime b)) \<longleftrightarrow> b \<le> 2 ^ 62"
| "rt_ok R d (Some (StoreRealtime b ops)) \<longleftrightarrow> b \<le> 2 ^ 62 \<and> ops \<noteq> [] \<and>
     (\<exists>n. set ops = {p \<in> R. b \<le> api_timestamp p \<and> api_timestamp p \<le> n})"
| "rt_ok R d (Some (RecordRealtime b m)) \<longleftrightarrow> b < m \<and> m < 2 ^ 62 \<and>
     (\<forall>p \<in> R. b \<le> api_timestamp p \<longrightarrow> api_timestamp p \<le> m \<longrightarrow> api_id p \<in> known_ids d)"

definition fine :: "api_operation set \<Rightarrow> nat \<Rightarrow> realtime_task option \<Rightarrow> interval_job list \<Rightarrow> 'n tac_db \<Rightarrow> bool" where
  "fine R lo rt jobs d \<longleftrightarrow> good R lo (rt_time rt) d \<and> jobs_ok R d jobs \<and> rt_ok R d rt"

lemma rt_ok_mono: "rt_ok R d rt \<Longrightarrow> known_ids d \<subseteq> known_ids d' \<Longrightarrow> rt_ok R d' rt"
  by (induction R d rt rule: rt_ok.induct) auto

text \<open>Changes that concern neither the intervals nor the identity of operations.\<close>

definition same_core :: "'n tac_db \<Rightarrow> 'n tac_db \<Rightarrow> bool" where
  "same_core d d' \<longleftrightarrow> db_intervals d' = db_intervals d \<and> db_watermarks d' = db_watermarks d \<and>
     db_next_interval d' = db_next_interval d \<and>
     map (\<lambda>r. (op_id r, op_timestamp r)) (db_operations d') = map (\<lambda>r. (op_id r, op_timestamp r)) (db_operations d)"

lemma same_core_known: "same_core d d' \<Longrightarrow> known_ids d' = known_ids d"
  unfolding same_core_def known_ids_def by (metis (no_types, lifting) fst_conv image_cong image_image list.set_map)

lemma fine_same_core:
  assumes "fine R lo rt jobs d" "same_core d d'"
  shows "fine R lo rt jobs d'"
proof -
  have "good R lo (rt_time rt) d'"
    using assms good_frame[of R lo "rt_time rt" d d'] by (simp add: fine_def same_core_def)
  moreover have "jobs_ok R d' jobs"
    by (rule jobs_ok_mono[of R d]) (use assms same_core_known[OF assms(2)] in \<open>auto simp: fine_def same_core_def processing_def\<close>)
  moreover have "rt_ok R d' rt" using assms(1) rt_ok_mono[of R d rt d'] same_core_known[OF assms(2)] by (simp add: fine_def)
  ultimately show ?thesis by (simp add: fine_def)
qed

definition touches_core_not :: "('n tac_db \<Rightarrow> (db_err, 'a) result \<times> 'n tac_db) \<Rightarrow> bool" where
  "touches_core_not f \<longleftrightarrow> (\<forall>d x d'. f d = (Ok x, d') \<longrightarrow> same_core d d')"

text \<open>Properties that such changes cannot affect.\<close>

definition core_pred :: "('n tac_db \<Rightarrow> bool) \<Rightarrow> bool" where
  "core_pred P \<longleftrightarrow> (\<forall>d d'. same_core d d' \<longrightarrow> P d \<longrightarrow> P d')"

lemma core_pred_fine: "core_pred (fine R lo rt jobs)"
  using fine_same_core by (auto simp: core_pred_def)

lemma core_pred_intervals: "core_pred (\<lambda>d. Q (db_intervals d))"
  by (simp add: core_pred_def same_core_def)

lemma core_keeps:
  assumes "core_pred P" "touches_core_not f"
  shows "keeps P (run_statement F f)" "keeps P (tx_statement F f)"
proof -
  have "P d'" if "P d" "f d = (Ok x, d')" for d x d'
    using assms that unfolding core_pred_def touches_core_not_def by blast
  then show "keeps P (run_statement F f)" "keeps P (tx_statement F f)" by (blast intro: keeps_run keeps_tx)+
qed

lemma claim_operations_core: "touches_core_not (claim_operations cond field dir limit st)"
  by (auto simp: touches_core_not_def claim_operations_def same_core_def Let_def)

text \<open>The same for changes that leave all operations but those in \<open>I\<close> as they are.\<close>

definition same_but :: "string set \<Rightarrow> 'n tac_db \<Rightarrow> 'n tac_db \<Rightarrow> bool" where
  "same_but I d d' \<longleftrightarrow> same_core d d' \<and>
     filter (\<lambda>r. op_id r \<notin> I) (db_operations d') = filter (\<lambda>r. op_id r \<notin> I) (db_operations d)"

definition touches_only :: "string set \<Rightarrow> ('n tac_db \<Rightarrow> (db_err, 'a) result \<times> 'n tac_db) \<Rightarrow> bool" where
  "touches_only I f \<longleftrightarrow> (\<forall>d x d'. f d = (Ok x, d') \<longrightarrow> same_but I d d')"

definition but_pred :: "string set \<Rightarrow> ('n tac_db \<Rightarrow> bool) \<Rightarrow> bool" where
  "but_pred I P \<longleftrightarrow> (\<forall>d d'. same_but I d d' \<longrightarrow> P d \<longrightarrow> P d')"

lemma core_but_pred: "core_pred P \<Longrightarrow> but_pred I P"
  by (auto simp: core_pred_def but_pred_def same_but_def)

lemma but_keeps:
  assumes "but_pred I P" "touches_only I f"
  shows "keeps P (run_statement F f)" "keeps P (tx_statement F f)"
proof -
  have "P d'" if "P d" "f d = (Ok x, d')" for d x d'
    using assms that unfolding but_pred_def touches_only_def by blast
  then show "keeps P (run_statement F f)" "keeps P (tx_statement F f)" by (blast intro: keeps_run keeps_tx)+
qed

lemma filter_map_other:
  "(\<And>r. op_id (f r) = op_id r) \<Longrightarrow> i \<in> I \<Longrightarrow>
   filter (\<lambda>r. op_id r \<notin> I) (map (\<lambda>r. if op_id r = i then f r else r) rows) = filter (\<lambda>r. op_id r \<notin> I) rows"
  by (induction rows) auto

lemma update_operation_only:
  assumes "\<And>r. op_id (f r) = op_id r \<and> op_timestamp (f r) = op_timestamp r" "i \<in> I"
  shows "touches_only I (update_operation i f)"
  unfolding touches_only_def
proof (intro allI impI)
  fix d :: "'a tac_db" and x d' assume "update_operation i f d = (Ok x, d')"
  then have "d' = d\<lparr>db_operations := map (\<lambda>r. if op_id r = i then f r else r) (db_operations d)\<rparr>"
    by (simp add: update_operation_def split: if_splits)
  then show "same_but I d d'" using assms by (simp add: same_but_def same_core_def filter_map_other)
qed

lemma insert_stage_only: "touches_only I (insert_stage i ty ok t note now)"
  by (auto simp: touches_only_def insert_stage_def same_but_def same_core_def split: if_splits)

lemma insert_transactions_only:
  "touches_only I (\<lambda>d. if txs = [] then (case nr of None \<Rightarrow> (Ok (), d) | Some e \<Rightarrow> (Err e, d)) else insert_transactions sid now txs d)"
  by (auto simp: touches_only_def insert_transactions_def same_but_def same_core_def split: if_splits option.splits)

lemma store_stages_keeps:
  assumes P: "but_pred I P"
  shows "keeps P (store_operation_stages nr rep F now i stages)"
proof (induction nr rep F now i stages rule: store_operation_stages.induct)
  case (2 nr rep F now i ty st stages)
  show ?case
  proof (cases "stage_data_of st")
    case None
    then show ?thesis using 2(1) by simp
  next
    case (Some data)
    show ?thesis unfolding store_operation_stages.simps Some option.case
      by (intro keeps_bind keeps_unwrap but_keeps[OF P] insert_stage_only insert_transactions_only 2(2)[OF Some])
  qed
qed (simp add: keeps_intros)

lemma set_operation_data_keeps:
  assumes P: "but_pred I P" and model: "op_id model \<in> I"
  shows "keeps P (set_operation_data L rep F now model od st)"
proof -
  have 1: "touches_only I (\<lambda>d. let gone = {s \<in> set (db_stages d). stage_operation_id s = i} in
     (Ok (), d\<lparr>db_stages := filter (\<lambda>s. stage_operation_id s \<noteq> i) (db_stages d),
              db_transactions := filter (\<lambda>t. tx_stage_id t \<notin> stage_id ` gone) (db_transactions d)\<rparr>))" for i
    by (simp add: touches_only_def same_but_def same_core_def Let_def)
  have 2: "touches_only I (\<lambda>d. let row = meta_model pd i m in
     if i \<in> meta_operation_id ` set (db_metas d)
     then (Ok (), d\<lparr>db_metas := map (\<lambda>r. if meta_operation_id r = i then row else r) (db_metas d)\<rparr>)
     else (Ok (), d\<lparr>db_metas := db_metas d @ [row]\<rparr>))" for pd i m
    by (auto simp: touches_only_def same_but_def same_core_def Let_def split: if_splits)
  show ?thesis
    unfolding set_operation_data_def remove_operation_associated_stages_def set_operation_base_properties_def
      store_operation_metainfo_def
    by (intro keeps_transaction keeps_bind but_keeps[OF P] store_stages_keeps[OF P] 1 update_operation_only[OF _ model])
      (auto simp: Let_def split: option.splits intro!: but_keeps[OF P] keeps_pure 2[unfolded Let_def])
qed

lemma retry_operations_keeps:
  assumes P: "but_pred I P"
  shows "op_id ` set models \<subseteq> I \<Longrightarrow> keeps P (retry_operations F now models)"
proof (induction models)
  case (Cons model models)
  have "op_id model \<in> I" "keeps P (retry_operations F now models)" using Cons by auto
  then show ?case unfolding retry_operations.simps set_operation_retry_def
    by (intro keeps_bind keeps_ignore but_keeps[OF P] update_operation_only) simp_all
qed (simp add: keeps_intros)

lemma store_operations_data_keeps:
  assumes P: "but_pred I P" and models: "op_id ` set models \<subseteq> I"
  shows "keeps P (store_operations_data L rep F now cap models answers)"
proof (induction answers)
  case (Cons answer answers)
  obtain i od where answer: "answer = (i, od)" by (cases answer)
  show ?case
  proof (cases "find (\<lambda>j. op_id j = i) models")
    case None
    then show ?thesis using Cons answer by simp
  next
    case (Some model)
    then have "op_id model \<in> I" using models by (metis find_Some_iff image_subset_iff nth_mem)
    then show ?thesis unfolding answer store_operations_data.simps Some option.case
      by (intro keeps_bind keeps_ignore set_operation_data_keeps[OF P] Cons)
  qed
qed (simp add: keeps_intros)

lemma process_operation_keeps:
  "but_pred (op_id ` set models) P \<Longrightarrow> keeps P (process_operation_with_retries L S rep F now answer models)"
  by (auto simp: process_operation_with_retries_def retry_operations_keeps store_operations_data_keeps split: sum.splits)

section \<open>Steps of jobs\<close>

lemma jobs_ok_update:
  assumes "jobs_ok R d jobs" "i < length jobs" "job_interval j = job_interval (jobs ! i)" "job_ok R d j"
  shows "jobs_ok R d (jobs[i := j])"
proof -
  have "map (\<lambda>j. iv_id (job_interval j)) (jobs[i := j]) = map (\<lambda>j. iv_id (job_interval j)) jobs"
    using assms(2, 3) by (simp add: map_update list_update_same_conv)
  then show ?thesis using assms set_update_subset_insert[of jobs i j] unfolding jobs_ok_def by (metis insertE subset_iff)
qed

lemma set_drop_nth: "set (drop_nth i xs) \<subseteq> set xs"
  unfolding drop_nth_def using set_take_subset set_drop_subset by fastforce

lemma jobs_ok_drop:
  assumes "jobs_ok R d jobs" "i < length jobs"
  shows "jobs_ok R d (drop_nth i jobs)" "\<And>j. j \<in> set (drop_nth i jobs) \<Longrightarrow> iv_id (job_interval j) \<noteq> iv_id (job_interval (jobs ! i))"
proof -
  have split: "jobs = take i jobs @ jobs ! i # drop (Suc i) jobs" using assms(2) by (rule id_take_nth_drop)
  have "distinct (map (\<lambda>j. iv_id (job_interval j)) (take i jobs @ jobs ! i # drop (Suc i) jobs))"
    using assms(1) by (simp add: jobs_ok_def flip: split)
  then show "jobs_ok R d (drop_nth i jobs)" "\<And>j. j \<in> set (drop_nth i jobs) \<Longrightarrow> iv_id (job_interval j) \<noteq> iv_id (job_interval (jobs ! i))"
    using assms(1) set_drop_nth[of i jobs] by (auto simp: jobs_ok_def drop_nth_def image_iff)
qed

text \<open>The requested range of seconds is the interval without its start.\<close>

lemma request_range:
  assumes "processing d iv" "wf_tac d"
  shows "in_interval iv p \<longleftrightarrow> request_start iv + 1 \<le> api_timestamp p \<and> api_timestamp p \<le> request_end iv"
proof -
  from assms obtain a b where "a < 2 ^ 62" "b < 2 ^ 62" "iv_start iv = int a * micros_per_sec" "iv_finish iv = int b * micros_per_sec"
    unfolding processing_def wf_tac_def whole_def by metis
  then show ?thesis by (auto simp: in_interval_def micros_def request_start_def request_end_def)
qed

lemma fine_more_known:
  assumes "fine R lo rt jobs d" "good R lo (rt_time rt) d'" "known_ids d \<subseteq> known_ids d'" "db_intervals d' = db_intervals d"
  shows "fine R lo rt jobs d'"
  using assms rt_ok_mono[of R d rt d'] jobs_ok_mono[of R d jobs d'] by (simp add: fine_def processing_def)

text \<open>The end of a job: its row is completed or failed, the rows of other jobs stay.\<close>

lemma finish_job:
  assumes fine: "fine R lo rt jobs d" and i: "i < length jobs" "job_interval (jobs ! i) = iv"
    and upd: "update_interval (iv_id iv) f d = (Ok u, d')"
    and f: "\<And>r. iv_id (f r) = iv_id r \<and> iv_start (f r) = iv_start r \<and> iv_finish (f r) = iv_finish r"
    and fin: "\<And>r p. iv_status (f r) = Completed \<Longrightarrow> iv_status r \<noteq> Completed \<Longrightarrow> p \<in> R \<Longrightarrow> in_interval iv p \<Longrightarrow> api_id p \<in> known_ids d"
  shows "fine R lo rt (drop_nth i jobs) d'"
proof -
  let ?g = "\<lambda>r. if iv_id r = iv_id iv then f r else r"
  have d': "d' = d\<lparr>db_intervals := map ?g (db_intervals d)\<rparr>" using upd by (simp add: update_interval_def split: if_splits)
  have jobs: "jobs_ok R d jobs" and good: "good R lo (rt_time rt) d" using fine by (auto simp: fine_def)
  have known: "known_ids d' = known_ids d" by (simp add: d' known_ids_def)
  have "processing d iv" using jobs i by (metis job_ok_processing jobs_ok_def nth_mem)
  then obtain r0 where r0: "r0 \<in> set (db_intervals d)" "iv_id r0 = iv_id iv" "iv_start r0 = iv_start iv" "iv_finish r0 = iv_finish iv"
    by (auto simp: processing_def)
  have inj: "inj_on iv_id (set (db_intervals d))" using good by (simp add: good_def complete_db_def wf_tac_def distinct_map)
  have "good R lo (rt_time rt) d'"
    unfolding d'
  proof (rule good_map[OF good])
    show "keeps_rows (db_intervals d) ?g" using f by (simp add: keeps_rows_def)
    fix r p assume r: "r \<in> set (db_intervals d)" "iv_status (?g r) = Completed" "iv_status r \<noteq> Completed" "p \<in> R"
      "iv_start r < micros p" "micros p \<le> iv_finish r"
    then have id: "iv_id r = iv_id iv" by (auto split: if_splits)
    then have "r = r0" using inj_onD[OF inj _ r(1) r0(1)] r0(2) by simp
    then show "api_id p \<in> known_ids d" using fin[of r p] r id r0 by (simp add: in_interval_def)
  qed
  moreover have "jobs_ok R d' (drop_nth i jobs)"
  proof (rule jobs_ok_mono[OF jobs_ok_drop(1)[OF jobs i(1)]])
    show "known_ids d \<subseteq> known_ids d'" by (simp add: known)
    fix j assume j: "j \<in> set (drop_nth i jobs)" "processing d (job_interval j)"
    then have "iv_id (job_interval j) \<noteq> iv_id iv" using jobs_ok_drop(2)[OF jobs i(1) j(1)] i(2) by simp
    then show "processing d' (job_interval j)" unfolding d' by (intro processing_map[OF j(2)]) auto
  qed
  moreover have "rt_ok R d' rt" using fine known rt_ok_mono[of R d rt d'] by (simp add: fine_def)
  ultimately show ?thesis by (simp add: fine_def)
qed

lemma fine_update_job:
  "fine R lo rt jobs d \<Longrightarrow> i < length jobs \<Longrightarrow> job_interval j = job_interval (jobs ! i) \<Longrightarrow> job_ok R d j \<Longrightarrow> fine R lo rt (jobs[i := j]) d"
  by (simp add: fine_def jobs_ok_update)

lemma fine_drop_job: "fine R lo rt jobs d \<Longrightarrow> i < length jobs \<Longrightarrow> fine R lo rt (drop_nth i jobs) d"
  by (simp add: fine_def jobs_ok_drop)

lemma fine_no_jobs: "fine R lo rt jobs d \<Longrightarrow> fine R lo rt [] d"
  by (simp add: fine_def jobs_ok_def)

lemma conn_of_db [simp]: "conn_db (conn_of d) = d"
  by (simp add: conn_of_def)

text \<open>What the list of jobs is after a step of the job \<open>i\<close>.\<close>

definition jobs_after :: "nat \<Rightarrow> interval_job option outcome \<Rightarrow> interval_job list \<Rightarrow> interval_job list" where
  "jobs_after i r jobs = (case r of
       Done (Some j) \<Rightarrow> jobs[i := j]
     | Panicked \<Rightarrow> []
     | _ \<Rightarrow> drop_nth i jobs)"

lemma fetch_step_fine:
  assumes fine: "fine R lo rt jobs d" and i: "i < length jobs" "jobs ! i = FetchOperations iv" and serves: "serves R service"
    and run: "advance_interval_job service rep F now (jobs ! i) (conn_of d) = (r, c')"
  shows "fine R lo rt (jobs_after i r jobs) (conn_db c')"
proof -
  have ok: "processing d iv" using fine i by (auto simp: fine_def jobs_ok_def dest: bspec[OF _ nth_mem[OF i(1)]])
  have wf: "wf_tac d" using fine by (simp add: fine_def good_def complete_db_def)
  show ?thesis
  proof (cases "get_operations service (request_start iv + 1) (request_end iv)")
    case (Inl e)
    then show ?thesis using run i fine ok by (auto simp: tac_simps jobs_after_def intro!: fine_update_job)
  next
    case (Inr ops)
    have set: "set ops = {p \<in> R. in_interval iv p}"
      using get_operations_served[OF serves Inr] request_range[OF ok wf] by auto
    then show ?thesis using run i fine ok Inr
      by (auto simp: tac_simps jobs_after_def intro!: fine_update_job split: if_splits)
  qed
qed

lemma insert_step_fine:
  assumes fine: "fine R lo rt jobs d" and i: "i < length jobs" "jobs ! i = InsertOperations iv ops"
    and small: "\<And>p. p \<in> R \<Longrightarrow> api_timestamp p < 2 ^ 62"
    and run: "advance_interval_job service rep F now (jobs ! i) (conn_of d) = (r, c')"
  shows "fine R lo rt (jobs_after i r jobs) (conn_db c')"
proof -
  have ok: "processing d iv" "set ops = {p \<in> R. in_interval iv p}"
    using fine i by (auto simp: fine_def jobs_ok_def dest: bspec[OF _ nth_mem[OF i(1)]])
  obtain r1 c1 where ins: "insert_pending_operations rep F now ops (conn_of d) = (r1, c1)"
    by (cases "insert_pending_operations rep F now ops (conn_of d)")
  have good: "good R lo (rt_time rt) (conn_db (conn_of d))" using fine by (simp add: fine_def)
  have small_ops: "\<And>p. p \<in> set ops \<Longrightarrow> api_timestamp p < 2 ^ 62" using ok(2) small by auto
  note eff = insert_pending_effect[OF good small_ops ins, unfolded conn_of_db]
  have fine': "fine R lo rt jobs (conn_db c1)" by (rule fine_more_known[OF fine]) (use eff in auto)
  have proc: "processing (conn_db c1) iv" using ok(1) eff by (simp add: processing_def)
  have stored: "r1 = Done () \<Longrightarrow> p \<in> R \<Longrightarrow> in_interval iv p \<Longrightarrow> api_id p \<in> known_ids (conn_db c1)" for p
    using eff ok(2) by blast
  show ?thesis
    using run i ins fine' proc stored
    by (cases r1) (auto simp: on_error_def jobs_after_def fine_no_jobs intro!: fine_update_job)
qed

lemma complete_step_fine:
  assumes fine: "fine R lo rt jobs d" and i: "i < length jobs" "jobs ! i = CompleteInterval iv"
    and run: "advance_interval_job service rep F now (jobs ! i) (conn_of d) = (r, c')"
  shows "fine R lo rt (jobs_after i r jobs) (conn_db c')"
proof -
  have ok: "processing d iv" "\<And>p. p \<in> R \<Longrightarrow> in_interval iv p \<Longrightarrow> api_id p \<in> known_ids d"
    using fine i by (auto simp: fine_def jobs_ok_def dest: bspec[OF _ nth_mem[OF i(1)]])
  obtain r1 c1 where upd: "set_interval_status F iv Completed (conn_of d) = (r1, c1)" by (cases "set_interval_status F iv Completed (conn_of d)")
  then have r: "c' = c1" "r = (case r1 of Done _ \<Rightarrow> Done None | Failed _ \<Rightarrow> Done (Some (RetryInterval iv)) | Panicked \<Rightarrow> Panicked)"
    using run i by (auto simp: on_error_def split: outcome.splits)
  from upd[unfolded set_interval_status_def] show ?thesis
  proof (cases rule: run_statement_effect)
    case (ran x)
    have "fine R lo rt (drop_nth i jobs) (conn_db c1)"
      by (rule finish_job[OF fine i(1) _ ran(2)[unfolded conn_of_db]]) (use i ok in auto)
    then show ?thesis using ran r by (simp add: jobs_after_def)
  qed (use r fine i ok in \<open>auto simp: jobs_after_def intro!: fine_update_job\<close>)
qed

lemma retry_step_fine:
  assumes fine: "fine R lo rt jobs d" and i: "i < length jobs" "jobs ! i = RetryInterval iv"
    and run: "advance_interval_job service rep F now (jobs ! i) (conn_of d) = (r, c')"
  shows "fine R lo rt (jobs_after i r jobs) (conn_db c')"
proof -
  let ?delay = "retry_delay (iv_retry_count iv)"
  obtain r1 c1 where upd: "set_interval_retry F now iv ?delay (conn_of d) = (r1, c1)" by (cases "set_interval_retry F now iv ?delay (conn_of d)")
  then have r: "c' = c1" "r = (case r1 of Panicked \<Rightarrow> Panicked | _ \<Rightarrow> Done None)"
    using run i by (auto simp: on_error_def split: outcome.splits)
  from upd[unfolded set_interval_retry_def] show ?thesis
  proof (cases rule: run_statement_effect)
    case (ran x)
    have "fine R lo rt (drop_nth i jobs) (conn_db c1)"
      by (rule finish_job[OF fine i(1) _ ran(2)[unfolded conn_of_db]]) (use i in auto)
    then show ?thesis using ran r by (simp add: jobs_after_def)
  qed (use r fine i in \<open>auto simp: jobs_after_def intro!: fine_drop_job\<close>)
qed

lemma job_step_fine:
  assumes "fine R lo rt jobs d" "i < length jobs" "serves R service" "\<And>p. p \<in> R \<Longrightarrow> api_timestamp p < 2 ^ 62"
    and "advance_interval_job service rep F now (jobs ! i) (conn_of d) = (r, c')"
  shows "fine R lo rt (jobs_after i r jobs) (conn_db c')"
proof (cases "jobs ! i")
  case (FetchOperations iv)
  then show ?thesis using fetch_step_fine assms by blast
next
  case (InsertOperations iv ops)
  then show ?thesis using insert_step_fine assms by blast
next
  case (CompleteInterval iv)
  then show ?thesis using complete_step_fine assms by blast
next
  case (RetryInterval iv)
  then show ?thesis using retry_step_fine assms by blast
qed

section \<open>Steps of the realtime thread\<close>

definition task_after :: "realtime_task outcome \<Rightarrow> realtime_task option" where
  "task_after r = (case r of Done t \<Rightarrow> Some t | _ \<Rightarrow> None)"

lemma fine_no_task: "fine R lo rt jobs d \<Longrightarrow> fine R lo None jobs d"
  by (simp add: fine_def rt_time_def good_0) (simp add: good_def)

lemma fine_same_time:
  "fine R lo rt jobs d \<Longrightarrow> rt_time rt' = rt_time rt \<Longrightarrow> rt_ok R d rt' \<Longrightarrow> fine R lo rt' jobs d"
  by (simp add: fine_def)

lemma poll_step_fine:
  assumes fine: "fine R lo (Some (PollRealtime b)) jobs d" and serves: "serves R service"
    and run: "advance_realtime service rep F now (PollRealtime b) (conn_of d) = (r, c')"
  shows "fine R lo (task_after r) jobs (conn_db c')"
proof (cases "get_operations service b (as_u64 (timestamp_of now))")
  case (Inl e)
  then show ?thesis using run fine by (auto simp: tac_simps task_after_def)
next
  case (Inr ops)
  have "set ops = {p \<in> R. b \<le> api_timestamp p \<and> api_timestamp p \<le> as_u64 (timestamp_of now)}"
    by (rule get_operations_served[OF serves Inr])
  then have "fine R lo (Some (StoreRealtime b ops)) jobs d" if "ops \<noteq> []"
    using that fine by (intro fine_same_time[OF fine]) (auto simp: rt_time_def fine_def)
  then show ?thesis using run fine Inr by (auto simp: tac_simps task_after_def split: if_splits)
qed

lemma store_step_fine:
  assumes fine: "fine R lo (Some (StoreRealtime b ops)) jobs d" and small: "\<And>p. p \<in> R \<Longrightarrow> api_timestamp p < 2 ^ 62"
    and run: "advance_realtime service rep F now (StoreRealtime b ops) (conn_of d) = (r, c')"
  shows "fine R lo (task_after r) jobs (conn_db c')"
proof -
  from fine obtain n where b: "b \<le> 2 ^ 62" "ops \<noteq> []" "set ops = {p \<in> R. b \<le> api_timestamp p \<and> api_timestamp p \<le> n}"
    by (auto simp: fine_def)
  let ?m = "Max (set (map api_timestamp ops))"
  have "?m \<in> set (map api_timestamp ops)" using b(2) by (intro Max_in) auto
  then have m: "?m \<le> n" "?m < 2 ^ 62" using b(3) small by auto
  obtain r1 c1 where ins: "insert_pending_operations rep F now ops (conn_of d) = (r1, c1)"
    by (cases "insert_pending_operations rep F now ops (conn_of d)")
  have good: "good R lo (rt_time (Some (StoreRealtime b ops))) (conn_db (conn_of d))" using fine by (simp add: fine_def)
  have small_ops: "\<And>p. p \<in> set ops \<Longrightarrow> api_timestamp p < 2 ^ 62" using b(3) small by auto
  note eff = insert_pending_effect[OF good small_ops ins, unfolded conn_of_db]
  have fine': "fine R lo (Some (StoreRealtime b ops)) jobs (conn_db c1)" by (rule fine_more_known[OF fine]) (use eff in auto)
  have again: "fine R lo (Some (PollRealtime b)) jobs (conn_db c1)"
    using b by (intro fine_same_time[OF fine']) (auto simp: rt_time_def)
  have on: "fine R lo (Some (RecordRealtime b ?m)) jobs (conn_db c1)" if "r1 = Done ()" "b < ?m"
  proof (rule fine_same_time[OF fine'])
    have "api_id p \<in> known_ids (conn_db c1)" if "p \<in> R" "b \<le> api_timestamp p" "api_timestamp p \<le> ?m" for p
    proof -
      have "p \<in> set ops" unfolding b(3) using that m(1) by simp
      then show ?thesis using eff \<open>r1 = Done ()\<close> by blast
    qed
    then show "rt_ok R (conn_db c1) (Some (RecordRealtime b ?m))" using that(2) m(2) by simp
  qed (simp add: rt_time_def)
  show ?thesis
    using run ins again on fine_no_task[OF again]
    by (cases r1) (auto simp: on_error_def task_after_def Let_def split: if_splits)
qed

lemma record_step_fine:
  assumes fine: "fine R lo (Some (RecordRealtime b m)) jobs d"
    and run: "advance_realtime service rep F now (RecordRealtime b m) (conn_of d) = (r, c')"
  shows "fine R lo (task_after r) jobs (conn_db c')"
proof -
  from fine have b: "b < m" "m < 2 ^ 62" and stored: "\<And>p. p \<in> R \<Longrightarrow> b \<le> api_timestamp p \<Longrightarrow> api_timestamp p \<le> m \<Longrightarrow> api_id p \<in> known_ids d"
    by (auto simp: fine_def)
  let ?t = "int m * micros_per_sec"
  have db: "complete_db R lo d" and before: "complete_upto R lo ((int b - 1) * micros_per_sec) d" and jobs: "jobs_ok R d jobs"
    using fine by (auto simp: fine_def good_def rt_time_def)
  have upto: "complete_upto R lo ?t d"
    unfolding complete_upto_def
  proof (intro ballI impI)
    fix p assume p: "p \<in> R" "lo < api_timestamp p" "micros p \<le> ?t"
    show "api_id p \<in> known_ids d \<or> outstanding (db_intervals d) (micros p)"
    proof (cases "b \<le> api_timestamp p")
      case True
      then show ?thesis using stored p by (simp add: micros_def)
    next
      case False
      then have "micros p \<le> (int b - 1) * micros_per_sec" by (simp add: micros_def)
      then show ?thesis using before p by (simp add: complete_upto_def)
    qed
  qed
  let ?iv = "new_interval Completed now (as_i64 b * micros_per_sec) (as_i64 m * micros_per_sec)"
  let ?d = "put_watermark ?t (put_intervals [?iv] d)"
  have grown: "known_ids ?d = known_ids d" "\<And>t. outstanding (db_intervals d) t \<Longrightarrow> outstanding (db_intervals ?d) t"
    by (simp_all add: known_ids_def)
  have "complete_upto R lo ?t (put_intervals [?iv] d)"
    by (rule complete_upto_mono[OF upto]) (auto simp: known_ids_def)
  then have "complete_db R lo ?d"
    using b by (intro put_interval_complete[OF db]) (auto simp: new_interval_def intro: wholeI)
  moreover have "complete_upto R lo ?t ?d" using complete_upto_mono[OF upto] grown by blast
  moreover have "jobs_ok R ?d jobs"
    by (rule jobs_ok_mono[OF jobs]) (simp_all add: grown(1) processing_def)
  ultimately have new: "fine R lo (Some (PollRealtime (m + 1))) jobs ?d" using b by (simp add: fine_def good_def rt_time_def)
  have old: "fine R lo (Some (PollRealtime (m + 1))) jobs d" using b db upto jobs by (simp add: fine_def good_def rt_time_def)
  obtain r1 c1 where add: "add_completed_interval rep F now b m (conn_of d) = (r1, c1)"
    by (cases "add_completed_interval rep F now b m (conn_of d)")
  from add_interval_effect[OF add[unfolded add_completed_interval_def]] b have "conn_db c1 = d \<or> conn_db c1 = ?d" by auto
  then have res: "fine R lo (Some (PollRealtime (m + 1))) jobs (conn_db c1)" using new old by auto
  have next_bnd: "(m + 1) mod 2 ^ 64 = m + 1" using b by simp
  show ?thesis using run add res fine_no_task[OF res] unfolding advance_realtime.simps next_bnd
    by (cases r1) (auto simp: bind_io_def ignore_error_def task_after_def tac_simps)
qed

lemma realtime_step_fine:
  assumes "fine R lo (Some t) jobs d" "serves R service" "\<And>p. p \<in> R \<Longrightarrow> api_timestamp p < 2 ^ 62"
    and "advance_realtime service rep F now t (conn_of d) = (r, c')"
  shows "fine R lo (task_after r) jobs (conn_db c')"
proof (cases t)
  case (PollRealtime b)
  then show ?thesis using poll_step_fine assms by blast
next
  case (StoreRealtime b ops)
  then show ?thesis using store_step_fine assms by blast
next
  case (RecordRealtime b m)
  then show ?thesis using record_step_fine assms by blast
qed

section \<open>All steps\<close>

text \<open>The environment: services that answer for the operations \<open>R\<close>, and times that fit.\<close>

definition tac_world :: "api_operation set \<Rightarrow> indexer_settings \<Rightarrow> page_service set \<Rightarrow> bool" where
  "tac_world R S services \<longleftrightarrow> (\<forall>service \<in> services. serves R service) \<and> (\<forall>p \<in> R. api_timestamp p < 2 ^ 62) \<and>
     start_timestamp S < 2 ^ 62 \<and> catchup_interval S < 2 ^ 62"

definition run_ok :: "api_operation set \<Rightarrow> indexer_settings \<Rightarrow> 'n indexer_state \<Rightarrow> bool" where
  "run_ok R S s \<longleftrightarrow> fine R (start_timestamp S) (ix_realtime s) (ix_jobs s) (ix_db s) \<and>
     (ix_boundary s = None \<longrightarrow> ix_jobs s = [])"

lemma boundary_small:
  assumes "new_indexer F now c = (Done boundary, c')" "wf_tac (conn_db c)" "clock_ok now"
  shows "boundary < 2 ^ 62 \<and> conn_db c' = conn_db c"
proof -
  let ?h = "timestamp_of (now - REALTIME_LAG_MINUTES * 60 * micros_per_sec)"
  have "0 \<le> ?h" "?h < 2 ^ 62"
    using assms(3) by (auto simp: clock_ok_def REALTIME_LAG_MINUTES_def micros_per_sec_def timestamp_of_def)
  then have hard: "as_u64 ?h < 2 ^ 62" by (simp add: as_u64_def)
  have "as_u64 (timestamp_of (Max (op_timestamp ` set (db_operations (conn_db c))))) < 2 ^ 62" if "db_operations (conn_db c) \<noteq> []"
  proof -
    have "Max (op_timestamp ` set (db_operations (conn_db c))) \<in> op_timestamp ` set (db_operations (conn_db c))"
      using that by (intro Max_in) auto
    then have "whole (Max (op_timestamp ` set (db_operations (conn_db c))))" using assms(2) by (auto simp: wf_tac_def)
    then show ?thesis by (auto simp: whole_def)
  qed
  then show ?thesis using assms(1) hard
    by (auto simp: new_indexer_def get_latest_operation_timestamp_def bind_io_def run_statement_def tac_simps Let_def
        split: option.splits if_splits)
qed

lemma fine_start: "complete_db R lo d \<Longrightarrow> w < 2 ^ 62 \<Longrightarrow> complete_upto R lo (int w * micros_per_sec) d \<Longrightarrow>
    fine R lo (Some (PollRealtime w)) [] d"
  by (auto simp: fine_def good_def jobs_ok_def rt_time_def intro: complete_upto_less)

lemma start_step_ok:
  assumes ok: "run_ok R S s" and world: "tac_world R S services" and stopped: "stopped s" and F: "connection_faults F" "clock_ok now"
    and new: "new_indexer F' now (conn_of (ix_db s)) = (Done boundary, c)"
  shows "run_ok R S (after_start boundary (start_indexer S rep F now boundary (conn_of (conn_db c))) s)"
proof -
  let ?lo = "start_timestamp S"
  have state: "ix_boundary s = None" "ix_realtime s = None" "ix_jobs s = []"
    using ok stopped by (auto simp: stopped_def run_ok_def)
  have db: "complete_db R ?lo (ix_db s)" using ok by (simp add: run_ok_def fine_def good_def)
  then have "wf_tac (conn_db (conn_of (ix_db s)))" by (simp add: complete_db_def)
  from boundary_small[OF new this F(2)] have b: "boundary < 2 ^ 62" "conn_db c = ix_db s" by auto
  obtain r c' where run: "start_indexer S rep F now boundary (conn_of (conn_db c)) = (r, c')"
    by (cases "start_indexer S rep F now boundary (conn_of (conn_db c))")
  have S: "?lo < 2 ^ 62" "catchup_interval S < 2 ^ 62" using world by (auto simp: tac_world_def)
  have "complete_db R ?lo (conn_db (conn_of (conn_db c)))" using db b(2) by simp
  from start_complete[OF this S b(1) F(1) run]
  have after: "complete_db R ?lo (conn_db c')"
    "\<And>w. r = Done w \<Longrightarrow> w < 2 ^ 62 \<and> complete_upto R ?lo (int w * micros_per_sec) (conn_db c')" by auto
  have stays: "fine R ?lo None [] (conn_db c')" using after(1) by (simp add: fine_def jobs_ok_def rt_time_def good_0)
  show ?thesis unfolding run using state after fine_start[OF after(1)] stays
    by (cases r) (auto simp: after_start_def run_ok_def)
qed

lemma claim_step_ok:
  assumes ok: "run_ok R S s" and b: "ix_boundary s \<noteq> None"
    and run: "run_statement F (claim_intervals cond field dir limit Processing) (conn_of (ix_db s)) = (r, c)"
    and idle: "\<And>r. cond r \<Longrightarrow> iv_status r = Pending \<or> iv_status r = FailedStatus"
  shows "run_ok R S (after_claim add_jobs (r, c) s)"
  using run
proof (cases rule: run_statement_effect)
  case (ran rows)
  have "claim_intervals cond field dir limit Processing (ix_db s) = (Ok rows, conn_db c)" using ran(2) by simp
  moreover have fine: "good R (start_timestamp S) (rt_time (ix_realtime s)) (ix_db s)" "jobs_ok R (ix_db s) (ix_jobs s)"
    "rt_ok R (ix_db s) (ix_realtime s)" using ok by (auto simp: run_ok_def fine_def)
  ultimately have "good R (start_timestamp S) (rt_time (ix_realtime s)) (conn_db c) \<and>
      jobs_ok R (conn_db c) (ix_jobs s @ map FetchOperations rows)"
    using claim_ok[OF fine(1, 2)] idle by blast
  moreover have "db_operations (conn_db c) = db_operations (ix_db s)"
    using arg_cong[OF ran(2), of "\<lambda>x. db_operations (snd x)"] by (simp add: claim_intervals_def Let_def)
  then have "known_ids (conn_db c) = known_ids (ix_db s)" by (simp add: known_ids_def)
  ultimately show ?thesis using ran(1) b fine(3) rt_ok_mono[of R "ix_db s"]
    by (auto simp: run_ok_def fine_def after_claim_def add_jobs_def)
qed (use ok in \<open>auto simp: after_claim_def run_ok_def\<close>)

lemma keeps_fine_claim:
  assumes ok: "run_ok R S s" and keep: "\<And>rt jobs. keeps (fine R (start_timestamp S) rt jobs) m"
  shows "run_ok R S (after_claim add_operations (m (conn_of (ix_db s))) s)"
proof -
  obtain r c where run: "m (conn_of (ix_db s)) = (r, c)" by (cases "m (conn_of (ix_db s))")
  have "fine R (start_timestamp S) (ix_realtime s) (ix_jobs s) (conn_db c)"
    using keepsD[OF keep run] ok by (simp add: run_ok_def)
  then show ?thesis unfolding run using ok fine_no_jobs
    by (cases r) (auto simp: run_ok_def after_claim_def add_operations_def)
qed

lemma run_ok_step:
  assumes world: "tac_world R S services" and step: "indexer_step L S rep services s s'" and ok: "run_ok R S s"
  shows "run_ok R S s'"
  using step
proof (cases rule: indexer_step.cases)
  case (start F now F' boundary c)
  then show ?thesis using start_step_ok[OF ok world] by blast
next
  case killed
  then show ?thesis using ok by (auto simp: run_ok_def intro: fine_no_jobs fine_no_task)
next
  case (claim_pending boundary direction "from" to F)
  show ?thesis
  proof (cases "optional_bound rep from = None \<or> optional_bound rep to = None")
    case True
    then show ?thesis using claim_pending(1) ok fine_no_jobs
      by (auto simp: query_pending_intervals_def bind_io_def after_claim_def tac_simps unwrap_io_def run_ok_def split: option.splits)
  next
    case False
    then obtain x y where xy: "optional_bound rep from = Some x" "optional_bound rep to = Some y" by auto
    let ?m = "run_statement F (claim_intervals (pending_condition x y) iv_start direction (intervals_query_batch S) Processing)"
    obtain r c where run: "?m (conn_of (ix_db s)) = (r, c)" by (cases "?m (conn_of (ix_db s))")
    have "run_ok R S (after_claim add_jobs (r, c) s)"
      by (rule claim_step_ok[OF ok _ run]) (use claim_pending in \<open>auto simp: pending_condition_def\<close>)
    then show ?thesis using claim_pending(1) run xy by (simp add: query_pending_intervals_def)
  qed
next
  case (claim_failed boundary F now)
  show ?thesis
  proof (cases "timestamp_to_naive rep (timestamp_of now)")
    case None
    then show ?thesis using claim_failed(1) ok fine_no_jobs
      by (auto simp: query_failed_intervals_def after_claim_def tac_simps run_ok_def)
  next
    case (Some x)
    let ?m = "run_statement F (claim_intervals (\<lambda>r. retry_due (iv_status r) (iv_next_retry r) x)
         (\<lambda>r. case iv_next_retry r of None \<Rightarrow> 0 | Some t \<Rightarrow> t) EarliestFirst (intervals_retry_batch S) Processing)"
    obtain r c where run: "?m (conn_of (ix_db s)) = (r, c)" by (cases "?m (conn_of (ix_db s))")
    have "run_ok R S (after_claim add_jobs (r, c) s)"
      by (rule claim_step_ok[OF ok _ run]) (use claim_failed in \<open>auto simp: retry_due_def\<close>)
    then show ?thesis using claim_failed(1) run Some by (simp add: query_failed_intervals_def)
  qed
next
  case (job i service F now)
  obtain r c where run: "advance_interval_job service rep F now (ix_jobs s ! i) (conn_of (ix_db s)) = (r, c)"
    by (cases "advance_interval_job service rep F now (ix_jobs s ! i) (conn_of (ix_db s))")
  have "fine R (start_timestamp S) (ix_realtime s) (jobs_after i r (ix_jobs s)) (conn_db c)"
    by (rule job_step_fine[OF _ job(2) _ _ run]) (use ok world job in \<open>auto simp: run_ok_def tac_world_def\<close>)
  moreover have "ix_boundary s \<noteq> None" using ok job(2) by (auto simp: run_ok_def)
  ultimately show ?thesis unfolding job(1) run
    by (auto simp: run_ok_def after_job_def jobs_after_def split: outcome.splits option.splits)
next
  case (realtime t service now F)
  obtain r c where run: "advance_realtime service rep F now t (conn_of (ix_db s)) = (r, c)"
    by (cases "advance_realtime service rep F now t (conn_of (ix_db s))")
  have "fine R (start_timestamp S) (task_after r) (ix_jobs s) (conn_db c)"
    by (rule realtime_step_fine[OF _ _ _ run]) (use ok world realtime in \<open>auto simp: run_ok_def tac_world_def\<close>)
  then show ?thesis unfolding realtime(1) run using ok
    by (auto simp: run_ok_def after_realtime_def task_after_def split: outcome.splits)
next
  case (claim_new_operations boundary F)
  then show ?thesis
    by (auto simp: query_new_operations_def intro!: keeps_fine_claim[OF ok] core_keeps core_pred_fine claim_operations_core)
next
  case (claim_pending_operations boundary F)
  then show ?thesis
    by (auto simp: query_pending_operations_def intro!: keeps_fine_claim[OF ok] core_keeps core_pred_fine claim_operations_core)
next
  case (claim_failed_operations boundary F now)
  then show ?thesis
    by (auto simp: query_failed_operations_def intro!: keeps_fine_claim[OF ok] keeps_bind keeps_unwrap core_keeps core_pred_fine claim_operations_core)
next
  case (operation i F now answer)
  obtain r c where run: "process_operation_with_retries L S rep F now answer [ix_operations s ! i] (conn_of (ix_db s)) = (r, c)"
    by (cases "process_operation_with_retries L S rep F now answer [ix_operations s ! i] (conn_of (ix_db s))")
  have "fine R (start_timestamp S) (ix_realtime s) (ix_jobs s) (conn_db c)"
    using keepsD[OF process_operation_keeps[OF core_but_pred[OF core_pred_fine]] run] ok by (simp add: run_ok_def)
  then show ?thesis unfolding operation(1) run using ok fine_no_jobs
    by (cases r) (auto simp: run_ok_def after_operation_def)
qed

lemma run_ok_initial: "run_ok R S initial_state"
  by (simp add: run_ok_def initial_state_def fine_def good_def complete_db_def wf_tac_def empty_db_def jobs_ok_def
      rt_time_def complete_upto_start micros_per_sec_def)

lemma run_ok_reachable:
  assumes "tac_world R S services" "indexer_reachable L S rep services s"
  shows "run_ok R S s"
  using assms(2) unfolding indexer_reachable_def
  by (induction rule: rtranclp_induct) (auto simp: run_ok_initial intro: run_ok_step[OF assms(1)])

section \<open>Operations are not lost\<close>

lemma reachable_complete:
  assumes "tac_world R S services" "indexer_reachable L S rep services s" "p \<in> R" "start_timestamp S < api_timestamp p"
    and "w \<in> set (db_watermarks (ix_db s))" "micros p \<le> wm_timestamp w"
  shows "api_id p \<in> known_ids (ix_db s) \<or> outstanding (db_intervals (ix_db s)) (micros p)"
  using run_ok_reachable[OF assms(1, 2)] assms(3-6)
  by (auto simp: run_ok_def fine_def good_def complete_db_def complete_upto_def)

text \<open>A small world: one operation, a service that answers with it in one page, and the state after the start and a first claim.\<close>

definition sample_op :: api_operation where
  "sample_op = \<lparr>api_id = ''op'', api_timestamp = 3\<rparr>"

definition sample_service :: page_service where
  "sample_service a b k =
     (let l = (if a \<le> 3 \<and> 3 \<le> b then [sample_op] else []) in Ok (Page (length l) (drop k l)))"

definition sample_settings :: indexer_settings where
  "sample_settings = \<lparr>start_timestamp = 0, catchup_interval = 5, intervals_query_batch = 10, intervals_retry_batch = 10,
     operations_query_batch = 10, operations_retry_batch = 10, forever_pending_age = 100\<rparr>"

definition sample_lib :: "unit tac_lib" where
  "sample_lib = \<lparr>ton_address = (\<lambda>_. None), parse_decimal = (\<lambda>_. None), no_rows = None\<rparr>"

definition sample_started :: "unit indexer_state" where
  "sample_started = after_start 7 (start_indexer sample_settings (\<lambda>_. True) (\<lambda>_. None) 607000000 7 (conn_of empty_db)) initial_state"

definition sample_claimed :: "unit indexer_state" where
  "sample_claimed = after_claim add_jobs
     (query_pending_intervals (\<lambda>_. True) (\<lambda>_. None) 10 LatestFirst None (Some 7) (conn_of (ix_db sample_started))) sample_started"

lemma sample_serves: "serves {sample_op} sample_service"
  unfolding serves_def
proof (intro allI)
  fix a b :: nat
  let ?l = "if a \<le> 3 \<and> 3 \<le> b then [sample_op] else []"
  have "set ?l = {p \<in> {sample_op}. a \<le> api_timestamp p \<and> api_timestamp p \<le> b}" by (auto simp: sample_op_def)
  moreover have "\<exists>m. drop k ?l = take m (drop k ?l) \<and> (k < length ?l \<longrightarrow> 0 < m)" for k
    by (rule exI[of _ "Suc (length ?l)"]) simp
  ultimately show "\<exists>l. set l = {p \<in> {sample_op}. a \<le> api_timestamp p \<and> api_timestamp p \<le> b} \<and> length l < 2 ^ 32 \<and>
     (\<forall>k. case sample_service a b k of
            Inl _ \<Rightarrow> True
          | Inr EmptyText \<Rightarrow> False
          | Inr (Page n ops) \<Rightarrow> n = length l \<and> (\<exists>m. ops = take m (drop k l) \<and> (k < length l \<longrightarrow> 0 < m)))"
    by (intro exI[of _ ?l]) (simp add: sample_service_def Let_def)
qed

lemma sample_world: "tac_world {sample_op} sample_settings {sample_service}"
  using sample_serves by (simp add: tac_world_def) (simp add: sample_op_def sample_settings_def)

lemmas sample_defs = sample_started_def sample_claimed_def sample_settings_def initial_state_def empty_db_def conn_of_def
  after_start_def after_claim_def add_jobs_def start_indexer_def new_indexer_def ensure_stages_types_exist_def stage_types_map_def
  generate_historical_intervals_def generate_pending_intervals_def get_watermark_def get_latest_operation_timestamp_def
  step_by_def step_from.simps chunks.simps DB_BATCH_SIZE_def pending_interval_def new_interval_def timestamp_to_naive_def timestamp_of_def
  as_i64_def as_u64_def micros_per_sec_def REALTIME_LAG_MINUTES_def store_chunk_def insert_intervals_def set_watermark_internal_def
  insert_watermark_def upsert_stage_type_def reset_processing_intervals_def reset_processing_operations_def
  query_pending_intervals_def claim_intervals_def pending_condition_def optional_bound_def order_by_def transaction_def tx_statement_def
  run_statement_def bind_io_def ignore_error_def pure_io_def Let_def

lemma sample_started_eval:
  "db_watermarks (ix_db sample_started) = [\<lparr>wm_id = 1, wm_timestamp = 7000000\<rparr>]"
  "map (\<lambda>r. (iv_id r, iv_start r, iv_finish r, iv_status r)) (db_intervals (ix_db sample_started)) =
     [(1, 0, 5000000, Pending), (2, 5000000, 7000000, Pending)]"
  "ix_boundary sample_started = Some 7"
  by (simp_all add: sample_defs)

lemma sample_claimed_eval:
  "map (\<lambda>j. iv_id (job_interval j)) (ix_jobs sample_claimed) = [1]"
  "db_watermarks (ix_db sample_claimed) = [\<lparr>wm_id = 1, wm_timestamp = 7000000\<rparr>]"
  by (simp_all add: sample_defs)

lemma sample_started_reachable: "indexer_reachable sample_lib sample_settings (\<lambda>_. True) {sample_service} sample_started"
proof -
  have "new_indexer (\<lambda>_. None) 607000000 (conn_of (ix_db (initial_state :: unit indexer_state))) =
      (Done 7, \<lparr>conn_db = empty_db, conn_clock = 1, conn_aborted = False\<rparr>)"
    by (simp add: sample_defs)
  from indexer_step.start[OF _ _ _ this, of "\<lambda>_. None" sample_lib sample_settings "\<lambda>_. True" "{sample_service}"]
  have "indexer_step sample_lib sample_settings (\<lambda>_. True) {sample_service} initial_state sample_started"
    by (simp add: stopped_def initial_state_def connection_faults_def clock_ok_def REALTIME_LAG_MINUTES_def micros_per_sec_def
        sample_started_def)
  then show ?thesis unfolding indexer_reachable_def by blast
qed

lemma sample_claim_step: "indexer_step sample_lib sample_settings (\<lambda>_. True) {sample_service} sample_started sample_claimed"
  using indexer_step.claim_pending[OF sample_started_eval(3), of LatestFirst None "Some 7" sample_lib sample_settings "\<lambda>_. True"
      "{sample_service}" "\<lambda>_. None"]
  by (simp add: interval_streams_def sample_claimed_def sample_settings_def)

lemma sample_claimed_reachable: "indexer_reachable sample_lib sample_settings (\<lambda>_. True) {sample_service} sample_claimed"
  using sample_started_reachable sample_claim_step unfolding indexer_reachable_def by (rule rtranclp.rtrancl_into_rtrancl)



text \<open>C8: two jobs never work on the same interval, and an interval that a job works on is marked as being processed, so that no
  stream hands it out again.\<close>

theorem intervals_have_one_job:
  assumes "tac_world R S services" "indexer_reachable L S rep services s"
  shows "distinct (map (\<lambda>j. iv_id (job_interval j)) (ix_jobs s)) \<and>
    (\<forall>j \<in> set (ix_jobs s). \<exists>r \<in> set (db_intervals (ix_db s)). iv_id r = iv_id (job_interval j) \<and> iv_status r = Processing)"
  using run_ok_reachable[OF assms] job_ok_processing
  by (fastforce simp: run_ok_def fine_def jobs_ok_def processing_def)

theorem intervals_have_one_job_witness:
  "map (\<lambda>j. iv_id (job_interval j)) (ix_jobs sample_claimed) = [1] \<and>
   distinct (map (\<lambda>j. iv_id (job_interval j)) (ix_jobs sample_claimed))"
  using intervals_have_one_job[OF sample_world sample_claimed_reachable] sample_claimed_eval(1) by blast

end
