(* ===== verification/Tac_Rows.thy ===== *)
theory Tac_Rows
  imports Tac_Runs
begin

text \<open>
  Rows that the indexer leaves alone: the last interval of the past, which none of the streams of a run selects, and operations that
  are settled, among them those of an unknown type. The intervals that a start generates, what an ignored error of a statement can do to
  them, and the statistics of an empty table.
\<close>

section \<open>The last interval of the past\<close>

lemma boundary_reachable:
  assumes "tac_world R S services" "indexer_reachable L S rep services s"
  shows "\<forall>b. ix_boundary s = Some b \<longrightarrow> b < 2 ^ 62"
  using assms(2) unfolding indexer_reachable_def
proof (induction rule: rtranclp_induct)
  case base
  show ?case by (simp add: initial_state_def)
next
  case (step s s')
  have "run_ok R S s" using run_ok_reachable[OF assms(1)] step(1) by (auto simp: indexer_reachable_def)
  then have wf: "wf_tac (conn_db (conn_of (ix_db s)))" by (simp add: run_ok_def fine_def good_def complete_db_def)
  from step(2) show ?case
  proof (cases rule: indexer_step.cases)
    case (start F now F' boundary c)
    have "boundary < 2 ^ 62" using boundary_small[OF start(5) wf start(4)] by simp
    then show ?thesis using start(1, 2) by (auto simp: after_start_def stopped_def split: prod.splits outcome.splits)
  qed (use step(3) in \<open>auto simp: after_claim_def after_job_def after_realtime_def after_operation_def add_jobs_def add_operations_def
      split: prod.splits outcome.splits option.splits\<close>)
qed

text \<open>A claim leaves the rows that do not meet its condition.\<close>

lemma claim_leaves:
  assumes wf: "wf_tac (conn_db c)" and run: "run_statement F (claim_intervals cond field dir limit st) c = (r, c')"
    and row: "x \<in> set (db_intervals (conn_db c))" "\<not> cond x"
  shows "x \<in> set (db_intervals (conn_db c'))"
  using run
proof (cases rule: run_statement_effect)
  case (ran rows)
  from claim_intervals_effect[OF wf ran(2)] obtain ids where
    d': "conn_db c' = (conn_db c)\<lparr>db_intervals := map (\<lambda>r. if iv_id r \<in> ids then r\<lparr>iv_status := st\<rparr> else r) (db_intervals (conn_db c))\<rparr>"
    and cond: "\<And>r. r \<in> set (db_intervals (conn_db c)) \<Longrightarrow> iv_id r \<in> ids \<Longrightarrow> cond r" by blast
  have "iv_id x \<notin> ids" using cond row by blast
  then show ?thesis unfolding d' using row(1) by (auto intro!: rev_image_eqI[OF row(1)])
qed (use row in auto)

lemma insert_pending_intervals: "insert_pending_operations rep F now ops c = (r, c') \<Longrightarrow> db_intervals (conn_db c') = db_intervals (conn_db c)"
proof -
  have "keeps (\<lambda>d. db_intervals d = rows) (insert_pending_operations rep F now ops)" for rows
    unfolding insert_pending_operations_def
  proof (intro keeps_bind keeps_unwrap keeps_run keeps_pure)
    fix models d x d' assume "db_intervals d = rows" "insert_operations models d = (Ok x, d')"
    then show "db_intervals d' = rows" using insert_operations_effect[of models d] by auto
  qed
  then show "insert_pending_operations rep F now ops c = (r, c') \<Longrightarrow> db_intervals (conn_db c') = db_intervals (conn_db c)"
    by (auto dest: keepsD)
qed

lemma on_error_conn: "on_error a b m c = (r, c') \<Longrightarrow> c' = snd (m c)"
  by (auto simp: on_error_def split: prod.splits outcome.splits)

text \<open>A step of a job changes at most the row of its interval.\<close>

lemma job_leaves:
  assumes run: "advance_interval_job service rep F now j c = (r, c')"
    and row: "x \<in> set (db_intervals (conn_db c))" "iv_id x \<noteq> iv_id (job_interval j)"
  shows "x \<in> set (db_intervals (conn_db c'))"
proof -
  have upd: "x \<in> set (db_intervals (conn_db c1))"
    if "run_statement F (update_interval (iv_id (job_interval j)) f) c = (r1, c1)" for f r1 c1
    using that
  proof (cases rule: run_statement_effect)
    case (ran u)
    then have "conn_db c1 = (conn_db c)\<lparr>db_intervals :=
        map (\<lambda>r. if iv_id r = iv_id (job_interval j) then f r else r) (db_intervals (conn_db c))\<rparr>"
      by (simp add: update_interval_def split: if_splits)
    then show ?thesis using row by (auto intro!: rev_image_eqI[OF row(1)])
  qed (use row in auto)
  show ?thesis
  proof (cases j)
    case (FetchOperations iv)
    then show ?thesis using run row(1) by (auto simp: tac_simps split: sum.splits)
  next
    case (InsertOperations iv ops)
    then show ?thesis using run row(1) on_error_conn insert_pending_intervals[of rep F now ops c]
      by (metis advance_interval_job.simps(2) prod.collapse)
  next
    case (CompleteInterval iv)
    then show ?thesis using run on_error_conn upd unfolding CompleteInterval job_interval.simps
      by (metis advance_interval_job.simps(3) prod.collapse set_interval_status_def)
  next
    case (RetryInterval iv)
    then show ?thesis using run on_error_conn upd unfolding RetryInterval job_interval.simps
      by (metis advance_interval_job.simps(4) prod.collapse set_interval_retry_def)
  qed
qed

lemma realtime_leaves:
  assumes "advance_realtime service rep F now t c = (r, c')" "x \<in> set (db_intervals (conn_db c))"
  shows "x \<in> set (db_intervals (conn_db c'))"
proof (cases t)
  case (PollRealtime b)
  then show ?thesis using assms by (auto simp: tac_simps split: sum.splits)
next
  case (StoreRealtime b ops)
  obtain r1 c1 where "insert_pending_operations rep F now ops c = (r1, c1)" by (cases "insert_pending_operations rep F now ops c")
  then show ?thesis using assms StoreRealtime insert_pending_intervals[of rep F now ops c r1 c1]
    by (auto simp: on_error_def Let_def split: outcome.splits)
next
  case (RecordRealtime b m)
  obtain r1 c1 where add: "add_completed_interval rep F now b m c = (r1, c1)" by (cases "add_completed_interval rep F now b m c")
  have "c' = c1" using assms(1) add unfolding RecordRealtime
    by (auto simp: bind_io_def ignore_error_def tac_simps split: outcome.splits prod.splits)
  moreover have "x \<in> set (db_intervals (conn_db c1))"
    using add_interval_effect[OF add[unfolded add_completed_interval_def]] assms(2) by auto
  ultimately show ?thesis by simp
qed

text \<open>The action of a step that is not a start, and the tables it leaves.\<close>

lemma after_db [simp]:
  "ix_db (after_claim add_jobs x s) = conn_db (snd x)"
  "ix_db (after_claim add_operations y s) = conn_db (snd y)"
  "ix_db (after_job i j s) = conn_db (snd j)"
  "ix_db (after_realtime t s) = conn_db (snd t)"
  "ix_db (after_operation i z s) = conn_db (snd z)"
  by (auto simp: after_claim_def after_job_def after_realtime_def after_operation_def add_jobs_def add_operations_def
      split: prod.splits outcome.splits option.splits)

lemma core_leaves:
  "touches_core_not f \<Longrightarrow> x \<in> set (db_intervals (conn_db c)) \<Longrightarrow> x \<in> set (db_intervals (conn_db (snd (run_statement F f c))))"
  using core_keeps(1)[OF core_pred_intervals[of "\<lambda>rows. x \<in> set rows"]] by (auto simp: keeps_def)

lemma boundary_row_left:
  assumes world: "tac_world R S services" and reach: "indexer_reachable L S rep services s"
    and step: "indexer_step L S rep services s s'" and b: "ix_boundary s = Some b"
    and row: "x \<in> set (db_intervals (ix_db s))" "iv_status x = Pending"
    and across: "iv_start x < int b * micros_per_sec" "int b * micros_per_sec \<le> iv_finish x"
  shows "x \<in> set (db_intervals (ix_db s'))"
proof -
  have ok: "run_ok R S s" by (rule run_ok_reachable[OF world reach])
  have wf: "wf_tac (conn_db (conn_of (ix_db s)))" using ok by (simp add: run_ok_def fine_def good_def complete_db_def)
  have small: "b < 2 ^ 62" using boundary_reachable[OF world reach] b by blast
  have row': "x \<in> set (db_intervals (conn_db (conn_of (ix_db s))))" using row(1) by simp
  from step show ?thesis
  proof (cases rule: indexer_step.cases)
    case (start F now F' boundary c)
    then show ?thesis using b by (simp add: stopped_def)
  next
    case killed
    then show ?thesis using row(1) by simp
  next
    case (claim_pending boundary direction "from" to F)
    have cond: "\<not> pending_condition u v x" if "optional_bound rep from = Some u" "optional_bound rep to = Some v" for u v
      using claim_pending(2, 3) that b small across
      by (auto simp: interval_streams_def optional_bound_def timestamp_to_naive_def pending_condition_def split: if_splits)
    show ?thesis unfolding claim_pending(1) after_db query_pending_intervals_def
      using claim_leaves[OF wf _ row'] cond row'
      by (cases "optional_bound rep from"; cases "optional_bound rep to") (auto simp: tac_simps prod_eq_iff)
  next
    case (claim_failed boundary F now)
    show ?thesis unfolding claim_failed(1) after_db query_failed_intervals_def
      using claim_leaves[OF wf _ row'] row' row(2)
      by (cases "timestamp_to_naive rep (timestamp_of now)") (auto simp: tac_simps prod_eq_iff retry_due_def)
  next
    case (job i service F now)
    have "processing (ix_db s) (job_interval (ix_jobs s ! i))"
      using ok job(2) by (auto simp: run_ok_def fine_def jobs_ok_def intro: job_ok_processing)
    then obtain y where y: "y \<in> set (db_intervals (ix_db s))" "iv_id y = iv_id (job_interval (ix_jobs s ! i))" "iv_status y = Processing"
      by (auto simp: processing_def)
    have "iv_id x \<noteq> iv_id y"
    proof
      assume "iv_id x = iv_id y"
      then have "x = y" using wf row(1) y(1) by (auto simp: wf_tac_def distinct_map dest: inj_onD)
      then show False using row(2) y(3) by simp
    qed
    then show ?thesis unfolding job(1) after_db using job_leaves[OF surjective_pairing row'] y(2) by metis
  next
    case (realtime t service now F)
    show ?thesis unfolding realtime(1) after_db by (rule realtime_leaves[OF surjective_pairing row'])
  next
    case (claim_new_operations boundary F)
    then show ?thesis using core_leaves[OF claim_operations_core row'] by (simp add: query_new_operations_def)
  next
    case (claim_pending_operations boundary F)
    then show ?thesis using core_leaves[OF claim_operations_core row'] by (simp add: query_pending_operations_def)
  next
    case (claim_failed_operations boundary F now)
    then show ?thesis using core_leaves[OF claim_operations_core row'] row'
      by (cases "timestamp_to_naive rep (timestamp_of now)") (auto simp: query_failed_operations_def tac_simps)
  next
    case (operation i F now answer)
    show ?thesis unfolding operation(1) after_db
      by (rule keepsD[OF process_operation_keeps[OF core_but_pred[OF core_pred_intervals[of "\<lambda>rows. x \<in> set rows"]]] surjective_pairing row'])
  qed
qed

text \<open>C24: a pending interval that reaches the realtime boundary from the past is not touched by any step of the run. The streams of past
  intervals ask for those that end before the boundary, the stream of realtime intervals for those that start at it or later; the last interval that the
  start generates ends exactly at the boundary, so it stays pending until the program is started anew.\<close>

theorem interval_at_the_boundary_is_never_claimed:
  assumes "tac_world R S services" "indexer_reachable L S rep services s"
    and "indexer_step L S rep services s s'" "ix_boundary s = Some b"
    and "x \<in> set (db_intervals (ix_db s))" "iv_status x = Pending"
    and "iv_start x < int b * micros_per_sec" "int b * micros_per_sec \<le> iv_finish x"
  shows "x \<in> set (db_intervals (ix_db s'))"
  by (rule boundary_row_left[OF assms])

lemma sample_last_interval:
  "\<exists>x \<in> set (db_intervals (ix_db sample_started)). iv_id x = 2 \<and> iv_status x = Pending \<and>
     iv_start x < int 7 * micros_per_sec \<and> int 7 * micros_per_sec \<le> iv_finish x"
proof -
  have "(2, 5000000, 7000000, Pending) \<in> (\<lambda>r. (iv_id r, iv_start r, iv_finish r, iv_status r)) ` set (db_intervals (ix_db sample_started))"
    using arg_cong[OF sample_started_eval(2), of set] by simp
  then show ?thesis by (auto simp: micros_per_sec_def)
qed

theorem interval_at_the_boundary_is_never_claimed_witness:
  "\<exists>x \<in> set (db_intervals (ix_db sample_claimed)). iv_id x = 2 \<and> iv_status x = Pending"
proof -
  from sample_last_interval obtain x where x: "x \<in> set (db_intervals (ix_db sample_started))" "iv_id x = 2" "iv_status x = Pending"
    "iv_start x < int 7 * micros_per_sec" "int 7 * micros_per_sec \<le> iv_finish x" by blast
  from interval_at_the_boundary_is_never_claimed[OF sample_world sample_started_reachable sample_claim_step sample_started_eval(3) x(1, 3-5)]
  show ?thesis using x by blast
qed

section \<open>Settled operations\<close>

text \<open>Operations that are completed, and pending ones of a type for which no stream asks.\<close>

definition settled :: "operation \<Rightarrow> bool" where
  "settled r \<longleftrightarrow> op_status r = Completed \<or> (op_status r = Pending \<and> op_type r \<noteq> None \<and> op_type r \<noteq> Some ''PENDING'')"

definition operation_jobs_ok :: "operation list \<Rightarrow> operation list \<Rightarrow> bool" where
  "operation_jobs_ok rows jobs \<longleftrightarrow> distinct (map op_id jobs) \<and>
     (\<forall>j \<in> set jobs. \<exists>r \<in> set rows. op_id r = op_id j \<and> op_status r = Processing)"

definition grown :: "operation list \<Rightarrow> 'n tac_db \<Rightarrow> bool" where
  "grown rows d \<longleftrightarrow> (\<exists>new. db_operations d = rows @ new)"

lemma grown_self: "grown (db_operations d) d"
  by (simp add: grown_def)

lemma keeps_on_error: "keeps P m \<Longrightarrow> keeps P (on_error a b m)"
  by (auto simp: keeps_def on_error_def split: prod.splits outcome.splits)

text \<open>Statements that do not change the operations.\<close>

definition no_operations :: "('n tac_db \<Rightarrow> (db_err, 'a) result \<times> 'n tac_db) \<Rightarrow> bool" where
  "no_operations f \<longleftrightarrow> (\<forall>d x d'. f d = (Ok x, d') \<longrightarrow> db_operations d' = db_operations d)"

lemma no_operations_keeps:
  assumes "no_operations f"
  shows "keeps (\<lambda>d. Q (db_operations d)) (run_statement F f)" "keeps (\<lambda>d. Q (db_operations d)) (tx_statement F f)"
proof -
  have "Q (db_operations d')" if "Q (db_operations d)" "f d = (Ok x, d')" for d x d'
    using assms that unfolding no_operations_def by metis
  then show "keeps (\<lambda>d. Q (db_operations d)) (run_statement F f)" "keeps (\<lambda>d. Q (db_operations d)) (tx_statement F f)"
    by (blast intro: keeps_run keeps_tx)+
qed

lemma no_operations_statements:
  "no_operations (update_interval i g)"
  "no_operations (claim_intervals cond field dir limit st)"
  "no_operations (insert_intervals rows)"
  "no_operations (update_watermark k t)"
  "no_operations (insert_watermark t)"
  "no_operations (\<lambda>d. (Ok (h d), d))"
  "no_operations (upsert_stage_type n name)"
  by (auto simp: no_operations_def update_interval_def claim_intervals_def insert_intervals_def update_watermark_def
      insert_watermark_def upsert_stage_type_def Let_def split: if_splits)

lemma set_watermark_keeps: "keeps (\<lambda>d. Q (db_operations d)) (set_watermark_internal rep F t)"
  unfolding set_watermark_internal_def
  by (intro keeps_bind keeps_unwrap no_operations_keeps no_operations_statements)
    (auto split: list.splits intro!: no_operations_keeps no_operations_statements)

lemma add_interval_keeps: "keeps (\<lambda>d. Q (db_operations d)) (add_interval st rep F now a b)"
  unfolding add_interval_def
  by (intro keeps_bind keeps_unwrap keeps_transaction keeps_ignore set_watermark_keeps no_operations_keeps no_operations_statements)

lemma store_chunk_keeps: "keeps (\<lambda>d. Q (db_operations d)) (store_chunk rep F chunk)"
  unfolding store_chunk_def
  by (intro keeps_bind keeps_transaction no_operations_keeps no_operations_statements)
    (simp add: keeps_pure keeps_ignore set_watermark_keeps)

lemma store_chunks_keeps: "keeps (\<lambda>d. Q (db_operations d)) (store_chunks rep F cs)"
proof (induction cs)
  case (Cons chunk cs)
  show ?case unfolding store_chunks.simps by (rule keeps_bind[OF store_chunk_keeps Cons])
qed (simp add: keeps_pure)

lemma get_watermark_keeps: "keeps (\<lambda>d. Q (db_operations d)) (get_watermark lo F)"
  unfolding get_watermark_def
  by (intro keeps_bind no_operations_keeps no_operations_statements) (auto split: list.splits intro: keeps_pure)

lemma register_keeps: "keeps (\<lambda>d. Q (db_operations d)) (register_stage_types F types)"
proof (induction types)
  case (Cons t types)
  obtain i name where t: "t = (i, name)" by (cases t)
  show ?case unfolding t register_stage_types.simps
    by (rule keeps_bind[OF no_operations_keeps(1)[OF no_operations_statements(7)] Cons])
qed (simp add: keeps_pure)

lemma start_keeps_settled:
  assumes "settled x"
  shows "keeps (\<lambda>d. x \<in> set (db_operations d)) (start_indexer S rep F now b)"
proof -
  have reset: "keeps (\<lambda>d. x \<in> set (db_operations d)) (reset_processing_operations F)"
    unfolding reset_processing_operations_def
    by (rule keeps_run) (use assms in \<open>force simp: settled_def image_iff\<close>)
  have "no_operations (\<lambda>d. (Ok (length (filter (\<lambda>r. iv_status r = Processing) (db_intervals d))),
      d\<lparr>db_intervals := map (\<lambda>r. if iv_status r = Processing then r\<lparr>iv_status := Pending\<rparr> else r) (db_intervals d)\<rparr>))"
    by (simp add: no_operations_def)
  then have reset_i: "keeps (\<lambda>d. x \<in> set (db_operations d)) (reset_processing_intervals F)"
    unfolding reset_processing_intervals_def by (rule no_operations_keeps)
  show ?thesis
    unfolding start_indexer_def ensure_stages_types_exist_def generate_historical_intervals_def generate_pending_intervals_def
    by (intro keeps_bind keeps_unwrap keeps_pure keeps_ignore reset reset_i register_keeps get_watermark_keeps store_chunks_keeps)
qed

lemma insert_pending_grows: "keeps (grown rows) (insert_pending_operations rep F now ops)"
  unfolding insert_pending_operations_def
proof (intro keeps_bind keeps_unwrap keeps_run keeps_pure)
  fix models :: "operation list" and d :: "'b tac_db" and x d'
  assume d: "grown rows d" "insert_operations models d = (Ok x, d')"
  from insert_operations_effect[of models d] obtain new n where
    "insert_operations models d = (Ok n, d\<lparr>db_operations := db_operations d @ new\<rparr>)" by (elim exE conjE) (rule that)
  then have "d' = d\<lparr>db_operations := db_operations d @ new\<rparr>" using d(2) by simp
  then show "grown rows d'" using d(1) by (auto simp: grown_def)
qed

lemma grown_no_operations: "no_operations f \<Longrightarrow> keeps (grown rows) (run_statement F f)"
  using no_operations_keeps(1)[of f "\<lambda>ops. \<exists>new. ops = rows @ new"] by (simp add: grown_def[abs_def])

lemma job_grows: "keeps (grown rows) (advance_interval_job service rep F now j)"
proof (cases j)
  case (FetchOperations iv)
  then show ?thesis by (auto split: sum.splits intro: keeps_pure)
next
  case (InsertOperations iv ops)
  then show ?thesis by (simp add: keeps_on_error insert_pending_grows)
next
  case (CompleteInterval iv)
  then show ?thesis by (simp add: set_interval_status_def keeps_on_error grown_no_operations no_operations_statements)
next
  case (RetryInterval iv)
  then show ?thesis by (simp add: set_interval_retry_def keeps_on_error grown_no_operations no_operations_statements)
qed

lemma realtime_grows: "keeps (grown rows) (advance_realtime service rep F now t)"
proof (cases t)
  case (PollRealtime b)
  then show ?thesis by (auto split: sum.splits intro: keeps_pure)
next
  case (StoreRealtime b ops)
  then show ?thesis by (simp add: Let_def keeps_on_error insert_pending_grows)
next
  case (RecordRealtime b m)
  have "keeps (grown rows) (add_interval Completed rep F now b m)"
    using add_interval_keeps[of "\<lambda>ops. \<exists>new. ops = rows @ new"] by (simp add: grown_def[abs_def])
  then show ?thesis unfolding RecordRealtime advance_realtime.simps add_completed_interval_def
    by (intro keeps_bind keeps_ignore keeps_pure)
qed

lemma claim_operations_effect:
  assumes wf: "distinct (map op_id (db_operations d))" and claim: "claim_operations cond field dir limit st d = (Ok rows, d')"
  obtains ids where "db_operations d' = map (\<lambda>r. if op_id r \<in> ids then r\<lparr>op_status := st\<rparr> else r) (db_operations d)"
    "map op_id rows = map op_id (filter (\<lambda>r. op_id r \<in> ids) (db_operations d'))"
    "\<And>r. r \<in> set (db_operations d) \<Longrightarrow> op_id r \<in> ids \<Longrightarrow> cond r"
proof -
  let ?ids = "op_id ` set (take limit (order_by field dir (filter cond (db_operations d))))"
  have cond: "cond r" if "r \<in> set (db_operations d)" "op_id r \<in> ?ids" for r
  proof -
    from that(2) obtain r' where r': "r' \<in> set (take limit (order_by field dir (filter cond (db_operations d))))" "op_id r' = op_id r" by auto
    from in_set_takeD[OF r'(1)] have "r' \<in> set (filter cond (db_operations d))" by simp
    moreover have "inj_on op_id (set (db_operations d))" using wf by (simp add: distinct_map)
    ultimately show ?thesis using r'(2) that(1) by (auto dest: inj_onD)
  qed
  have d': "d' = d\<lparr>db_operations := map (\<lambda>r. if op_id r \<in> ?ids then r\<lparr>op_status := st\<rparr> else r) (db_operations d)\<rparr>"
    using claim by (simp add: claim_operations_def Let_def)
  moreover have "rows = map (\<lambda>r. r\<lparr>op_type := None\<rparr>) (filter (\<lambda>r. op_id r \<in> ?ids) (db_operations d'))"
    using claim unfolding d' by (simp add: claim_operations_def Let_def)
  then have "map op_id rows = map op_id (filter (\<lambda>r. op_id r \<in> ?ids) (db_operations d'))" by simp
  moreover have "db_operations d' = map (\<lambda>r. if op_id r \<in> ?ids then r\<lparr>op_status := st\<rparr> else r) (db_operations d)"
    unfolding d' by simp
  ultimately show ?thesis using that[of ?ids] cond by blast
qed

lemma grown_jobs_ok: "grown rows d \<Longrightarrow> operation_jobs_ok rows jobs \<Longrightarrow> operation_jobs_ok (db_operations d) jobs"
  unfolding grown_def operation_jobs_ok_def by (metis UnI1 set_append)

lemma drop_nth_jobs_ok: "operation_jobs_ok rows jobs \<Longrightarrow> operation_jobs_ok rows (drop_nth i jobs)"
proof -
  assume ok: "operation_jobs_ok rows jobs"
  have "map op_id (drop_nth i jobs) = take i (map op_id jobs) @ drop (Suc i) (map op_id jobs)"
    by (simp add: drop_nth_def take_map drop_map)
  moreover have "distinct (map op_id jobs)" using ok by (simp add: operation_jobs_ok_def)
  ultimately have "distinct (map op_id (drop_nth i jobs))"
    by (simp only: distinct_append) (simp add: distinct_take distinct_drop set_take_disj_set_drop_if_distinct del: take_map drop_map)
  moreover have "\<forall>j \<in> set (drop_nth i jobs). j \<in> set jobs" using set_drop_nth[of i jobs] by auto
  ultimately show ?thesis using ok unfolding operation_jobs_ok_def by simp
qed

definition operations_ok :: "'n indexer_state \<Rightarrow> bool" where
  "operations_ok s \<longleftrightarrow> operation_jobs_ok (db_operations (ix_db s)) (ix_operations s) \<and>
     (ix_boundary s = None \<longrightarrow> ix_operations s = [])"

text \<open>A claim of operations takes none that a job has, and none that is settled.\<close>

lemma claim_operations_ok:
  assumes wf: "distinct (map op_id (db_operations (ix_db s)))" and ok: "operations_ok s" and b: "ix_boundary s \<noteq> None"
    and cond: "\<And>r. cond r \<Longrightarrow> op_status r \<noteq> Processing \<and> \<not> settled r"
    and run: "run_statement F (claim_operations cond field dir limit Processing) (conn_of (ix_db s)) = (r, c)"
  shows "operations_ok (after_claim add_operations (r, c) s) \<and>
    (\<forall>x \<in> set (db_operations (ix_db s)). settled x \<longrightarrow> x \<in> set (db_operations (conn_db c)))"
  using run
proof (cases rule: run_statement_effect)
  case (ran rows)
  let ?ops = "db_operations (ix_db s)"
  from ran(2) have "claim_operations cond field dir limit Processing (ix_db s) = (Ok rows, conn_db c)" by simp
  from claim_operations_effect[OF wf this] obtain ids where
    ops: "db_operations (conn_db c) = map (\<lambda>r. if op_id r \<in> ids then r\<lparr>op_status := Processing\<rparr> else r) ?ops"
    and rows: "map op_id rows = map op_id (filter (\<lambda>r. op_id r \<in> ids) (db_operations (conn_db c)))"
    and sel: "\<And>r. r \<in> set ?ops \<Longrightarrow> op_id r \<in> ids \<Longrightarrow> cond r" by blast
  have jobs: "operation_jobs_ok ?ops (ix_operations s)" using ok by (simp add: operations_ok_def)
  have kept: "x \<in> set (db_operations (conn_db c))" if "x \<in> set ?ops" "settled x \<or> op_status x = Processing" for x
  proof -
    have "op_id x \<notin> ids" using sel[OF that(1)] cond that(2) by blast
    then show ?thesis unfolding ops using that(1) by simp
  qed
  have ids': "map op_id (db_operations (conn_db c)) = map op_id ?ops" by (simp add: ops)
  have dist: "distinct (map op_id rows)" unfolding rows using wf by (simp add: distinct_map_filter ids')
  have new: "op_id j \<in> ids \<and> (\<exists>r \<in> set (db_operations (conn_db c)). op_id r = op_id j \<and> op_status r = Processing)" if "j \<in> set rows" for j
  proof -
    have "op_id j \<in> op_id ` set (filter (\<lambda>r. op_id r \<in> ids) (db_operations (conn_db c)))"
      using that arg_cong[OF rows, of set] by auto
    then obtain y where y: "y \<in> set (db_operations (conn_db c))" "op_id y \<in> ids" "op_id y = op_id j" by auto
    then have "op_status y = Processing" by (auto simp: ops)
    then show ?thesis using y by metis
  qed
  have old: "op_id j \<notin> ids" if "j \<in> set (ix_operations s)" for j
    using jobs that sel cond unfolding operation_jobs_ok_def by metis
  have "operation_jobs_ok (db_operations (conn_db c)) (ix_operations s @ rows)"
    using jobs dist new old kept unfolding operation_jobs_ok_def by (auto simp: image_iff) metis+
  then show ?thesis using ran(1) kept b ok by (auto simp: operations_ok_def after_claim_def add_operations_def)
qed (use ok in \<open>auto simp: operations_ok_def after_claim_def\<close>)

lemma process_others:
  assumes "process_operation_with_retries L S rep F now answer [m] c = (r, c')"
  shows "filter (\<lambda>r. op_id r \<notin> {op_id m}) (db_operations (conn_db c')) = filter (\<lambda>r. op_id r \<notin> {op_id m}) (db_operations (conn_db c))"
proof -
  have "but_pred (op_id ` set [m]) (\<lambda>d. filter (\<lambda>r. op_id r \<notin> {op_id m}) (db_operations d) =
      filter (\<lambda>r. op_id r \<notin> {op_id m}) (db_operations (conn_db c)))"
    by (simp add: but_pred_def same_but_def)
  from keepsD[OF process_operation_keeps[OF this] assms refl] show ?thesis .
qed

lemma operation_job_ok:
  assumes wf: "distinct (map op_id (db_operations (ix_db s)))" and ok: "operations_ok s" and i: "i < length (ix_operations s)"
    and run: "process_operation_with_retries L S rep F now answer [ix_operations s ! i] (conn_of (ix_db s)) = (r, c)"
  shows "operations_ok (after_operation i (r, c) s) \<and>
    (\<forall>x \<in> set (db_operations (ix_db s)). settled x \<longrightarrow> x \<in> set (db_operations (conn_db c)))"
proof -
  let ?ops = "db_operations (ix_db s)"
  let ?m = "ix_operations s ! i"
  have jobs: "operation_jobs_ok ?ops (ix_operations s)" using ok by (simp add: operations_ok_def)
  have kept: "x \<in> set (db_operations (conn_db c))" if "x \<in> set ?ops" "op_id x \<noteq> op_id ?m" for x
  proof -
    have "x \<in> set (filter (\<lambda>r. op_id r \<notin> {op_id ?m}) ?ops)" using that by simp
    then have "x \<in> set (filter (\<lambda>r. op_id r \<notin> {op_id ?m}) (db_operations (conn_db c)))"
      unfolding process_others[OF run] by simp
    then show ?thesis by simp
  qed
  obtain row where row: "row \<in> set ?ops" "op_id row = op_id ?m" "op_status row = Processing"
    using jobs nth_mem[OF i] unfolding operation_jobs_ok_def by blast
  have settled: "op_id x \<noteq> op_id ?m" if "x \<in> set ?ops" "settled x" for x
  proof
    assume "op_id x = op_id ?m"
    then have same: "op_id x = op_id row" using row(2) by simp
    have "inj_on op_id (set ?ops)" using wf by (simp add: distinct_map)
    from inj_onD[OF this same that(1) row(1)] have "x = row" .
    then show False using row(3) that(2) by (auto simp: settled_def)
  qed
  have other: "op_id j \<noteq> op_id ?m" if "j \<in> set (drop_nth i (ix_operations s))" for j
  proof -
    have "distinct (map op_id (take i (ix_operations s) @ ?m # drop (Suc i) (ix_operations s)))"
      using jobs id_take_nth_drop[OF i] by (simp add: operation_jobs_ok_def)
    then show ?thesis using that by (auto simp: drop_nth_def image_iff)
  qed
  have rest: "operation_jobs_ok ?ops (drop_nth i (ix_operations s))" by (rule drop_nth_jobs_ok[OF jobs])
  have "operation_jobs_ok (db_operations (conn_db c)) (drop_nth i (ix_operations s))"
    using rest kept other unfolding operation_jobs_ok_def by metis
  moreover have "ix_boundary s \<noteq> None" using ok i by (auto simp: operations_ok_def)
  ultimately have "operations_ok (after_operation i (r, c) s)"
    by (cases r) (auto simp: operations_ok_def after_operation_def operation_jobs_ok_def)
  then show ?thesis using kept settled by blast
qed

lemma grown_settled: "grown rows d \<Longrightarrow> \<forall>x \<in> set rows. settled x \<longrightarrow> x \<in> set (db_operations d)"
  by (auto simp: grown_def)

lemma operations_step:
  assumes ok: "run_ok R S s" and ops: "operations_ok s" and step: "indexer_step L S rep services s s'"
  shows "operations_ok s' \<and> (\<forall>x \<in> set (db_operations (ix_db s)). settled x \<longrightarrow> x \<in> set (db_operations (ix_db s')))"
proof -
  have wf: "distinct (map op_id (db_operations (ix_db s)))"
    using ok by (simp add: run_ok_def fine_def good_def complete_db_def wf_tac_def)
  let ?ops = "db_operations (ix_db s)"
  have jobs: "operation_jobs_ok ?ops (ix_operations s)" "ix_boundary s = None \<longrightarrow> ix_operations s = []"
    using ops by (auto simp: operations_ok_def)
  have self: "grown ?ops (conn_db (conn_of (ix_db s)))" by (simp add: grown_self)
  have empty: "operation_jobs_ok rows []" for rows by (simp add: operation_jobs_ok_def)
  from step show ?thesis
  proof (cases rule: indexer_step.cases)
    case (start F now F' boundary c)
    have wf': "wf_tac (conn_db (conn_of (ix_db s)))" using ok by (simp add: run_ok_def fine_def good_def complete_db_def)
    have same: "conn_db c = ix_db s" using boundary_small[OF start(5) wf' start(4)] by simp
    have kept: "x \<in> set (db_operations (conn_db (snd (start_indexer S rep F now boundary (conn_of (conn_db c))))))"
      if "x \<in> set ?ops" "settled x" for x
      using keepsD[OF start_keeps_settled[OF that(2)] surjective_pairing, of "conn_of (conn_db c)"] that(1) same by simp
    have none: "ix_operations s = []" "ix_boundary s = None" using start(2) jobs(2) by (auto simp: stopped_def)
    show ?thesis unfolding start(1) using kept none empty
      by (cases "start_indexer S rep F now boundary (conn_of (conn_db c))"; cases "fst (start_indexer S rep F now boundary (conn_of (conn_db c)))")
        (auto simp: after_start_def operations_ok_def)
  next
    case killed
    then show ?thesis using empty by (simp add: operations_ok_def)
  next
    case (claim_pending boundary direction "from" to F)
    let ?m = "query_pending_intervals rep F (intervals_query_batch S) direction from to"
    have "keeps (\<lambda>d. db_operations d = ?ops) ?m" unfolding query_pending_intervals_def
      by (intro keeps_bind keeps_unwrap no_operations_keeps no_operations_statements)
    from keepsD[OF this surjective_pairing, of "conn_of (ix_db s)"]
    have "db_operations (conn_db (snd (?m (conn_of (ix_db s))))) = ?ops" by simp
    then show ?thesis unfolding claim_pending(1) using jobs empty
      by (cases "?m (conn_of (ix_db s))"; cases "fst (?m (conn_of (ix_db s)))") (auto simp: operations_ok_def after_claim_def add_jobs_def)
  next
    case (claim_failed boundary F now)
    let ?m = "query_failed_intervals rep F now (intervals_retry_batch S)"
    have "keeps (\<lambda>d. db_operations d = ?ops) ?m" unfolding query_failed_intervals_def
      by (intro keeps_bind keeps_unwrap no_operations_keeps no_operations_statements)
    from keepsD[OF this surjective_pairing, of "conn_of (ix_db s)"]
    have "db_operations (conn_db (snd (?m (conn_of (ix_db s))))) = ?ops" by simp
    then show ?thesis unfolding claim_failed(1) using jobs empty
      by (cases "?m (conn_of (ix_db s))"; cases "fst (?m (conn_of (ix_db s)))") (auto simp: operations_ok_def after_claim_def add_jobs_def)
  next
    case (job i service F now)
    let ?r = "advance_interval_job service rep F now (ix_jobs s ! i) (conn_of (ix_db s))"
    have g: "grown ?ops (conn_db (snd ?r))" by (rule keepsD[OF job_grows surjective_pairing self])
    have "ix_boundary (after_job i ?r s) = None \<longrightarrow> ix_operations (after_job i ?r s) = []"
      "ix_operations (after_job i ?r s) = ix_operations s \<or> ix_operations (after_job i ?r s) = []"
      using jobs(2) by (auto simp: after_job_def split: prod.splits outcome.splits option.splits)
    then show ?thesis unfolding job(1) using grown_jobs_ok[OF g jobs(1)] grown_settled[OF g] empty
      by (auto simp: operations_ok_def)
  next
    case (realtime t service now F)
    let ?r = "advance_realtime service rep F now t (conn_of (ix_db s))"
    have g: "grown ?ops (conn_db (snd ?r))" by (rule keepsD[OF realtime_grows surjective_pairing self])
    have "ix_boundary (after_realtime ?r s) = ix_boundary s" "ix_operations (after_realtime ?r s) = ix_operations s"
      by (auto simp: after_realtime_def split: prod.splits outcome.splits)
    then show ?thesis unfolding realtime(1) using grown_jobs_ok[OF g jobs(1)] grown_settled[OF g] jobs(2)
      by (auto simp: operations_ok_def)
  next
    case (claim_new_operations boundary F)
    then show ?thesis
      using claim_operations_ok[OF wf ops _ _ surjective_pairing, of "\<lambda>r. op_status r = Pending \<and> op_type r = None"]
      by (simp add: query_new_operations_def settled_def)
  next
    case (claim_pending_operations boundary F)
    then show ?thesis
      using claim_operations_ok[OF wf ops _ _ surjective_pairing, of "\<lambda>r. op_status r = Pending \<and> op_type r = Some ''PENDING''"]
      by (simp add: query_pending_operations_def settled_def)
  next
    case (claim_failed_operations boundary F now)
    show ?thesis
    proof (cases "timestamp_to_naive rep (timestamp_of now)")
      case None
      then show ?thesis using claim_failed_operations(1) empty
        by (simp add: query_failed_operations_def tac_simps after_claim_def operations_ok_def)
    next
      case (Some t)
      then show ?thesis using claim_failed_operations
          claim_operations_ok[OF wf ops _ _ surjective_pairing, of "\<lambda>r. retry_due (op_status r) (op_next_retry r) t"]
        by (simp add: query_failed_operations_def settled_def retry_due_def)
    qed
  next
    case (operation i F now answer)
    show ?thesis using operation_job_ok[OF wf ops operation(2) surjective_pairing] unfolding operation(1) after_db prod.collapse by blast
  qed
qed

lemma operations_reachable:
  assumes "tac_world R S services" "indexer_reachable L S rep services s"
  shows "operations_ok s"
  using assms(2) unfolding indexer_reachable_def
proof (induction rule: rtranclp_induct)
  case base
  show ?case by (simp add: operations_ok_def operation_jobs_ok_def initial_state_def)
next
  case (step s s')
  then show ?case using operations_step run_ok_reachable[OF assms(1)] by (metis indexer_reachable_def)
qed

lemma settled_stays:
  assumes world: "tac_world R S services" and reach: "indexer_reachable L S rep services s"
    and steps: "(indexer_step L S rep services)\<^sup>*\<^sup>* s s'" and x: "x \<in> set (db_operations (ix_db s))" "settled x"
  shows "x \<in> set (db_operations (ix_db s'))"
  using steps
proof (induction rule: rtranclp_induct)
  case base
  show ?case by (rule x(1))
next
  case (step t u)
  have "indexer_reachable L S rep services t"
    using reach step(1) unfolding indexer_reachable_def by (rule rtranclp_trans)
  then show ?case using operations_step run_ok_reachable[OF world] operations_reachable[OF world] step(2, 3) x(2) by metis
qed

text \<open>A run in which the sample operation is fetched, claimed and found to be of an unknown type.\<close>

definition sample_fetched :: "unit indexer_state" where
  "sample_fetched = after_job 0 (advance_interval_job sample_service (\<lambda>_. True) (\<lambda>_. None) 607000000 (ix_jobs sample_claimed ! 0)
     (conn_of (ix_db sample_claimed))) sample_claimed"

definition sample_stored :: "unit indexer_state" where
  "sample_stored = after_job 0 (advance_interval_job sample_service (\<lambda>_. True) (\<lambda>_. None) 607000000 (ix_jobs sample_fetched ! 0)
     (conn_of (ix_db sample_fetched))) sample_fetched"

definition sample_operation_claimed :: "unit indexer_state" where
  "sample_operation_claimed = after_claim add_operations (query_new_operations (\<lambda>_. None) 10 LatestFirst (conn_of (ix_db sample_stored))) sample_stored"

definition sample_unknown :: "unit indexer_state" where
  "sample_unknown = after_operation 0 (process_operation_with_retries sample_lib sample_settings (\<lambda>_. True) (\<lambda>_. None) 607000000
     (Ok [(''op'', \<lparr>od_operation_type = UnknownType, od_meta_info = None, od_stages = []\<rparr>)]) [ix_operations sample_operation_claimed ! 0]
     (conn_of (ix_db sample_operation_claimed))) sample_operation_claimed"

definition sample_later :: "unit indexer_state" where
  "sample_later = after_claim add_operations (query_new_operations (\<lambda>_. None) 10 LatestFirst (conn_of (ix_db sample_unknown))) sample_unknown"

text \<open>The tables and the states of the run, written out.\<close>

definition sample_interval :: "nat \<Rightarrow> int \<Rightarrow> int \<Rightarrow> status_enum \<Rightarrow> interval" where
  "sample_interval i a b st = \<lparr>iv_id = i, iv_start = a, iv_finish = b, iv_inserted_at = 607000000, iv_updated_at = 607000000,
     iv_status = st, iv_next_retry = None, iv_retry_count = 0\<rparr>"

definition sample_tables :: "status_enum \<Rightarrow> operation list \<Rightarrow> unit tac_db" where
  "sample_tables st ops = \<lparr>db_intervals = [sample_interval 1 0 5000000 st, sample_interval 2 5000000 7000000 Pending],
     db_operations = ops, db_stages = [], db_transactions = [], db_metas = [], db_stage_types = stage_types_map,
     db_watermarks = [\<lparr>wm_id = 1, wm_timestamp = 7000000\<rparr>], db_next_interval = 3, db_next_stage = 1, db_next_tx = 1,
     db_next_watermark = 2\<rparr>"

definition sample_state :: "unit tac_db \<Rightarrow> interval_job list \<Rightarrow> operation list \<Rightarrow> unit indexer_state" where
  "sample_state d jobs ops = \<lparr>ix_db = d, ix_boundary = Some 7, ix_realtime = Some (PollRealtime 7), ix_jobs = jobs, ix_operations = ops\<rparr>"

definition sample_row :: "status_enum \<Rightarrow> string option \<Rightarrow> operation" where
  "sample_row st ty = \<lparr>op_id = ''op'', op_type = ty, op_timestamp = 3000000, op_next_retry = None, op_status = st, op_retry_count = 0,
     op_inserted_at = 607000000, op_updated_at = 607000000, op_sender_address = None, op_sender_blockchain = None\<rparr>"

lemmas sample_values = sample_state_def sample_tables_def sample_interval_def sample_row_def

lemma sample_claimed_value:
  "sample_claimed = sample_state (sample_tables Processing []) [FetchOperations (sample_interval 1 0 5000000 Processing)] []"
  by (simp add: sample_defs sample_values)

lemma sample_fetched_value:
  "sample_fetched = sample_state (sample_tables Processing []) [InsertOperations (sample_interval 1 0 5000000 Processing) [sample_op]] []"
  unfolding sample_fetched_def sample_claimed_value
  by (simp add: sample_state_def after_job_def conn_of_def pure_io_def get_operations_def get_operations_loop.simps sample_service_def
      request_start_def request_end_def sample_interval_def timestamp_of_def as_u64_def micros_per_sec_def)

lemma sample_stored_value:
  "sample_stored = sample_state (sample_tables Processing [sample_row Pending None]) [CompleteInterval (sample_interval 1 0 5000000 Processing)] []"
  unfolding sample_stored_def sample_fetched_value
  by (simp add: sample_values after_job_def conn_of_def on_error_def insert_pending_operations_def pending_operation_def sample_op_def
      timestamp_to_naive_def as_i64_def micros_per_sec_def bind_io_def run_statement_def pure_io_def)

lemma sample_operation_claimed_value:
  "sample_operation_claimed = sample_state (sample_tables Processing [sample_row Processing None])
     [CompleteInterval (sample_interval 1 0 5000000 Processing)] [sample_row Processing None]"
  unfolding sample_operation_claimed_def sample_stored_value
  by (simp add: sample_state_def sample_tables_def sample_row_def after_claim_def add_operations_def conn_of_def query_new_operations_def
      run_statement_def claim_operations_def Let_def order_by_def)

lemma sample_unknown_value:
  "sample_unknown = sample_state (sample_tables Processing [sample_row Pending (Some ''UNKNOWN'')])
     [CompleteInterval (sample_interval 1 0 5000000 Processing)] []"
  unfolding sample_unknown_def sample_operation_claimed_value
  by (simp add: sample_state_def sample_tables_def sample_row_def after_operation_def drop_nth_def conn_of_def
      process_operation_with_retries_def set_operation_data_def sample_lib_def remove_operation_associated_stages_def
      set_operation_base_properties_def update_operation_def sender_of_def new_operation_status_def is_finalized_def
      ignore_error_def transaction_def tx_statement_def run_statement_def bind_io_def pure_io_def Let_def)

lemma sample_jobs: "length (ix_jobs sample_claimed) = 1" "ix_boundary sample_claimed = Some 7"
  by (simp_all add: sample_claimed_value sample_state_def)

lemma sample_fetched_eval: "length (ix_jobs sample_fetched) = 1" "ix_boundary sample_fetched = Some 7"
  by (simp_all add: sample_fetched_value sample_state_def)

lemma sample_stored_eval: "ix_boundary sample_stored = Some 7"
  by (simp add: sample_stored_value sample_state_def)

lemma sample_operation_claimed_eval: "length (ix_operations sample_operation_claimed) = 1"
  by (simp add: sample_operation_claimed_value sample_state_def)

lemma sample_unknown_eval:
  "map (\<lambda>r. (op_id r, op_status r, op_type r)) (db_operations (ix_db sample_unknown)) = [(''op'', Pending, Some ''UNKNOWN'')]"
  "ix_boundary sample_unknown = Some 7"
  by (simp_all add: sample_unknown_value sample_state_def sample_tables_def sample_row_def)

lemma sample_unknown_run:
  "indexer_reachable sample_lib sample_settings (\<lambda>_. True) {sample_service} sample_unknown"
  "indexer_step sample_lib sample_settings (\<lambda>_. True) {sample_service} sample_unknown sample_later"
proof -
  let ?step = "indexer_step sample_lib sample_settings (\<lambda>_. True) {sample_service}"
  have 1: "?step sample_claimed sample_fetched"
    unfolding sample_fetched_def by (rule indexer_step.job) (simp_all add: sample_jobs)
  have 2: "?step sample_fetched sample_stored"
    unfolding sample_stored_def by (rule indexer_step.job) (simp_all add: sample_fetched_eval)
  have 3: "?step sample_stored sample_operation_claimed"
    using indexer_step.claim_new_operations[OF sample_stored_eval, of sample_lib sample_settings "\<lambda>_. True" "{sample_service}" "\<lambda>_. None"]
    by (simp add: sample_operation_claimed_def sample_settings_def)
  have 4: "?step sample_operation_claimed sample_unknown"
    unfolding sample_unknown_def by (rule indexer_step.operation) (simp add: sample_operation_claimed_eval)
  show "indexer_reachable sample_lib sample_settings (\<lambda>_. True) {sample_service} sample_unknown"
    using sample_claimed_reachable 1 2 3 4 unfolding indexer_reachable_def by (meson rtranclp.rtrancl_into_rtrancl)
  show "?step sample_unknown sample_later"
    using indexer_step.claim_new_operations[OF sample_unknown_eval(2), of sample_lib sample_settings "\<lambda>_. True" "{sample_service}" "\<lambda>_. None"]
    by (simp add: sample_later_def sample_settings_def)
qed



section \<open>Generated intervals\<close>

lemma numbered_contiguous:
  "contiguous a (map (\<lambda>(i, r). r\<lparr>iv_id := k + i\<rparr>) (enumerate n rows)) = contiguous a rows"
  "end_of a (map (\<lambda>(i, r). r\<lparr>iv_id := k + i\<rparr>) (enumerate n rows)) = end_of a rows"
  by (induction rows arbitrary: a n) simp_all

lemma chunk_end_contiguous: "contiguous a rows \<Longrightarrow> rows \<noteq> [] \<Longrightarrow> as_i64 (chunk_end rows) * micros_per_sec = end_of a rows"
  using contiguous_whole[of a rows] by (simp add: chunk_end_def end_of_last whole_end)

lemma put_chunks_rows:
  assumes "contiguous a (concat cs)" "[] \<notin> set cs" "length (db_watermarks d) \<le> 1"
  shows "\<exists>new. db_intervals (fold put_chunk cs d) = db_intervals d @ new \<and> contiguous a new \<and>
    end_of a new = end_of a (concat cs) \<and> length new = length (concat cs) \<and>
    (cs \<noteq> [] \<longrightarrow> (\<exists>w. db_watermarks (fold put_chunk cs d) = [w] \<and> wm_timestamp w = end_of a (concat cs)))"
  using assms
proof (induction cs arbitrary: a d)
  case (Cons chunk cs)
  let ?d = "put_chunk chunk d"
  let ?first = "map (\<lambda>(i, r). r\<lparr>iv_id := db_next_interval d + i\<rparr>) (enumerate 0 chunk)"
  have cont: "contiguous a chunk" "contiguous (end_of a chunk) (concat cs)" "chunk \<noteq> []" using Cons.prems by auto
  have rows: "db_intervals ?d = db_intervals d @ ?first" by (simp add: put_chunk_def)
  obtain w where w: "db_watermarks ?d = [w]" "wm_timestamp w = end_of a chunk"
    using put_watermark_single[of "put_intervals chunk d" "end_of a chunk"] Cons.prems(3) chunk_end_contiguous[OF cont(1, 3)]
    by (auto simp: put_chunk_def)
  from Cons.IH[OF cont(2), of ?d] Cons.prems(2) w(1) obtain new where new:
    "db_intervals (fold put_chunk cs ?d) = db_intervals ?d @ new" "contiguous (end_of a chunk) new"
    "end_of (end_of a chunk) new = end_of (end_of a chunk) (concat cs)" "length new = length (concat cs)"
    "cs \<noteq> [] \<longrightarrow> (\<exists>w. db_watermarks (fold put_chunk cs ?d) = [w] \<and> wm_timestamp w = end_of (end_of a chunk) (concat cs))"
    by auto
  show ?case
  proof (rule exI[of _ "?first @ new"], intro conjI impI)
    show "\<exists>v. db_watermarks (fold put_chunk (chunk # cs) d) = [v] \<and> wm_timestamp v = end_of a (concat (chunk # cs))"
      using new(5) w by (cases "cs = []") auto
  qed (use rows new cont numbered_contiguous[of a] in simp_all)
qed simp



text \<open>An error of the statement that moves the watermark is ignored inside the transaction, which is void from then on: the batch
  of intervals is not stored, the next batch is, with the watermark at its end, and the function reports success.\<close>

lemma store_chunk_ok:
  assumes "\<And>k. conn_clock c \<le> k \<Longrightarrow> F k = None" "chunk \<noteq> []" "\<And>t. rep t"
  shows "store_chunk rep F chunk c = (Done (), c\<lparr>conn_db := put_chunk chunk (conn_db c), conn_clock := conn_clock c + 5\<rparr>)"
proof (cases "order_by wm_timestamp EarliestFirst (db_watermarks (conn_db c))")
  case Nil
  then show ?thesis using assms
    by (simp add: store_chunk_def transaction_def bind_io_def tx_statement_def run_statement_def insert_intervals_def ignore_error_def
        set_watermark_internal_def pure_io_def timestamp_to_naive_def insert_watermark_def put_chunk_def put_watermark_def
        put_intervals_def chunk_end_def)
next
  case (Cons w ws)
  then have w: "wm_id w \<in> wm_id ` set (db_watermarks (conn_db c))" using order_by_set by (metis image_eqI list.set_intros(1))
  then show ?thesis using assms Cons
    by (simp add: store_chunk_def transaction_def bind_io_def tx_statement_def run_statement_def insert_intervals_def ignore_error_def
        set_watermark_internal_def pure_io_def timestamp_to_naive_def update_watermark_def put_chunk_def put_watermark_def
        put_intervals_def chunk_end_def)
qed

lemma store_chunk_undone:
  assumes "chunk \<noteq> []" "F = (\<lambda>k. if k = conn_clock c + 3 then Some e else None)" "\<And>t. rep t"
  shows "store_chunk rep F chunk c = (Done (), c\<lparr>conn_clock := conn_clock c + 5\<rparr>)"
  using assms
  by (cases "order_by wm_timestamp EarliestFirst (db_watermarks (conn_db c))")
    (simp_all add: store_chunk_def transaction_def bind_io_def tx_statement_def run_statement_def insert_intervals_def ignore_error_def
        set_watermark_internal_def pure_io_def timestamp_to_naive_def)

lemma ignored_error_loses_a_batch:
  assumes "one \<noteq> []" "two \<noteq> []" "F = (\<lambda>k. if k = conn_clock c + 3 then Some e else None)" "\<And>t. rep t"
    and "store_chunks rep F [one, two] c = (r, c')"
  shows "r = Done () \<and> conn_db c' = put_chunk two (conn_db c)"
proof -
  let ?c = "c\<lparr>conn_clock := conn_clock c + 5\<rparr>"
  have "store_chunk rep F two ?c = (Done (), ?c\<lparr>conn_db := put_chunk two (conn_db ?c), conn_clock := conn_clock ?c + 5\<rparr>)"
    by (rule store_chunk_ok) (simp_all add: assms)
  moreover have "store_chunk rep F one c = (Done (), ?c)" by (rule store_chunk_undone[OF assms(1, 3, 4)])
  ultimately show ?thesis using assms(5) by (auto simp: bind_io_def pure_io_def)
qed

text \<open>The statistics of a table without intervals are an error, since the sum of no rows is null and is not read as optional.\<close>

lemma no_intervals_no_statistic:
  "db_intervals (conn_db c) = [] \<Longrightarrow> F (conn_clock c) = None \<Longrightarrow>
   fst (get_intervals_statistic F c) = Failed (NullValue ''finalized_period'')"
  by (simp add: get_intervals_statistic_def bind_io_def run_statement_def sql_sum_def fail_io_def)

end
