(* ===== verification/Tac_Pages.thy ===== *)
theory Tac_Pages
  imports Tac_Rows "HOL-Library.Multiset"
begin

text \<open>
  Listing of operations in pages, and the processing of an interval as one function and as a sequence of steps.
\<close>

section \<open>Pages\<close>

text \<open>A client that follows the page tokens until there is none, over tables that do not change meanwhile.\<close>

fun follow_pages :: "(int \<Rightarrow> bool) \<Rightarrow> nat \<Rightarrow> logic_pagination option \<Rightarrow> 'n tac_db \<Rightarrow> operation list option" where
  "follow_pages rep 0 p d = None"
| "follow_pages rep (Suc n) p d =
     (case fst (get_operations_page rep (\<lambda>_. None) p (conn_of d)) of
        Done (ops, None) \<Rightarrow> Some ops
      | Done (ops, Some q) \<Rightarrow> map_option ((@) ops) (follow_pages rep n (Some q) d)
      | _ \<Rightarrow> None)"

definition newest_first :: "operation list \<Rightarrow> operation list" where
  "newest_first rows = order_by op_timestamp LatestFirst rows"

lemma newest_first_filter: "order_by op_timestamp LatestFirst (filter P rows) = filter P (newest_first rows)"
  by (simp add: newest_first_def order_by_def filter_sort)

lemma newest_first_sorted: "sorted_wrt (\<lambda>a b. op_timestamp b \<le> op_timestamp a) (newest_first rows)"
proof -
  have "sorted (map (\<lambda>r. - op_timestamp r) (newest_first rows))" by (simp add: newest_first_def order_by_def)
  then show ?thesis by (simp add: sorted_wrt_map)
qed

lemma newest_first_strict:
  assumes "distinct (map op_timestamp rows)"
  shows "sorted_wrt (\<lambda>a b. op_timestamp b < op_timestamp a) (newest_first rows)"
proof -
  have "mset (newest_first rows) = mset rows" by (simp add: newest_first_def order_by_def)
  then have dist: "distinct (map op_timestamp (newest_first rows))" using assms by (metis mset_eq_imp_distinct_iff mset_map)
  show ?thesis unfolding sorted_wrt_iff_nth_less
  proof (intro allI impI)
    fix i j assume ij: "i < j" "j < length (newest_first rows)"
    then have "op_timestamp (newest_first rows ! j) \<le> op_timestamp (newest_first rows ! i)"
      using newest_first_sorted[of rows] by (simp add: sorted_wrt_iff_nth_less)
    moreover have "op_timestamp (newest_first rows ! j) \<noteq> op_timestamp (newest_first rows ! i)"
      using dist ij by (auto simp: distinct_conv_nth)
    ultimately show "op_timestamp (newest_first rows ! j) < op_timestamp (newest_first rows ! i)" by simp
  qed
qed

lemma earlier_than_nth:
  assumes "sorted_wrt (\<lambda>a b. op_timestamp b < op_timestamp a) l" "i < length l"
  shows "filter (\<lambda>r. op_timestamp r < op_timestamp (l ! i)) l = drop (Suc i) l"
proof -
  have early: "\<not> op_timestamp r < op_timestamp (l ! i)" if "r \<in> set (take (Suc i) l)" for r
  proof -
    from that obtain j where j: "j < Suc i" "r = l ! j" using assms(2) by (auto simp: in_set_conv_nth)
    then show ?thesis using assms sorted_wrt_nth_less[OF assms(1), of j i] by (cases "j = i") auto
  qed
  have late: "op_timestamp r < op_timestamp (l ! i)" if "r \<in> set (drop (Suc i) l)" for r
  proof -
    from that obtain j where "j < length l - Suc i" "r = l ! (Suc i + j)" by (auto simp: in_set_conv_nth)
    then show ?thesis using sorted_wrt_nth_less[OF assms(1), of i "Suc i + j"] by simp
  qed
  have "filter (\<lambda>r. op_timestamp r < op_timestamp (l ! i)) (take (Suc i) l @ drop (Suc i) l) = drop (Suc i) l"
    unfolding filter_append using early late by simp
  then show ?thesis by simp
qed

text \<open>One page: the rows from some place on, and a token for the rows after the page.\<close>

lemma get_page:
  assumes rest: "(case p of None \<Rightarrow> Some (\<lambda>_. True) | Some q \<Rightarrow> add_to_query rep q) = Some earlier"
    and rows: "filter earlier (newest_first (db_operations d)) = l"
  shows "fst (get_operations_page rep (\<lambda>_. None) p (conn_of d)) =
    Done (take PAGE_SIZE l, if PAGE_SIZE < length l then Some (calculate_pagination (take PAGE_SIZE l) p PAGE_SIZE) else None)"
proof -
  have "take PAGE_SIZE l \<noteq> []" if "PAGE_SIZE < length l" using that by (auto simp: PAGE_SIZE_def)
  moreover have "PAGE_SIZE < length (take (PAGE_SIZE + 1) l) \<longleftrightarrow> PAGE_SIZE < length l" by auto
  moreover have "0 < PAGE_SIZE" by (simp add: PAGE_SIZE_def)
  ultimately show ?thesis
    using rest unfolding get_operations_page_def list_page_def query_operations_with_pagination_def
    by (simp add: newest_first_filter rows bind_io_def run_statement_def conn_of_def Let_def pure_io_def min_def)
qed

text \<open>C27: when the operations have different timestamps, a client that follows the page tokens gets every operation exactly once, the newest
  first, after one request for each fifty of them.\<close>

theorem pages_list_every_operation:
  assumes "distinct (map op_timestamp (db_operations d))"
    and "\<forall>r \<in> set (db_operations d). whole (op_timestamp r) \<and> rep (timestamp_of (op_timestamp r))"
    and "length (db_operations d) < n * PAGE_SIZE"
  shows "follow_pages rep n None d = Some (newest_first (db_operations d))"
proof -
  let ?L = "newest_first (db_operations d)"
  have L: "set ?L = set (db_operations d)" "length ?L = length (db_operations d)"
    by (simp_all add: newest_first_def order_by_def)
  note strict = newest_first_strict[OF assms(1)]
  have "follow_pages rep n p d = Some (drop k ?L)"
    if "(case p of None \<Rightarrow> Some (\<lambda>_. True) | Some q \<Rightarrow> add_to_query rep q) = Some earlier" "filter earlier ?L = drop k ?L"
      "length ?L - k < n * PAGE_SIZE" for p earlier k
    using that
  proof (induction n arbitrary: p earlier k)
    case (Suc n)
    let ?page = "take PAGE_SIZE (drop k ?L)"
    note page = get_page[OF Suc.prems(1, 2)]
    show ?case
    proof (cases "PAGE_SIZE < length (drop k ?L)")
      case True
      let ?q = "calculate_pagination ?page p PAGE_SIZE"
      let ?i = "k + (PAGE_SIZE - 1)"
      have i: "?i < length ?L" "Suc ?i = k + PAGE_SIZE" using True by (auto simp: PAGE_SIZE_def)
      have last: "last ?page = ?L ! ?i" using True i by (simp add: last_conv_nth PAGE_SIZE_def)
      have "?L ! ?i \<in> set (db_operations d)" using i(1) L(1) nth_mem by blast
      then obtain t where t: "t < 2 ^ 62" "op_timestamp (?L ! ?i) = int t * micros_per_sec" "rep (int t)"
        using assms(2) by (fastforce simp: whole_def)
      have "add_to_query rep ?q = Some (\<lambda>r. op_timestamp r < op_timestamp (?L ! ?i))"
        unfolding add_to_query_def calculate_pagination_def last using t by (simp add: timestamp_to_naive_def)
      then have "follow_pages rep n (Some ?q) d = Some (drop (k + PAGE_SIZE) ?L)"
        using Suc.prems(3) earlier_than_nth[OF strict i(1)] i(2) True
        by (intro Suc.IH[where earlier = "\<lambda>r. op_timestamp r < op_timestamp (?L ! ?i)"]) auto
      then show ?thesis using page True by (simp add: drop_drop add.commute) (metis append_take_drop_id drop_drop add.commute)
    next
      case False
      then show ?thesis using page by simp
    qed
  qed simp
  from this[of None "\<lambda>_. True" 0] show ?thesis using assms(3) L(2) by simp
qed

definition sample_listing :: "unit tac_db" where
  "sample_listing = sample_tables Pending [sample_row Pending None, (sample_row Completed (Some ''ROLLBACK''))\<lparr>op_id := ''new'', op_timestamp := 4000000\<rparr>]"

theorem pages_list_every_operation_witness:
  "map_option (map op_id) (follow_pages (\<lambda>_. True) 1 None sample_listing) = Some [''new'', ''op'']"
proof -
  have "whole 3000000" "whole 4000000" using wholeI[of 3] wholeI[of 4] by (simp_all add: micros_per_sec_def)
  then have "follow_pages (\<lambda>_. True) 1 None sample_listing = Some (newest_first (db_operations sample_listing))"
    by (intro pages_list_every_operation) (simp_all add: sample_listing_def sample_tables_def sample_row_def PAGE_SIZE_def)
  then show ?thesis by (simp add: sample_listing_def sample_tables_def sample_row_def newest_first_def order_by_def)
qed

text \<open>When more than a page of operations have the same timestamp, the token skips all of them that are not on the first page.\<close>

lemma pages_skip_equal_timestamps:
  assumes same: "\<And>r. r \<in> set (db_operations d) \<Longrightarrow> op_timestamp r = int t * micros_per_sec" and t: "t < 2 ^ 62" "rep (int t)"
    and many: "PAGE_SIZE < length (db_operations d)" and n: "2 \<le> n"
  shows "follow_pages rep n None d = Some (take PAGE_SIZE (newest_first (db_operations d)))"
proof -
  let ?L = "newest_first (db_operations d)"
  have L: "set ?L = set (db_operations d)" "length ?L = length (db_operations d)" by (simp_all add: newest_first_def order_by_def)
  obtain m where m: "n = Suc (Suc m)" using n by (intro that[of "n - 2"]) simp
  let ?page = "take PAGE_SIZE ?L"
  let ?q = "calculate_pagination ?page None PAGE_SIZE"
  have ne: "?page \<noteq> []" using many L(2) by (auto simp: PAGE_SIZE_def)
  then have "last ?page \<in> set (db_operations d)" using L(1) in_set_takeD last_in_set by metis
  then have "add_to_query rep ?q = Some (\<lambda>r. op_timestamp r < int t * micros_per_sec)"
    using same t by (simp add: add_to_query_def calculate_pagination_def timestamp_to_naive_def)
  moreover have "filter (\<lambda>r. op_timestamp r < int t * micros_per_sec) ?L = []" using same L(1) by (simp add: filter_empty_conv)
  ultimately have "fst (get_operations_page rep (\<lambda>_. None) (Some ?q) (conn_of d)) = Done ([], None)"
    using get_page[of rep "Some ?q" "\<lambda>r. op_timestamp r < int t * micros_per_sec" d "[]"] by simp
  moreover have "fst (get_operations_page rep (\<lambda>_. None) None (conn_of d)) = Done (?page, Some ?q)"
    using get_page[of rep None "\<lambda>_. True" d ?L] many L(2) by simp
  ultimately show ?thesis unfolding m by simp
qed

section \<open>An interval as one function and as steps\<close>

text \<open>A job that runs to its end without a step of anything else in between.\<close>

fun run_job :: "page_service \<Rightarrow> (int \<Rightarrow> bool) \<Rightarrow> faults \<Rightarrow> int \<Rightarrow> nat \<Rightarrow> interval_job \<Rightarrow> ('n tac_db, unit) io" where
  "run_job service rep F now 0 j c = (Panicked, c)"
| "run_job service rep F now (Suc n) j c =
     (case advance_interval_job service rep F now j c of
        (Done (Some j'), c') \<Rightarrow> run_job service rep F now n j' c'
      | (Done None, c') \<Rightarrow> (Done (), c')
      | (Failed e, c') \<Rightarrow> (Failed e, c')
      | (Panicked, c') \<Rightarrow> (Panicked, c'))"

lemma four_steps: "run_job service rep F now 4 j c = run_job service rep F now (Suc (Suc (Suc (Suc 0)))) j c"
  by (simp add: numeral_eq_Suc)

text \<open>the steps of a job are the function that processes an interval, cut at the points where it waits: run without
  interruption, at most four of them have the effect and the outcome of the whole function.\<close>

theorem steps_are_process_interval:
  "run_job service rep F now 4 (FetchOperations iv) c = process_interval_with_retries service rep F now iv c"
proof (cases "get_operations service (request_start iv + 1) (request_end iv)")
  case (Inl e)
  then show ?thesis
    by (simp add: process_interval_with_retries_def fetch_historical_operations_def fail_io_def four_steps pure_io_def
        on_error_def ignore_error_def split: outcome.splits prod.splits)
next
  case (Inr ops)
  show ?thesis
  proof (cases "ops = []")
    case True
    then show ?thesis using Inr
      by (simp add: process_interval_with_retries_def fetch_historical_operations_def four_steps pure_io_def bind_io_def
          on_error_def ignore_error_def split: outcome.splits prod.splits)
  next
    case False
    then show ?thesis using Inr
      by (simp add: process_interval_with_retries_def fetch_historical_operations_def four_steps pure_io_def bind_io_def
          on_error_def ignore_error_def split: outcome.splits prod.splits)
  qed
qed

end
