(* ===== verification/Code_Methods.thy ===== *)
theory Code_Methods
  imports Code_Auxdata "HOL-Library.Sublist"
begin

text \<open>
  The lookup of methods
  (\<^verbatim>\<open>smart-contract-verifier/smart-contract-verifier/src/lookup_methods\<close>): runtime code is
  disassembled, the dispatcher's comparison with the selector of each function of the ABI is looked for
  in it, and the jump that follows leads to the function and, through the source map, to its place in the source.

  The ABI library is the record \<open>function_lib\<close>: the signature and the selector of a function. A panic is \<open>None\<close>.
\<close>

section \<open>Strings and numbers of the standard library\<close>

text \<open>\<open>str::contains\<close>, and \<open>str::replace\<close> by the empty string.\<close>

fun contains :: "string \<Rightarrow> string \<Rightarrow> bool" where
  "contains pat [] = (pat = [])"
| "contains pat (c # s) = (prefix pat (c # s) \<or> contains pat s)"

function remove_all :: "string \<Rightarrow> string \<Rightarrow> string" where
  "remove_all pat [] = []"
| "remove_all pat (c # s) =
     (if pat \<noteq> [] \<and> prefix pat (c # s) then remove_all pat (drop (length pat) (c # s)) else c # remove_all pat s)"
  by pat_completeness auto
termination
  by (relation "measure (\<lambda>(pat, s). length s)") auto

text \<open>\<open>char::to_digit\<close>, and \<open>from_str_radix\<close> of an unsigned type with maximum \<open>most\<close>.\<close>

definition to_digit :: "nat \<Rightarrow> char \<Rightarrow> nat option" where
  "to_digit radix c =
     (let n = of_char c :: nat;
          d = (if 48 \<le> n \<and> n \<le> 57 then Some (n - 48)
               else if 97 \<le> n \<and> n \<le> 122 then Some (n - 87)
               else if 65 \<le> n \<and> n \<le> 90 then Some (n - 55) else None)
      in case d of Some k \<Rightarrow> if k < radix then Some k else None | None \<Rightarrow> None)"

fun parse_digits :: "nat \<Rightarrow> nat \<Rightarrow> nat \<Rightarrow> string \<Rightarrow> nat option" where
  "parse_digits most radix acc [] = Some acc"
| "parse_digits most radix acc (c # cs) =
     (case to_digit radix c of
        None \<Rightarrow> None
      | Some d \<Rightarrow> if most < acc * radix \<or> most < acc * radix + d then None
                  else parse_digits most radix (acc * radix + d) cs)"

definition from_str_radix :: "nat \<Rightarrow> nat \<Rightarrow> string \<Rightarrow> nat option" where
  "from_str_radix most radix s =
     (if s = [] \<or> s = ''+'' \<or> s = ''-'' then None
      else parse_digits most radix 0 (if hd s = CHR ''+'' then tl s else s))"

text \<open>\<open>hex::encode\<close>\<close>

definition hex_digit :: "nat \<Rightarrow> char" where
  "hex_digit d = char_of (if d < 10 then 48 + d else 87 + d)"

definition encode_hex :: "bytes \<Rightarrow> string" where
  "encode_hex bs = concat (map (\<lambda>b. [hex_digit (unat b div 16), hex_digit (unat b mod 16)]) bs)"

section \<open>Opcodes\<close>

record evm_opcode =
  oc_code :: "8 word"
  oc_name :: string

definition opcode_table :: "(8 word \<times> string) list" where
  "opcode_table =
   [(0x00, ''STOP''), (0x01, ''ADD''), (0x02, ''MUL''), (0x03, ''SUB''), (0x04, ''DIV''), (0x05, ''SDIV''),
    (0x06, ''MOD''), (0x07, ''SMOD''), (0x08, ''ADDMOD''), (0x09, ''MULMOD''), (0x0a, ''EXP''),
    (0x0b, ''SIGNEXTEND''), (0x10, ''LT''), (0x11, ''GT''), (0x12, ''SLT''), (0x13, ''SGT''), (0x14, ''EQ''),
    (0x15, ''ISZERO''), (0x16, ''AND''), (0x17, ''OR''), (0x18, ''XOR''), (0x19, ''NOT''), (0x1a, ''BYTE''),
    (0x1b, ''SHL''), (0x1c, ''SHR''), (0x1d, ''SAR''), (0x20, ''SHA3''), (0x30, ''ADDRESS''),
    (0x31, ''BALANCE''), (0x32, ''ORIGIN''), (0x33, ''CALLER''), (0x34, ''CALLVALUE''), (0x35, ''CALLDATALOAD''),
    (0x36, ''CALLDATASIZE''), (0x37, ''CALLDATACOPY''), (0x38, ''CODESIZE''), (0x39, ''CODECOPY''),
    (0x3a, ''GASPRICE''), (0x3b, ''EXTCODESIZE''), (0x3c, ''EXTCODECOPY''), (0x3d, ''RETURNDATASIZE''),
    (0x3e, ''RETURNDATACOPY''), (0x3f, ''EXTCODEHASH''), (0x40, ''BLOCKHASH''), (0x41, ''COINBASE''),
    (0x42, ''TIMESTAMP''), (0x43, ''NUMBER''), (0x44, ''DIFFICULTY''), (0x45, ''GASLIMIT''), (0x46, ''CHAINID''),
    (0x47, ''SELFBALANCE''), (0x48, ''BASEFEE''), (0x50, ''POP''), (0x51, ''MLOAD''), (0x52, ''MSTORE''),
    (0x53, ''MSTORE8''), (0x54, ''SLOAD''), (0x55, ''SSTORE''), (0x56, ''JUMP''), (0x57, ''JUMPI''),
    (0x58, ''PC''), (0x59, ''MSIZE''), (0x5a, ''GAS''), (0x5b, ''JUMPDEST''), (0x5f, ''PUSH0''),
    (0x60, ''PUSH1''), (0x61, ''PUSH2''), (0x62, ''PUSH3''), (0x63, ''PUSH4''), (0x64, ''PUSH5''),
    (0x65, ''PUSH6''), (0x66, ''PUSH7''), (0x67, ''PUSH8''), (0x68, ''PUSH9''), (0x69, ''PUSH10''),
    (0x6a, ''PUSH11''), (0x6b, ''PUSH12''), (0x6c, ''PUSH13''), (0x6d, ''PUSH14''), (0x6e, ''PUSH15''),
    (0x6f, ''PUSH16''), (0x70, ''PUSH17''), (0x71, ''PUSH18''), (0x72, ''PUSH19''), (0x73, ''PUSH20''),
    (0x74, ''PUSH21''), (0x75, ''PUSH22''), (0x76, ''PUSH23''), (0x77, ''PUSH24''), (0x78, ''PUSH25''),
    (0x79, ''PUSH26''), (0x7a, ''PUSH27''), (0x7b, ''PUSH28''), (0x7c, ''PUSH29''), (0x7d, ''PUSH30''),
    (0x7e, ''PUSH31''), (0x7f, ''PUSH32''), (0x80, ''DUP1''), (0x81, ''DUP2''), (0x82, ''DUP3''),
    (0x83, ''DUP4''), (0x84, ''DUP5''), (0x85, ''DUP6''), (0x86, ''DUP7''), (0x87, ''DUP8''), (0x88, ''DUP9''),
    (0x89, ''DUP10''), (0x8a, ''DUP11''), (0x8b, ''DUP12''), (0x8c, ''DUP13''), (0x8d, ''DUP14''),
    (0x8e, ''DUP15''), (0x8f, ''DUP16''), (0x90, ''SWAP1''), (0x91, ''SWAP2''), (0x92, ''SWAP3''),
    (0x93, ''SWAP4''), (0x94, ''SWAP5''), (0x95, ''SWAP6''), (0x96, ''SWAP7''), (0x97, ''SWAP8''),
    (0x98, ''SWAP9''), (0x99, ''SWAP10''), (0x9a, ''SWAP11''), (0x9b, ''SWAP12''), (0x9c, ''SWAP13''),
    (0x9d, ''SWAP14''), (0x9e, ''SWAP15''), (0x9f, ''SWAP16''), (0xa0, ''LOG0''), (0xa1, ''LOG1''),
    (0xa2, ''LOG2''), (0xa3, ''LOG3''), (0xa4, ''LOG4''), (0xf0, ''CREATE''), (0xf1, ''CALL''),
    (0xf2, ''CALLCODE''), (0xf3, ''RETURN''), (0xf4, ''DELEGATECALL''), (0xf5, ''CREATE2''),
    (0xfa, ''STATICCALL''), (0xfd, ''REVERT''), (0xfe, ''INVALID''), (0xff, ''SELFDESTRUCT'')]"

definition opcode :: "8 word \<Rightarrow> evm_opcode" where
  "opcode code =
     \<lparr>oc_code = code,
      oc_name = (case map_of opcode_table code of Some name \<Rightarrow> name | None \<Rightarrow> ''unknown'')\<rparr>"

section \<open>Disassembly\<close>

record disassembled_opcode =
  dis_operation :: evm_opcode
  dis_program_counter :: nat
  dis_args :: bytes

text \<open>The bytes an operation takes from the code: none when the code ends before them.\<close>

definition operation_args :: "bytes \<Rightarrow> nat \<Rightarrow> evm_opcode \<Rightarrow> bytes option" where
  "operation_args bytecode pc operation =
     (if contains ''PUSH'' (oc_name operation)
      then (case from_str_radix 255 10 (remove_all ''PUSH'' (oc_name operation)) of
              None \<Rightarrow> None
            | Some byte_count_to_push \<Rightarrow>
                Some (case slice bytecode (pc + 1) (pc + 1 + byte_count_to_push) of
                        Some bs \<Rightarrow> bs
                      | None \<Rightarrow> []))
      else Some [])"

function disassemble_loop :: "bytes \<Rightarrow> nat \<Rightarrow> disassembled_opcode list option" where
  "disassemble_loop bytecode pc =
     (if pc < length bytecode
      then (let operation = opcode (bytecode ! pc)
            in case operation_args bytecode pc operation of
                 None \<Rightarrow> None
               | Some args \<Rightarrow>
                   map_option (Cons \<lparr>dis_operation = operation, dis_program_counter = pc, dis_args = args\<rparr>)
                     (disassemble_loop bytecode (pc + length args + 1)))
      else Some [])"
  by pat_completeness auto
termination
  by (relation "measure (\<lambda>(bytecode, pc). length bytecode - pc)") auto

declare disassemble_loop.simps [simp del]

definition disassemble_bytecode :: "bytes \<Rightarrow> disassembled_opcode list option" where
  "disassemble_bytecode bytecode = disassemble_loop bytecode 0"

section \<open>The place of a function\<close>

text \<open>\<open>slice::windows\<close>, and \<open>prepend_selector\<close>: fill up with zeros on the left to four bytes.\<close>

definition windows :: "nat \<Rightarrow> 'a list \<Rightarrow> 'a list list" where
  "windows n xs = map (\<lambda>i. take n (drop i xs)) [0..<length xs + 1 - n]"

definition prepend_selector :: "bytes \<Rightarrow> (string, bytes) result" where
  "prepend_selector partial_selector =
     (if 4 < length partial_selector then Err ''selector is too long''
      else Ok (replicate (4 - length partial_selector) 0 @ partial_selector))"

text \<open>The index of the operation at the target of a jump.\<close>

definition target_opcode_index :: "nat \<Rightarrow> disassembled_opcode list \<Rightarrow> nat option" where
  "target_opcode_index jump_to opcodes =
     map_option fst (find (\<lambda>(index, op). dis_program_counter op = jump_to) (enumerate 0 opcodes))"

text \<open>
  The body of the loop has the same block for both shapes of the comparison. A block continues with the
  next window, returns, or falls through to what stands after it.
\<close>

datatype block = Next_Window | Return_Index "nat option" | Fall_Through

definition comparison_block :: "bytes \<Rightarrow> bytes \<Rightarrow> bytes \<Rightarrow> disassembled_opcode list \<Rightarrow> block" where
  "comparison_block selector selector_args jump_args opcodes =
     (if prepend_selector selector_args \<noteq> Ok selector then Next_Window
      else (case from_str_radix u64_max 16 (encode_hex jump_args) of
              None \<Rightarrow> Return_Index None
            | Some jump_to \<Rightarrow>
                (case target_opcode_index jump_to opcodes of
                   Some index \<Rightarrow> Return_Index (Some index)
                 | None \<Rightarrow> Fall_Through)))"

abbreviation name_of :: "disassembled_opcode \<Rightarrow> string" where
  "name_of op \<equiv> oc_name (dis_operation op)"

definition plain_comparison :: "disassembled_opcode list \<Rightarrow> bool" where
  "plain_comparison window \<longleftrightarrow>
     prefix ''PUSH'' (name_of (window ! 0)) \<and> name_of (window ! 1) = ''EQ''
     \<and> prefix ''PUSH'' (name_of (window ! 2)) \<and> name_of (window ! 3) = ''JUMPI''"

definition duplicating_comparison :: "disassembled_opcode list \<Rightarrow> bool" where
  "duplicating_comparison window \<longleftrightarrow>
     prefix ''PUSH'' (name_of (window ! 0)) \<and> name_of (window ! 1) = ''DUP2'' \<and> name_of (window ! 2) = ''EQ''
     \<and> prefix ''PUSH'' (name_of (window ! 3)) \<and> name_of (window ! 4) = ''JUMPI''"

fun find_in_windows :: "bytes \<Rightarrow> disassembled_opcode list \<Rightarrow> disassembled_opcode list list \<Rightarrow> nat option" where
  "find_in_windows selector opcodes [] = None"
| "find_in_windows selector opcodes (window # rest) =
     (case (if plain_comparison window
            then comparison_block selector (dis_args (window ! 0)) (dis_args (window ! 2)) opcodes
            else Fall_Through) of
        Next_Window \<Rightarrow> find_in_windows selector opcodes rest
      | Return_Index r \<Rightarrow> r
      | Fall_Through \<Rightarrow>
          (case (if duplicating_comparison window
                 then comparison_block selector (dis_args (window ! 0)) (dis_args (window ! 3)) opcodes
                 else Fall_Through) of
             Next_Window \<Rightarrow> find_in_windows selector opcodes rest
           | Return_Index r \<Rightarrow> r
           | Fall_Through \<Rightarrow> find_in_windows selector opcodes rest))"

definition find_src_map_index :: "bytes \<Rightarrow> disassembled_opcode list \<Rightarrow> nat option" where
  "find_src_map_index selector opcodes = find_in_windows selector opcodes (windows 5 opcodes)"

section \<open>Methods\<close>

record source_element =
  se_offset :: nat
  se_length :: nat
  se_index :: "nat option"

record contract_method =
  me_selector :: bytes
  me_offset :: nat
  me_length :: nat
  me_filename :: string

datatype method_error = No_Function_Index | Not_In_Output_Sources "nat option"

definition from_source_map ::
  "bytes \<Rightarrow> source_element list \<Rightarrow> nat \<Rightarrow> (nat \<rightharpoonup> string) \<Rightarrow> (method_error, contract_method) result" where
  "from_source_map selector source_map index file_ids =
     (if index < length source_map
      then (let src = source_map ! index
            in case Option.bind (se_index src) file_ids of
                 None \<Rightarrow> Err (Not_In_Output_Sources (se_index src))
               | Some filename \<Rightarrow>
                   Ok \<lparr>me_selector = selector, me_offset = se_offset src, me_length = se_length src,
                       me_filename = filename\<rparr>)
      else Err No_Function_Index)"

record 'f function_lib =
  fn_signature :: "'f \<Rightarrow> string"
  fn_short_signature :: "'f \<Rightarrow> bytes"

record 'f lookup_methods_request =
  lm_bytecode :: bytes
  lm_abi :: "'f list"
  lm_source_map :: "source_element list"
  lm_file_ids :: "nat \<rightharpoonup> string"

definition parse_selectors :: "'f function_lib \<Rightarrow> 'f list \<Rightarrow> (string \<times> bytes) list" where
  "parse_selectors lib abi =
     fold (\<lambda>f m. btree_insert (fn_signature lib f) (fn_short_signature lib f) m) abi []"

definition method_entry ::
  "source_element list \<Rightarrow> (nat \<rightharpoonup> string) \<Rightarrow> disassembled_opcode list \<Rightarrow> string \<times> bytes
     \<Rightarrow> (string \<times> contract_method) option" where
  "method_entry source_map file_ids opcodes m =
     (case find_src_map_index (snd m) opcodes of
        None \<Rightarrow> None
      | Some func_index \<Rightarrow>
          (case from_source_map (snd m) source_map func_index file_ids of
             Inl err \<Rightarrow> None
           | Inr me \<Rightarrow> Some (encode_hex (snd m), me)))"

definition find_methods ::
  "'f function_lib \<Rightarrow> 'f lookup_methods_request \<Rightarrow> (string \<times> contract_method) list option" where
  "find_methods lib request =
     (case disassemble_bytecode (lm_bytecode request) of
        None \<Rightarrow> None
      | Some opcodes \<Rightarrow>
          Some (fold (\<lambda>e m. btree_insert (fst e) (snd e) m)
            (List.map_filter (method_entry (lm_source_map request) (lm_file_ids request) opcodes)
               (parse_selectors lib (lm_abi request))) []))"

section \<open>The table of opcodes\<close>

text \<open>What the rest of the code reads off the table, checked entry by entry.\<close>

definition entry_ok :: "8 word \<times> string \<Rightarrow> bool" where
  "entry_ok e =
     ((if 0x5f \<le> fst e \<and> fst e \<le> 0x7f
       then contains ''PUSH'' (snd e) \<and> prefix ''PUSH'' (snd e)
         \<and> from_str_radix 255 10 (remove_all ''PUSH'' (snd e)) = Some (unat (fst e) - 0x5f)
       else \<not> contains ''PUSH'' (snd e) \<and> \<not> prefix ''PUSH'' (snd e))
      \<and> (snd e = ''EQ'') = (fst e = 0x14) \<and> (snd e = ''DUP2'') = (fst e = 0x81)
      \<and> (snd e = ''JUMPI'') = (fst e = 0x57))"

lemma entries_ok: "list_all entry_ok opcode_table"
  by code_simp

lemma entries_codes:
  "map (\<lambda>e. unat (fst e)) opcode_table =
     [0..<12] @ [16..<30] @ [0x20] @ [0x30..<0x49] @ [0x50..<0x5c] @ [0x5f..<0xa5] @ [0xf0..<0xf6]
       @ [0xfa, 0xfd, 0xfe, 0xff]"
  by code_simp

lemma entries_present:
  assumes "n \<in> {0x14, 0x57, 0x81} \<union> {0x5f..<0x80}" "unat c = n"
  shows "map_of opcode_table c \<noteq> None"
proof -
  have "unat ` fst ` set opcode_table = set (map (\<lambda>e. unat (fst e)) opcode_table)"
    by (simp add: image_image)
  also have "\<dots> \<supseteq> {0x14, 0x57, 0x81} \<union> {0x5f..<0x80}"
    unfolding entries_codes set_append set_upt by auto
  finally have "unat c \<in> unat ` fst ` set opcode_table" using assms by blast
  then have "c \<in> fst ` set opcode_table" by (auto dest: word_unat_eq_iff[THEN iffD2])
  then show ?thesis by (simp add: map_of_eq_None_iff)
qed

lemma unknown_name:
  "\<not> contains ''PUSH'' ''unknown''" "\<not> prefix ''PUSH'' ''unknown''"
  by code_simp+

lemma opcode_entry: "entry_ok (c, oc_name (opcode c))"
proof (cases "map_of opcode_table c")
  case (Some name)
  then have "(c, name) \<in> set opcode_table" by (rule map_of_SomeD)
  with entries_ok Some show ?thesis by (simp add: list_all_iff opcode_def)
next
  case None
  then have absent: "unat c \<notin> {0x14, 0x57, 0x81} \<union> {0x5f..<0x80}"
    using entries_present[OF _ refl, of c] by blast
  have "\<not> (0x5f \<le> c \<and> c \<le> 0x7f)" using absent by (auto simp: word_le_nat_alt)
  moreover have "c \<noteq> 0x14" "c \<noteq> 0x57" "c \<noteq> 0x81" using absent by auto
  ultimately show ?thesis using None unknown_name by (simp add: entry_ok_def opcode_def)
qed

lemma opcode_names:
  "contains ''PUSH'' (oc_name (opcode c)) \<longleftrightarrow> 0x5f \<le> c \<and> c \<le> 0x7f"
  "prefix ''PUSH'' (oc_name (opcode c)) \<longleftrightarrow> 0x5f \<le> c \<and> c \<le> 0x7f"
  "oc_name (opcode c) = ''EQ'' \<longleftrightarrow> c = 0x14"
  "oc_name (opcode c) = ''DUP2'' \<longleftrightarrow> c = 0x81"
  "oc_name (opcode c) = ''JUMPI'' \<longleftrightarrow> c = 0x57"
  using opcode_entry[of c] by (simp_all add: entry_ok_def split: if_splits)

lemma opcode_width:
  "0x5f \<le> c \<Longrightarrow> c \<le> 0x7f \<Longrightarrow>
     from_str_radix 255 10 (remove_all ''PUSH'' (oc_name (opcode c))) = Some (unat c - 0x5f)"
  using opcode_entry[of c] by (simp add: entry_ok_def)

lemma opcode_code [simp]: "oc_code (opcode c) = c"
  by (simp add: opcode_def)

section \<open>Disassembling keeps the code\<close>

definition opcode_bytes :: "disassembled_opcode \<Rightarrow> bytes" where
  "opcode_bytes op = oc_code (dis_operation op) # dis_args op"

text \<open>
  How many bytes the machine reads after an operation: \<open>PUSHn\<close> reads \<open>n\<close>. The code counts none when
  it ends before them.
\<close>

definition push_width :: "nat \<Rightarrow> nat \<Rightarrow> 8 word \<Rightarrow> nat" where
  "push_width len pc c =
     (let n = unat c - 0x5f in if 0x60 \<le> c \<and> c \<le> 0x7f \<and> pc + n < len then n else 0)"

lemma operation_args_eq:
  "operation_args bytecode pc (opcode c) = Some (take (push_width (length bytecode) pc c) (drop (pc + 1) bytecode))"
proof (cases "0x5f \<le> c \<and> c \<le> 0x7f")
  case True
  have "c = 0x5f \<or> 0x60 \<le> c"
    using True by (auto simp: word_le_nat_alt word_unat_eq_iff)
  then show ?thesis
    using True opcode_width[of c]
    by (auto simp: operation_args_def opcode_names slice_def push_width_def Let_def)
next
  case False
  moreover from False have "\<not> (0x60 \<le> c \<and> c \<le> 0x7f)" by (auto simp: word_le_nat_alt)
  ultimately show ?thesis by (auto simp: operation_args_def opcode_names push_width_def Let_def)
qed

lemma push_width_bound: "pc < len \<Longrightarrow> pc + push_width len pc c < len"
  by (auto simp: push_width_def Let_def)

text \<open>One step of the loop, without its error branch.\<close>

definition read_opcode :: "bytes \<Rightarrow> nat \<Rightarrow> disassembled_opcode" where
  "read_opcode bytecode pc =
     \<lparr>dis_operation = opcode (bytecode ! pc), dis_program_counter = pc,
      dis_args = take (push_width (length bytecode) pc (bytecode ! pc)) (drop (pc + 1) bytecode)\<rparr>"

lemma read_opcode_fields [simp]:
  "dis_operation (read_opcode bytecode pc) = opcode (bytecode ! pc)"
  "dis_program_counter (read_opcode bytecode pc) = pc"
  "pc < length bytecode \<Longrightarrow>
     length (dis_args (read_opcode bytecode pc)) = push_width (length bytecode) pc (bytecode ! pc)"
  using push_width_bound[of pc "length bytecode" "bytecode ! pc"] by (simp_all add: read_opcode_def)

lemma disassemble_step:
  "disassemble_loop bytecode pc =
     (if pc < length bytecode
      then map_option (Cons (read_opcode bytecode pc))
             (disassemble_loop bytecode (pc + length (opcode_bytes (read_opcode bytecode pc))))
      else Some [])"
  by (subst disassemble_loop.simps)
     (simp add: operation_args_eq read_opcode_def opcode_bytes_def Let_def)

lemma read_opcode_bytes:
  assumes "pc < length bytecode"
  shows "opcode_bytes (read_opcode bytecode pc) @ drop (pc + length (opcode_bytes (read_opcode bytecode pc))) bytecode
       = drop pc bytecode"
proof -
  let ?n = "push_width (length bytecode) pc (bytecode ! pc)"
  have len: "length (take ?n (drop (pc + 1) bytecode)) = ?n"
    using push_width_bound[OF assms, of "bytecode ! pc"] by simp
  have bytes: "opcode_bytes (read_opcode bytecode pc) = bytecode ! pc # take ?n (drop (pc + 1) bytecode)"
    by (simp add: opcode_bytes_def read_opcode_def)
  have "drop (pc + length (opcode_bytes (read_opcode bytecode pc))) bytecode = drop ?n (drop (pc + 1) bytecode)"
    unfolding bytes using len by (simp add: ac_simps)
  moreover have "drop pc bytecode = bytecode ! pc # drop (pc + 1) bytecode"
    using Cons_nth_drop_Suc[OF assms] by simp
  ultimately show ?thesis unfolding bytes by (simp only: append_Cons append_take_drop_id)
qed

lemma disassemble_loop_spec:
  "\<exists>ops. disassemble_loop bytecode pc = Some ops
     \<and> concat (map opcode_bytes ops) = drop pc bytecode
     \<and> map dis_program_counter ops = map (\<lambda>i. pc + length (concat (map opcode_bytes (take i ops)))) [0..<length ops]
     \<and> list_all (\<lambda>op. op = read_opcode bytecode (dis_program_counter op) \<and> dis_program_counter op < length bytecode) ops"
proof (induction "length bytecode - pc" arbitrary: pc rule: less_induct)
  case less
  show ?case
  proof (cases "pc < length bytecode")
    case True
    let ?op = "read_opcode bytecode pc"
    let ?pc = "pc + length (opcode_bytes ?op)"
    have "length bytecode - ?pc < length bytecode - pc" using True by (simp add: opcode_bytes_def)
    from less[OF this] obtain ops where ops: "disassemble_loop bytecode ?pc = Some ops"
      "concat (map opcode_bytes ops) = drop ?pc bytecode"
      "map dis_program_counter ops = map (\<lambda>i. ?pc + length (concat (map opcode_bytes (take i ops)))) [0..<length ops]"
      "list_all (\<lambda>op. op = read_opcode bytecode (dis_program_counter op) \<and> dis_program_counter op < length bytecode) ops"
      by blast
    have "disassemble_loop bytecode pc = Some (?op # ops)"
      using True ops(1) by (subst disassemble_step) simp
    moreover have "concat (map opcode_bytes (?op # ops)) = drop pc bytecode"
      using ops(2) read_opcode_bytes[OF True] by simp
    moreover have "map dis_program_counter (?op # ops)
        = map (\<lambda>i. pc + length (concat (map opcode_bytes (take i (?op # ops))))) [0..<length (?op # ops)]"
      using ops(3)
      by (simp add: upt_conv_Cons map_Suc_upt[symmetric] add.assoc del: upt_Suc)
    moreover have "list_all (\<lambda>op. op = read_opcode bytecode (dis_program_counter op)
        \<and> dis_program_counter op < length bytecode) (?op # ops)"
      using ops(4) True by simp
    ultimately show ?thesis by blast
  next
    case False
    then have "disassemble_loop bytecode pc = Some []" by (subst disassemble_step) simp
    with False show ?thesis by simp
  qed
qed

text \<open>C29: 
  Disassembling never panics and loses nothing: the operations written out one after the other
  are the code, the counter of each is its place in it, and each takes as many bytes as the machine's
  instruction of that code, or none when the code ends before them.
\<close>

theorem disassembly_reads_back:
  "\<exists>ops. disassemble_bytecode bytecode = Some ops
     \<and> concat (map opcode_bytes ops) = bytecode
     \<and> map dis_program_counter ops = map (\<lambda>i. length (concat (map opcode_bytes (take i ops)))) [0..<length ops]
     \<and> list_all (\<lambda>op. dis_operation op = opcode (bytecode ! dis_program_counter op)
         \<and> length (dis_args op) = push_width (length bytecode) (dis_program_counter op)
             (bytecode ! dis_program_counter op)) ops"
proof -
  obtain ops where ops: "disassemble_loop bytecode 0 = Some ops"
    "concat (map opcode_bytes ops) = drop 0 bytecode"
    "map dis_program_counter ops = map (\<lambda>i. 0 + length (concat (map opcode_bytes (take i ops)))) [0..<length ops]"
    "list_all (\<lambda>op. op = read_opcode bytecode (dis_program_counter op) \<and> dis_program_counter op < length bytecode) ops"
    using disassemble_loop_spec[of bytecode 0] by blast
  have "list_all (\<lambda>op. dis_operation op = opcode (bytecode ! dis_program_counter op)
      \<and> length (dis_args op) = push_width (length bytecode) (dis_program_counter op)
          (bytecode ! dis_program_counter op)) ops"
    using ops(4) unfolding list_all_iff by (metis read_opcode_fields(1,3))
  with ops(1-3) show ?thesis by (auto simp: disassemble_bytecode_def)
qed

section \<open>The search for the dispatcher's comparison\<close>

text \<open>Numbers in hexadecimal: the address that a jump pushes.\<close>

definition number_of_bytes :: "bytes \<Rightarrow> nat" where
  "number_of_bytes bs = foldl (\<lambda>a b. 256 * a + unat b) 0 bs"

lemma foldl_value_mono: "a \<le> foldl (\<lambda>a b. 256 * a + unat (b :: 8 word)) a bs"
proof (induction bs arbitrary: a)
  case (Cons b bs)
  have "a \<le> 256 * a + unat b" by simp
  also have "\<dots> \<le> foldl (\<lambda>a b. 256 * a + unat b) (256 * a + unat b) bs" by (rule Cons)
  finally show ?case by simp
qed simp

lemma byte_div_less: "unat (b :: 8 word) div 16 < 16"
  using unsigned_less[of b, where ?'a = nat] by (simp add: less_mult_imp_div_less)

lemma hex_digit_code: "d < 16 \<Longrightarrow> of_char (hex_digit d) = (if d < 10 then 48 + d else 87 + d :: nat)"
  by (simp add: hex_digit_def)

lemma to_digit_hex_digit: "d < 16 \<Longrightarrow> to_digit 16 (hex_digit d) = Some d"
  by (simp add: to_digit_def hex_digit_code Let_def)

lemma parse_digits_hex:
  "parse_digits most 16 a (encode_hex bs) =
     (if bs \<noteq> [] \<and> most < foldl (\<lambda>a b. 256 * a + unat b) a bs then None
      else Some (foldl (\<lambda>a b. 256 * a + unat b) a bs))"
proof (induction bs arbitrary: a)
  case Nil
  then show ?case by (simp add: encode_hex_def)
next
  case (Cons b bs)
  let ?h = "unat b div 16" and ?l = "unat b mod 16"
  have "?h < 16" "?l < 16" by (simp_all add: byte_div_less)
  note digits = to_digit_hex_digit[OF this(1)] to_digit_hex_digit[OF this(2)]
  have val: "(a * 16 + ?h) * 16 + ?l = 256 * a + unat b"
  proof -
    have "(a * 16 + ?h) * 16 + ?l = 256 * a + (?h * 16 + ?l)" by simp
    then show ?thesis by (simp only: div_mult_mod_eq)
  qed
  have step: "parse_digits most 16 a (encode_hex (b # bs)) =
      (if most < 256 * a + unat b then None else parse_digits most 16 (256 * a + unat b) (encode_hex bs))"
  proof -
    have "encode_hex (b # bs) = hex_digit ?h # hex_digit ?l # encode_hex bs"
      by (simp add: encode_hex_def)
    moreover have "a * 16 + ?h \<le> 256 * a + unat b" "(a * 16 + ?h) * 16 \<le> 256 * a + unat b"
      using val by linarith+
    ultimately show ?thesis
      by (simp only: parse_digits.simps digits option.case val) auto
  qed
  show ?case
    using foldl_value_mono[of "256 * a + unat b" bs] by (simp add: step Cons)
qed

lemma encode_hex_Cons: "encode_hex (b # bs) = hex_digit (unat b div 16) # hex_digit (unat b mod 16) # encode_hex bs"
  by (simp add: encode_hex_def)

lemma hex_digit_not_sign: "d < 16 \<Longrightarrow> hex_digit d \<noteq> CHR ''+''" 
  using hex_digit_code[of d] by (auto split: if_splits)

lemma from_str_radix_hex:
  "from_str_radix most 16 (encode_hex bs) =
     (if bs = [] \<or> most < number_of_bytes bs then None else Some (number_of_bytes bs))"
proof (cases bs)
  case (Cons b bs')
  have "unat b div 16 < 16" by (rule byte_div_less)
  then have "hd (encode_hex bs) \<noteq> CHR ''+''" "length (encode_hex bs) \<noteq> 1" "encode_hex bs \<noteq> []"
    using hex_digit_not_sign by (auto simp: Cons encode_hex_Cons)
  then have "from_str_radix most 16 (encode_hex bs) = parse_digits most 16 0 (encode_hex bs)"
    by (auto simp: from_str_radix_def)
  then show ?thesis using Cons by (simp add: parse_digits_hex number_of_bytes_def)
qed (simp add: encode_hex_def from_str_radix_def)

lemma encode_hex_inject: "encode_hex xs = encode_hex ys \<longleftrightarrow> xs = ys"
proof
  have byte: "a = b"
    if "hex_digit (unat a div 16) = hex_digit (unat b div 16)" "hex_digit (unat a mod 16) = hex_digit (unat b mod 16)"
    for a b :: "8 word"
  proof -
    have "unat a div 16 < 16" "unat b div 16 < 16" by (rule byte_div_less)+
    with that(1) have "unat a div 16 = unat b div 16" by (metis to_digit_hex_digit option.inject)
    moreover have "unat a mod 16 < 16" "unat b mod 16 < 16" by simp_all
    with that(2) have "unat a mod 16 = unat b mod 16" by (metis to_digit_hex_digit option.inject)
    ultimately have "unat a = unat b" by (metis div_mult_mod_eq)
    then show ?thesis by (simp add: word_unat_eq_iff)
  qed
  show "encode_hex xs = encode_hex ys \<Longrightarrow> xs = ys"
  proof (induction xs arbitrary: ys)
    case Nil
    then show ?case by (cases ys) (auto simp: encode_hex_def)
  next
    case (Cons x xs)
    then obtain y ys' where ys: "ys = y # ys'" by (cases ys) (auto simp: encode_hex_def)
    from Cons.prems have "x = y" "encode_hex xs = encode_hex ys'"
      unfolding ys encode_hex_Cons by (auto intro: byte)
    with Cons.IH ys show ?case by blast
  qed
qed simp

text \<open>
  The dispatcher as the code of the machine: the selector is pushed and compared, on the stack's top or on
  a copy of it, and a conditional jump to a pushed address follows. The code looks at five operations at a time.
\<close>

definition is_push :: "disassembled_opcode \<Rightarrow> bool" where
  "is_push op \<longleftrightarrow> 0x5f \<le> oc_code (dis_operation op) \<and> oc_code (dis_operation op) \<le> 0x7f"

definition pushes_selector :: "bytes \<Rightarrow> disassembled_opcode \<Rightarrow> bool" where
  "pushes_selector selector op \<longleftrightarrow>
     is_push op \<and> length (dis_args op) \<le> 4 \<and> replicate (4 - length (dis_args op)) 0 @ dis_args op = selector"

definition dispatch_at :: "disassembled_opcode list \<Rightarrow> bytes \<Rightarrow> nat \<Rightarrow> bytes option" where
  "dispatch_at ops selector k =
     (let code = (\<lambda>i. oc_code (dis_operation (ops ! i)))
      in if length ops < k + 5 \<or> \<not> pushes_selector selector (ops ! k) then None
         else if code (k + 1) = 0x14 \<and> is_push (ops ! (k + 2)) \<and> code (k + 3) = 0x57
         then Some (dis_args (ops ! (k + 2)))
         else if code (k + 1) = 0x81 \<and> code (k + 2) = 0x14 \<and> is_push (ops ! (k + 3)) \<and> code (k + 4) = 0x57
         then Some (dis_args (ops ! (k + 3)))
         else None)"

text \<open>A jump is followed when its address is a number of the machine, and an operation stands there.\<close>

definition jump_address :: "bytes \<Rightarrow> nat option" where
  "jump_address args = (if args = [] \<or> u64_max < number_of_bytes args then None else Some (number_of_bytes args))"

definition no_landing :: "disassembled_opcode list \<Rightarrow> bytes \<Rightarrow> nat \<Rightarrow> bool" where
  "no_landing ops selector k =
     (case dispatch_at ops selector k of
        None \<Rightarrow> True
      | Some jump \<Rightarrow>
          (case jump_address jump of
             None \<Rightarrow> False
           | Some j \<Rightarrow> list_all (\<lambda>op. dis_program_counter op \<noteq> j) ops))"

lemma target_opcode_index_Some_iff:
  "target_opcode_index j ops = Some i \<longleftrightarrow>
     i < length ops \<and> dis_program_counter (ops ! i) = j \<and> (\<forall>i' < i. dis_program_counter (ops ! i') \<noteq> j)"
proof
  assume "target_opcode_index j ops = Some i"
  then obtain op where "find (\<lambda>(index, op). dis_program_counter op = j) (enumerate 0 ops) = Some (i, op)"
    by (auto simp: target_opcode_index_def)
  then obtain n where n: "n < length ops" "(i, op) = enumerate 0 ops ! n" "dis_program_counter op = j"
    and before: "\<forall>m < n. \<not> (case enumerate 0 ops ! m of (index, op) \<Rightarrow> dis_program_counter op = j)"
    by (auto simp: find_Some_iff)
  from n have "i = n" "op = ops ! n" by (auto simp: nth_enumerate_eq)
  moreover have "dis_program_counter (ops ! m) \<noteq> j" if "m < n" for m
    using before n(1) that by (auto simp: nth_enumerate_eq)
  ultimately show "i < length ops \<and> dis_program_counter (ops ! i) = j \<and> (\<forall>i' < i. dis_program_counter (ops ! i') \<noteq> j)"
    using n by blast
next
  assume i: "i < length ops \<and> dis_program_counter (ops ! i) = j \<and> (\<forall>i' < i. dis_program_counter (ops ! i') \<noteq> j)"
  then have "find (\<lambda>(index, op). dis_program_counter op = j) (enumerate 0 ops) = Some (i, ops ! i)"
    unfolding find_Some_iff by (intro exI[of _ i]) (auto simp: nth_enumerate_eq)
  then show "target_opcode_index j ops = Some i" by (simp add: target_opcode_index_def)
qed

lemma target_opcode_index_None_iff:
  "target_opcode_index j ops = None \<longleftrightarrow> list_all (\<lambda>op. dis_program_counter op \<noteq> j) ops"
proof -
  have "set ops = snd ` set (enumerate 0 ops)" by (metis map_snd_enumerate set_map)
  then have "list_all (\<lambda>op. dis_program_counter op \<noteq> j) ops
      \<longleftrightarrow> (\<forall>e \<in> set (enumerate 0 ops). dis_program_counter (snd e) \<noteq> j)"
    by (simp add: list_all_iff)
  then show ?thesis
    by (simp add: target_opcode_index_def find_None_iff case_prod_unfold del: split_paired_All split_paired_Ex) blast
qed

definition table_named :: "disassembled_opcode list \<Rightarrow> bool" where
  "table_named ops \<longleftrightarrow> list_all (\<lambda>op. dis_operation op = opcode (oc_code (dis_operation op))) ops"

lemma table_named_nth:
  "table_named ops \<Longrightarrow> k < length ops \<Longrightarrow> name_of (ops ! k) = oc_name (opcode (oc_code (dis_operation (ops ! k))))"
  unfolding table_named_def list_all_iff by (metis nth_mem)

lemma find_in_windows_step:
  assumes named: "table_named ops" and k: "k + 5 \<le> length ops"
  shows "find_in_windows selector ops (take 5 (drop k ops) # rest) =
     (case dispatch_at ops selector k of
        None \<Rightarrow> find_in_windows selector ops rest
      | Some jump \<Rightarrow>
          (case jump_address jump of
             None \<Rightarrow> None
           | Some j \<Rightarrow>
               (case target_opcode_index j ops of
                  None \<Rightarrow> find_in_windows selector ops rest
                | Some i \<Rightarrow> Some i)))"
proof -
  have nth: "take 5 (drop k ops) ! i = ops ! (k + i)" if "i < 5" for i
    using that k by simp
  have name: "name_of (ops ! (k + i)) = oc_name (opcode (oc_code (dis_operation (ops ! (k + i)))))" if "i < 5" for i
    using that k by (intro table_named_nth[OF named]) simp
  have shapes:
    "plain_comparison (take 5 (drop k ops)) \<longleftrightarrow> is_push (ops ! k) \<and> oc_code (dis_operation (ops ! (k + 1))) = 0x14
       \<and> is_push (ops ! (k + 2)) \<and> oc_code (dis_operation (ops ! (k + 3))) = 0x57"
    "duplicating_comparison (take 5 (drop k ops)) \<longleftrightarrow> is_push (ops ! k)
       \<and> oc_code (dis_operation (ops ! (k + 1))) = 0x81 \<and> oc_code (dis_operation (ops ! (k + 2))) = 0x14
       \<and> is_push (ops ! (k + 3)) \<and> oc_code (dis_operation (ops ! (k + 4))) = 0x57"
    using nth name[of 0] name[of 1] name[of 2] name[of 3] name[of 4]
    by (simp_all add: plain_comparison_def duplicating_comparison_def is_push_def opcode_names)
  have args: "dis_args (take 5 (drop k ops) ! 0) = dis_args (ops ! k)"
    "dis_args (take 5 (drop k ops) ! 2) = dis_args (ops ! (k + 2))"
    "dis_args (take 5 (drop k ops) ! 3) = dis_args (ops ! (k + 3))"
    using nth[of 0] nth[of 2] nth[of 3] by simp_all
  have sel: "prepend_selector a = Ok selector \<longleftrightarrow> length a \<le> 4 \<and> replicate (4 - length a) 0 @ a = selector" for a
    by (simp add: prepend_selector_def)
  have blk: "comparison_block selector a jump ops =
      (if \<not> (length a \<le> 4 \<and> replicate (4 - length a) 0 @ a = selector) then Next_Window
       else case jump_address jump of None \<Rightarrow> Return_Index None
         | Some j \<Rightarrow> (case target_opcode_index j ops of Some i \<Rightarrow> Return_Index (Some i) | None \<Rightarrow> Fall_Through))" for a jump
    unfolding comparison_block_def sel[symmetric] from_str_radix_hex jump_address_def by simp
  show ?thesis
    using k
    by (auto simp: shapes args blk dispatch_at_def pushes_selector_def Let_def split: option.splits block.splits if_splits)
qed

text \<open>The first window that does not pass on decides.\<close>

lemma find_in_windows_iff:
  assumes named: "table_named ops"
  shows "a + n + 4 \<le> length ops \<Longrightarrow>
     find_in_windows selector ops (map (\<lambda>k. take 5 (drop k ops)) [a..<a + n]) = Some i \<longleftrightarrow>
       (\<exists>k jump j. a \<le> k \<and> k < a + n \<and> dispatch_at ops selector k = Some jump \<and> jump_address jump = Some j
          \<and> target_opcode_index j ops = Some i \<and> (\<forall>k'. a \<le> k' \<and> k' < k \<longrightarrow> no_landing ops selector k'))"
proof (induction n arbitrary: a)
  case 0
  then show ?case by simp
next
  case (Suc n)
  have split: "[a..<a + Suc n] = a # [Suc a..<Suc a + n]" by (simp add: upt_conv_Cons del: upt_Suc)
  note step = find_in_windows_step[OF named, of a selector "map (\<lambda>k. take 5 (drop k ops)) [Suc a..<Suc a + n]"]
  have IH: "find_in_windows selector ops (map (\<lambda>k. take 5 (drop k ops)) [Suc a..<Suc a + n]) = Some i \<longleftrightarrow>
       (\<exists>k jump j. Suc a \<le> k \<and> k < Suc a + n \<and> dispatch_at ops selector k = Some jump \<and> jump_address jump = Some j
          \<and> target_opcode_index j ops = Some i \<and> (\<forall>k'. Suc a \<le> k' \<and> k' < k \<longrightarrow> no_landing ops selector k'))"
    by (rule Suc.IH) (use Suc.prems in simp)
  have later: "(\<exists>k jump j. a \<le> k \<and> k < a + Suc n \<and> dispatch_at ops selector k = Some jump \<and> jump_address jump = Some j
          \<and> target_opcode_index j ops = Some i \<and> (\<forall>k'. a \<le> k' \<and> k' < k \<longrightarrow> no_landing ops selector k'))
     \<longleftrightarrow> (\<exists>jump j. dispatch_at ops selector a = Some jump \<and> jump_address jump = Some j \<and> target_opcode_index j ops = Some i)
       \<or> no_landing ops selector a
         \<and> (\<exists>k jump j. Suc a \<le> k \<and> k < Suc a + n \<and> dispatch_at ops selector k = Some jump \<and> jump_address jump = Some j
          \<and> target_opcode_index j ops = Some i \<and> (\<forall>k'. Suc a \<le> k' \<and> k' < k \<longrightarrow> no_landing ops selector k'))"
    (is "?L \<longleftrightarrow> ?now \<or> ?pass \<and> ?R")
  proof
    assume ?L
    then obtain k jump j where k: "a \<le> k" "k < a + Suc n" "dispatch_at ops selector k = Some jump"
      "jump_address jump = Some j" "target_opcode_index j ops = Some i"
      and before: "\<forall>k'. a \<le> k' \<and> k' < k \<longrightarrow> no_landing ops selector k'" by blast
    show "?now \<or> ?pass \<and> ?R"
    proof (cases "k = a")
      case True
      with k show ?thesis by blast
    next
      case False
      with k(1) have ka: "a < k" by simp
      with before have ?pass by simp
      moreover have ?R
        using ka k before by (intro exI[of _ k] exI[of _ jump] exI[of _ j]) simp
      ultimately show ?thesis by blast
    qed
  next
    assume "?now \<or> ?pass \<and> ?R"
    then show ?L
    proof
      assume ?now
      then obtain jump j where "dispatch_at ops selector a = Some jump" "jump_address jump = Some j"
        "target_opcode_index j ops = Some i" by blast
      moreover have "a \<le> a" "a < a + Suc n" "\<forall>k'. a \<le> k' \<and> k' < a \<longrightarrow> no_landing ops selector k'" by auto
      ultimately show ?L by blast
    next
      assume "?pass \<and> ?R"
      then obtain k jump j where k: "Suc a \<le> k" "k < Suc a + n" "dispatch_at ops selector k = Some jump"
        "jump_address jump = Some j" "target_opcode_index j ops = Some i"
        and before: "\<forall>k'. Suc a \<le> k' \<and> k' < k \<longrightarrow> no_landing ops selector k'" and ?pass by blast
      have "no_landing ops selector k'" if "a \<le> k'" "k' < k" for k'
        using that before \<open>?pass \<and> ?R\<close> by (cases "k' = a") auto
      with k show ?L by (intro exI[of _ k] exI[of _ jump] exI[of _ j]) simp
    qed
  qed
  have "find_in_windows selector ops (map (\<lambda>k. take 5 (drop k ops)) [a..<a + Suc n]) = Some i \<longleftrightarrow>
      (\<exists>jump j. dispatch_at ops selector a = Some jump \<and> jump_address jump = Some j \<and> target_opcode_index j ops = Some i)
       \<or> no_landing ops selector a
         \<and> find_in_windows selector ops (map (\<lambda>k. take 5 (drop k ops)) [Suc a..<Suc a + n]) = Some i"
    unfolding split list.map(2) using Suc.prems
    by (subst step) (auto simp: no_landing_def target_opcode_index_None_iff[symmetric] split: option.splits)
  then show ?case unfolding IH later .
qed

lemma list_all_upt: "list_all P [0..<k] \<longleftrightarrow> (\<forall>k' < k. P k')"
  by (auto simp: list_all_iff)

lemma dispatch_at_bound: "dispatch_at ops selector k = Some jump \<Longrightarrow> k + 5 \<le> length ops"
  by (auto simp: dispatch_at_def Let_def split: if_splits)

lemma find_src_map_index_iff:
  assumes named: "table_named ops"
  shows "find_src_map_index selector ops = Some i \<longleftrightarrow>
       (\<exists>k jump j. dispatch_at ops selector k = Some jump \<and> jump_address jump = Some j
          \<and> target_opcode_index j ops = Some i \<and> (\<forall>k' < k. no_landing ops selector k'))"
proof (cases "5 \<le> length ops")
  case True
  then have win: "windows 5 ops = map (\<lambda>k. take 5 (drop k ops)) [0..<0 + (length ops - 4)]"
    by (simp add: windows_def Suc_diff_le)
  have bound: "k < 0 + (length ops - 4)" if "dispatch_at ops selector k = Some jump" for k jump
    using dispatch_at_bound[OF that] by simp
  have "0 + (length ops - 4) + 4 \<le> length ops" using True by simp
  from find_in_windows_iff[OF named this, of selector i] show ?thesis
    unfolding find_src_map_index_def win using bound by blast
next
  case False
  then show ?thesis
    by (auto simp: find_src_map_index_def windows_def dest: dispatch_at_bound)
qed

section \<open>What the lookup lists\<close>

lemma counters_increase:
  assumes "map dis_program_counter ops = map (\<lambda>i. length (concat (map opcode_bytes (take i ops)))) [0..<length ops]"
    and "i < j" "j < length ops"
  shows "dis_program_counter (ops ! i) < dis_program_counter (ops ! j)"
proof -
  have at: "dis_program_counter (ops ! k) = length (concat (map opcode_bytes (take k ops)))" if "k < length ops" for k
    using arg_cong[OF assms(1), of "\<lambda>xs. xs ! k"] that by simp
  have "take (Suc i) (take j ops) = take i ops @ [ops ! i]"
    using assms(2,3) by (simp add: take_Suc_conv_app_nth min.absorb1)
  then have "take j ops = take i ops @ [ops ! i] @ drop (Suc i) (take j ops)"
    using append_take_drop_id[of "Suc i" "take j ops"] by (simp only: append_assoc)
  then have "length (concat (map opcode_bytes (take j ops)))
      = length (concat (map opcode_bytes (take i ops @ [ops ! i] @ drop (Suc i) (take j ops))))"
    by (rule arg_cong)
  with assms(2,3) show ?thesis by (simp add: at opcode_bytes_def)
qed

lemma fold_btree_entries:
  assumes "sorted_wrt (<) (map fst m)"
    and "\<And>e e'. e \<in> set m \<union> set es \<Longrightarrow> e' \<in> set m \<union> set es \<Longrightarrow> fst e = fst e' \<Longrightarrow> e = e'"
  shows "set (fold (\<lambda>e m. btree_insert (fst e) (snd e) m) es m) = set m \<union> set es"
  using assms
proof (induction es arbitrary: m)
  case (Cons e es)
  let ?m = "btree_insert (fst e) (snd e) m"
  have "{e' \<in> set m. fst e' \<noteq> fst e} = set m - {e}" using Cons.prems(2)[of _ e] by auto
  then have m: "set ?m = insert e (set m)" using btree_insert_entries[OF Cons.prems(1), of "fst e" "snd e"] by auto
  have "set (fold (\<lambda>e m. btree_insert (fst e) (snd e) m) es ?m) = set ?m \<union> set es"
  proof (rule Cons.IH)
    show "sorted_wrt (<) (map fst ?m)" by (rule btree_insert_sorted[OF Cons.prems(1)])
    show "e1 = e2" if "e1 \<in> set ?m \<union> set es" "e2 \<in> set ?m \<union> set es" "fst e1 = fst e2" for e1 e2
      using that Cons.prems(2)[of e1 e2] unfolding m by auto
  qed
  with m show ?case by auto
qed simp

lemma parse_selectors_set:
  assumes "\<And>f g. f \<in> set abi \<Longrightarrow> g \<in> set abi \<Longrightarrow> fn_signature lib f = fn_signature lib g \<Longrightarrow>
      fn_short_signature lib f = fn_short_signature lib g"
  shows "set (parse_selectors lib abi) = (\<lambda>f. (fn_signature lib f, fn_short_signature lib f)) ` set abi"
proof -
  let ?es = "map (\<lambda>f. (fn_signature lib f, fn_short_signature lib f)) abi"
  have "parse_selectors lib abi = fold (\<lambda>e m. btree_insert (fst e) (snd e) m) ?es []"
    by (simp add: parse_selectors_def fold_map comp_def)
  moreover have "set (fold (\<lambda>e m. btree_insert (fst e) (snd e) m) ?es []) = set [] \<union> set ?es"
    by (rule fold_btree_entries) (auto dest: assms)
  ultimately show ?thesis by simp
qed

lemma map_filter_set: "set (List.map_filter g xs) = {y. \<exists>x \<in> set xs. g x = Some y}"
  by (induction xs) (auto simp: List.map_filter_simps split: option.splits)

lemma disassembled_facts:
  assumes "disassemble_bytecode bytecode = Some ops"
  shows "table_named ops" "i < j \<Longrightarrow> j < length ops \<Longrightarrow> dis_program_counter (ops ! i) < dis_program_counter (ops ! j)"
proof -
  obtain ops' where "disassemble_loop bytecode 0 = Some ops'"
    "map dis_program_counter ops' = map (\<lambda>i. 0 + length (concat (map opcode_bytes (take i ops')))) [0..<length ops']"
    "list_all (\<lambda>op. op = read_opcode bytecode (dis_program_counter op) \<and> dis_program_counter op < length bytecode) ops'"
    using disassemble_loop_spec[of bytecode 0] by blast
  moreover from this assms have "ops' = ops" by (simp add: disassemble_bytecode_def)
  ultimately have pcs: "map dis_program_counter ops = map (\<lambda>i. length (concat (map opcode_bytes (take i ops)))) [0..<length ops]"
    and read: "list_all (\<lambda>op. op = read_opcode bytecode (dis_program_counter op) \<and> dis_program_counter op < length bytecode) ops"
    by simp_all
  from read show "table_named ops"
    unfolding table_named_def list_all_iff by (metis opcode_code read_opcode_fields(1))
  show "i < j \<Longrightarrow> j < length ops \<Longrightarrow> dis_program_counter (ops ! i) < dis_program_counter (ops ! j)"
    by (rule counters_increase[OF pcs])
qed

lemma disassembled_bounds:
  assumes "disassemble_bytecode bytecode = Some ops" "i < length ops"
  shows "dis_program_counter (ops ! i) < length bytecode"
  using assms disassemble_loop_spec[of bytecode 0] by (auto simp: disassemble_bytecode_def list_all_length)

lemma from_source_map_Ok_iff:
  "from_source_map selector source_map i file_ids = Ok me \<longleftrightarrow>
     i < length source_map
     \<and> (\<exists>filename. Option.bind (se_index (source_map ! i)) file_ids = Some filename
        \<and> me = \<lparr>me_selector = selector, me_offset = se_offset (source_map ! i),
             me_length = se_length (source_map ! i), me_filename = filename\<rparr>)"
  by (auto simp: from_source_map_def Let_def split: option.splits)

lemma method_entry_iff:
  assumes "disassemble_bytecode bytecode = Some ops"
  shows "method_entry source_map file_ids ops m = Some (key, me) \<longleftrightarrow>
     key = encode_hex (snd m)
     \<and> (\<exists>i. find_src_map_index (snd m) ops = Some i \<and> from_source_map (snd m) source_map i file_ids = Ok me)"
  by (auto simp: method_entry_def split: option.splits sum.splits)

lemma find_methods_set:
  assumes "find_methods lib request = Some ms" "disassemble_bytecode (lm_bytecode request) = Some ops"
    and "\<And>f g. f \<in> set (lm_abi request) \<Longrightarrow> g \<in> set (lm_abi request) \<Longrightarrow> fn_signature lib f = fn_signature lib g \<Longrightarrow>
      fn_short_signature lib f = fn_short_signature lib g"
  shows "(key, me) \<in> set ms \<longleftrightarrow>
     (\<exists>f i. f \<in> set (lm_abi request) \<and> key = encode_hex (fn_short_signature lib f)
        \<and> find_src_map_index (fn_short_signature lib f) ops = Some i
        \<and> from_source_map (fn_short_signature lib f) (lm_source_map request) i (lm_file_ids request) = Ok me)"
proof -
  let ?es = "List.map_filter (method_entry (lm_source_map request) (lm_file_ids request) ops)
      (parse_selectors lib (lm_abi request))"
  note entry = method_entry_iff[OF assms(2)]
  have ps: "set (parse_selectors lib (lm_abi request))
      = (\<lambda>f. (fn_signature lib f, fn_short_signature lib f)) ` set (lm_abi request)"
    by (rule parse_selectors_set) (rule assms(3))
  have es: "e \<in> set ?es \<longleftrightarrow> (\<exists>f \<in> set (lm_abi request). method_entry (lm_source_map request) (lm_file_ids request) ops
      (fn_signature lib f, fn_short_signature lib f) = Some e)" for e
    unfolding map_filter_set ps by simp
  have "set (fold (\<lambda>e m. btree_insert (fst e) (snd e) m) ?es []) = set [] \<union> set ?es"
  proof (rule fold_btree_entries)
    show "e = e'" if "e \<in> set [] \<union> set ?es" "e' \<in> set [] \<union> set ?es" "fst e = fst e'" for e e'
    proof -
      obtain k v k' v' where e: "e = (k, v)" "e' = (k', v')" by (cases e, cases e')
      from that have "e \<in> set ?es" "e' \<in> set ?es" by simp_all
      then obtain f f' i i' where "k = encode_hex (fn_short_signature lib f)" "k' = encode_hex (fn_short_signature lib f')"
        "find_src_map_index (fn_short_signature lib f) ops = Some i"
        "find_src_map_index (fn_short_signature lib f') ops = Some i'"
        "from_source_map (fn_short_signature lib f) (lm_source_map request) i (lm_file_ids request) = Ok v"
        "from_source_map (fn_short_signature lib f') (lm_source_map request) i' (lm_file_ids request) = Ok v'"
        unfolding es e entry by force
      with that(3) e show ?thesis by (auto simp: encode_hex_inject)
    qed
  qed simp
  moreover have "ms = fold (\<lambda>e m. btree_insert (fst e) (snd e) m) ?es []"
    using assms(1,2) by (simp add: find_methods_def)
  ultimately have "(key, me) \<in> set ms \<longleftrightarrow> (key, me) \<in> set ?es" by simp
  then show ?thesis unfolding es entry by auto
qed

lemma found_index_iff:
  assumes ops: "disassemble_bytecode bytecode = Some ops"
  shows "find_src_map_index selector ops = Some i \<longleftrightarrow>
      (\<exists>k jump. dispatch_at ops selector k = Some jump \<and> list_all (no_landing ops selector) [0..<k]
         \<and> i < length ops \<and> jump_address jump = Some (dis_program_counter (ops ! i)))"
    (is "_ \<longleftrightarrow> (\<exists>k jump. ?P k jump)")
proof -
  note facts = disassembled_facts[OF ops]
  have target: "target_opcode_index j ops = Some i \<longleftrightarrow> i < length ops \<and> dis_program_counter (ops ! i) = j" for i j
    unfolding target_opcode_index_Some_iff using facts(2)[of _ i] by fastforce
  show ?thesis
  proof
    assume "find_src_map_index selector ops = Some i"
    then obtain k jump j where "dispatch_at ops selector k = Some jump" "jump_address jump = Some j"
      "i < length ops" "dis_program_counter (ops ! i) = j" "\<forall>k' < k. no_landing ops selector k'"
      unfolding find_src_map_index_iff[OF facts(1)] target by (elim exE conjE) (rule that, assumption+)
    then have "?P k jump" by (simp add: list_all_upt)
    then show "\<exists>k jump. ?P k jump" by (intro exI)
  next
    assume "\<exists>k jump. ?P k jump"
    then obtain k jump where "?P k jump" by (elim exE) (rule that)
    then show "find_src_map_index selector ops = Some i"
      unfolding find_src_map_index_iff[OF facts(1)] target list_all_upt
      by (intro exI[of _ k] exI[of _ jump] exI[of _ "dis_program_counter (ops ! i)"]) simp
  qed
qed

text \<open>C19: 
  The lookup lists a method exactly when the code dispatches to it. The key is the selector of a function of
  the ABI; the first place of the code that compares the call's selector with it and then jumps to
  an operation of the code decides, no earlier such place jumps to an address that is none; and the method is the place in the
  sources that the source map has for the operation jumped to. Functions of one signature have one selector.
\<close>

theorem method_lookup_exact:
  assumes "find_methods lib request = Some ms"
    and "\<And>f g. f \<in> set (lm_abi request) \<Longrightarrow> g \<in> set (lm_abi request) \<Longrightarrow> fn_signature lib f = fn_signature lib g \<Longrightarrow>
      fn_short_signature lib f = fn_short_signature lib g"
  shows "(key, me) \<in> set ms \<longleftrightarrow>
     (\<exists>ops f k jump i filename.
        disassemble_bytecode (lm_bytecode request) = Some ops
        \<and> f \<in> set (lm_abi request) \<and> key = encode_hex (fn_short_signature lib f)
        \<and> dispatch_at ops (fn_short_signature lib f) k = Some jump
        \<and> list_all (no_landing ops (fn_short_signature lib f)) [0..<k]
        \<and> i < length ops \<and> jump_address jump = Some (dis_program_counter (ops ! i))
        \<and> i < length (lm_source_map request)
        \<and> Option.bind (se_index (lm_source_map request ! i)) (lm_file_ids request) = Some filename
        \<and> me = \<lparr>me_selector = fn_short_signature lib f, me_offset = se_offset (lm_source_map request ! i),
             me_length = se_length (lm_source_map request ! i), me_filename = filename\<rparr>)"
proof -
  from assms(1) obtain ops where ops: "disassemble_bytecode (lm_bytecode request) = Some ops"
    by (auto simp: find_methods_def split: option.splits)
  have "(key, me) \<in> set ms \<longleftrightarrow>
     (\<exists>f i. f \<in> set (lm_abi request) \<and> key = encode_hex (fn_short_signature lib f)
        \<and> find_src_map_index (fn_short_signature lib f) ops = Some i
        \<and> from_source_map (fn_short_signature lib f) (lm_source_map request) i (lm_file_ids request) = Ok me)"
    by (rule find_methods_set[OF assms(1) ops]) (rule assms(2))
  note listed = this[unfolded found_index_iff[OF ops] from_source_map_Ok_iff]
  show ?thesis (is "_ \<longleftrightarrow> ?R")
  proof
    assume "(key, me) \<in> set ms"
    with ops show ?R unfolding listed by (elim exE conjE) (intro exI conjI, assumption+)
  next
    assume ?R
    then obtain ops' f k jump i filename where "disassemble_bytecode (lm_bytecode request) = Some ops'"
      and rest: "f \<in> set (lm_abi request)" "key = encode_hex (fn_short_signature lib f)"
        "dispatch_at ops' (fn_short_signature lib f) k = Some jump"
        "list_all (no_landing ops' (fn_short_signature lib f)) [0..<k]"
        "i < length ops'" "jump_address jump = Some (dis_program_counter (ops' ! i))"
        "i < length (lm_source_map request)"
        "Option.bind (se_index (lm_source_map request ! i)) (lm_file_ids request) = Some filename"
        "me = \<lparr>me_selector = fn_short_signature lib f, me_offset = se_offset (lm_source_map request ! i),
             me_length = se_length (lm_source_map request ! i), me_filename = filename\<rparr>"
      by (elim exE conjE) (rule that, assumption+)
    from this(1) ops have "ops' = ops" by simp
    then show "(key, me) \<in> set ms"
      unfolding listed using rest by (intro exI conjI) simp_all
  qed
qed

text \<open>A contract with one function: compare the selector, jump to the address nine.\<close>

definition sample_methods_lib :: "unit function_lib" where
  "sample_methods_lib = \<lparr>fn_signature = (\<lambda>_. ''f()''), fn_short_signature = (\<lambda>_. [1, 2, 3, 4])\<rparr>"

definition sample_methods_request :: "unit lookup_methods_request" where
  "sample_methods_request =
     \<lparr>lm_bytecode = [0x63, 1, 2, 3, 4, 0x14, 0x60, 9, 0x57, 0x5b], lm_abi = [()],
      lm_source_map = replicate 4 \<lparr>se_offset = 0, se_length = 0, se_index = None\<rparr>
        @ [\<lparr>se_offset = 20, se_length = 7, se_index = Some 0\<rparr>],
      lm_file_ids = [0 \<mapsto> ''A.sol'']\<rparr>"

definition sample_method :: contract_method where
  "sample_method = \<lparr>me_selector = [1, 2, 3, 4], me_offset = 20, me_length = 7, me_filename = ''A.sol''\<rparr>"

definition sample_opcodes :: "disassembled_opcode list" where
  "sample_opcodes = map (read_opcode (lm_bytecode sample_methods_request)) [0, 5, 6, 8, 9]"

lemma sample_disassembled: "disassemble_bytecode (lm_bytecode sample_methods_request) = Some sample_opcodes"
  by code_simp

lemma sample_dispatch: "dispatch_at sample_opcodes [1, 2, 3, 4] 0 = Some [9]"
  by code_simp

lemma method_lookup_exact_witness:
  "\<exists>ms. find_methods sample_methods_lib sample_methods_request = Some ms
     \<and> (encode_hex [1, 2, 3, 4], sample_method) \<in> set ms"
proof -
  obtain ms where ms: "find_methods sample_methods_lib sample_methods_request = Some ms"
    by (simp add: find_methods_def sample_disassembled)
  have "sample_opcodes ! 4 = read_opcode (lm_bytecode sample_methods_request) 9" by (simp add: sample_opcodes_def)
  then have address: "jump_address [9] = Some (dis_program_counter (sample_opcodes ! 4))"
    by (simp add: jump_address_def number_of_bytes_def u64_max_def)
  have same: "fn_short_signature sample_methods_lib f = fn_short_signature sample_methods_lib g" for f g :: unit
    by simp
  have short: "fn_short_signature sample_methods_lib () = [1, 2, 3, 4]" by (simp add: sample_methods_lib_def)
  have map: "length (lm_source_map sample_methods_request) = 5"
    "lm_source_map sample_methods_request ! 4 = \<lparr>se_offset = 20, se_length = 7, se_index = Some 0\<rparr>"
    "lm_file_ids sample_methods_request 0 = Some ''A.sol''" "lm_abi sample_methods_request = [()]"
    by (simp_all add: sample_methods_request_def nth_append)
  have len: "length sample_opcodes = 5" by (simp add: sample_opcodes_def)
  have "(encode_hex [1, 2, 3, 4], sample_method) \<in> set ms"
    unfolding method_lookup_exact[OF ms same]
    by (intro exI[of _ sample_opcodes] exI[of _ "()"] exI[of _ 0] exI[of _ "[9]"] exI[of _ 4] exI[of _ "''A.sol''"])
       (simp add: sample_disassembled sample_dispatch address short map len sample_method_def)
  with ms show ?thesis by blast
qed

end
