(* ===== verification/Sig_Provider.thy ===== *)
theory Sig_Provider
  imports Code_Methods
begin

text \<open>
  The provider of signatures (\<^verbatim>\<open>sig-provider/sig-provider/src\<close> and the service in
  \<^verbatim>\<open>sig-provider/sig-provider-server/src/service.rs\<close>). Remote databases know the texts of
  signatures by their hashes; the aggregator asks all of them, and decodes the input of a call or a log with every text it
  gets.

  The crates \<^verbatim>\<open>ethabi\<close> and \<^verbatim>\<open>itertools\<close> and the conversion between the two event types are the record \<open>abi_crates\<close>;
  the types and values that the code does not look into are type variables. The HTTP client is a parameter of each source. A panic, and a
  request that never ends, is \<open>None\<close>.
\<close>

section \<open>Types, values and logs\<close>

datatype 'k param_type = Tuple_Type "'k param_type list" | Other_Type 'k
datatype 'v token = Tuple_Token "'v token list" | Other_Token 'v

record raw_log =
  rl_topics :: "bytes list"
  rl_data :: bytes

record 'k event_param =
  ep_name :: string
  ep_kind :: "'k param_type"
  ep_indexed :: bool

record 'k event =
  ev_name :: string
  ev_inputs :: "'k event_param list"
  ev_anonymous :: bool

record 'p alloy_event =
  al_name :: string
  al_inputs :: 'p
  al_anonymous :: bool

datatype argument =
  Argument (arg_name: string) (arg_type: string) (arg_components: "argument list") (arg_indexed: "bool option")
    (arg_value: string)

record abi =
  abi_name :: string
  abi_inputs :: "argument list"

text \<open>The crates. A decoder that fails is \<open>None\<close>: the code drops its errors.\<close>

record ('k, 'v, 'p) abi_crates =
  read_type :: "string \<Rightarrow> 'k param_type option"
  eth_decode :: "'k param_type list \<Rightarrow> bytes \<Rightarrow> 'v token list option"
  eth_encode :: "'v token list \<Rightarrow> bytes"
  parse_log :: "'k event \<Rightarrow> raw_log \<Rightarrow> (string \<times> 'v token) list option"
  parse_log_whole :: "'k event \<Rightarrow> raw_log \<Rightarrow> (string \<times> 'v token) list option"
  type_text :: "'k param_type \<Rightarrow> string"
  token_text :: "'v token \<Rightarrow> string"
  try_from_alloy_event :: "'p alloy_event \<Rightarrow> 'k event option"
  combinations :: "nat \<Rightarrow> nat \<Rightarrow> nat list list"

section \<open>Sources\<close>

text \<open>The traits \<open>SignatureSource\<close> and \<open>CompleteSignatureSource\<close>, with the default of the batch request.\<close>

type_synonym 'r answer = "(string, 'r) result option"

record text_source =
  ts_create_signatures :: "string \<Rightarrow> unit answer"
  ts_get_function_signatures :: "string \<Rightarrow> string list answer"
  ts_get_event_signatures :: "string \<Rightarrow> string list answer"
  ts_batch_get_event_signatures :: "string list \<Rightarrow> string list list answer"

record 'p complete_source =
  cs_get_event_signatures :: "string \<Rightarrow> 'p alloy_event list answer"
  cs_batch_get_event_signatures :: "string list \<Rightarrow> 'p alloy_event list list answer"

definition default_batch :: "string list \<Rightarrow> 'r list list answer" where
  "default_batch hex = Some (Ok (replicate (length hex) []))"

text \<open>\<open>hash\<close>\<close>

definition hash_text :: "string \<Rightarrow> string" where
  "hash_text hex = (if prefix ''0x'' hex then hex else ''0x'' @ hex)"

subsection \<open>4byte\<close>

text \<open>
  A request has a number, since the answer to the same path may change from one try to the next. An answer is the
  status and the body as parsed. \<open>host.join(path).unwrap()\<close> panics on a path that is no URL.
\<close>

record get_response =
  gr_next :: "string option"
  gr_results :: "string list"

record 'r http_client =
  url_join :: "string \<Rightarrow> string option"
  http_get :: "nat \<Rightarrow> string \<Rightarrow> (string, nat \<times> (string, 'r) result) result"

definition invalid_status :: string where
  "invalid_status = ''invalid status code got as a result''"

function try_make_request ::
  "'r http_client \<Rightarrow> string \<Rightarrow> nat \<Rightarrow> nat \<Rightarrow> ((string, 'r) result \<times> nat) option" where
  "try_make_request client path n t =
     (case url_join client path of
        None \<Rightarrow> None
      | Some url \<Rightarrow>
          (case http_get client t url of
             Inl e \<Rightarrow> Some (Err e, t + 1)
           | Inr reply \<Rightarrow>
               if fst reply = 200 then Some (snd reply, t + 1)
               else if fst reply = 502 \<and> 0 < n then try_make_request client path (n - 1) (t + 1)
               else Some (Err invalid_status, t + 1)))"
  by auto
termination by (relation "measure (\<lambda>(client, path, n, t). n)") auto

declare try_make_request.simps [simp del]

partial_function (option) fetch_loop ::
  "get_response http_client \<Rightarrow> nat \<Rightarrow> string \<Rightarrow> string list \<Rightarrow> nat \<Rightarrow> string list answer" where
  "fetch_loop client n_retries path signatures t =
     (case try_make_request client path n_retries t of
        None \<Rightarrow> None
      | Some (r, t') \<Rightarrow>
          (case r of
             Inl e \<Rightarrow> Some (Err e)
           | Inr resp \<Rightarrow>
               (case gr_next resp of
                  Some next_path \<Rightarrow> fetch_loop client n_retries next_path (signatures @ gr_results resp) t'
                | None \<Rightarrow> Some (Ok (signatures @ gr_results resp)))))"

definition N_RETRIES :: nat where "N_RETRIES = 3"

definition fourbyte_fetch :: "get_response http_client \<Rightarrow> string \<Rightarrow> string list answer" where
  "fourbyte_fetch client path = fetch_loop client N_RETRIES path [] 0"

definition fourbyte_get_function_signatures :: "get_response http_client \<Rightarrow> string \<Rightarrow> string list answer" where
  "fourbyte_get_function_signatures client hex =
     fourbyte_fetch client (''/api/v1/signatures/?hex_signature='' @ hex)"

definition fourbyte_get_event_signatures :: "get_response http_client \<Rightarrow> string \<Rightarrow> string list answer" where
  "fourbyte_get_event_signatures client hex =
     fourbyte_fetch client (''/api/v1/event-signatures/?hex_signature='' @ hex)"

definition fourbyte_source :: "(string \<Rightarrow> unit answer) \<Rightarrow> get_response http_client \<Rightarrow> text_source" where
  "fourbyte_source post client =
     \<lparr>ts_create_signatures = post,
      ts_get_function_signatures = fourbyte_get_function_signatures client,
      ts_get_event_signatures = fourbyte_get_event_signatures client,
      ts_batch_get_event_signatures = default_batch\<rparr>"

subsection \<open>sig.eth\<close>

record sig_types =
  st_function :: "(string \<rightharpoonup> string list) option"
  st_event :: "(string \<rightharpoonup> string list) option"

definition sigeth_fetch :: "sig_types http_client \<Rightarrow> string \<Rightarrow> sig_types answer" where
  "sigeth_fetch client path =
     (case url_join client path of
        None \<Rightarrow> None
      | Some url \<Rightarrow>
          Some (case http_get client 0 url of
                  Inl e \<Rightarrow> Err e
                | Inr reply \<Rightarrow> if fst reply = 200 then snd reply else Err invalid_status))"

definition convert :: "(string \<rightharpoonup> string list) option \<Rightarrow> string \<Rightarrow> string list" where
  "convert sigs hash = (case Option.bind sigs (\<lambda>m. m hash) of Some names \<Rightarrow> names | None \<Rightarrow> [])"

definition sigeth_get_function_signatures :: "sig_types http_client \<Rightarrow> string \<Rightarrow> string list answer" where
  "sigeth_get_function_signatures client hex =
     (let hash = hash_text hex
      in map_option (\<lambda>r. try_bind r (\<lambda>resp. Ok (convert (st_function resp) hash)))
           (sigeth_fetch client (''/api/v1/signatures?function='' @ hash @ ''&all'')))"

definition sigeth_get_event_signatures :: "sig_types http_client \<Rightarrow> string \<Rightarrow> string list answer" where
  "sigeth_get_event_signatures client hex =
     (let hash = hash_text hex
      in map_option (\<lambda>r. try_bind r (\<lambda>resp. Ok (convert (st_event resp) hash)))
           (sigeth_fetch client (''/api/v1/signatures?event='' @ hash @ ''&all'')))"

text \<open>The JSON text of the ABI is parsed before it is posted.\<close>

definition sigeth_create_signatures ::
  "(string \<Rightarrow> (string, 'j) result) \<Rightarrow> ('j \<Rightarrow> unit answer) \<Rightarrow> string \<Rightarrow> unit answer" where
  "sigeth_create_signatures parse_json post abi =
     (case parse_json abi of Inl e \<Rightarrow> Some (Err e) | Inr j \<Rightarrow> post j)"

definition sigeth_source ::
  "(string \<Rightarrow> (string, 'j) result) \<Rightarrow> ('j \<Rightarrow> unit answer) \<Rightarrow> sig_types http_client \<Rightarrow> text_source" where
  "sigeth_source parse_json post client =
     \<lparr>ts_create_signatures = sigeth_create_signatures parse_json post,
      ts_get_function_signatures = sigeth_get_function_signatures client,
      ts_get_event_signatures = sigeth_get_event_signatures client,
      ts_batch_get_event_signatures = default_batch\<rparr>"

subsection \<open>eth-bytecode-db\<close>

record description =
  de_name :: string
  de_inputs :: string

record 'p bytecode_db_client =
  bd_join :: "string \<Rightarrow> string option"
  bd_search :: "string \<Rightarrow> string \<Rightarrow> (string, nat \<times> (string, description list) result) result"
  bd_batch_search :: "string \<Rightarrow> string list \<Rightarrow> (string, nat \<times> (string, description list list) result) result"
  bd_parse_inputs :: "string \<Rightarrow> (string, 'p) result"

definition send_post_request ::
  "(string \<Rightarrow> string option) \<Rightarrow> (string \<Rightarrow> (string, nat \<times> (string, 'r) result) result) \<Rightarrow> string \<Rightarrow> 'r answer" where
  "send_post_request join send path =
     (case join path of
        None \<Rightarrow> None
      | Some url \<Rightarrow>
          Some (try_bind (send url) (\<lambda>reply.
            if 200 \<le> fst reply \<and> fst reply < 300 then snd reply else Err invalid_status)))"

definition try_from_description :: "(string \<Rightarrow> (string, 'p) result) \<Rightarrow> description \<Rightarrow> (string, 'p alloy_event) result" where
  "try_from_description parse value =
     try_bind (parse (de_inputs value)) (\<lambda>inputs.
       Ok \<lparr>al_name = de_name value, al_inputs = inputs, al_anonymous = False\<rparr>)"

text \<open>\<open>collect::<Result<_, _>>\<close>\<close>

fun collect_results :: "('a \<Rightarrow> (string, 'b) result) \<Rightarrow> 'a list \<Rightarrow> (string, 'b list) result" where
  "collect_results f [] = Ok []"
| "collect_results f (x # xs) = try_bind (f x) (\<lambda>y. try_bind (collect_results f xs) (\<lambda>ys. Ok (y # ys)))"

definition search_route :: string where "search_route = ''/api/v2/event-descriptions:search''"
definition batch_search_route :: string where "batch_search_route = ''/api/v2/event-descriptions:batch-search''"

definition db_get_event_signatures :: "'p bytecode_db_client \<Rightarrow> string \<Rightarrow> 'p alloy_event list answer" where
  "db_get_event_signatures client hex =
     map_option (\<lambda>r. try_bind r (collect_results (try_from_description (bd_parse_inputs client))))
       (send_post_request (bd_join client) (\<lambda>url. bd_search client url (hash_text hex)) search_route)"

definition BATCH_LIMIT :: nat where "BATCH_LIMIT = 100"

fun send_chunks :: "'p bytecode_db_client \<Rightarrow> string list list \<Rightarrow> description list list answer" where
  "send_chunks client [] = Some (Ok [])"
| "send_chunks client (request # rest) =
     (case send_post_request (bd_join client) (\<lambda>url. bd_batch_search client url request) batch_search_route of
        None \<Rightarrow> None
      | Some (Inl e) \<Rightarrow> Some (Err e)
      | Some (Inr chunk_responses) \<Rightarrow>
          map_option (\<lambda>r. try_bind r (\<lambda>responses. Ok (chunk_responses @ responses))) (send_chunks client rest))"

definition db_batch_get_event_signatures ::
  "'p bytecode_db_client \<Rightarrow> string list \<Rightarrow> 'p alloy_event list list answer" where
  "db_batch_get_event_signatures client hex =
     map_option (\<lambda>r. try_bind r (collect_results (collect_results (try_from_description (bd_parse_inputs client)))))
       (send_chunks client (map (map hash_text) (chunks BATCH_LIMIT hex)))"

definition bytecode_db_source :: "'p bytecode_db_client \<Rightarrow> 'p complete_source" where
  "bytecode_db_source client =
     \<lparr>cs_get_event_signatures = db_get_event_signatures client,
      cs_batch_get_event_signatures = db_batch_get_event_signatures client\<rparr>"

section \<open>The aggregator\<close>

record 'p aggregator =
  ag_sources :: "text_source list"
  ag_complete_sources :: "'p complete_source list"

text \<open>The macro \<open>proxy\<close> asks every source and drops the ones that fail.\<close>

fun proxy :: "('s \<Rightarrow> 'r answer) \<Rightarrow> 's list \<Rightarrow> 'r list option" where
  "proxy call [] = Some []"
| "proxy call (source # sources) =
     (case call source of
        None \<Rightarrow> None
      | Some resp \<Rightarrow>
          map_option (\<lambda>responses. case resp of Inl e \<Rightarrow> responses | Inr r \<Rightarrow> r # responses) (proxy call sources))"

text \<open>Keep the first of equal elements; \<open>content\<close> is the set of those already seen.\<close>

fun keep_new :: "'a set \<Rightarrow> 'a list \<Rightarrow> 'a list" where
  "keep_new content [] = []"
| "keep_new content (sig # sigs) =
     (if sig \<in> content then keep_new content sigs else sig # keep_new (insert sig content) sigs)"

definition merge_signatures :: "'a list list \<Rightarrow> 'a list" where
  "merge_signatures sigs = keep_new {} (concat sigs)"

definition create_signatures :: "'p aggregator \<Rightarrow> string \<Rightarrow> unit answer" where
  "create_signatures agg abi =
     map_option (\<lambda>_. Ok ()) (proxy (\<lambda>s. ts_create_signatures s abi) (ag_sources agg))"

definition get_function_signatures :: "'p aggregator \<Rightarrow> string \<Rightarrow> string list answer" where
  "get_function_signatures agg hex =
     map_option (\<lambda>responses. Ok (merge_signatures responses))
       (proxy (\<lambda>s. ts_get_function_signatures s hex) (ag_sources agg))"

subsection \<open>Decoding\<close>

definition parse_signature :: "('k, 'v, 'p) abi_crates \<Rightarrow> string \<Rightarrow> (string \<times> 'k param_type list) option" where
  "parse_signature lib sig =
     (let start = length (takeWhile (\<lambda>c. c \<noteq> CHR ''('') sig)
      in if start = length sig then None
         else (case read_type lib (drop start sig) of
                 Some (Tuple_Type params) \<Rightarrow> Some (take start sig, params)
               | _ \<Rightarrow> None))"

definition decode_txinput :: "('k, 'v, 'p) abi_crates \<Rightarrow> 'k param_type list \<Rightarrow> bytes \<Rightarrow> 'v token list option" where
  "decode_txinput lib args tx_args =
     (case eth_decode lib args tx_args of
        None \<Rightarrow> None
      | Some decoded \<Rightarrow> if tx_args \<noteq> eth_encode lib decoded then None else Some decoded)"

text \<open>
  The fields of a log that are indexed are not known: every choice of as many fields as there are topics beside the first
  is tried. Without a topic the subtraction overflows.
\<close>

definition MAX_COMBINATIONS :: nat where "MAX_COMBINATIONS = 10000"

definition mark_indexed :: "nat \<Rightarrow> nat list \<Rightarrow> bool list" where
  "mark_indexed n indexes = fold (\<lambda>indexed perm. perm[indexed := True]) indexes (replicate n False)"

definition event_of :: "string \<Rightarrow> 'k param_type list \<Rightarrow> bool list \<Rightarrow> 'k event" where
  "event_of name args perm =
     \<lparr>ev_name = name,
      ev_inputs = map (\<lambda>(ind, param, indexed). \<lparr>ep_name = digits ind, ep_kind = param, ep_indexed = indexed\<rparr>)
        (enumerate 0 (zip args perm)),
      ev_anonymous = False\<rparr>"

fun try_combinations ::
  "('k, 'v, 'p) abi_crates \<Rightarrow> string \<Rightarrow> 'k param_type list \<Rightarrow> raw_log \<Rightarrow> nat \<Rightarrow> nat list list
     \<Rightarrow> ('v token list \<times> bool list) option" where
  "try_combinations lib name args raw ind [] = None"
| "try_combinations lib name args raw ind (indexes # rest) =
     (if MAX_COMBINATIONS < ind then None
      else (let perm = mark_indexed (length args) indexes
            in case parse_log lib (event_of name args perm) raw of
                 Some params \<Rightarrow> Some (map snd params, perm)
               | None \<Rightarrow> try_combinations lib name args raw (ind + 1) rest))"

definition decode_log ::
  "('k, 'v, 'p) abi_crates \<Rightarrow> string \<Rightarrow> 'k param_type list \<Rightarrow> raw_log \<Rightarrow> ('v token list \<times> bool list) option option" where
  "decode_log lib name args raw =
     (if rl_topics raw = [] then None
      else Some (try_combinations lib name args raw 0
        (combinations lib (length args) (length (rl_topics raw) - 1))))"

fun parse_arg :: "('k, 'v, 'p) abi_crates \<Rightarrow> string \<Rightarrow> 'k param_type \<Rightarrow> 'v token \<Rightarrow> argument"
and parse_args_at :: "('k, 'v, 'p) abi_crates \<Rightarrow> string \<Rightarrow> nat \<Rightarrow> 'k param_type list \<Rightarrow> 'v token list \<Rightarrow> argument list" where
  "parse_arg lib name param val =
     Argument name (type_text lib param)
       (case (param, val) of
          (Tuple_Type params, Tuple_Token vals) \<Rightarrow> parse_args_at lib (name @ ''_'') 0 params vals
        | _ \<Rightarrow> [])
       None (token_text lib val)"
| "parse_args_at lib pref index (arg # args) (v # vs) =
     parse_arg lib (pref @ digits index) arg v # parse_args_at lib pref (index + 1) args vs"
| "parse_args_at lib pref index args vs = []"

definition parse_args_with_names ::
  "('k, 'v, 'p) abi_crates \<Rightarrow> string list \<Rightarrow> 'k param_type list \<Rightarrow> 'v token list \<Rightarrow> argument list" where
  "parse_args_with_names lib names args values =
     map (\<lambda>((name, arg), val). parse_arg lib name arg val) (zip (zip names args) values)"

definition parse_args ::
  "('k, 'v, 'p) abi_crates \<Rightarrow> string \<Rightarrow> 'k param_type list \<Rightarrow> 'v token list \<Rightarrow> argument list" where
  "parse_args lib pref args values = parse_args_at lib pref 0 args values"

text \<open>The recursion is the code's: names first, then each argument with its name.\<close>

lemma parse_args_at_names:
  "parse_args_at lib pref n args vs
     = parse_args_with_names lib (map (\<lambda>index. pref @ digits index) [n..<n + length args]) args vs"
proof (induction args arbitrary: n vs)
  case (Cons a args)
  then show ?case
    by (cases vs) (simp_all add: parse_args_with_names_def upt_conv_Cons del: upt_Suc)
qed (simp add: parse_args_with_names_def)

lemma parse_args_eq:
  "parse_args lib pref args vs
     = parse_args_with_names lib (map (\<lambda>index. pref @ digits index) [0..<length args]) args vs"
  by (simp add: parse_args_def parse_args_at_names)

fun set_indexed :: "argument list \<Rightarrow> bool list \<Rightarrow> argument list" where
  "set_indexed (Argument name ty components _ val # inputs) (indexed # flags) =
     Argument name ty components (Some indexed) val # set_indexed inputs flags"
| "set_indexed inputs flags = inputs"

subsection \<open>Requests\<close>

definition function_abi_of :: "('k, 'v, 'p) abi_crates \<Rightarrow> bytes \<Rightarrow> string \<Rightarrow> abi option" where
  "function_abi_of lib tx_args sig =
     (case parse_signature lib sig of
        None \<Rightarrow> None
      | Some (name, args) \<Rightarrow>
          (case decode_txinput lib args tx_args of
             None \<Rightarrow> None
           | Some values \<Rightarrow> Some \<lparr>abi_name = name, abi_inputs = parse_args lib ''arg'' args values\<rparr>))"

definition get_function_abi :: "('k, 'v, 'p) abi_crates \<Rightarrow> 'p aggregator \<Rightarrow> bytes \<Rightarrow> abi list answer" where
  "get_function_abi lib agg tx_input =
     (if length tx_input < 4 then Some (Err ''tx input len must be at least 4 bytes'')
      else map_option (\<lambda>r. try_bind r (\<lambda>sigs. Ok (List.map_filter (function_abi_of lib (drop 4 tx_input)) sigs)))
             (get_function_signatures agg (encode_hex (take 4 tx_input))))"

definition complete_abi_of :: "('k, 'v, 'p) abi_crates \<Rightarrow> raw_log \<Rightarrow> 'p alloy_event \<Rightarrow> abi option" where
  "complete_abi_of lib raw alloy =
     (case try_from_alloy_event lib alloy of
        None \<Rightarrow> None
      | Some event \<Rightarrow>
          (case parse_log_whole lib event raw of
             None \<Rightarrow> None
           | Some params \<Rightarrow>
               Some \<lparr>abi_name = ev_name event,
                     abi_inputs = set_indexed
                       (parse_args_with_names lib (map fst params) (map ep_kind (ev_inputs event)) (map snd params))
                       (map ep_indexed (ev_inputs event))\<rparr>))"

text \<open>An outer \<open>None\<close> is a panic.\<close>

definition event_abi_of :: "('k, 'v, 'p) abi_crates \<Rightarrow> raw_log \<Rightarrow> string \<Rightarrow> abi option option" where
  "event_abi_of lib raw sig =
     (case parse_signature lib sig of
        None \<Rightarrow> Some None
      | Some (name, args) \<Rightarrow>
          map_option (map_option (\<lambda>(values, indexed).
              \<lparr>abi_name = name, abi_inputs = set_indexed (parse_args lib ''arg'' args values) indexed\<rparr>))
            (decode_log lib name args raw))"

fun event_abis :: "('k, 'v, 'p) abi_crates \<Rightarrow> raw_log \<Rightarrow> string list \<Rightarrow> abi list option" where
  "event_abis lib raw [] = Some []"
| "event_abis lib raw (sig # sigs) =
     (case event_abi_of lib raw sig of
        None \<Rightarrow> None
      | Some r \<Rightarrow> map_option (\<lambda>abis. case r of None \<Rightarrow> abis | Some abi \<Rightarrow> abi # abis) (event_abis lib raw sigs))"

definition process_event_signatures ::
  "('k, 'v, 'p) abi_crates \<Rightarrow> raw_log \<Rightarrow> 'p alloy_event list \<Rightarrow> string list \<Rightarrow> abi list answer" where
  "process_event_signatures lib raw complete_signatures signatures =
     map_option (\<lambda>abis. Ok (keep_new {} (List.map_filter (complete_abi_of lib raw) complete_signatures @ abis)))
       (event_abis lib raw signatures)"

definition no_topic :: string where
  "no_topic = ''log should contain at least one topic''"

definition get_event_abi :: "('k, 'v, 'p) abi_crates \<Rightarrow> 'p aggregator \<Rightarrow> raw_log \<Rightarrow> abi list answer" where
  "get_event_abi lib agg raw =
     (if rl_topics raw = [] then Some (Err no_topic)
      else (let hex_sig = encode_hex (hd (rl_topics raw))
            in case proxy (\<lambda>s. cs_get_event_signatures s hex_sig) (ag_complete_sources agg) of
                 None \<Rightarrow> None
               | Some complete_responses \<Rightarrow>
                   (case proxy (\<lambda>s. ts_get_event_signatures s hex_sig) (ag_sources agg) of
                      None \<Rightarrow> None
                    | Some responses \<Rightarrow>
                        process_event_signatures lib raw (merge_signatures complete_responses)
                          (merge_signatures responses))))"

text \<open>\<open>response.get(index).cloned().unwrap_or_default()\<close>\<close>

definition get_or_default :: "'a list list \<Rightarrow> nat \<Rightarrow> 'a list" where
  "get_or_default response index = (if index < length response then response ! index else [])"

fun batch_results ::
  "('k, 'v, 'p) abi_crates \<Rightarrow> 'p alloy_event list list list \<Rightarrow> string list list list \<Rightarrow> nat \<Rightarrow> raw_log list
     \<Rightarrow> abi list list answer" where
  "batch_results lib complete_responses responses index [] = Some (Ok [])"
| "batch_results lib complete_responses responses index (raw_log # rest) =
     (case process_event_signatures lib raw_log
         (merge_signatures (map (\<lambda>response. get_or_default response index) complete_responses))
         (merge_signatures (map (\<lambda>response. get_or_default response index) responses)) of
        None \<Rightarrow> None
      | Some (Inl e) \<Rightarrow> Some (Err e)
      | Some (Inr abis) \<Rightarrow>
          map_option (\<lambda>r. try_bind r (\<lambda>results. Ok (abis # results)))
            (batch_results lib complete_responses responses (index + 1) rest))"

definition batch_get_event_abi ::
  "('k, 'v, 'p) abi_crates \<Rightarrow> 'p aggregator \<Rightarrow> raw_log list \<Rightarrow> abi list list answer" where
  "batch_get_event_abi lib agg raw_logs =
     (if \<exists>raw \<in> set raw_logs. rl_topics raw = [] then Some (Err no_topic)
      else (let hex_sigs = map (\<lambda>raw. encode_hex (hd (rl_topics raw))) raw_logs
            in case proxy (\<lambda>s. cs_batch_get_event_signatures s hex_sigs) (ag_complete_sources agg) of
                 None \<Rightarrow> None
               | Some complete_responses \<Rightarrow>
                   (case proxy (\<lambda>s. ts_batch_get_event_signatures s hex_sigs) (ag_sources agg) of
                      None \<Rightarrow> None
                    | Some responses \<Rightarrow> batch_results lib complete_responses responses 0 raw_logs)))"

section \<open>The service\<close>

datatype status = Invalid_Argument string | Internal string

record event_request =
  er_topics :: string
  er_data :: string

fun split_on :: "char \<Rightarrow> string \<Rightarrow> string list" where
  "split_on sep [] = [[]]"
| "split_on sep (c # s) =
     (if c = sep then [] # split_on sep s
      else (case split_on sep s of [] \<Rightarrow> [[c]] | w # ws \<Rightarrow> (c # w) # ws))"

definition decode_text :: "(string \<Rightarrow> (string, bytes) result) \<Rightarrow> string \<Rightarrow> (status, bytes) result" where
  "decode_text hex_decode str =
     (case hex_decode (if prefix ''0x'' str then drop 2 str else str) of
        Inl e \<Rightarrow> Err (Invalid_Argument e)
      | Inr bs \<Rightarrow> Ok bs)"

fun parse_topic_list :: "(string \<Rightarrow> (string, bytes) result) \<Rightarrow> string list \<Rightarrow> (status, bytes list) result" where
  "parse_topic_list hex_decode [] = Ok []"
| "parse_topic_list hex_decode (topic # topics) =
     try_bind (decode_text hex_decode topic) (\<lambda>hex.
       if length hex \<noteq> 32 then Err (Invalid_Argument ''topic len must be 32 bytes'')
       else try_bind (parse_topic_list hex_decode topics) (\<lambda>hs. Ok (hex # hs)))"

definition parse_topics :: "(string \<Rightarrow> (string, bytes) result) \<Rightarrow> string \<Rightarrow> (status, bytes list) result" where
  "parse_topics hex_decode topics = parse_topic_list hex_decode (split_on (CHR '','') topics)"

definition parse_event_request ::
  "(string \<Rightarrow> (string, bytes) result) \<Rightarrow> event_request \<Rightarrow> (status, raw_log) result" where
  "parse_event_request hex_decode request =
     try_bind (parse_topics hex_decode (er_topics request)) (\<lambda>topics.
       try_bind (decode_text hex_decode (er_data request)) (\<lambda>data.
         Ok \<lparr>rl_topics = topics, rl_data = data\<rparr>))"

fun parse_event_requests ::
  "(string \<Rightarrow> (string, bytes) result) \<Rightarrow> event_request list \<Rightarrow> (status, raw_log list) result" where
  "parse_event_requests hex_decode [] = Ok []"
| "parse_event_requests hex_decode (request # requests) =
     try_bind (parse_event_request hex_decode request) (\<lambda>raw.
       try_bind (parse_event_requests hex_decode requests) (\<lambda>raws. Ok (raw # raws)))"

definition internal_error :: "(string, 'r) result \<Rightarrow> (status, 'r) result" where
  "internal_error r = (case r of Inl e \<Rightarrow> Err (Internal e) | Inr x \<Rightarrow> Ok x)"

definition serve_function_abi ::
  "(string \<Rightarrow> (string, bytes) result) \<Rightarrow> ('k, 'v, 'p) abi_crates \<Rightarrow> 'p aggregator \<Rightarrow> string
     \<Rightarrow> (status, abi list) result option" where
  "serve_function_abi hex_decode lib agg tx_input =
     (case decode_text hex_decode tx_input of
        Inl e \<Rightarrow> Some (Err e)
      | Inr bs \<Rightarrow> map_option internal_error (get_function_abi lib agg bs))"

definition serve_event_abi ::
  "(string \<Rightarrow> (string, bytes) result) \<Rightarrow> ('k, 'v, 'p) abi_crates \<Rightarrow> 'p aggregator \<Rightarrow> event_request
     \<Rightarrow> (status, abi list) result option" where
  "serve_event_abi hex_decode lib agg request =
     (case parse_event_request hex_decode request of
        Inl e \<Rightarrow> Some (Err e)
      | Inr raw \<Rightarrow> map_option internal_error (get_event_abi lib agg raw))"

definition serve_batch_event_abis ::
  "(string \<Rightarrow> (string, bytes) result) \<Rightarrow> ('k, 'v, 'p) abi_crates \<Rightarrow> 'p aggregator \<Rightarrow> event_request list
     \<Rightarrow> (status, abi list list) result option" where
  "serve_batch_event_abis hex_decode lib agg requests =
     (case parse_event_requests hex_decode requests of
        Inl e \<Rightarrow> Some (Err e)
      | Inr raw_logs \<Rightarrow> map_option internal_error (batch_get_event_abi lib agg raw_logs))"

end
