(* ===== verification/Sig_Requests.thy ===== *)
theory Sig_Requests
  imports Sig_Provider "HOL-Library.Sublist"
begin

text \<open>
  What the provider of signatures answers: duplicates and failing sources, the names of decoded arguments, the search for
  indexed fields, the pages of a source, and batches against single requests.
\<close>

section \<open>Merging\<close>

lemma keep_new_set: "set (keep_new content xs) = set xs - content"
  by (induction content xs rule: keep_new.induct) auto

lemma keep_new_distinct: "distinct (keep_new content xs)"
  by (induction content xs rule: keep_new.induct) (auto simp: keep_new_set)

lemma keep_new_snoc:
  "keep_new content (xs @ [x]) = keep_new content xs @ (if x \<in> content \<union> set xs then [] else [x])"
  by (induction content xs rule: keep_new.induct) auto

text \<open>The order is that of the first occurrences.\<close>

lemma keep_new_first: "keep_new {} xs = rev (remdups (rev xs))"
  by (induction xs rule: rev_induct) (auto simp: keep_new_snoc)

lemma merge_signatures_set: "set (merge_signatures sigs) = (\<Union>s \<in> set sigs. set s)"
  by (simp add: merge_signatures_def keep_new_set)

lemma proxy_set:
  "proxy call sources = Some responses \<Longrightarrow> r \<in> set responses \<longleftrightarrow> (\<exists>s \<in> set sources. call s = Some (Ok r))"
proof (induction sources arbitrary: responses)
  case (Cons a sources)
  then obtain x z where a: "call a = Some x" and z: "proxy call sources = Some z"
    and responses: "responses = (case x of Inl e \<Rightarrow> z | Inr y \<Rightarrow> y # z)"
    by (auto split: option.splits)
  from Cons.IH[OF z] show ?case unfolding responses by (cases x) (auto simp: a)
qed simp

lemma proxy_total: "(\<And>s. s \<in> set sources \<Longrightarrow> call s \<noteq> None) \<Longrightarrow> \<exists>responses. proxy call sources = Some responses"
  by (induction sources) (fastforce split: option.splits)+

section \<open>Input of a call\<close>


section \<open>Names of arguments\<close>

fun names_of :: "argument \<Rightarrow> string list" where
  "names_of (Argument name ty components indexed val) = name # concat (map names_of components)"

definition is_digit :: "char \<Rightarrow> bool" where
  "is_digit c \<longleftrightarrow> (of_char c :: nat) \<in> {48..57}"

lemma is_digit_char: "m < 10 \<Longrightarrow> is_digit (char_of (48 + m :: nat))"
  by (simp add: is_digit_def of_char_of)

lemma digits_are_digits: "list_all is_digit (digits n)"
proof (induction n rule: digits.induct)
  case (1 n)
  show ?case
  proof (cases "n < 10")
    case True
    then show ?thesis by (subst digits.simps) (simp add: is_digit_char)
  next
    case False
    from 1[OF False] False show ?thesis by (subst digits.simps) (simp add: is_digit_char)
  qed
qed

text \<open>A suffix of a name that the components of an argument get.\<close>

definition tail_ok :: "string \<Rightarrow> bool" where
  "tail_ok r \<longleftrightarrow> r = [] \<or> hd r = CHR ''_''"

lemma digits_tail_inj:
  assumes "digits i @ r = digits j @ r'" "tail_ok r" "tail_ok r'"
  shows "i = j"
proof -
  have take: "takeWhile is_digit (digits k @ q) = digits k" if "tail_ok q" for k q
  proof -
    have "takeWhile is_digit q = []"
      using that by (cases q) (auto simp: tail_ok_def is_digit_def)
    moreover have "\<And>c. c \<in> set (digits k) \<Longrightarrow> is_digit c" using digits_are_digits[of k] by (simp add: list_all_iff)
    ultimately show ?thesis by (simp add: takeWhile_append2)
  qed
  from assms(1) have "takeWhile is_digit (digits i @ r) = takeWhile is_digit (digits j @ r')" by simp
  then have "digits i = digits j" by (simp only: take[OF assms(2)] take[OF assms(3)])
  then show ?thesis by (simp add: digits_inj)
qed

lemma names_extend:
  fixes lib :: "('k, 'v, 'p) abi_crates"
  shows "n \<in> set (names_of (parse_arg lib name param val)) \<Longrightarrow> \<exists>r. n = name @ r \<and> tail_ok r"
    and "n \<in> set (concat (map names_of (parse_args_at lib pref index args vs))) \<Longrightarrow>
      \<exists>i r. index \<le> i \<and> n = pref @ digits i @ r \<and> tail_ok r"
proof (induction lib name param val and lib pref index args vs rule: parse_arg_parse_args_at.induct)
  case (1 lib name param val)
  show ?case
  proof (cases "n = name")
    case False
    with 1(2) obtain params vals where pv: "param = Tuple_Type params" "val = Tuple_Token vals"
      and n: "n \<in> set (concat (map names_of (parse_args_at lib (name @ ''_'') 0 params vals)))"
      by (auto split: param_type.splits token.splits)
    from 1(1)[OF refl pv n] obtain i r where "n = (name @ ''_'') @ digits i @ r" by blast
    then show ?thesis by (intro exI[of _ "''_'' @ digits i @ r"]) (simp add: tail_ok_def)
  qed (simp add: tail_ok_def)
next
  case (2 lib pref index arg args v vs)
  from 2(3) consider "n \<in> set (names_of (parse_arg lib (pref @ digits index) arg v))"
    | "n \<in> set (concat (map names_of (parse_args_at lib pref (index + 1) args vs)))" by auto
  then show ?case
  proof cases
    case 1
    from 2(1)[OF 1] show ?thesis by auto
  next
    case nxt: 2
    from 2(2)[OF nxt] obtain i r where "index + 1 \<le> i" "n = pref @ digits i @ r" "tail_ok r" by blast
    then show ?thesis by (intro exI[of _ i] exI[of _ r]) simp
  qed
qed simp_all

lemma names_distinct:
  fixes lib :: "('k, 'v, 'p) abi_crates"
  shows "distinct (names_of (parse_arg lib name param val))"
    and "distinct (concat (map names_of (parse_args_at lib pref index args vs)))"
proof (induction lib name param val and lib pref index args vs rule: parse_arg_parse_args_at.induct)
  case (1 lib name param val)
  show ?case
  proof (cases "\<exists>params vals. param = Tuple_Type params \<and> val = Tuple_Token vals")
    case True
    then obtain params vals where pv: "param = Tuple_Type params" "val = Tuple_Token vals" by blast
    have "name \<notin> set (concat (map names_of (parse_args_at lib (name @ ''_'') 0 params vals)))"
      using names_extend(2)[of name lib "name @ ''_''" 0 params vals] by auto
    with 1[OF refl pv] pv show ?thesis by simp
  qed (auto split: param_type.splits token.splits)
next
  case (2 lib pref index arg args v vs)
  have "n \<notin> set (concat (map names_of (parse_args_at lib pref (index + 1) args vs)))"
    if n: "n \<in> set (names_of (parse_arg lib (pref @ digits index) arg v))" for n
  proof
    assume "n \<in> set (concat (map names_of (parse_args_at lib pref (index + 1) args vs)))"
    from names_extend(2)[OF this] obtain i r' where i: "index + 1 \<le> i" "n = pref @ digits i @ r'" "tail_ok r'" by blast
    from names_extend(1)[OF n] obtain r where "n = (pref @ digits index) @ r" "tail_ok r" by blast
    with i digits_tail_inj[of index r i r'] show False by simp
  qed
  with 2 show ?case by auto
qed simp_all

text \<open>
  The names that are made up for the arguments of a decoded call, those of the components of tuples included, at
  any depth, are all different.
\<close>

theorem argument_names_distinct:
  "distinct (concat (map names_of (parse_args lib ''arg'' args values)))"
  unfolding parse_args_def by (rule names_distinct(2))

section \<open>Pages of a source\<close>

text \<open>
  A site serves its pages when each request gets the page of its path, or the status \<open>BAD_GATEWAY\<close>, and never the latter
  more often in a row than the client tries again. The pages are followed through their links.
\<close>

definition serves_pages :: "get_response http_client \<Rightarrow> (string \<Rightarrow> get_response) \<Rightarrow> bool" where
  "serves_pages client page \<longleftrightarrow>
     (\<forall>path. \<exists>url. url_join client path = Some url
        \<and> (\<forall>t. \<exists>d \<le> N_RETRIES. http_get client (t + d) url = Ok (200, Ok (page path))
             \<and> (\<forall>d' < d. \<exists>body. http_get client (t + d') url = Ok (502, body))))"

fun linked_pages :: "(string \<Rightarrow> get_response) \<Rightarrow> nat \<Rightarrow> string \<Rightarrow> string list option" where
  "linked_pages page 0 path = None"
| "linked_pages page (Suc n) path =
     (case gr_next (page path) of
        None \<Rightarrow> Some (gr_results (page path))
      | Some next_path \<Rightarrow> map_option (append (gr_results (page path))) (linked_pages page n next_path))"

lemma try_make_request_retries:
  assumes "url_join client path = Some url" "d \<le> n" "http_get client (t + d) url = Ok (200, Ok r)"
    and "\<And>d'. d' < d \<Longrightarrow> \<exists>body. http_get client (t + d') url = Ok (502, body)"
  shows "try_make_request client path n t = Some (Ok r, t + d + 1)"
  using assms(2-)
proof (induction d arbitrary: n t)
  case 0
  with assms(1) show ?case by (subst try_make_request.simps) simp
next
  case (Suc d)
  obtain body where body: "http_get client t url = Ok (502, body)" using Suc.prems(3)[of 0] by auto
  have "\<exists>body. http_get client (Suc t + d') url = Ok (502, body)" if "d' < d" for d'
    using that Suc.prems(3)[of "Suc d'"] by simp
  moreover have "d \<le> n - 1" "http_get client (Suc t + d) url = Ok (200, Ok r)" using Suc.prems(1,2) by simp_all
  ultimately have "try_make_request client path (n - 1) (Suc t) = Some (Ok r, Suc t + d + 1)"
    by (rule Suc.IH[rotated 2])
  moreover have "0 < n" using Suc.prems(1) by simp
  ultimately show ?case using assms(1) body by (subst try_make_request.simps) simp
qed

lemma serves_pages_request:
  assumes "serves_pages client page"
  shows "\<exists>t'. try_make_request client path N_RETRIES t = Some (Ok (page path), t')"
proof -
  from assms obtain url where url: "url_join client path = Some url"
    and "\<forall>t. \<exists>d \<le> N_RETRIES. http_get client (t + d) url = Ok (200, Ok (page path))
             \<and> (\<forall>d' < d. \<exists>body. http_get client (t + d') url = Ok (502, body))"
    unfolding serves_pages_def by blast
  then obtain d where d: "d \<le> N_RETRIES" "http_get client (t + d) url = Ok (200, Ok (page path))"
    "\<And>d'. d' < d \<Longrightarrow> \<exists>body. http_get client (t + d') url = Ok (502, body)" by blast
  from try_make_request_retries[OF url d] show ?thesis by blast
qed

lemma fetch_loop_pages:
  assumes "serves_pages client page"
  shows "linked_pages page n path = Some sigs \<Longrightarrow>
     fetch_loop client N_RETRIES path signatures t = Some (Ok (signatures @ sigs))"
proof (induction n arbitrary: path sigs signatures t)
  case (Suc n)
  obtain t' where "try_make_request client path N_RETRIES t = Some (Ok (page path), t')"
    using serves_pages_request[OF assms] by blast
  note loop = fetch_loop.simps[of client N_RETRIES path signatures t, unfolded this option.case prod.case sum.case]
  show ?case
  proof (cases "gr_next (page path)")
    case None
    with Suc.prems loop show ?thesis by simp
  next
    case (Some p)
    with Suc.prems obtain rest where "linked_pages page n p = Some rest" "sigs = gr_results (page path) @ rest" by auto
    with Suc.IH[of p rest "signatures @ gr_results (page path)" t'] loop Some show ?thesis by simp
  qed
qed simp

text \<open>
  Against a site that serves its pages, with a last page at the end of the links, the request returns, and it returns
  the signatures of all pages in order.
\<close>

theorem pages_are_collected:
  assumes "serves_pages client page" "linked_pages page n path = Some sigs"
  shows "fourbyte_fetch client path = Some (Ok sigs)"
  using fetch_loop_pages[OF assms, of "[]" 0] by (simp add: fourbyte_fetch_def)

text \<open>Two pages, and a gateway that fails twice before every page.\<close>

definition sample_page :: "string \<Rightarrow> get_response" where
  "sample_page path =
     (if path = ''a'' then \<lparr>gr_next = Some ''b'', gr_results = [''f()'']\<rparr>
      else \<lparr>gr_next = None, gr_results = [''g()'']\<rparr>)"

definition sample_site :: "get_response http_client" where
  "sample_site =
     \<lparr>url_join = Some,
      http_get = (\<lambda>t url. if t mod 3 = 2 then Ok (200, Ok (sample_page url)) else Ok (502, Err ''''))\<rparr>"

lemma third_request:
  "(t + d) mod 3 = (t mod 3 + d) mod (3 :: nat)"
  by (simp add: mod_simps)

lemma mod_three: "t mod 3 = 0 \<or> t mod 3 = 1 \<or> t mod 3 = (2 :: nat)"
  by linarith

lemma sample_site_serves: "serves_pages sample_site sample_page"
proof -
  have "\<exists>d \<le> N_RETRIES. http_get sample_site (t + d) path = Ok (200, Ok (sample_page path))
             \<and> (\<forall>d' < d. \<exists>body. http_get sample_site (t + d') path = Ok (502, body))" for t path
  proof (intro exI[of _ "2 - t mod 3"] conjI allI impI)
    show "2 - t mod 3 \<le> N_RETRIES" by (simp add: N_RETRIES_def)
    have "(t + (2 - t mod 3)) mod 3 = 2"
      by (subst third_request) (use mod_three[of t] in \<open>elim disjE; simp\<close>)
    then show "http_get sample_site (t + (2 - t mod 3)) path = Ok (200, Ok (sample_page path))"
      by (simp add: sample_site_def)
    show "\<exists>body. http_get sample_site (t + d') path = Ok (502, body)" if "d' < 2 - t mod 3" for d'
    proof -
      have "(t + d') mod 3 \<noteq> 2"
        by (subst third_request) (use mod_three[of t] that in \<open>elim disjE; simp\<close>)
      then show ?thesis by (simp add: sample_site_def)
    qed
  qed
  moreover have "url_join sample_site path = Some path" for path by (simp add: sample_site_def)
  ultimately show ?thesis unfolding serves_pages_def by blast
qed

lemma pages_are_collected_witness: "fourbyte_fetch sample_site ''a'' = Some (Ok [''f()'', ''g()''])"
  by (rule pages_are_collected[OF sample_site_serves, of 2]) (simp add: numeral_2_eq_2 sample_page_def)

text \<open>Nothing bounds the number of pages: when every page links to another one, the request never ends.\<close>

lemma endless_pages_never_return:
  assumes "serves_pages client page" "\<And>path. gr_next (page path) \<noteq> None"
  shows "fourbyte_fetch client path = None"
proof -
  have "client' = client \<longrightarrow> n_retries = N_RETRIES \<longrightarrow> False"
    if "fetch_loop client' n_retries p signatures t = Some y" for client' n_retries p signatures t y
  proof (rule fetch_loop.raw_induct[where P = "\<lambda>c n p s t y. c = client \<longrightarrow> n = N_RETRIES \<longrightarrow> False", OF _ that], intro impI)
    fix f c n q s u z
    assume IH: "\<And>c n p s t y. f c n p s t = Some y \<Longrightarrow> c = client \<longrightarrow> n = N_RETRIES \<longrightarrow> False"
      and body: "(case try_make_request c q n u of None \<Rightarrow> None
        | Some (r, t') \<Rightarrow>
            (case r of
               Inl e \<Rightarrow> Some (Err e)
             | Inr resp \<Rightarrow>
                 (case gr_next resp of
                    Some next_path \<Rightarrow> f c n next_path (s @ gr_results resp) t'
                  | None \<Rightarrow> Some (Ok (s @ gr_results resp))))) = Some z"
      and here: "c = client" "n = N_RETRIES"
    obtain t' where "try_make_request client q N_RETRIES u = Some (Ok (page q), t')"
      using serves_pages_request[OF assms(1)] by blast
    moreover obtain q' where "gr_next (page q) = Some q'" using assms(2)[of q] by blast
    ultimately have "f c n q' (s @ gr_results (page q)) t' = Some z" using body here by simp
    from IH[OF this] here show False by blast
  qed
  then show ?thesis unfolding fourbyte_fetch_def by (metis not_Some_eq)
qed

section \<open>Indexed fields of a log\<close>

text \<open>The documented behaviour of \<open>combinations\<close>: every choice of \<open>k\<close> of the first \<open>n\<close> numbers, once.\<close>

locale combination_law =
  fixes combos :: "nat \<Rightarrow> nat \<Rightarrow> nat list list"
  assumes choices: "set (combos n k) = {xs. sorted_wrt (<) xs \<and> length xs = k \<and> set xs \<subseteq> {..<n}}"
    and once: "distinct (combos n k)"
begin

lemma number_of_choices: "length (combos n k) = n choose k"
proof -
  have inj: "inj_on set (set (combos n k))"
    unfolding choices by (intro inj_onI) (auto intro: sorted_distinct_set_unique simp: strict_sorted_iff)
  have "set ` set (combos n k) = {B. B \<subseteq> {..<n} \<and> card B = k}"
  proof (intro equalityI subsetI)
    fix B assume "B \<in> set ` set (combos n k)"
    then show "B \<in> {B. B \<subseteq> {..<n} \<and> card B = k}"
      unfolding choices by (auto simp: strict_sorted_iff distinct_card)
  next
    fix B assume B: "B \<in> {B. B \<subseteq> {..<n} \<and> card B = k}"
    then have "finite B" by (auto intro: finite_subset)
    with B have "sorted_list_of_set B \<in> set (combos n k)" "set (sorted_list_of_set B) = B"
      unfolding choices by auto
    then show "B \<in> set ` set (combos n k)" by (metis image_eqI)
  qed
  then have "card (set ` set (combos n k)) = n choose k" using n_subsets[of "{..<n}" k] by simp
  then show ?thesis by (simp add: card_image[OF inj] distinct_card[OF once])
qed

lemma choice_of_marks:
  "filter (\<lambda>i. perm ! i) [0..<length perm] \<in> set (combos (length perm) (count_list perm True))"
proof -
  have "length (filter (\<lambda>i. perm ! i) [0..<length perm]) = count_list perm True"
  proof (induction perm rule: rev_induct)
    case (snoc b perm)
    have "filter (\<lambda>i. (perm @ [b]) ! i) [0..<length perm] = filter (\<lambda>i. perm ! i) [0..<length perm]"
      by (intro filter_cong) (auto simp: nth_append)
    with snoc show ?case by simp
  qed simp
  moreover have "sorted_wrt (<) (filter (\<lambda>i. perm ! i) [0..<length perm])" by (intro sorted_wrt_filter) simp
  ultimately show ?thesis unfolding choices by auto
qed

end

lemma mark_indexed_fold:
  "set xs \<subseteq> {..<length p} \<Longrightarrow>
     fold (\<lambda>i perm. perm[i := True]) xs p = map (\<lambda>i. p ! i \<or> i \<in> set xs) [0..<length p]"
proof (induction xs arbitrary: p)
  case Nil
  then show ?case by (simp add: map_nth)
next
  case (Cons x xs)
  have "fold (\<lambda>i perm. perm[i := True]) xs (p[x := True])
      = map (\<lambda>i. p[x := True] ! i \<or> i \<in> set xs) [0..<length (p[x := True])]"
    by (rule Cons.IH) (use Cons.prems in simp)
  also have "\<dots> = map (\<lambda>i. p ! i \<or> i \<in> set (x # xs)) [0..<length p]"
    using Cons.prems by (auto simp: nth_list_update)
  finally show ?case by simp
qed

lemma mark_indexed_length: "length (mark_indexed n xs) = n"
proof -
  have "length (fold (\<lambda>i perm. perm[i := True]) xs p) = length p" for p
    by (induction xs arbitrary: p) simp_all
  then show ?thesis by (simp add: mark_indexed_def)
qed

lemma mark_indexed_eq: "set xs \<subseteq> {..<n} \<Longrightarrow> mark_indexed n xs = map (\<lambda>i. i \<in> set xs) [0..<n]"
  unfolding mark_indexed_def by (subst mark_indexed_fold) auto

lemma mark_indexed_marks: "mark_indexed (length perm) (filter (\<lambda>i. perm ! i) [0..<length perm]) = perm"
  by (subst mark_indexed_eq) (auto intro: nth_equalityI)

lemma mark_indexed_count:
  assumes "sorted_wrt (<) xs" "set xs \<subseteq> {..<n}"
  shows "count_list (mark_indexed n xs) True = length xs"
proof -
  have "count_list (map P ys) True = length (filter P ys)" for P and ys :: "nat list"
    by (induction ys) auto
  then have "count_list (mark_indexed n xs) True = length (filter (\<lambda>i. i \<in> set xs) [0..<n])"
    by (simp add: mark_indexed_eq[OF assms(2)])
  also have "\<dots> = card ({0..<n} \<inter> set xs)"
    by (subst distinct_card[symmetric]) (auto intro: arg_cong[of _ _ card])
  also have "{0..<n} \<inter> set xs = set xs" using assms(2) by auto
  finally show ?thesis using assms(1) by (simp add: strict_sorted_iff distinct_card)
qed

lemma try_combinations_find:
  "ind + length cs \<le> MAX_COMBINATIONS + 1 \<Longrightarrow>
     try_combinations lib name args raw ind cs =
       map_option (\<lambda>is. (map snd (the (parse_log lib (event_of name args (mark_indexed (length args) is)) raw)),
                         mark_indexed (length args) is))
         (find (\<lambda>is. parse_log lib (event_of name args (mark_indexed (length args) is)) raw \<noteq> None) cs)"
  by (induction lib name args raw ind cs rule: try_combinations.induct) (auto simp: Let_def split: option.splits)

text \<open>C22: 
  Which fields are indexed is found whenever the number of choices is at most \<open>MAX_COMBINATIONS\<close> and one: when some choice of as
  many fields as there are topics beside the first decodes the log, the result is a choice of that size together with the values
  decoded under it.
\<close>

theorem indexed_fields_are_found:
  assumes "combination_law (combinations lib)" "rl_topics raw \<noteq> []"
    and "length args choose (length (rl_topics raw) - 1) \<le> MAX_COMBINATIONS + 1"
    and "length perm = length args" "count_list perm True = length (rl_topics raw) - 1"
    and "parse_log lib (event_of name args perm) raw \<noteq> None"
  shows "\<exists>params perm'. decode_log lib name args raw = Some (Some (map snd params, perm'))
     \<and> length perm' = length args \<and> count_list perm' True = length (rl_topics raw) - 1
     \<and> parse_log lib (event_of name args perm') raw = Some params"
proof -
  let ?k = "length (rl_topics raw) - 1" and ?n = "length args"
  let ?cs = "combinations lib ?n ?k"
  let ?ok = "\<lambda>is. parse_log lib (event_of name args (mark_indexed ?n is)) raw \<noteq> None"
  note law = combination_law.choices[OF assms(1)] combination_law.number_of_choices[OF assms(1)]
  have search: "decode_log lib name args raw = Some (map_option
      (\<lambda>is. (map snd (the (parse_log lib (event_of name args (mark_indexed ?n is)) raw)), mark_indexed ?n is))
      (find ?ok ?cs))"
    using assms(2,3) by (simp add: decode_log_def try_combinations_find law(2))
  have "filter (\<lambda>i. perm ! i) [0..<length perm] \<in> set ?cs"
    using combination_law.choice_of_marks[OF assms(1), of perm] assms(4,5) by simp
  moreover have "?ok (filter (\<lambda>i. perm ! i) [0..<length perm])"
    using assms(4,6) mark_indexed_marks[of perm] by simp
  ultimately have "find ?ok ?cs \<noteq> None" unfolding find_None_iff by blast
  then obtain xs where xs: "find ?ok ?cs = Some xs" by blast
  then have "xs \<in> set ?cs" "?ok xs" by (auto simp: find_Some_iff)
  then have "sorted_wrt (<) xs" "length xs = ?k" "set xs \<subseteq> {..<?n}" unfolding law(1) by auto
  moreover from \<open>?ok xs\<close> obtain params where
    "parse_log lib (event_of name args (mark_indexed ?n xs)) raw = Some params" by blast
  ultimately show ?thesis
    using search xs by (intro exI[of _ params] exI[of _ "mark_indexed ?n xs"])
      (simp add: mark_indexed_count mark_indexed_length)
qed

text \<open>Choices in the order of their first numbers, as the crate documents it.\<close>

fun choose_from :: "nat list \<Rightarrow> nat \<Rightarrow> nat list list" where
  "choose_from xs 0 = [[]]"
| "choose_from [] (Suc k) = []"
| "choose_from (x # xs) (Suc k) = map (Cons x) (choose_from xs k) @ choose_from xs (Suc k)"

definition lex_combinations :: "nat \<Rightarrow> nat \<Rightarrow> nat list list" where
  "lex_combinations n k = choose_from [0..<n] k"

lemma choose_from_set:
  "sorted_wrt (<) ys \<Longrightarrow> set (choose_from ys k) = {xs. sorted_wrt (<) xs \<and> length xs = k \<and> set xs \<subseteq> set ys}"
proof (induction ys k rule: choose_from.induct)
  case (3 y ys k)
  have sub: "set xs \<subseteq> set ys" if "set xs \<subseteq> set (y # ys)" "y \<notin> set xs" for xs using that by auto
  have "xs \<in> set (choose_from (y # ys) (Suc k)) \<longleftrightarrow>
      sorted_wrt (<) xs \<and> length xs = Suc k \<and> set xs \<subseteq> set (y # ys)" for xs
  proof
    assume "xs \<in> set (choose_from (y # ys) (Suc k))"
    then show "sorted_wrt (<) xs \<and> length xs = Suc k \<and> set xs \<subseteq> set (y # ys)"
      using 3 by (auto simp: subset_iff)
  next
    assume xs: "sorted_wrt (<) xs \<and> length xs = Suc k \<and> set xs \<subseteq> set (y # ys)"
    then obtain x xs' where x: "xs = x # xs'" by (cases xs) auto
    show "xs \<in> set (choose_from (y # ys) (Suc k))"
    proof (cases "x = y")
      case True
      with xs x have "set xs' \<subseteq> set ys" by (intro sub) auto
      with xs x True 3 show ?thesis by auto
    next
      case False
      with xs x 3(3) have "y < x" by auto
      with xs x have "y \<notin> set xs" by fastforce
      with xs have "set xs \<subseteq> set ys" by (intro sub) auto
      with xs 3 show ?thesis by auto
    qed
  qed
  then show ?case by blast
qed auto

lemma choose_from_distinct: "sorted_wrt (<) ys \<Longrightarrow> distinct (choose_from ys k)"
proof (induction ys k rule: choose_from.induct)
  case (3 y ys k)
  have "Cons y ` set (choose_from ys k) \<inter> set (choose_from ys (Suc k)) = {}"
    using 3(3) by (auto simp: choose_from_set)
  with 3 show ?case by (simp add: distinct_map)
qed auto

interpretation lex: combination_law lex_combinations
proof
  show "set (lex_combinations n k) = {xs. sorted_wrt (<) xs \<and> length xs = k \<and> set xs \<subseteq> {..<n}}" for n k
    by (auto simp: lex_combinations_def choose_from_set atLeast0LessThan)
  show "distinct (lex_combinations n k)" for n k
    by (simp add: lex_combinations_def choose_from_distinct)
qed

text \<open>A crate that knows one type of values, of one byte each: an indexed value is a topic, the others are the data.\<close>

definition sample_parse :: "unit event \<Rightarrow> raw_log \<Rightarrow> (string \<times> nat token) list option" where
  "sample_parse ev raw =
     (if map ep_indexed (ev_inputs ev) = [False, True]
      then Some [(''0'', Other_Token (unat (hd (rl_data raw)))), (''1'', Other_Token (unat (hd (rl_topics raw ! 1))))]
      else None)"

definition sample_crates :: "(unit, nat, unit) abi_crates" where
  "sample_crates =
     \<lparr>read_type = (\<lambda>s. if s = ''(uint8,uint8)'' then Some (Tuple_Type [Other_Type (), Other_Type ()]) else None),
      eth_decode = (\<lambda>args bs. if length args = length bs then Some (map (\<lambda>b. Other_Token (unat b)) bs) else None),
      eth_encode = map (\<lambda>v. case v of Other_Token n \<Rightarrow> word_of_nat n | Tuple_Token _ \<Rightarrow> 0),
      parse_log = sample_parse, parse_log_whole = (\<lambda>_ _. None),
      type_text = (\<lambda>_. ''uint8''), token_text = (\<lambda>_. ''''), try_from_alloy_event = (\<lambda>_. None),
      combinations = lex_combinations\<rparr>"

lemma indexed_fields_are_found_witness:
  "\<exists>(params :: (string \<times> nat token) list) perm'. decode_log sample_crates ''f'' [Other_Type (), Other_Type ()] \<lparr>rl_topics = [[1], [2]], rl_data = [3]\<rparr>
       = Some (Some (map snd params, perm'))
     \<and> length perm' = 2 \<and> count_list perm' True = 1"
proof -
  let ?args = "[Other_Type (), Other_Type ()]" and ?raw = "\<lparr>rl_topics = [[1], [2]], rl_data = [3]\<rparr>"
  have law: "combination_law (combinations sample_crates)"
    by (simp add: sample_crates_def lex.combination_law_axioms)
  have decodes: "parse_log sample_crates (event_of ''f'' ?args [False, True]) ?raw \<noteq> None"
    by (simp add: sample_crates_def sample_parse_def event_of_def)
  have "rl_topics ?raw \<noteq> []" "length ?args choose (length (rl_topics ?raw) - 1) \<le> MAX_COMBINATIONS + 1"
    "length [False, True] = length ?args" "count_list [False, True] True = length (rl_topics ?raw) - 1"
    by (simp_all add: MAX_COMBINATIONS_def)
  from indexed_fields_are_found[OF law this decodes] obtain params :: "(string \<times> nat token) list" and perm' where
    "decode_log sample_crates ''f'' ?args ?raw = Some (Some (map snd params, perm'))"
    "length perm' = length ?args" "count_list perm' True = length (rl_topics ?raw) - 1"
    by (elim exE conjE) (rule that, assumption+)
  then show ?thesis by (intro exI[of _ params] exI[of _ perm']) simp
qed

definition sample_text_source :: text_source where
  "sample_text_source =
     \<lparr>ts_create_signatures = (\<lambda>_. Some (Ok ())), ts_get_function_signatures = (\<lambda>_. Some (Ok [''f(uint8,uint8)''])),
      ts_get_event_signatures = (\<lambda>_. Some (Err ''down'')), ts_batch_get_event_signatures = default_batch\<rparr>"


section \<open>Batches of logs\<close>

text \<open>
  The database answers the selectors of a batch as it answers each of them, as long as the batch is not larger than its limit,
  and the descriptions parse.
\<close>

definition answers_each :: "'p bytecode_db_client \<Rightarrow> (string \<Rightarrow> description list) \<Rightarrow> bool" where
  "answers_each client known \<longleftrightarrow>
     (\<exists>url. bd_join client search_route = Some url \<and> (\<forall>h. bd_search client url h = Ok (200, Ok (known h))))
     \<and> (\<exists>url. bd_join client batch_search_route = Some url
          \<and> (\<forall>hs. length hs \<le> BATCH_LIMIT \<longrightarrow> bd_batch_search client url hs = Ok (200, Ok (map known hs))))
     \<and> (\<forall>h. \<forall>d \<in> set (known h). \<exists>inputs. bd_parse_inputs client (de_inputs d) = Ok inputs)"

text \<open>What a source has to be for its batches to agree with its single answers.\<close>

definition pointwise :: "'p complete_source \<Rightarrow> (string \<Rightarrow> 'p alloy_event list) \<Rightarrow> bool" where
  "pointwise source g \<longleftrightarrow>
     (\<forall>h. cs_get_event_signatures source h = Some (Ok (g h)))
     \<and> (\<forall>hs. cs_batch_get_event_signatures source hs = Some (Ok (map g hs)))"

lemma collect_results_Ok: "(\<And>x. x \<in> set xs \<Longrightarrow> f x = Ok (g x)) \<Longrightarrow> collect_results f xs = Ok (map g xs)"
  by (induction xs) simp_all

lemma chunks_length: "0 < n \<Longrightarrow> c \<in> set (chunks n xs) \<Longrightarrow> length c \<le> n"
proof (induction n xs rule: chunks.induct)
  case (1 n xs)
  show ?case
  proof (cases "xs = []")
    case False
    with 1(2) have "set (chunks n xs) = insert (take n xs) (set (chunks n (drop n xs)))"
      by (subst chunks.simps) simp
    with 1 False show ?thesis by auto
  qed (use 1(3) in \<open>simp add: chunks.simps\<close>)
qed

lemma send_chunks_Ok:
  assumes "bd_join client batch_search_route = Some url"
    and "\<And>hs. length hs \<le> BATCH_LIMIT \<Longrightarrow> bd_batch_search client url hs = Ok (200, Ok (map known hs))"
  shows "(\<And>c. c \<in> set cs \<Longrightarrow> length c \<le> BATCH_LIMIT) \<Longrightarrow>
    send_chunks client cs = Some (Ok (map known (concat cs)))"
proof (induction cs)
  case (Cons c cs)
  then have "send_post_request (bd_join client) (\<lambda>url. bd_batch_search client url c) batch_search_route
      = Some (Ok (map known c))"
    by (simp add: send_post_request_def assms)
  with Cons show ?case by simp
qed simp

lemma bytecode_db_pointwise:
  assumes "answers_each client known"
  shows "\<exists>g. pointwise (bytecode_db_source client) g"
proof -
  have "\<forall>h. \<exists>es. collect_results (try_from_description (bd_parse_inputs client)) (known h) = Ok es"
  proof
    fix h
    have "\<exists>e. try_from_description (bd_parse_inputs client) d = Ok e" if "d \<in> set (known h)" for d
      using assms that unfolding answers_each_def try_from_description_def by fastforce
    then obtain e where "\<And>d. d \<in> set (known h) \<Longrightarrow> try_from_description (bd_parse_inputs client) d = Ok (e d)"
      by metis
    then show "\<exists>es. collect_results (try_from_description (bd_parse_inputs client)) (known h) = Ok es"
      by (intro exI) (rule collect_results_Ok)
  qed
  then obtain es where es: "\<And>h. collect_results (try_from_description (bd_parse_inputs client)) (known h) = Ok (es h)"
    by metis
  have single: "db_get_event_signatures client h = Some (Ok (es (hash_text h)))" for h
    using assms es by (auto simp: db_get_event_signatures_def send_post_request_def answers_each_def)
  have batch: "db_batch_get_event_signatures client hs = Some (Ok (map (\<lambda>h. es (hash_text h)) hs))" for hs
  proof -
    from assms obtain url where url: "bd_join client batch_search_route = Some url"
      "\<And>hs. length hs \<le> BATCH_LIMIT \<Longrightarrow> bd_batch_search client url hs = Ok (200, Ok (map known hs))"
      unfolding answers_each_def by blast
    have "0 < BATCH_LIMIT" by (simp add: BATCH_LIMIT_def)
    then have "send_chunks client (map (map hash_text) (chunks BATCH_LIMIT hs))
        = Some (Ok (map known (concat (map (map hash_text) (chunks BATCH_LIMIT hs)))))"
      by (intro send_chunks_Ok[OF url]) (auto dest: chunks_length)
    also have "concat (map (map hash_text) (chunks BATCH_LIMIT hs)) = map hash_text hs"
      using chunks_concat[OF \<open>0 < BATCH_LIMIT\<close>, of hs] by (metis map_concat)
    finally have sent: "send_chunks client (map (map hash_text) (chunks BATCH_LIMIT hs))
        = Some (Ok (map known (map hash_text hs)))" .
    have "collect_results (collect_results (try_from_description (bd_parse_inputs client))) (map known (map hash_text hs))
        = Ok (map (\<lambda>h. es (hash_text h)) hs)"
      by (induction hs) (simp_all add: es)
    with sent show ?thesis by (simp add: db_batch_get_event_signatures_def)
  qed
  show ?thesis
    by (intro exI[of _ "\<lambda>h. es (hash_text h)"]) (simp add: pointwise_def bytecode_db_source_def single batch)
qed

lemma proxy_all: "(\<And>s. s \<in> set ss \<Longrightarrow> call s = Some (Ok (g s))) \<Longrightarrow> proxy call ss = Some (map g ss)"
  by (induction ss) simp_all

lemma event_abis_total: "rl_topics raw \<noteq> [] \<Longrightarrow> \<exists>abis. event_abis lib raw sigs = Some abis"
  by (induction sigs) (auto simp: event_abi_of_def decode_log_def split: option.splits)

lemma process_total:
  "rl_topics raw \<noteq> [] \<Longrightarrow> \<exists>abis. process_event_signatures lib raw complete sigs = Some (Ok abis)"
  using event_abis_total[of raw lib sigs] by (auto simp: process_event_signatures_def)

text \<open>The requests of a batch one after the other.\<close>

fun one_by_one :: "('k, 'v, 'p) abi_crates \<Rightarrow> 'p aggregator \<Rightarrow> raw_log list \<Rightarrow> abi list list answer" where
  "one_by_one lib agg [] = Some (Ok [])"
| "one_by_one lib agg (raw # rest) =
     (case get_event_abi lib agg raw of
        None \<Rightarrow> None
      | Some (Inl e) \<Rightarrow> Some (Err e)
      | Some (Inr abis) \<Rightarrow> map_option (\<lambda>r. try_bind r (\<lambda>results. Ok (abis # results))) (one_by_one lib agg rest))"

lemma get_event_abi_complete:
  assumes "ag_sources agg = []" "\<And>s. s \<in> set (ag_complete_sources agg) \<Longrightarrow> pointwise s (g s)"
  shows "get_event_abi lib agg raw =
     (if rl_topics raw = [] then Some (Err no_topic)
      else process_event_signatures lib raw
        (merge_signatures (map (\<lambda>s. g s (encode_hex (hd (rl_topics raw)))) (ag_complete_sources agg))) [])"
proof -
  have "proxy (\<lambda>s. cs_get_event_signatures s h) (ag_complete_sources agg)
      = Some (map (\<lambda>s. g s h) (ag_complete_sources agg))" for h
    by (rule proxy_all) (use assms(2) in \<open>simp add: pointwise_def\<close>)
  then show ?thesis
    using assms(1) by (simp add: get_event_abi_def Let_def merge_signatures_def)
qed

lemma one_by_one_error:
  assumes "ag_sources agg = []" "\<And>s. s \<in> set (ag_complete_sources agg) \<Longrightarrow> pointwise s (g s)"
  shows "\<exists>raw \<in> set raws. rl_topics raw = [] \<Longrightarrow> one_by_one lib agg raws = Some (Err no_topic)"
proof (induction raws)
  case (Cons raw raws)
  show ?case
  proof (cases "rl_topics raw = []")
    case True
    then show ?thesis by (simp add: get_event_abi_complete[of agg g, OF assms])
  next
    case False
    with Cons have "one_by_one lib agg raws = Some (Err no_topic)" by simp
    moreover obtain abis where "get_event_abi lib agg raw = Some (Ok abis)"
      using False process_total[OF False] by (metis get_event_abi_complete[of agg g, OF assms])
    ultimately show ?thesis by simp
  qed
qed simp

lemma concat_map_nil: "concat (map (\<lambda>_. []) xs) = []"
  by (induction xs) simp_all

lemma get_or_default_replicate: "get_or_default (replicate n []) i = []"
  by (simp add: get_or_default_def)

lemma batch_results_one_by_one:
  assumes "ag_sources agg = []" "\<And>s. s \<in> set (ag_complete_sources agg) \<Longrightarrow> pointwise s (g s)"
    and "hs = map (\<lambda>raw. encode_hex (hd (rl_topics raw))) (before @ raws)"
    and "\<And>raw. raw \<in> set raws \<Longrightarrow> rl_topics raw \<noteq> []"
  shows "batch_results lib (map (\<lambda>s. map (g s) hs) (ag_complete_sources agg)) (map (\<lambda>s. replicate (length hs) []) texts)
      (length before) raws = one_by_one lib agg raws"
  using assms(3,4)
proof (induction raws arbitrary: before)
  case (Cons raw raws)
  let ?i = "length before" and ?h = "encode_hex (hd (rl_topics raw))"
  have complete: "map (\<lambda>r. get_or_default r ?i) (map (\<lambda>s. map (g s) hs) (ag_complete_sources agg))
      = map (\<lambda>s. g s ?h) (ag_complete_sources agg)"
    using Cons.prems(1) by (simp add: get_or_default_def nth_append)
  have texts: "merge_signatures (map (\<lambda>r. get_or_default r ?i) (map (\<lambda>s. replicate (length hs) []) texts)) = []"
    by (simp add: merge_signatures_def comp_def get_or_default_replicate concat_map_nil)
  have here: "process_event_signatures lib raw
      (merge_signatures (map (\<lambda>r. get_or_default r ?i) (map (\<lambda>s. map (g s) hs) (ag_complete_sources agg))))
      (merge_signatures (map (\<lambda>r. get_or_default r ?i) (map (\<lambda>s. replicate (length hs) []) texts)))
      = get_event_abi lib agg raw"
    using Cons.prems(2) unfolding complete texts by (simp add: get_event_abi_complete[of agg g, OF assms(1,2)])
  have "batch_results lib (map (\<lambda>s. map (g s) hs) (ag_complete_sources agg)) (map (\<lambda>s. replicate (length hs) []) texts)
      (length (before @ [raw])) raws = one_by_one lib agg raws"
    by (rule Cons.IH) (use Cons.prems in simp_all)
  then have rest: "batch_results lib (map (\<lambda>s. map (g s) hs) (ag_complete_sources agg))
      (map (\<lambda>s. replicate (length hs) []) texts) (?i + 1) raws = one_by_one lib agg raws" by simp
  show ?case unfolding batch_results.simps one_by_one.simps here rest ..
qed simp


definition sample_db_client :: "unit bytecode_db_client" where
  "sample_db_client =
     \<lparr>bd_join = Some, bd_search = (\<lambda>_ h. Ok (200, Ok [\<lparr>de_name = h, de_inputs = ''[]''\<rparr>])),
      bd_batch_search = (\<lambda>_ hs. Ok (200, Ok (map (\<lambda>h. [\<lparr>de_name = h, de_inputs = ''[]''\<rparr>]) hs))),
      bd_parse_inputs = (\<lambda>_. Ok ())\<rparr>"

definition sample_aggregator :: "unit aggregator" where
  "sample_aggregator =
     \<lparr>ag_sources = [fourbyte_source (\<lambda>_. Some (Ok ())) sample_site],
      ag_complete_sources = [bytecode_db_source sample_db_client]\<rparr>"

lemma sample_db_answers_each: "answers_each sample_db_client (\<lambda>h. [\<lparr>de_name = h, de_inputs = ''[]''\<rparr>])"
  by (simp add: answers_each_def sample_db_client_def)


section \<open>The service\<close>

text \<open>A list of topics that parses has at least one topic, of 32 bytes each.\<close>

lemma split_on_nonempty: "split_on sep s \<noteq> []"
  by (induction s) (auto split: list.splits)

lemma parse_topic_list_Ok:
  "parse_topic_list hex_decode ts = Ok hs \<Longrightarrow> length hs = length ts \<and> (\<forall>h \<in> set hs. length h = 32)"
  by (induction ts arbitrary: hs) (auto simp: try_bind_Ok_iff split: if_splits)

lemma parse_topics_Ok:
  "parse_topics hex_decode topics = Ok hs \<Longrightarrow> hs \<noteq> [] \<and> (\<forall>h \<in> set hs. length h = 32)"
  using parse_topic_list_Ok[of hex_decode "split_on (CHR '','') topics" hs] split_on_nonempty[of "CHR '',''" topics]
  by (auto simp: parse_topics_def)

lemma decode_text_error: "decode_text hex_decode s = Err e \<Longrightarrow> \<exists>m. e = Invalid_Argument m"
  by (auto simp: decode_text_def split: sum.splits)

lemma parse_topic_list_error: "parse_topic_list hex_decode ts = Err e \<Longrightarrow> \<exists>m. e = Invalid_Argument m"
  by (induction ts) (auto simp: try_bind_Err_iff dest: decode_text_error split: if_splits)

lemma parse_event_request_error: "parse_event_request hex_decode r = Err e \<Longrightarrow> \<exists>m. e = Invalid_Argument m"
  by (auto simp: parse_event_request_def parse_topics_def try_bind_Err_iff
      dest: decode_text_error parse_topic_list_error)

lemma parse_event_requests_error: "parse_event_requests hex_decode rs = Err e \<Longrightarrow> \<exists>m. e = Invalid_Argument m"
  by (induction rs) (auto simp: try_bind_Err_iff dest: parse_event_request_error)

lemma parse_event_requests_Ok:
  "parse_event_requests hex_decode rs = Ok raws \<Longrightarrow> \<forall>raw \<in> set raws. rl_topics raw \<noteq> []"
  by (induction rs arbitrary: raws)
    (auto simp: try_bind_Ok_iff parse_event_request_def dest!: parse_topics_Ok)

lemma batch_results_total:
  "(\<And>raw. raw \<in> set raws \<Longrightarrow> rl_topics raw \<noteq> []) \<Longrightarrow>
     \<exists>results. batch_results lib complete responses index raws = Some (Ok results)"
proof (induction raws arbitrary: index)
  case (Cons raw raws)
  from Cons.prems have "rl_topics raw \<noteq> []" by simp
  from process_total[OF this] obtain abis where
    "process_event_signatures lib raw (merge_signatures (map (\<lambda>r. get_or_default r index) complete))
       (merge_signatures (map (\<lambda>r. get_or_default r index) responses)) = Some (Ok abis)" by blast
  moreover obtain results where "batch_results lib complete responses (index + 1) raws = Some (Ok results)"
    using Cons by auto
  ultimately show ?case by simp
qed simp

lemma batch_results_length:
  "batch_results lib complete responses index raws = Some (Ok results) \<Longrightarrow> length results = length raws"
proof (induction raws arbitrary: index results)
  case (Cons raw raws)
  from Cons.prems obtain rest where "batch_results lib complete responses (index + 1) raws = Some (Ok rest)"
    "length results = Suc (length rest)"
    by (auto simp: try_bind_Ok_iff split: option.splits sum.splits)
  with Cons.IH show ?case by simp
qed simp

lemma parse_event_requests_length: "parse_event_requests hex_decode rs = Ok raws \<Longrightarrow> length raws = length rs"
  by (induction rs arbitrary: raws) (auto simp: try_bind_Ok_iff)

text \<open>C28: 
  The service answers a batch, whatever its sources answer and however many of them fail, as long as each of them
  answers or fails: the only error it reports is that an argument is not valid, and then some topic or data of the batch is not.
\<close>

theorem batch_service_reports_arguments_only:
  assumes "\<And>s hs. s \<in> set (ag_sources agg) \<Longrightarrow> ts_batch_get_event_signatures s hs \<noteq> None"
    and "\<And>s hs. s \<in> set (ag_complete_sources agg) \<Longrightarrow> cs_batch_get_event_signatures s hs \<noteq> None"
  shows "case parse_event_requests hex_decode requests of
      Inl e \<Rightarrow> (\<exists>m. e = Invalid_Argument m) \<and> serve_batch_event_abis hex_decode lib agg requests = Some (Err e)
    | Inr raws \<Rightarrow> \<exists>abis. serve_batch_event_abis hex_decode lib agg requests = Some (Ok abis) \<and> length abis = length requests"
proof (cases "parse_event_requests hex_decode requests")
  case (Inl e)
  then show ?thesis by (simp add: serve_batch_event_abis_def parse_event_requests_error)
next
  case (Inr raws)
  note topics = parse_event_requests_Ok[OF Inr]
  let ?hs = "map (\<lambda>raw. encode_hex (hd (rl_topics raw))) raws"
  obtain complete where complete: "proxy (\<lambda>s. cs_batch_get_event_signatures s ?hs) (ag_complete_sources agg) = Some complete"
    using proxy_total[of "ag_complete_sources agg" "\<lambda>s. cs_batch_get_event_signatures s ?hs"] assms(2) by blast
  obtain texts where texts: "proxy (\<lambda>s. ts_batch_get_event_signatures s ?hs) (ag_sources agg) = Some texts"
    using proxy_total[of "ag_sources agg" "\<lambda>s. ts_batch_get_event_signatures s ?hs"] assms(1) by blast
  obtain abis where abis: "batch_results lib complete texts 0 raws = Some (Ok abis)"
    using batch_results_total[of raws] topics by blast
  have "batch_get_event_abi lib agg raws = Some (Ok abis)"
    using topics complete texts abis by (simp add: batch_get_event_abi_def Let_def)
  moreover have "length abis = length requests"
    using batch_results_length[OF abis] parse_event_requests_length[OF Inr] by simp
  ultimately show ?thesis using Inr by (simp add: serve_batch_event_abis_def internal_error_def)
qed

lemma batch_service_reports_arguments_only_witness:
  "\<exists>abis. serve_batch_event_abis (\<lambda>_. Ok (replicate 32 0)) sample_crates sample_aggregator
       [\<lparr>er_topics = ''0x'', er_data = ''0x''\<rparr>] = Some (Ok abis) \<and> length abis = 1"
proof -
  have "ts_batch_get_event_signatures s hs \<noteq> None" if "s \<in> set (ag_sources sample_aggregator)" for s hs
    using that by (simp add: sample_aggregator_def fourbyte_source_def default_batch_def)
  moreover have "cs_batch_get_event_signatures s hs \<noteq> None" if "s \<in> set (ag_complete_sources sample_aggregator)" for s hs
    using that bytecode_db_pointwise[OF sample_db_answers_each] by (auto simp: sample_aggregator_def pointwise_def)
  ultimately show ?thesis
    using batch_service_reports_arguments_only[where agg = sample_aggregator and hex_decode = "\<lambda>_. Ok (replicate 32 0)"
        and requests = "[\<lparr>er_topics = ''0x'', er_data = ''0x''\<rparr>]" and lib = sample_crates]
    by (simp add: parse_event_request_def parse_topics_def decode_text_def)
qed

end
