(* ===== verification/User_Traces.thy ===== *)
theory User_Traces
  imports Code_Match "HOL-Library.Sublist"
begin

text \<open>
  The calls of a transaction
  (\<^verbatim>\<open>user-ops-indexer/user-ops-indexer-logic/src/indexer/rpc_utils.rs\<close>). A node of one kind
  answers with a tree of frames, one of the other kind with a list of calls and their addresses in the tree. Both
  become a list of calls in the order of execution, and a call counts as failed when it or a call
  around it was reverted.
\<close>

section \<open>Nodes\<close>

datatype node_client = Geth | Erigon | OpenEthereum | Nethermind | Besu | Reth | Unknown_Client
datatype trace_client = Debug | Trace

definition ascii_lower :: "char \<Rightarrow> char" where
  "ascii_lower c = (let n = of_char c :: nat in if 65 \<le> n \<and> n \<le> 90 then char_of (n + 32) else c)"

definition node_client_from :: "string \<Rightarrow> node_client" where
  "node_client_from s =
     (let name = map ascii_lower (takeWhile (\<lambda>c. c \<noteq> CHR ''/'') s)
      in if name = ''geth'' then Geth else if name = ''erigon'' then Erigon
         else if name = ''openethereum'' then OpenEthereum else if name = ''nethermind'' then Nethermind
         else if name = ''besu'' then Besu else if name = ''reth'' then Reth else Unknown_Client)"

fun default_for :: "node_client \<Rightarrow> trace_client" where
  "default_for Geth = Debug"
| "default_for Erigon = Trace"
| "default_for OpenEthereum = Trace"
| "default_for Nethermind = Trace"
| "default_for Besu = Trace"
| "default_for Reth = Trace"
| "default_for Unknown_Client = Debug"

section \<open>Calls\<close>

datatype trace_type = Call | CallCode | DelegateCall | StaticCall | Create | Other

record common_call_trace =
  ct_typ :: trace_type
  ct_from :: bytes
  ct_to :: "bytes option"
  ct_input :: bytes
  ct_status :: bool

text \<open>A frame of the tracer: its kind, sender, receiver, input, error and inner calls.\<close>

datatype call_frame =
  Frame (fr_typ: string) (fr_from: bytes) (fr_to: "bytes option") (fr_input: bytes) (fr_error: "string option")
    (fr_calls: "call_frame list")

definition parent_reverted :: string where
  "parent_reverted = ''Parent reverted''"

definition frame_type :: "string \<Rightarrow> trace_type" where
  "frame_type typ =
     (if typ = ''CALL'' then Call else if typ = ''CALLCODE'' then CallCode
      else if typ = ''STATICCALL'' then StaticCall else if typ = ''DELEGATECALL'' then DelegateCall
      else if typ = ''CREATE'' \<or> typ = ''CREATE2'' then Create else Other)"

definition trace_of_frame :: "call_frame \<Rightarrow> common_call_trace" where
  "trace_of_frame frame =
     \<lparr>ct_typ = frame_type (fr_typ frame), ct_from = fr_from frame, ct_to = fr_to frame, ct_input = fr_input frame,
      ct_status = (fr_error frame = None)\<rparr>"

definition mark_child :: "call_frame \<Rightarrow> call_frame" where
  "mark_child child =
     Frame (fr_typ child) (fr_from child) (fr_to child) (fr_input child)
       (if fr_error child = None then Some parent_reverted else fr_error child) (fr_calls child)"

text \<open>The stack of the loop with its top first; a frame is replaced by its inner calls in order.\<close>

fun frame_size :: "call_frame \<Rightarrow> nat" where
  "frame_size (Frame typ from to input err calls) = Suc (sum_list (map frame_size calls))"

lemma frame_size_mark_child [simp]: "frame_size (mark_child f) = frame_size f"
  by (cases f) (simp add: mark_child_def)

function flatten_loop :: "call_frame list \<Rightarrow> common_call_trace list" where
  "flatten_loop [] = []"
| "flatten_loop (frame # stack) =
     trace_of_frame frame
       # flatten_loop ((if fr_error frame \<noteq> None then map mark_child (fr_calls frame) else fr_calls frame) @ stack)"
  by pat_completeness auto
termination
proof (relation "measure (\<lambda>stack. sum_list (map frame_size stack))")
  show "((if fr_error frame \<noteq> None then map mark_child (fr_calls frame) else fr_calls frame) @ stack, frame # stack)
      \<in> measure (\<lambda>stack. sum_list (map frame_size stack))" for frame stack
    by (cases frame) (simp add: comp_def)
qed simp

definition flatten_geth_trace :: "call_frame \<Rightarrow> common_call_trace list" where
  "flatten_geth_trace root = flatten_loop [root]"

text \<open>The other format: a list of actions, each with its path from the root.\<close>

datatype call_type = Plain_Call | Call_Code | Delegate_Call | Static_Call | Other_Call

datatype action =
  Call_Action (ac_type: call_type) (ac_from: bytes) (ac_to: bytes) (ac_input: bytes)
| Create_Action (cr_from: bytes) (cr_init: bytes)
| Other_Action

record localized_trace =
  lt_address :: "nat list"
  lt_action :: action
  lt_error :: "string option"

text \<open>One round of the loop: the path of the outermost failed call that contains the current one, if any.\<close>

definition mark_step :: "nat list option \<Rightarrow> localized_trace \<Rightarrow> nat list option \<times> localized_trace" where
  "mark_step earliest_revert trace =
     (let earliest = (case earliest_revert of
            Some p \<Rightarrow> if prefix p (lt_address trace) then Some p else None
          | None \<Rightarrow> None)
      in case (earliest, lt_error trace) of
           (Some p, None) \<Rightarrow> (Some p, trace\<lparr>lt_error := Some parent_reverted\<rparr>)
         | (None, Some e) \<Rightarrow> (Some (lt_address trace), trace)
         | _ \<Rightarrow> (earliest, trace))"

fun mark_loop :: "nat list option \<Rightarrow> localized_trace list \<Rightarrow> localized_trace list" where
  "mark_loop earliest [] = []"
| "mark_loop earliest (trace # traces) =
     (case mark_step earliest trace of (earliest', trace') \<Rightarrow> trace' # mark_loop earliest' traces)"

definition mark_reverted_parents :: "localized_trace list \<Rightarrow> localized_trace list" where
  "mark_reverted_parents traces = mark_loop None traces"

fun call_trace_type :: "call_type \<Rightarrow> trace_type" where
  "call_trace_type Plain_Call = Call"
| "call_trace_type Call_Code = CallCode"
| "call_trace_type Delegate_Call = DelegateCall"
| "call_trace_type Static_Call = StaticCall"
| "call_trace_type Other_Call = Other"

definition common_of :: "localized_trace \<Rightarrow> common_call_trace option" where
  "common_of t =
     (case lt_action t of
        Call_Action typ from to input \<Rightarrow>
          Some \<lparr>ct_typ = call_trace_type typ, ct_from = from, ct_to = Some to, ct_input = input,
                ct_status = (lt_error t = None)\<rparr>
      | Create_Action from init \<Rightarrow>
          Some \<lparr>ct_typ = Create, ct_from = from, ct_to = None, ct_input = init, ct_status = (lt_error t = None)\<rparr>
      | Other_Action \<Rightarrow> None)"

text \<open>
  The two requests of a provider. A tree that is not one of calls is an error.
\<close>

datatype transport_error = Backend_Gone | Custom_Error string | Other_Transport_Error string

datatype geth_trace = Call_Tracer call_frame | Other_Tracer

record tracer =
  tp_debug_trace :: "bytes \<Rightarrow> (transport_error, geth_trace) result"
  tp_trace :: "bytes \<Rightarrow> (transport_error, localized_trace list) result"

definition common_trace_transaction ::
  "tracer \<Rightarrow> bytes \<Rightarrow> trace_client \<Rightarrow> (transport_error, common_call_trace list) result" where
  "common_trace_transaction provider tx_hash client =
     (if client = Debug
      then try_bind (tp_debug_trace provider tx_hash) (\<lambda>t. case t of
             Call_Tracer root \<Rightarrow> Ok (flatten_geth_trace root)
           | Other_Tracer \<Rightarrow> Err (Custom_Error ''can't parse geth trace result''))
      else try_bind (tp_trace provider tx_hash) (\<lambda>traces.
             Ok (List.map_filter common_of (mark_reverted_parents traces))))"

section \<open>What the list of calls is\<close>

text \<open>The calls in the order of execution, with the flag that a call around them was reverted.\<close>

fun calls_in_order :: "bool \<Rightarrow> call_frame \<Rightarrow> common_call_trace list" where
  "calls_in_order inside (Frame typ from to input err calls) =
     \<lparr>ct_typ = frame_type typ, ct_from = from, ct_to = to, ct_input = input, ct_status = (err = None \<and> \<not> inside)\<rparr>
       # concat (map (calls_in_order (inside \<or> err \<noteq> None)) calls)"

text \<open>Marking a child is entering it with the flag.\<close>

lemma calls_in_order_mark_child: "calls_in_order False (mark_child f) = calls_in_order True f"
  by (cases f) (simp add: mark_child_def)

lemma flatten_loop_calls: "flatten_loop stack = concat (map (calls_in_order False) stack)"
proof (induction stack rule: flatten_loop.induct)
  case (2 frame stack)
  obtain kind sender receiver input err calls where frame: "frame = Frame kind sender receiver input err calls"
    by (cases frame)
  show ?case
    using 2[unfolded frame] unfolding frame
    by (cases err) (simp_all add: trace_of_frame_def comp_def calls_in_order_mark_child)
qed simp

text \<open>
  Flattening a tree of frames lists every call once, in the order of execution, and a call is successful exactly
  when neither it nor any call around it has an error.
\<close>

theorem flattened_trace_is_the_execution: "flatten_geth_trace root = calls_in_order False root"
  by (simp add: flatten_geth_trace_def flatten_loop_calls)

section \<open>Both formats agree\<close>

text \<open>How the other format shows the same tree: each call with its path, a call with its receiver only.\<close>

definition frame_action :: "call_frame \<Rightarrow> action" where
  "frame_action frame =
     (case (frame_type (fr_typ frame), fr_to frame) of
        (Call, Some to) \<Rightarrow> Call_Action Plain_Call (fr_from frame) to (fr_input frame)
      | (CallCode, Some to) \<Rightarrow> Call_Action Call_Code (fr_from frame) to (fr_input frame)
      | (DelegateCall, Some to) \<Rightarrow> Call_Action Delegate_Call (fr_from frame) to (fr_input frame)
      | (StaticCall, Some to) \<Rightarrow> Call_Action Static_Call (fr_from frame) to (fr_input frame)
      | (Create, _) \<Rightarrow> Create_Action (fr_from frame) (fr_input frame)
      | _ \<Rightarrow> Other_Action)"

definition localized :: "nat list \<Rightarrow> string option \<Rightarrow> call_frame \<Rightarrow> localized_trace" where
  "localized a err frame = \<lparr>lt_address = a, lt_action = frame_action frame, lt_error = err\<rparr>"

text \<open>
  The list as the node sends it shows the errors of each call itself (\<open>marking\<close> is not set); with the mark, a call that has
  no error and is inside a reverted one gets the error of its parent.
\<close>

fun localized_calls :: "bool \<Rightarrow> bool \<Rightarrow> nat list \<Rightarrow> call_frame \<Rightarrow> localized_trace list"
and localized_forest :: "bool \<Rightarrow> bool \<Rightarrow> nat list \<Rightarrow> nat \<Rightarrow> call_frame list \<Rightarrow> localized_trace list" where
  "localized_calls marking inside a (Frame typ from to input err calls) =
     localized a (if marking \<and> inside \<and> err = None then Some parent_reverted else err) (Frame typ from to input err calls)
       # localized_forest marking (inside \<or> err \<noteq> None) a 0 calls"
| "localized_forest marking inside a i [] = []"
| "localized_forest marking inside a i (f # fs) =
     localized_calls marking inside (a @ [i]) f @ localized_forest marking inside a (Suc i) fs"

text \<open>The state of the loop after a list.\<close>

fun end_state :: "nat list option \<Rightarrow> localized_trace list \<Rightarrow> nat list option" where
  "end_state e [] = e"
| "end_state e (t # ts) = end_state (fst (mark_step e t)) ts"

lemma mark_loop_append: "mark_loop e (xs @ ys) = mark_loop e xs @ mark_loop (end_state e xs) ys"
  by (induction xs arbitrary: e) (simp_all add: case_prod_unfold)

lemma end_state_append: "end_state e (xs @ ys) = end_state (end_state e xs) ys"
  by (induction e xs rule: end_state.induct) simp_all

definition irrelevant :: "nat list option \<Rightarrow> nat list \<Rightarrow> bool" where
  "irrelevant e a \<longleftrightarrow> (\<forall>p. e = Some p \<longrightarrow> \<not> prefix p a)"

lemma localized_simps [simp]:
  "lt_address (localized a err f) = a"
  "lt_error (localized a err f) = err"
  "(localized a err f)\<lparr>lt_error := err'\<rparr> = localized a err' f"
  by (simp_all add: localized_def)

lemma mark_step_inside:
  "prefix p a \<Longrightarrow> mark_step (Some p) (localized a err f)
     = (Some p, localized a (if err = None then Some parent_reverted else err) f)"
  by (simp add: mark_step_def Let_def split: option.splits)

lemma mark_step_outside:
  "irrelevant e a \<Longrightarrow> mark_step e (localized a err f)
     = (if err = None then None else Some a, localized a err f)"
  by (auto simp: mark_step_def irrelevant_def Let_def split: option.splits)

text \<open>Inside a reverted call everything is marked, and the state stays.\<close>

lemma mark_inside:
  "prefix p a \<Longrightarrow> mark_loop (Some p) (localized_calls False True a f) = localized_calls True True a f
     \<and> end_state (Some p) (localized_calls False True a f) = Some p"
  "prefix p a \<Longrightarrow> mark_loop (Some p) (localized_forest False True a i fs) = localized_forest True True a i fs
     \<and> end_state (Some p) (localized_forest False True a i fs) = Some p"
proof (induction False True a f and False True a i fs rule: localized_calls_localized_forest.induct)
  case (1 a kind sender receiver input err calls)
  then show ?case by (simp add: mark_step_inside)
next
  case (3 a i f fs)
  then have "prefix p (a @ [i])" by simp
  with 3 show ?case by (simp add: mark_loop_append end_state_append)
qed simp_all

text \<open>Outside, the state is afterwards a path within the call, or none.\<close>

lemma mark_outside:
  "irrelevant e a \<Longrightarrow> mark_loop e (localized_calls False False a f) = localized_calls True False a f
     \<and> (\<forall>q. end_state e (localized_calls False False a f) = Some q \<longrightarrow> prefix a q)"
  "(\<And>j. i \<le> j \<Longrightarrow> irrelevant e (a @ [j])) \<Longrightarrow> (\<And>q. e = Some q \<Longrightarrow> prefix a q) \<Longrightarrow>
     mark_loop e (localized_forest False False a i fs) = localized_forest True False a i fs
     \<and> (\<forall>q. end_state e (localized_forest False False a i fs) = Some q \<longrightarrow> prefix a q)"
proof (induction False False a f and False False a i fs arbitrary: e and e rule: localized_calls_localized_forest.induct)
  case (1 a kind sender receiver input err calls)
  show ?case
  proof (cases err)
    case None
    have "mark_loop None (localized_forest False False a 0 calls) = localized_forest True False a 0 calls
        \<and> (\<forall>q. end_state None (localized_forest False False a 0 calls) = Some q \<longrightarrow> prefix a q)"
      using 1(1)[of None] None by (simp add: irrelevant_def)
    with 1(2) None show ?thesis by (simp add: mark_step_outside)
  next
    case (Some m)
    with 1 mark_inside(2)[of a a 0 calls] show ?thesis by (simp add: mark_step_outside)
  qed
next
  case (3 a i f fs)
  let ?e = "end_state e (localized_calls False False (a @ [i]) f)"
  from 3(1)[OF 3(3)] have f: "mark_loop e (localized_calls False False (a @ [i]) f) = localized_calls True False (a @ [i]) f"
    "\<And>q. ?e = Some q \<Longrightarrow> prefix (a @ [i]) q" by auto
  have next_irrelevant: "irrelevant ?e (a @ [j])" if "Suc i \<le> j" for j
    unfolding irrelevant_def using f(2) that by (auto simp: prefix_def)
  have inside: "prefix a q" if "?e = Some q" for q using f(2)[OF that] by (auto simp: prefix_def)
  have "mark_loop ?e (localized_forest False False a (Suc i) fs) = localized_forest True False a (Suc i) fs
      \<and> (\<forall>q. end_state ?e (localized_forest False False a (Suc i) fs) = Some q \<longrightarrow> prefix a q)"
    by (rule 3(2)) (simp_all add: next_irrelevant inside)
  then show ?case using f(1) by (simp add: mark_loop_append end_state_append)
qed simp_all

text \<open>The calls that the indexer takes from either list: successful ones of an entry point with the input of a handler.\<close>

definition entry_point_calls ::
  "(bytes \<Rightarrow> bool) \<Rightarrow> (bytes \<Rightarrow> bool) \<Rightarrow> common_call_trace list \<Rightarrow> (bytes \<times> bytes) list" where
  "entry_point_calls matches_entry_point matches_handler_calldata traces =
     List.map_filter (\<lambda>t.
       case ct_to t of
         None \<Rightarrow> None
       | Some to \<Rightarrow>
           if ct_typ t = Call \<and> ct_status t \<and> matches_entry_point to \<and> matches_handler_calldata (ct_input t)
           then Some (to, ct_input t) else None) traces"

lemma map_filter_append: "List.map_filter g (xs @ ys) = List.map_filter g xs @ List.map_filter g ys"
  by (induction xs) (auto simp: List.map_filter_simps split: option.splits)

lemma entry_point_calls_append:
  "entry_point_calls P H (xs @ ys) = entry_point_calls P H xs @ entry_point_calls P H ys"
  by (simp add: entry_point_calls_def map_filter_append)

lemma entry_point_calls_one:
  "entry_point_calls P H (List.map_filter common_of [localized a err f])
     = entry_point_calls P H [\<lparr>ct_typ = frame_type (fr_typ f), ct_from = fr_from f, ct_to = fr_to f, ct_input = fr_input f,
         ct_status = (err = None)\<rparr>]"
  by (auto simp: entry_point_calls_def localized_def frame_action_def common_of_def List.map_filter_simps
      split: trace_type.splits option.splits)

lemma entry_point_calls_localized:
  "entry_point_calls P H (List.map_filter common_of (localized_calls True inside a f))
     = entry_point_calls P H (calls_in_order inside f)"
  "entry_point_calls P H (List.map_filter common_of (localized_forest True inside a i fs))
     = entry_point_calls P H (concat (map (calls_in_order inside) fs))"
proof (induction True inside a f and True inside a i fs rule: localized_calls_localized_forest.induct)
  case (1 inside a kind sender receiver input err calls)
  let ?err = "if True \<and> inside \<and> err = None then Some parent_reverted else err"
  let ?f = "Frame kind sender receiver input err calls"
  let ?rest = "concat (map (calls_in_order (inside \<or> err \<noteq> None)) calls)"
  have split: "localized_calls True inside a ?f = [localized a ?err ?f] @ localized_forest True (inside \<or> err \<noteq> None) a 0 calls"
    "calls_in_order inside ?f = [hd (calls_in_order inside ?f)] @ ?rest"
    by simp_all
  have first: "entry_point_calls P H (List.map_filter common_of [localized a ?err ?f])
      = entry_point_calls P H [hd (calls_in_order inside ?f)]"
    unfolding entry_point_calls_one by (cases err; cases inside) simp_all
  have parts: "entry_point_calls P H (List.map_filter common_of (localized_calls True inside a ?f))
      = entry_point_calls P H (List.map_filter common_of [localized a ?err ?f])
        @ entry_point_calls P H (List.map_filter common_of (localized_forest True (inside \<or> err \<noteq> None) a 0 calls))"
    by (simp only: split(1) map_filter_append entry_point_calls_append)
  have whole: "entry_point_calls P H (calls_in_order inside ?f)
      = entry_point_calls P H [hd (calls_in_order inside ?f)] @ entry_point_calls P H ?rest"
    using arg_cong[OF split(2), of "entry_point_calls P H"] by (simp only: entry_point_calls_append)
  show ?case by (simp only: parts whole first 1)
qed (simp_all add: map_filter_append entry_point_calls_append)

text \<open>C17: 
  Both kinds of nodes lead to the same calls of entry points: when one sends the frames of a transaction and the other the list
  of its calls with their paths and their own errors, the indexer finds the same successful calls in the same order.
\<close>

theorem trace_formats_agree:
  assumes "tp_debug_trace geth tx = Ok (Call_Tracer root)" "tp_trace parity tx = Ok (localized_calls False False [] root)"
  shows "\<exists>xs ys. common_trace_transaction geth tx Debug = Ok xs \<and> common_trace_transaction parity tx Trace = Ok ys
     \<and> entry_point_calls P H xs = entry_point_calls P H ys
     \<and> entry_point_calls P H xs = entry_point_calls P H (calls_in_order False root)"
proof -
  have "mark_reverted_parents (localized_calls False False [] root) = localized_calls True False [] root"
    using mark_outside(1)[of None "[]" root] by (simp add: mark_reverted_parents_def irrelevant_def)
  then have "common_trace_transaction parity tx Trace = Ok (List.map_filter common_of (localized_calls True False [] root))"
    using assms(2) by (simp add: common_trace_transaction_def)
  moreover have "common_trace_transaction geth tx Debug = Ok (calls_in_order False root)"
    using assms(1) by (simp add: common_trace_transaction_def flatten_geth_trace_def flatten_loop_calls)
  ultimately show ?thesis by (simp add: entry_point_calls_localized)
qed

text \<open>A reverted call with an inner call, between two calls that succeed.\<close>

definition sample_frame :: call_frame where
  "sample_frame =
     Frame ''CALL'' [0] (Some [1]) [] None
       [Frame ''CALL'' [1] (Some [2]) [7] (Some ''out of gas'') [Frame ''CALL'' [2] (Some [3]) [8] None []],
        Frame ''CALL'' [1] (Some [3]) [9] None []]"

lemma trace_formats_agree_witness:
  "\<exists>xs. common_trace_transaction \<lparr>tp_debug_trace = (\<lambda>_. Ok (Call_Tracer sample_frame)),
         tp_trace = (\<lambda>_. Ok (localized_calls False False [] sample_frame))\<rparr> [] Trace = Ok xs
     \<and> entry_point_calls (\<lambda>a. a = [3]) (\<lambda>_. True) xs = [([3], [9])]"
proof -
  let ?node = "\<lparr>tp_debug_trace = (\<lambda>_. Ok (Call_Tracer sample_frame)),
         tp_trace = (\<lambda>_. Ok (localized_calls False False [] sample_frame))\<rparr> :: tracer"
  have "entry_point_calls (\<lambda>a. a = [3]) (\<lambda>_. True) (calls_in_order False sample_frame) = [([3], [9])]"
    by (simp add: sample_frame_def entry_point_calls_def frame_type_def List.map_filter_simps)
  moreover have "tp_debug_trace ?node [] = Ok (Call_Tracer sample_frame)"
    "tp_trace ?node [] = Ok (localized_calls False False [] sample_frame)" by simp_all
  ultimately show ?thesis using trace_formats_agree[of ?node "[]" sample_frame ?node] by metis
qed

end
