(* ===== verification/User_Splits.thy ===== *)
theory User_Splits
  imports Prelude "HOL-Library.Sublist"
begin

text \<open>
  The loop of \<open>parse_user_ops\<close> (\<^verbatim>\<open>user-ops-indexer/user-ops-indexer-logic/src/indexer/v06/mod.rs\<close> and \<^verbatim>\<open>v07/mod.rs\<close>) that
  splits the logs of a bundle into the parts of its operations, and the one that builds an operation from each part.
\<close>

section \<open>Splitting the logs of a bundle\<close>

text \<open>The inner loop returns the index after the log that it accepts, if there is one.\<close>

function scan_logs :: "('l \<Rightarrow> bool) \<Rightarrow> 'l list \<Rightarrow> nat \<Rightarrow> nat \<times> bool" where
  "scan_logs accepts logs e =
     (if e < length logs then if accepts (logs ! e) then (Suc e, True) else scan_logs accepts logs (Suc e)
      else (e, False))"
  by pat_completeness auto
termination by (relation "measure (\<lambda>(accepts, logs, e). length logs - e)") auto

declare scan_logs.simps [simp del]

fun user_ops_logs :: "('op \<Rightarrow> 'l \<Rightarrow> bool) \<Rightarrow> 'l list \<Rightarrow> nat \<Rightarrow> nat \<Rightarrow> 'op list \<Rightarrow> 'l list list" where
  "user_ops_logs accepts logs start e [] = []"
| "user_ops_logs accepts logs start e (op # ops) =
     (case scan_logs (accepts op) logs e of
        (e', True) \<Rightarrow> take (e' - start) (drop start logs) # user_ops_logs accepts logs e' e' ops
      | (e', False) \<Rightarrow> user_ops_logs accepts logs start e' ops)"

section \<open>What the split is\<close>

text \<open>The same on lists: each operation takes the logs up to the first that ends it.\<close>

fun split_logs :: "('op \<Rightarrow> 'l \<Rightarrow> bool) \<Rightarrow> 'l list \<Rightarrow> 'op list \<Rightarrow> 'l list list" where
  "split_logs accepts logs [] = []"
| "split_logs accepts logs (op # ops) =
     (case dropWhile (\<lambda>l. \<not> accepts op l) logs of
        [] \<Rightarrow> []
      | l # rest \<Rightarrow> (takeWhile (\<lambda>l. \<not> accepts op l) logs @ [l]) # split_logs accepts rest ops)"

lemma scan_logs_drop:
  "e \<le> length logs \<Longrightarrow> scan_logs accepts logs e =
     (case dropWhile (\<lambda>l. \<not> accepts l) (drop e logs) of
        [] \<Rightarrow> (length logs, False)
      | l # rest \<Rightarrow> (length logs - length rest, True))"
proof (induction accepts logs e rule: scan_logs.induct)
  case (1 accepts logs e)
  show ?case
  proof (cases "e < length logs")
    case True
    then have "drop e logs = logs ! e # drop (Suc e) logs" by (rule Cons_nth_drop_Suc[symmetric])
    with 1 True show ?thesis by (subst scan_logs.simps) simp
  next
    case False
    with 1(2) show ?thesis by (subst scan_logs.simps) simp
  qed
qed

lemma user_ops_logs_end: "user_ops_logs accepts logs start (length logs) ops = []"
  by (induction ops) (simp_all add: scan_logs.simps)

lemma user_ops_logs_split:
  "e \<le> length logs \<Longrightarrow> user_ops_logs accepts logs e e ops = split_logs accepts (drop e logs) ops"
proof (induction ops arbitrary: e)
  case (Cons op ops)
  let ?not = "\<lambda>l. \<not> accepts op l"
  show ?case
  proof (cases "dropWhile ?not (drop e logs)")
    case Nil
    show ?thesis
      unfolding user_ops_logs.simps split_logs.simps scan_logs_drop[OF Cons.prems] Nil by (simp add: user_ops_logs_end)
  next
    case (Cons l rest)
    define t where "t = takeWhile ?not (drop e logs)"
    have parts: "drop e logs = (t @ [l]) @ rest"
      using takeWhile_dropWhile_id[of ?not "drop e logs"] Cons by (simp add: t_def)
    then have len: "length logs - e = length t + 1 + length rest"
      by (simp flip: length_drop)
    let ?e = "length logs - length rest"
    have e: "?e - e = length t + 1" "?e \<le> length logs" using len \<open>e \<le> length logs\<close> by linarith+
    have "drop ?e logs = drop (?e - e) (drop e logs)" using len \<open>e \<le> length logs\<close> by simp
    also have "\<dots> = rest" unfolding e(1) parts by simp
    finally have rest: "drop ?e logs = rest" .
    have "take (?e - e) (drop e logs) = takeWhile ?not (drop e logs) @ [l]" unfolding e(1) t_def[symmetric] unfolding parts by simp
    then show ?thesis using Cons.IH[OF e(2)] Cons Cons.prems rest by (simp add: scan_logs_drop)
  qed
qed simp

lemma split_logs_at_most: "length (split_logs accepts logs ops) \<le> length ops"
  by (induction accepts logs ops rule: split_logs.induct) (auto split: list.splits)

lemma split_logs_prefix: "prefix (concat (split_logs accepts logs ops)) logs"
proof (induction accepts logs ops rule: split_logs.induct)
  case (2 accepts logs op ops)
  show ?case
  proof (cases "dropWhile (\<lambda>l. \<not> accepts op l) logs")
    case (Cons l rest)
    have "logs = (takeWhile (\<lambda>l. \<not> accepts op l) logs @ [l]) @ rest"
      using takeWhile_dropWhile_id[of "\<lambda>l. \<not> accepts op l" logs] Cons by simp
    moreover have "prefix (concat (split_logs accepts rest ops)) rest" using 2 Cons by simp
    moreover have "concat (split_logs accepts logs (op # ops))
        = (takeWhile (\<lambda>l. \<not> accepts op l) logs @ [l]) @ concat (split_logs accepts rest ops)" using Cons by simp
    ultimately show ?thesis by (simp only: same_prefix_prefix) (metis same_prefix_prefix)
  next
    case Nil
    then have "split_logs accepts logs (op # ops) = []" by (simp only: split_logs.simps list.case)
    then show ?thesis by simp
  qed
qed simp

definition segment_of :: "('op \<Rightarrow> 'l \<Rightarrow> bool) \<Rightarrow> 'op \<Rightarrow> 'l list \<Rightarrow> bool" where
  "segment_of accepts op segment \<longleftrightarrow>
     segment \<noteq> [] \<and> accepts op (last segment) \<and> (\<forall>l\<in>set (butlast segment). \<not> accepts op l)"

lemma split_logs_segments:
  "length (split_logs accepts logs ops) = length ops \<Longrightarrow> list_all2 (segment_of accepts) ops (split_logs accepts logs ops)"
proof (induction accepts logs ops rule: split_logs.induct)
  case (2 accepts logs op ops)
  then obtain l rest where rest: "dropWhile (\<lambda>l. \<not> accepts op l) logs = l # rest"
    by (auto split: list.splits)
  have "accepts op l" using hd_dropWhile[of "\<lambda>l. \<not> accepts op l" logs] rest by simp
  then show ?case using 2 rest by (auto simp: segment_of_def dest: set_takeWhileD)
qed simp

lemma subseq_dropWhile:
  assumes "subseq (x # xs) logs" "p x"
  shows "\<exists>l rest. dropWhile (\<lambda>l. \<not> p l) logs = l # rest \<and> p l \<and> subseq xs rest"
proof -
  from assms(1) obtain us vs where logs: "logs = us @ x # vs" and xs: "subseq xs vs"
    by (auto dest: list_emb_ConsD)
  show ?thesis
  proof (cases "\<exists>u\<in>set us. p u")
    case True
    then obtain u vs' where u: "dropWhile (\<lambda>l. \<not> p l) us = u # vs'" "p u"
      by (metis (mono_tags, lifting) dropWhile_eq_Nil_conv hd_dropWhile list.collapse)
    have "dropWhile (\<lambda>l. \<not> p l) logs = u # (vs' @ x # vs)"
      using True u by (auto simp add: logs dropWhile_append)
    moreover have "subseq xs (vs' @ x # vs)" using xs by (intro list_emb_append2 list_emb_Cons)
    ultimately show ?thesis using u(2) by blast
  next
    case False
    then have "dropWhile (\<lambda>l. \<not> p l) logs = x # vs" using assms(2) by (simp add: logs dropWhile_append)
    then show ?thesis using assms(2) xs by blast
  qed
qed

lemma split_logs_complete:
  "list_all2 accepts ops xs \<Longrightarrow> subseq xs logs \<Longrightarrow> length (split_logs accepts logs ops) = length ops"
proof (induction ops arbitrary: xs logs)
  case (Cons op ops)
  then obtain x xs' where xs: "xs = x # xs'" "accepts op x" "list_all2 accepts ops xs'" by (auto simp: list_all2_Cons1)
  from subseq_dropWhile[of x xs' logs "accepts op"] Cons.prems(2) xs obtain l rest
    where "dropWhile (\<lambda>l. \<not> accepts op l) logs = l # rest" "subseq xs' rest" by blast
  with Cons.IH[OF xs(3)] show ?case by simp
qed simp

lemma subseq_lasts: "list_all2 (segment_of accepts) ops segs \<Longrightarrow> subseq (map last segs) (concat segs)"
proof (induction ops segs rule: list_all2_induct)
  case (Cons op ops seg segs)
  then have "seg = butlast seg @ [last seg]" by (simp add: segment_of_def)
  then have "subseq ([last seg]) seg" by (metis list_emb_append2 subseq_order.refl)
  then have "subseq ([last seg] @ map last segs) (seg @ concat segs)" using Cons.IH by (rule list_emb_append_mono)
  then show ?case by simp
qed simp

lemma user_ops_logs_complete:
  "length (user_ops_logs accepts logs 0 0 ops) = length ops \<longleftrightarrow> (\<exists>ends. list_all2 accepts ops ends \<and> subseq ends logs)"
proof -
  let ?segs = "split_logs accepts logs ops"
  have "list_all2 accepts ops (map last ?segs) \<and> subseq (map last ?segs) logs" if "length ?segs = length ops"
  proof -
    have "list_all2 (segment_of accepts) ops ?segs" using split_logs_segments[OF that] .
    then have "list_all2 accepts ops (map last ?segs)" "subseq (map last ?segs) (concat ?segs)"
      by (simp add: list_all2_conv_all_nth segment_of_def) (rule subseq_lasts, fact)
    then show ?thesis by (blast intro: subseq_order.trans prefix_imp_subseq split_logs_prefix)
  qed
  then have "length ?segs = length ops \<longleftrightarrow> (\<exists>ends. list_all2 accepts ops ends \<and> subseq ends logs)"
    by (blast intro: split_logs_complete)
  then show ?thesis by (simp add: user_ops_logs_split)
qed

lemma user_ops_logs_parts:
  "length (user_ops_logs accepts logs 0 0 ops) = length ops \<Longrightarrow>
     list_all2 (segment_of accepts) ops (user_ops_logs accepts logs 0 0 ops)
     \<and> prefix (concat (user_ops_logs accepts logs 0 0 ops)) logs"
  by (simp add: user_ops_logs_split split_logs_segments split_logs_prefix)

text \<open>C18: 
  The logs of a bundle are split exactly: there is a part for each operation if and only if some logs in order
  end the operations one by one; then the parts follow each other from the beginning, and each ends with the first log after
  the previous part that ends its operation.
\<close>

theorem bundle_logs_are_split:
  "(length (user_ops_logs accepts logs 0 0 ops) = length ops \<longleftrightarrow> (\<exists>ends. list_all2 accepts ops ends \<and> subseq ends logs))
   \<and> (length (user_ops_logs accepts logs 0 0 ops) = length ops \<longrightarrow>
        list_all2 (segment_of accepts) ops (user_ops_logs accepts logs 0 0 ops)
        \<and> prefix (concat (user_ops_logs accepts logs 0 0 ops)) logs)"
  by (intro conjI impI user_ops_logs_complete user_ops_logs_parts)

text \<open>Two operations, and a log of another kind before and between their events.\<close>

lemma bundle_logs_are_split_witness:
  "list_all2 (segment_of (=)) [1, 2] [[0, 1], [0, 2 :: nat]] \<and> user_ops_logs (=) [0, 1, 0, 2, 3] 0 0 [1, 2 :: nat] = [[0, 1], [0, 2]]"
proof -
  have "user_ops_logs (=) [0, 1, 0, 2, 3] 0 0 [1, 2 :: nat] = [[0, 1], [0, 2]]"
    by (simp add: scan_logs.simps)
  then show ?thesis using bundle_logs_are_split[of "(=)" "[0, 1, 0, 2, 3]" "[1, 2 :: nat]"] by simp
qed

section \<open>Building the operations\<close>

definition as_u32 :: "nat \<Rightarrow> nat" where
  "as_u32 n = n mod 2 ^ 32"

text \<open>Operations that cannot be built are left out; a panic ends the whole.\<close>

fun build_all ::
  "(nat \<Rightarrow> 'x \<Rightarrow> 'l list \<Rightarrow> ('e, 'u) result option) \<Rightarrow> nat \<Rightarrow> ('x \<times> 'l list) list \<Rightarrow> 'u list option" where
  "build_all build j [] = Some []"
| "build_all build j ((x, logs) # rest) =
     (case build (as_u32 j) x logs of
        None \<Rightarrow> None
      | Some (Inl e) \<Rightarrow> build_all build (Suc j) rest
      | Some (Inr u) \<Rightarrow> map_option ((#) u) (build_all build (Suc j) rest))"

lemma build_all_sound:
  "build_all build j ps = Some us \<Longrightarrow> u \<in> set us \<Longrightarrow>
     \<exists>k<length ps. build (as_u32 (j + k)) (fst (ps ! k)) (snd (ps ! k)) = Some (Ok u)"
proof (induction build j ps arbitrary: us rule: build_all.induct)
  case (2 build j x logs rest)
  have later: ?case if "\<exists>k<length rest. build (as_u32 (Suc j + k)) (fst (rest ! k)) (snd (rest ! k)) = Some (Ok u)"
  proof -
    from that obtain k where "k < length rest" "build (as_u32 (Suc j + k)) (fst (rest ! k)) (snd (rest ! k)) = Some (Ok u)"
      by blast
    then show ?thesis by (intro exI[of _ "Suc k"]) simp
  qed
  show ?case
  proof (cases "build (as_u32 j) x logs")
    case None
    with 2 show ?thesis by simp
  next
    case (Some res)
    show ?thesis
    proof (cases res)
      case (Inl e)
      with 2 Some show ?thesis by (intro later) simp
    next
      case (Inr v)
      with 2(3) Some obtain vs where vs: "build_all build (Suc j) rest = Some vs" "us = v # vs" by auto
      show ?thesis
      proof (cases "u = v")
        case True
        with Some Inr show ?thesis by (intro exI[of _ 0]) simp
      next
        case False
        with 2(4) vs have "u \<in> set vs" by simp
        from 2(2)[OF Some Inr vs(1) this] show ?thesis by (rule later)
      qed
    qed
  qed
qed simp

lemma build_all_complete:
  "(\<And>k. k < length ps \<Longrightarrow> \<exists>u. build (as_u32 (j + k)) (fst (ps ! k)) (snd (ps ! k)) = Some (Ok u)) \<Longrightarrow>
     \<exists>us. build_all build j ps = Some us \<and> length us = length ps
       \<and> (\<forall>k<length ps. build (as_u32 (j + k)) (fst (ps ! k)) (snd (ps ! k)) = Some (Ok (us ! k)))"
proof (induction ps arbitrary: j)
  case (Cons p ps)
  obtain u where u: "build (as_u32 j) (fst p) (snd p) = Some (Ok u)" using Cons.prems[of 0] by auto
  have "\<exists>u. build (as_u32 (Suc j + k)) (fst (ps ! k)) (snd (ps ! k)) = Some (Ok u)" if "k < length ps" for k
    using Cons.prems[of "Suc k"] that by simp
  then have "\<exists>us. build_all build (Suc j) ps = Some us \<and> length us = length ps
      \<and> (\<forall>k<length ps. build (as_u32 (Suc j + k)) (fst (ps ! k)) (snd (ps ! k)) = Some (Ok (us ! k)))"
    by (rule Cons.IH)
  then obtain us where us: "build_all build (Suc j) ps = Some us" "length us = length ps"
    "\<forall>k<length ps. build (as_u32 (Suc j + k)) (fst (ps ! k)) (snd (ps ! k)) = Some (Ok (us ! k))"
    by (elim exE conjE) (rule that, assumption+)
  have "build (as_u32 (j + k)) (fst ((p # ps) ! k)) (snd ((p # ps) ! k)) = Some (Ok ((u # us) ! k))"
    if "k < length (p # ps)" for k
    using that u us(3) by (cases k) auto
  moreover have "build_all build j (p # ps) = Some (u # us)" using u us(1) by (cases p) simp
  ultimately show ?case using us(2) by (intro exI[of _ "u # us"]) simp
qed simp

end
