(* ===== verification/User_Bundles.thy ===== *)
theory User_Bundles
  imports User_Traces User_Splits Code_Blueprint
begin

text \<open>
  From a transaction to the user operations in it
  (\<^verbatim>\<open>user-ops-indexer/user-ops-indexer-logic/src/indexer/common.rs\<close>, \<^verbatim>\<open>v06/mod.rs\<close>, \<^verbatim>\<open>v07/mod.rs\<close> and
  \<open>handle_tx\<close> of \<^verbatim>\<open>base_indexer.rs\<close>). The logs of a bundle are split at the events that end its operations, and each
  operation of the call is paired with its part. The decoding of calls and events by the bindings that are generated from
  \<^verbatim>\<open>abi.json\<close> is a record of functions. \<open>U256\<close> is a word of 256 bits, whose arithmetic wraps and whose division by
  zero panics.
\<close>

type_synonym u256 = "256 word"

definition u256_from_be :: "bytes \<Rightarrow> u256" where
  "u256_from_be bs = of_nat (from_be_bytes bs)"

section \<open>Logs and events\<close>

record tx_log =
  lg_address :: bytes
  lg_topics :: "bytes list"
  lg_data :: bytes
  lg_index :: "nat option"
  lg_transaction_hash :: "bytes option"
  lg_block_hash :: "bytes option"
  lg_removed :: bool

record 'e event_decoder =
  ed_signature_hash :: bytes
  ed_decode :: "tx_log \<Rightarrow> (string, 'e) result"

definition topic0 :: "tx_log \<Rightarrow> bytes option" where
  "topic0 log = (case lg_topics log of [] \<Rightarrow> None | t # _ \<Rightarrow> Some t)"

definition match_and_parse :: "'e event_decoder \<Rightarrow> bytes \<Rightarrow> tx_log \<Rightarrow> (string, 'e) result option" where
  "match_and_parse d entry_point log =
     (if lg_address log = entry_point \<and> topic0 log = Some (ed_signature_hash d) then Some (ed_decode d log) else None)"

section \<open>Addresses, sponsors and the logs of the user\<close>

definition extract_address :: "bytes \<Rightarrow> bytes option" where
  "extract_address b = (if 20 \<le> length b then Some (take 20 b) else None)"

datatype sponsor_type = WalletBalance | WalletDeposit | PaymasterSponsor | PaymasterHybrid

definition extract_sponsor_type :: "bytes \<Rightarrow> bytes option \<Rightarrow> bytes list \<Rightarrow> sponsor_type" where
  "extract_sponsor_type sender paymaster tx_deposits =
     (let sender_deposit = sender \<in> set tx_deposits;
          paymaster_deposit = (\<exists>e\<in>set tx_deposits. Some e = paymaster)
      in case (paymaster, sender_deposit, paymaster_deposit) of
           (None, False, _) \<Rightarrow> WalletBalance
         | (None, True, _) \<Rightarrow> WalletDeposit
         | (Some _, _, False) \<Rightarrow> PaymasterSponsor
         | (Some _, _, True) \<Rightarrow> PaymasterHybrid)"

text \<open>The two loops: from the right over logs of the entry point or the paymaster, then from the left.\<close>

fun shrink_right :: "tx_log list \<Rightarrow> bytes \<Rightarrow> bytes option \<Rightarrow> nat \<Rightarrow> nat" where
  "shrink_right logs entry_point paymaster 0 = 0"
| "shrink_right logs entry_point paymaster (Suc r) =
     (if lg_address (logs ! r) = entry_point \<or> Some (lg_address (logs ! r)) = paymaster
      then shrink_right logs entry_point paymaster r else Suc r)"

function shrink_left :: "tx_log list \<Rightarrow> bytes \<Rightarrow> nat \<Rightarrow> nat \<Rightarrow> nat" where
  "shrink_left logs entry_point r l =
     (if l < r \<and> lg_address (logs ! l) = entry_point then shrink_left logs entry_point r (Suc l) else l)"
  by pat_completeness auto
termination by (relation "measure (\<lambda>(logs, entry_point, r, l). r - l)") auto

declare shrink_left.simps [simp del]

definition log_index_at :: "tx_log list \<Rightarrow> nat \<Rightarrow> nat" where
  "log_index_at logs l =
     (if l < length logs then (case lg_index (logs ! l) of Some i \<Rightarrow> i | None \<Rightarrow> 0) else 0)"

definition extract_user_logs_boundaries :: "tx_log list \<Rightarrow> bytes \<Rightarrow> bytes option \<Rightarrow> nat \<times> nat" where
  "extract_user_logs_boundaries logs entry_point paymaster =
     (let r = shrink_right logs entry_point paymaster (length logs); l = shrink_left logs entry_point r 0
      in (as_u32 (log_index_at logs l), as_u32 (r - l)))"

text \<open>Two numbers of sixteen bytes; taking the first sixteen of fewer bytes panics, and so does a number of more than 32 bytes.\<close>

definition unpack_uints :: "bytes \<Rightarrow> (u256 \<times> u256) option" where
  "unpack_uints data =
     (if length data < 16 \<or> 48 < length data then None
      else Some (u256_from_be (take 16 data), u256_from_be (drop 16 data)))"

definition none_if_empty :: "bytes \<Rightarrow> bytes option" where
  "none_if_empty b = (if b = [] then None else Some b)"

section \<open>User operations\<close>

datatype entry_point_version = V06 | V07 | V08

record user_op =
  u_hash :: bytes
  u_sender :: bytes
  u_nonce :: u256
  u_init_code :: "bytes option"
  u_call_data :: bytes
  u_call_gas_limit :: u256
  u_verification_gas_limit :: u256
  u_pre_verification_gas :: u256
  u_max_fee_per_gas :: u256
  u_max_priority_fee_per_gas :: u256
  u_paymaster_and_data :: "bytes option"
  u_signature :: bytes
  u_aggregator :: "bytes option"
  u_aggregator_signature :: "bytes option"
  u_entry_point :: bytes
  u_entry_point_version :: entry_point_version
  u_transaction_hash :: bytes
  u_block_number :: nat
  u_block_hash :: bytes
  u_bundler :: bytes
  u_bundle_index :: nat
  u_index :: nat
  u_factory :: "bytes option"
  u_paymaster :: "bytes option"
  u_status :: bool
  u_revert_reason :: "bytes option"
  u_gas :: u256
  u_gas_price :: u256
  u_gas_used :: u256
  u_sponsor_type :: sponsor_type
  u_user_logs_start_index :: nat
  u_user_logs_count :: nat
  u_fee :: u256
  u_consensus :: "bool option"
  u_timestamp :: "string option"

text \<open>The two formats of an operation in a call, and the events of an entry point.\<close>

record user_operation_v06 =
  o6_sender :: bytes
  o6_nonce :: u256
  o6_init_code :: bytes
  o6_call_data :: bytes
  o6_call_gas_limit :: u256
  o6_verification_gas_limit :: u256
  o6_pre_verification_gas :: u256
  o6_max_fee_per_gas :: u256
  o6_max_priority_fee_per_gas :: u256
  o6_paymaster_and_data :: bytes
  o6_signature :: bytes

record packed_user_operation =
  o7_sender :: bytes
  o7_nonce :: u256
  o7_init_code :: bytes
  o7_call_data :: bytes
  o7_account_gas_limits :: bytes
  o7_pre_verification_gas :: u256
  o7_gas_fees :: bytes
  o7_paymaster_and_data :: bytes
  o7_signature :: bytes

record user_operation_event =
  ue_user_op_hash :: bytes
  ue_sender :: bytes
  ue_nonce :: u256
  ue_success :: bool
  ue_actual_gas_cost :: u256
  ue_actual_gas_used :: u256

record 'op user_ops_per_aggregator =
  pa_user_ops :: "'op list"
  pa_aggregator :: bytes
  pa_signature :: bytes

datatype 'op entry_point_call =
  Handle_Ops "'op list" bytes
| Handle_Aggregated_Ops "'op user_ops_per_aggregator list" bytes
| Other_Entry_Point_Call

record 'op entry_point_abi =
  ea_decode_calls :: "bytes \<Rightarrow> (string, 'op entry_point_call) result"
  ea_handle_ops_decodes :: "bytes \<Rightarrow> bool"
  ea_handle_aggregated_ops_decodes :: "bytes \<Rightarrow> bool"
  ea_user_operation_event :: "user_operation_event event_decoder"
  ea_revert_reason :: "bytes event_decoder"
  ea_deposited :: "bytes event_decoder"
  ea_before_execution_signature :: bytes

record 'op extended_user_operation =
  xo_entry_point :: bytes
  xo_user_op :: 'op
  xo_bundler :: bytes
  xo_aggregator :: "bytes option"
  xo_aggregator_signature :: "bytes option"

record transaction_receipt =
  rc_transaction_hash :: bytes
  rc_block_number :: "nat option"
  rc_block_hash :: "bytes option"
  rc_logs :: "tx_log list"

section \<open>Building an operation\<close>

fun find_map :: "('a \<Rightarrow> 'b option) \<Rightarrow> 'a list \<Rightarrow> 'b option" where
  "find_map f [] = None"
| "find_map f (x # xs) = (case f x of None \<Rightarrow> find_map f xs | Some y \<Rightarrow> Some y)"

definition last_event :: "'e event_decoder \<Rightarrow> bytes \<Rightarrow> tx_log list \<Rightarrow> (string, 'e) result" where
  "last_event d entry_point logs =
     (case (if logs = [] then None else match_and_parse d entry_point (last logs)) of
        None \<Rightarrow> Err ''last log doesn't match UserOperationEvent''
      | Some r \<Rightarrow> r)"

definition first_event :: "'e event_decoder \<Rightarrow> bytes \<Rightarrow> tx_log list \<Rightarrow> (string, 'e option) result" where
  "first_event d entry_point logs =
     (case find_map (match_and_parse d entry_point) logs of
        None \<Rightarrow> Ok None
      | Some r \<Rightarrow> try_bind r (\<lambda>e. Ok (Some e)))"

definition parsed_events :: "'e event_decoder \<Rightarrow> bytes \<Rightarrow> tx_log list \<Rightarrow> 'e list" where
  "parsed_events d entry_point logs =
     List.map_filter (\<lambda>log. case match_and_parse d entry_point log of Some (Inr e) \<Rightarrow> Some e | _ \<Rightarrow> None) logs"

definition zero_block_hash :: bytes where
  "zero_block_hash = replicate 32 0"

definition build_user_op_model_v06 ::
  "user_operation_v06 entry_point_abi \<Rightarrow> transaction_receipt \<Rightarrow> nat \<Rightarrow> nat
     \<Rightarrow> user_operation_v06 extended_user_operation \<Rightarrow> tx_log list \<Rightarrow> (string, user_op) result option" where
  "build_user_op_model_v06 abi receipt bundle_index index x logs =
     (let op = xo_user_op x; entry_point = xo_entry_point x in
      case try_bind (last_event (ea_user_operation_event abi) entry_point logs) (\<lambda>event.
           try_bind (first_event (ea_revert_reason abi) entry_point logs) (\<lambda>revert. Ok (event, revert))) of
        Inl e \<Rightarrow> Some (Err e)
      | Inr (event, revert) \<Rightarrow>
          if ue_actual_gas_used event = 0 then None
          else
            let tx_deposits = parsed_events (ea_deposited abi) entry_point (rc_logs receipt);
                factory = extract_address (o6_init_code op);
                paymaster = extract_address (o6_paymaster_and_data op);
                (user_logs_start_index, user_logs_count) = extract_user_logs_boundaries logs entry_point paymaster
            in Some (Ok
              \<lparr>u_hash = ue_user_op_hash event, u_sender = o6_sender op, u_nonce = o6_nonce op,
               u_init_code = none_if_empty (o6_init_code op), u_call_data = o6_call_data op,
               u_call_gas_limit = o6_call_gas_limit op, u_verification_gas_limit = o6_verification_gas_limit op,
               u_pre_verification_gas = o6_pre_verification_gas op, u_max_fee_per_gas = o6_max_fee_per_gas op,
               u_max_priority_fee_per_gas = o6_max_priority_fee_per_gas op,
               u_paymaster_and_data = none_if_empty (o6_paymaster_and_data op), u_signature = o6_signature op,
               u_aggregator = xo_aggregator x, u_aggregator_signature = xo_aggregator_signature x,
               u_entry_point = entry_point, u_entry_point_version = V06,
               u_transaction_hash = rc_transaction_hash receipt,
               u_block_number = (case rc_block_number receipt of Some n \<Rightarrow> n | None \<Rightarrow> 0),
               u_block_hash = (case rc_block_hash receipt of Some h \<Rightarrow> h | None \<Rightarrow> zero_block_hash),
               u_bundler = xo_bundler x, u_bundle_index = bundle_index, u_index = index,
               u_factory = factory, u_paymaster = paymaster, u_status = ue_success event, u_revert_reason = revert,
               u_gas = o6_call_gas_limit op + o6_verification_gas_limit op * (if paymaster = None then 1 else 3)
                 + o6_pre_verification_gas op,
               u_gas_price = ue_actual_gas_cost event div ue_actual_gas_used event,
               u_gas_used = ue_actual_gas_used event,
               u_sponsor_type = extract_sponsor_type (o6_sender op) paymaster tx_deposits,
               u_user_logs_start_index = user_logs_start_index, u_user_logs_count = user_logs_count,
               u_fee = ue_actual_gas_cost event, u_consensus = None, u_timestamp = None\<rparr>))"

definition factory_7702 :: bytes where
  "factory_7702 = [0x77, 0x02] @ replicate 18 0"

text \<open>Two pairs of numbers of the packed operation and the limits of the paymaster, or a panic.\<close>

definition paymaster_gas_limits :: "bytes \<Rightarrow> (u256 \<times> u256) option" where
  "paymaster_gas_limits paymaster_and_data =
     (if 52 \<le> length paymaster_and_data then unpack_uints (take 32 (drop 20 paymaster_and_data)) else Some (0, 0))"

definition build_user_op_model_v07 ::
  "bytes list \<Rightarrow> packed_user_operation entry_point_abi \<Rightarrow> transaction_receipt \<Rightarrow> nat \<Rightarrow> nat
     \<Rightarrow> packed_user_operation extended_user_operation \<Rightarrow> tx_log list \<Rightarrow> (string, user_op) result option" where
  "build_user_op_model_v07 v08_entry_points abi receipt bundle_index index x logs =
     (let op = xo_user_op x; entry_point = xo_entry_point x in
      case try_bind (last_event (ea_user_operation_event abi) entry_point logs) (\<lambda>event.
           try_bind (first_event (ea_revert_reason abi) entry_point logs) (\<lambda>revert. Ok (event, revert))) of
        Inl e \<Rightarrow> Some (Err e)
      | Inr (event, revert) \<Rightarrow>
          (case (unpack_uints (o7_account_gas_limits op), paymaster_gas_limits (o7_paymaster_and_data op),
                 unpack_uints (o7_gas_fees op)) of
             (Some (verification_gas_limit, call_gas_limit),
              Some (paymaster_verification_gas_limit, paymaster_post_op_gas_limit),
              Some (max_fee_per_gas, max_priority_fee_per_gas)) \<Rightarrow>
               if ue_actual_gas_used event = 0 then None
               else
                 let tx_deposits = parsed_events (ea_deposited abi) entry_point (rc_logs receipt);
                     factory = (case extract_address (o7_init_code op) of
                        Some f \<Rightarrow> if f = factory_7702 then None else Some f
                      | None \<Rightarrow> None);
                     paymaster = extract_address (o7_paymaster_and_data op);
                     (user_logs_start_index, user_logs_count) = extract_user_logs_boundaries logs entry_point paymaster
                 in Some (Ok
                   \<lparr>u_hash = ue_user_op_hash event, u_sender = o7_sender op, u_nonce = o7_nonce op,
                    u_init_code = none_if_empty (o7_init_code op), u_call_data = o7_call_data op,
                    u_call_gas_limit = call_gas_limit, u_verification_gas_limit = verification_gas_limit,
                    u_pre_verification_gas = o7_pre_verification_gas op, u_max_fee_per_gas = max_fee_per_gas,
                    u_max_priority_fee_per_gas = max_priority_fee_per_gas,
                    u_paymaster_and_data = none_if_empty (o7_paymaster_and_data op), u_signature = o7_signature op,
                    u_aggregator = xo_aggregator x, u_aggregator_signature = xo_aggregator_signature x,
                    u_entry_point = entry_point,
                    u_entry_point_version = (if entry_point \<in> set v08_entry_points then V08 else V07),
                    u_transaction_hash = rc_transaction_hash receipt,
                    u_block_number = (case rc_block_number receipt of Some n \<Rightarrow> n | None \<Rightarrow> 0),
                    u_block_hash = (case rc_block_hash receipt of Some h \<Rightarrow> h | None \<Rightarrow> zero_block_hash),
                    u_bundler = xo_bundler x, u_bundle_index = bundle_index, u_index = index,
                    u_factory = factory, u_paymaster = paymaster, u_status = ue_success event, u_revert_reason = revert,
                    u_gas = call_gas_limit + verification_gas_limit + o7_pre_verification_gas op
                      + paymaster_verification_gas_limit + paymaster_post_op_gas_limit,
                    u_gas_price = ue_actual_gas_cost event div ue_actual_gas_used event,
                    u_gas_used = ue_actual_gas_used event,
                    u_sponsor_type = extract_sponsor_type (o7_sender op) paymaster tx_deposits,
                    u_user_logs_start_index = user_logs_start_index, u_user_logs_count = user_logs_count,
                    u_fee = ue_actual_gas_cost event, u_consensus = None, u_timestamp = None\<rparr>)
           | _ \<Rightarrow> None))"

section \<open>Parsing a bundle\<close>

definition ends_operation ::
  "user_operation_event event_decoder \<Rightarrow> bytes \<Rightarrow> bytes \<Rightarrow> u256 \<Rightarrow> tx_log \<Rightarrow> bool" where
  "ends_operation d entry_point sender nonce log =
     (case match_and_parse d entry_point log of
        Some (Inr e) \<Rightarrow> ue_sender e = sender \<and> ue_nonce e = nonce
      | _ \<Rightarrow> False)"

definition extended_user_ops ::
  "bytes \<Rightarrow> 'op entry_point_call \<Rightarrow> (string, 'op extended_user_operation list) result" where
  "extended_user_ops entry_point decoded_calldata =
     (case decoded_calldata of
        Handle_Aggregated_Ops ops_per_aggregator beneficiary \<Rightarrow>
          Ok (concat (map (\<lambda>agg_ops.
            map (\<lambda>op. \<lparr>xo_entry_point = entry_point, xo_user_op = op, xo_bundler = beneficiary,
                       xo_aggregator = Some (pa_aggregator agg_ops), xo_aggregator_signature = Some (pa_signature agg_ops)\<rparr>)
              (pa_user_ops agg_ops)) ops_per_aggregator))
      | Handle_Ops ops beneficiary \<Rightarrow>
          Ok (map (\<lambda>op. \<lparr>xo_entry_point = entry_point, xo_user_op = op, xo_bundler = beneficiary,
                         xo_aggregator = None, xo_aggregator_signature = None\<rparr>) ops)
      | Other_Entry_Point_Call \<Rightarrow> Err ''can't recognize calldata selector'')"

definition parse_user_ops ::
  "('op \<Rightarrow> bytes) \<Rightarrow> ('op \<Rightarrow> u256)
     \<Rightarrow> (transaction_receipt \<Rightarrow> nat \<Rightarrow> nat \<Rightarrow> 'op extended_user_operation \<Rightarrow> tx_log list \<Rightarrow> (string, user_op) result option)
     \<Rightarrow> 'op entry_point_abi \<Rightarrow> transaction_receipt \<Rightarrow> nat \<Rightarrow> bytes \<Rightarrow> bytes \<Rightarrow> tx_log list
     \<Rightarrow> (string, user_op list) result option" where
  "parse_user_ops sender nonce build abi receipt bundle_index entry_point calldata bundle_logs =
     (case try_bind (ea_decode_calls abi calldata) (extended_user_ops entry_point) of
        Inl e \<Rightarrow> Some (Err e)
      | Inr user_ops \<Rightarrow>
          let logs = user_ops_logs
                (\<lambda>x. ends_operation (ea_user_operation_event abi) entry_point (sender (xo_user_op x)) (nonce (xo_user_op x)))
                bundle_logs 0 0 user_ops
          in if length user_ops \<noteq> length logs
             then Some (Err ''number of user ops in calldata and logs don't match'')
             else map_option Ok (build_all (build receipt (as_u32 bundle_index)) 0 (zip user_ops logs)))"

section \<open>The two versions of the logic\<close>

record indexer_logic =
  il_version :: string
  il_user_operation_event_signature :: bytes
  il_before_execution_signature :: bytes
  il_entry_points :: "bytes list"
  il_matches_entry_point :: "bytes \<Rightarrow> bool"
  il_matches_handler_calldata :: "bytes \<Rightarrow> bool"
  il_parse_user_ops ::
    "transaction_receipt \<Rightarrow> nat \<Rightarrow> bytes \<Rightarrow> bytes \<Rightarrow> tx_log list \<Rightarrow> (string, user_op list) result option"

definition indexer_v06 :: "user_operation_v06 entry_point_abi \<Rightarrow> bytes list \<Rightarrow> indexer_logic" where
  "indexer_v06 abi entry_points =
     \<lparr>il_version = ''v0.6'',
      il_user_operation_event_signature = ed_signature_hash (ea_user_operation_event abi),
      il_before_execution_signature = ea_before_execution_signature abi,
      il_entry_points = entry_points,
      il_matches_entry_point = (\<lambda>a. a \<in> set entry_points),
      il_matches_handler_calldata = (\<lambda>c. ea_handle_ops_decodes abi c \<or> ea_handle_aggregated_ops_decodes abi c),
      il_parse_user_ops = parse_user_ops o6_sender o6_nonce (build_user_op_model_v06 abi) abi\<rparr>"

definition indexer_v07 :: "packed_user_operation entry_point_abi \<Rightarrow> bytes list \<Rightarrow> bytes list \<Rightarrow> indexer_logic" where
  "indexer_v07 abi v07_entry_points v08_entry_points =
     \<lparr>il_version = ''v0.7-v0.8'',
      il_user_operation_event_signature = ed_signature_hash (ea_user_operation_event abi),
      il_before_execution_signature = ea_before_execution_signature abi,
      il_entry_points = v07_entry_points @ v08_entry_points,
      il_matches_entry_point = (\<lambda>a. a \<in> set v07_entry_points \<or> a \<in> set v08_entry_points),
      il_matches_handler_calldata = (\<lambda>c. ea_handle_ops_decodes abi c \<or> ea_handle_aggregated_ops_decodes abi c),
      il_parse_user_ops = parse_user_ops o7_sender o7_nonce (build_user_op_model_v07 v08_entry_points abi) abi\<rparr>"

section \<open>The logs of the user\<close>

lemma shrink_right_dropWhile:
  "n \<le> length logs \<Longrightarrow> shrink_right logs entry_point paymaster n
     = length (dropWhile (\<lambda>l. lg_address l = entry_point \<or> Some (lg_address l) = paymaster) (rev (take n logs)))"
  by (induction n) (simp_all add: take_Suc_conv_app_nth)

lemma shrink_left_takeWhile:
  "l \<le> r \<Longrightarrow> r \<le> length logs \<Longrightarrow>
     shrink_left logs entry_point r l = l + length (takeWhile (\<lambda>l. lg_address l = entry_point) (drop l (take r logs)))"
proof (induction logs entry_point r l rule: shrink_left.induct)
  case (1 logs entry_point r l)
  show ?case
  proof (cases "l < r")
    case True
    with 1(3) have "drop l (take r logs) = logs ! l # drop (Suc l) (take r logs)"
      by (subst Cons_nth_drop_Suc[symmetric]) simp_all
    with 1 True show ?thesis by (subst shrink_left.simps) simp
  next
    case False
    with 1(2) show ?thesis by (subst shrink_left.simps) simp
  qed
qed

text \<open>The logs between the frame that the entry point and the paymaster emit.\<close>

definition without_frame :: "bytes \<Rightarrow> bytes option \<Rightarrow> tx_log list \<Rightarrow> tx_log list" where
  "without_frame entry_point paymaster logs =
     rev (dropWhile (\<lambda>l. lg_address l = entry_point \<or> Some (lg_address l) = paymaster) (rev logs))"

lemma without_frame_prefix: "\<exists>xs. logs = without_frame e p logs @ xs"
proof -
  let ?P = "\<lambda>l. lg_address l = e \<or> Some (lg_address l) = p"
  have "rev (takeWhile ?P (rev logs) @ dropWhile ?P (rev logs)) = logs" by (simp only: takeWhile_dropWhile_id rev_rev_ident)
  then have "without_frame e p logs @ rev (takeWhile ?P (rev logs)) = logs" by (simp only: rev_append without_frame_def)
  from this[symmetric] show ?thesis by (rule exI)
qed

lemma take_length_without_frame: "take (length (without_frame e p logs)) logs = without_frame e p logs"
  and length_without_frame: "length (without_frame e p logs) \<le> length logs"
proof -
  obtain w xs where w: "w = without_frame e p logs" and logs: "logs = w @ xs" using without_frame_prefix by blast
  have "take (length w) logs = w" "length w \<le> length logs" unfolding logs by simp_all
  then show "take (length (without_frame e p logs)) logs = without_frame e p logs"
    "length (without_frame e p logs) \<le> length logs" unfolding w .
qed

text \<open>
  The logs of the user are those of the operation without the trailing logs of the entry point and the paymaster and without
  the leading ones of the entry point: the function returns the index of the first of them in the block and their number.
\<close>

theorem user_logs_boundaries_exact:
  "extract_user_logs_boundaries logs entry_point paymaster =
     (let inner = without_frame entry_point paymaster logs;
          before = length (takeWhile (\<lambda>l. lg_address l = entry_point) inner)
      in (as_u32 (log_index_at logs before), as_u32 (length inner - before)))"
proof -
  let ?r = "shrink_right logs entry_point paymaster (length logs)"
  have r: "?r = length (without_frame entry_point paymaster logs)"
    by (simp add: shrink_right_dropWhile without_frame_def)
  have "?r \<le> length logs" unfolding r by (rule length_without_frame)
  then have "shrink_left logs entry_point ?r 0
      = length (takeWhile (\<lambda>l. lg_address l = entry_point) (without_frame entry_point paymaster logs))"
    using shrink_left_takeWhile[of 0 ?r logs entry_point] by (simp add: r take_length_without_frame)
  then show ?thesis by (simp add: extract_user_logs_boundaries_def Let_def r)
qed

end
