(* ===== verification/User_Parsing.thy ===== *)
theory User_Parsing
  imports User_Bundles
begin

text \<open>
  What \<open>parse_user_ops\<close> returns. The two builders of operations share a contract, the locale \<open>operation_builder\<close>;
  both versions of the logic share another, \<open>parsing_law\<close>, on which the handler of transactions relies.
\<close>

section \<open>Rows and their events\<close>

definition event_fields :: "user_operation_event \<Rightarrow> user_op \<Rightarrow> bool" where
  "event_fields e u \<longleftrightarrow>
     u_hash u = ue_user_op_hash e \<and> u_status u = ue_success e \<and> u_fee u = ue_actual_gas_cost e
     \<and> u_gas_used u = ue_actual_gas_used e \<and> u_gas_price u = ue_actual_gas_cost e div ue_actual_gas_used e"

definition call_fields :: "('op \<Rightarrow> bytes) \<Rightarrow> ('op \<Rightarrow> u256) \<Rightarrow> 'op extended_user_operation \<Rightarrow> user_op \<Rightarrow> bool" where
  "call_fields sender nonce x u \<longleftrightarrow>
     u_sender u = sender (xo_user_op x) \<and> u_nonce u = nonce (xo_user_op x) \<and> u_entry_point u = xo_entry_point x
     \<and> u_bundler u = xo_bundler x \<and> u_aggregator u = xo_aggregator x
     \<and> u_aggregator_signature u = xo_aggregator_signature x"

definition backed_by_event ::
  "user_operation_event event_decoder \<Rightarrow> transaction_receipt \<Rightarrow> nat \<Rightarrow> bytes \<Rightarrow> tx_log list \<Rightarrow> user_op \<Rightarrow> bool" where
  "backed_by_event d receipt bundle_index entry_point logs u \<longleftrightarrow>
     u_transaction_hash u = rc_transaction_hash receipt \<and> u_bundle_index u = bundle_index \<and> u_entry_point u = entry_point
     \<and> (\<exists>log\<in>set logs. \<exists>e. match_and_parse d entry_point log = Some (Ok e) \<and> ue_sender e = u_sender u
          \<and> ue_nonce e = u_nonce u \<and> event_fields e u)"

definition op_accepts ::
  "('op \<Rightarrow> bytes) \<Rightarrow> ('op \<Rightarrow> u256) \<Rightarrow> 'op entry_point_abi \<Rightarrow> bytes \<Rightarrow> 'op extended_user_operation \<Rightarrow> tx_log \<Rightarrow> bool" where
  "op_accepts sender nonce abi ep =
     (\<lambda>x. ends_operation (ea_user_operation_event abi) ep (sender (xo_user_op x)) (nonce (xo_user_op x)))"

section \<open>The builders\<close>

locale operation_builder =
  fixes sender :: "'op \<Rightarrow> bytes"
    and nonce :: "'op \<Rightarrow> u256"
    and build :: "transaction_receipt \<Rightarrow> nat \<Rightarrow> nat \<Rightarrow> 'op extended_user_operation \<Rightarrow> tx_log list \<Rightarrow> (string, user_op) result option"
    and abi :: "'op entry_point_abi"
    and well_formed :: "'op \<Rightarrow> bool"
  assumes built: "build receipt i j x logs = Some (Ok u) \<Longrightarrow>
      u_transaction_hash u = rc_transaction_hash receipt \<and> u_bundle_index u = i \<and> u_index u = j \<and> call_fields sender nonce x u
      \<and> (\<exists>e. last_event (ea_user_operation_event abi) (xo_entry_point x) logs = Ok e \<and> event_fields e u)"
    and builds: "last_event (ea_user_operation_event abi) (xo_entry_point x) logs = Ok e \<Longrightarrow> ue_actual_gas_used e \<noteq> 0 \<Longrightarrow>
      first_event (ea_revert_reason abi) (xo_entry_point x) logs = Ok revert \<Longrightarrow> well_formed (xo_user_op x) \<Longrightarrow>
      \<exists>u. build receipt i j x logs = Some (Ok u)"

lemma extended_entry_point: "extended_user_ops ep c = Ok xs \<Longrightarrow> x \<in> set xs \<Longrightarrow> xo_entry_point x = ep"
  by (cases c) (auto simp: extended_user_ops_def)

lemma first_event_ok:
  "(\<And>log err. log \<in> set logs \<Longrightarrow> match_and_parse d ep log \<noteq> Some (Err err)) \<Longrightarrow> \<exists>r. first_event d ep logs = Ok r"
  unfolding first_event_def
proof (induction logs)
  case (Cons log logs)
  show ?case
  proof (cases "match_and_parse d ep log")
    case None
    with Cons show ?thesis by simp
  next
    case (Some r)
    with Cons.prems[of log] show ?thesis by (cases r) auto
  qed
qed simp

lemma last_event_of_segment:
  assumes "segment_of (\<lambda>x. ends_operation d ep (f x) (g x)) x seg"
  shows "\<exists>e. match_and_parse d ep (last seg) = Some (Ok e) \<and> last_event d ep seg = Ok e \<and> ue_sender e = f x \<and> ue_nonce e = g x"
proof -
  from assms have seg: "seg \<noteq> []" "ends_operation d ep (f x) (g x) (last seg)" by (auto simp: segment_of_def)
  from seg(2) obtain e where e: "match_and_parse d ep (last seg) = Some (Ok e)" "ue_sender e = f x" "ue_nonce e = g x"
    by (auto simp: ends_operation_def split: option.splits sum.splits)
  with seg(1) show ?thesis by (intro exI[of _ e]) (simp add: last_event_def)
qed

lemma in_segment: "prefix (concat segs) logs \<Longrightarrow> k < length segs \<Longrightarrow> set (segs ! k) \<subseteq> set logs"
  by (auto dest!: set_mono_prefix simp: subset_iff) (meson nth_mem)

context operation_builder
begin

lemma built_is_backed:
  assumes "xo_entry_point x = ep" "segment_of (op_accepts sender nonce abi ep) x seg" "set seg \<subseteq> set logs"
    and u: "build receipt i j x seg = Some (Ok u)"
  shows "u_index u = j \<and> call_fields sender nonce x u \<and> backed_by_event (ea_user_operation_event abi) receipt i ep logs u"
proof -
  from last_event_of_segment[OF assms(2)[unfolded op_accepts_def]] obtain e
    where e: "match_and_parse (ea_user_operation_event abi) ep (last seg) = Some (Ok e)"
      "last_event (ea_user_operation_event abi) ep seg = Ok e"
      "ue_sender e = sender (xo_user_op x)" "ue_nonce e = nonce (xo_user_op x)"
    by (elim exE conjE) (rule that, assumption+)
  have "last seg \<in> set logs" using assms(2,3) by (auto simp: segment_of_def)
  with e built[OF u] assms(1) show ?thesis
    by (auto simp: backed_by_event_def call_fields_def)
qed

lemma parsed_are_backed:
  assumes "parse_user_ops sender nonce build abi receipt i ep calldata logs = Some (Ok us)" "u \<in> set us"
  shows "\<exists>xs k. try_bind (ea_decode_calls abi calldata) (extended_user_ops ep) = Ok xs \<and> k < length xs \<and> u_index u = as_u32 k
    \<and> call_fields sender nonce (xs ! k) u \<and> backed_by_event (ea_user_operation_event abi) receipt (as_u32 i) ep logs u"
proof -
  from assms(1) obtain xs where xs: "try_bind (ea_decode_calls abi calldata) (extended_user_ops ep) = Ok xs"
    by (auto simp: parse_user_ops_def split: sum.splits)
  let ?segs = "user_ops_logs (op_accepts sender nonce abi ep) logs 0 0 xs"
  from assms(1) have len: "length ?segs = length xs"
    and us: "build_all (build receipt (as_u32 i)) 0 (zip xs ?segs) = Some us"
    by (auto simp: parse_user_ops_def xs op_accepts_def Let_def split: if_splits)
  from build_all_sound[OF us assms(2)] len obtain k
    where k: "k < length xs" "build receipt (as_u32 i) (as_u32 k) (xs ! k) (?segs ! k) = Some (Ok u)" by auto
  have parts: "list_all2 (segment_of (op_accepts sender nonce abi ep)) xs ?segs" "prefix (concat ?segs) logs"
    using user_ops_logs_parts[OF len] by simp_all
  have "xo_entry_point (xs ! k) = ep"
    using xs k(1) by (auto simp: try_bind_Ok_iff intro: extended_entry_point)
  moreover have "segment_of (op_accepts sender nonce abi ep) (xs ! k) (?segs ! k)" using parts(1) k(1) by (rule list_all2_nthD)
  moreover have "set (?segs ! k) \<subseteq> set logs" using parts(2) k(1) len by (intro in_segment) simp_all
  ultimately have "u_index u = as_u32 k \<and> call_fields sender nonce (xs ! k) u
      \<and> backed_by_event (ea_user_operation_event abi) receipt (as_u32 i) ep logs u"
    using k(2) by (rule built_is_backed)
  with xs k(1) show ?thesis by blast
qed

lemma all_are_parsed:
  assumes xs: "try_bind (ea_decode_calls abi calldata) (extended_user_ops ep) = Ok xs"
    and ends: "list_all2 (op_accepts sender nonce abi ep) xs ends" "subseq ends logs"
    and gas: "\<And>log e. log \<in> set logs \<Longrightarrow> match_and_parse (ea_user_operation_event abi) ep log = Some (Ok e) \<Longrightarrow> ue_actual_gas_used e \<noteq> 0"
    and reverts: "\<And>log err. log \<in> set logs \<Longrightarrow> match_and_parse (ea_revert_reason abi) ep log \<noteq> Some (Err err)"
    and formed: "\<And>x. x \<in> set xs \<Longrightarrow> well_formed (xo_user_op x)"
  shows "\<exists>us. parse_user_ops sender nonce build abi receipt i ep calldata logs = Some (Ok us) \<and> length us = length xs
    \<and> (\<forall>k<length xs. u_index (us ! k) = as_u32 k \<and> call_fields sender nonce (xs ! k) (us ! k)
         \<and> backed_by_event (ea_user_operation_event abi) receipt (as_u32 i) ep logs (us ! k))"
proof -
  let ?segs = "user_ops_logs (op_accepts sender nonce abi ep) logs 0 0 xs"
  have len: "length ?segs = length xs" using ends user_ops_logs_complete by blast
  have parts: "list_all2 (segment_of (op_accepts sender nonce abi ep)) xs ?segs" "prefix (concat ?segs) logs"
    using user_ops_logs_parts[OF len] by simp_all
  have seg: "xo_entry_point (xs ! k) = ep" "segment_of (op_accepts sender nonce abi ep) (xs ! k) (?segs ! k)" "set (?segs ! k) \<subseteq> set logs"
    if k: "k < length xs" for k
  proof -
    show "xo_entry_point (xs ! k) = ep" using xs k by (auto simp: try_bind_Ok_iff intro: extended_entry_point)
    show "segment_of (op_accepts sender nonce abi ep) (xs ! k) (?segs ! k)" using parts(1) k by (rule list_all2_nthD)
    show "set (?segs ! k) \<subseteq> set logs" using parts(2) k len by (intro in_segment) simp_all
  qed
  have one: "\<exists>u. build receipt (as_u32 i) (as_u32 k) (xs ! k) (?segs ! k) = Some (Ok u)" if k: "k < length xs" for k
  proof -
    from last_event_of_segment[OF seg(2)[OF k, unfolded op_accepts_def]] obtain e
      where e: "match_and_parse (ea_user_operation_event abi) ep (last (?segs ! k)) = Some (Ok e)"
        "last_event (ea_user_operation_event abi) ep (?segs ! k) = Ok e"
      unfolding op_accepts_def[symmetric] by (elim exE conjE) (rule that, assumption+)
    have "last (?segs ! k) \<in> set logs" using seg(2,3)[OF k] by (auto simp: segment_of_def)
    from gas[OF this e(1)] have "ue_actual_gas_used e \<noteq> 0" .
    moreover obtain r where "first_event (ea_revert_reason abi) ep (?segs ! k) = Ok r"
      using first_event_ok[of "?segs ! k" "ea_revert_reason abi" ep] reverts seg(3)[OF k] by blast
    moreover have "well_formed (xo_user_op (xs ! k))" using formed k by simp
    ultimately show ?thesis using builds e(2) seg(1)[OF k] by metis
  qed
  have "\<exists>us. build_all (build receipt (as_u32 i)) 0 (zip xs ?segs) = Some us \<and> length us = length (zip xs ?segs)
      \<and> (\<forall>k<length (zip xs ?segs). build receipt (as_u32 i) (as_u32 (0 + k)) (fst (zip xs ?segs ! k)) (snd (zip xs ?segs ! k))
           = Some (Ok (us ! k)))"
    by (rule build_all_complete) (simp add: one len)
  then obtain us where us: "build_all (build receipt (as_u32 i)) 0 (zip xs ?segs) = Some us" "length us = length xs"
    "\<And>k. k < length xs \<Longrightarrow> build receipt (as_u32 i) (as_u32 k) (xs ! k) (?segs ! k) = Some (Ok (us ! k))"
    by (auto simp: len)
  have "parse_user_ops sender nonce build abi receipt i ep calldata logs = Some (Ok us)"
    using us(1) len by (simp add: parse_user_ops_def xs op_accepts_def Let_def)
  moreover have "u_index (us ! k) = as_u32 k \<and> call_fields sender nonce (xs ! k) (us ! k)
      \<and> backed_by_event (ea_user_operation_event abi) receipt (as_u32 i) ep logs (us ! k)" if "k < length xs" for k
    using seg[OF that] us(3)[OF that] by (rule built_is_backed)
  ultimately show ?thesis using us(2) by blast
qed

end

text \<open>Both builders satisfy the contract; the packed numbers of the newer one have 32 bytes in the bindings.\<close>

interpretation v06: operation_builder o6_sender o6_nonce "build_user_op_model_v06 abi" abi "\<lambda>_. True" for abi
proof
  fix receipt i j x logs u
  assume "build_user_op_model_v06 abi receipt i j x logs = Some (Ok u)"
  then show "u_transaction_hash u = rc_transaction_hash receipt \<and> u_bundle_index u = i \<and> u_index u = j
      \<and> call_fields o6_sender o6_nonce x u
      \<and> (\<exists>e. last_event (ea_user_operation_event abi) (xo_entry_point x) logs = Ok e \<and> event_fields e u)"
    by (auto simp: build_user_op_model_v06_def Let_def call_fields_def event_fields_def try_bind_Ok_iff case_prod_unfold
        split: sum.splits if_splits)
next
  fix x :: "user_operation_v06 extended_user_operation" and logs e revert receipt i j
  assume "last_event (ea_user_operation_event abi) (xo_entry_point x) logs = Ok e" "ue_actual_gas_used e \<noteq> 0"
    "first_event (ea_revert_reason abi) (xo_entry_point x) logs = Ok revert"
  then show "\<exists>u. build_user_op_model_v06 abi receipt i j x logs = Some (Ok u)"
    by (simp add: build_user_op_model_v06_def Let_def case_prod_unfold)
qed

definition packed_well_formed :: "packed_user_operation \<Rightarrow> bool" where
  "packed_well_formed op \<longleftrightarrow> length (o7_account_gas_limits op) = 32 \<and> length (o7_gas_fees op) = 32"

lemma unpack_uints_32: "length b = 32 \<Longrightarrow> unpack_uints b = Some (u256_from_be (take 16 b), u256_from_be (drop 16 b))"
  by (simp add: unpack_uints_def)

lemma paymaster_gas_limits_Some: "\<exists>v p. paymaster_gas_limits b = Some (v, p)"
  by (simp add: paymaster_gas_limits_def unpack_uints_32)

interpretation v07: operation_builder o7_sender o7_nonce "build_user_op_model_v07 v08 abi" abi packed_well_formed for v08 abi
proof
  fix receipt i j x logs u
  assume "build_user_op_model_v07 v08 abi receipt i j x logs = Some (Ok u)"
  then show "u_transaction_hash u = rc_transaction_hash receipt \<and> u_bundle_index u = i \<and> u_index u = j
      \<and> call_fields o7_sender o7_nonce x u
      \<and> (\<exists>e. last_event (ea_user_operation_event abi) (xo_entry_point x) logs = Ok e \<and> event_fields e u)"
    unfolding build_user_op_model_v07_def Let_def
    by (auto simp: call_fields_def event_fields_def try_bind_Ok_iff
        split: sum.splits if_splits option.splits prod.splits)
next
  fix x :: "packed_user_operation extended_user_operation" and logs e revert receipt i j
  assume "last_event (ea_user_operation_event abi) (xo_entry_point x) logs = Ok e" "ue_actual_gas_used e \<noteq> 0"
    "first_event (ea_revert_reason abi) (xo_entry_point x) logs = Ok revert" "packed_well_formed (xo_user_op x)"
  moreover obtain v p where "paymaster_gas_limits (o7_paymaster_and_data (xo_user_op x)) = Some (v, p)"
    using paymaster_gas_limits_Some by blast
  ultimately show "\<exists>u. build_user_op_model_v07 v08 abi receipt i j x logs = Some (Ok u)"
    by (simp add: build_user_op_model_v07_def Let_def packed_well_formed_def unpack_uints_32 split: prod.split)
qed

text \<open>C15: 
  Every operation of a call is found: when the events of a bundle show the operations of the call in their order, and these events can
  be decoded and used some gas, parsing returns one row per operation, in order, with the sender, the nonce, the bundler and the aggregator of
  the call and with the hash, the result and the cost of an event of the bundle for this sender and nonce.
\<close>

theorem operations_of_a_bundle_are_parsed:
  assumes "try_bind (ea_decode_calls abi calldata) (extended_user_ops ep) = Ok xs"
    and "list_all2 (op_accepts o7_sender o7_nonce abi ep) xs ends" "subseq ends logs"
    and "\<forall>log\<in>set logs. (\<forall>e. match_and_parse (ea_user_operation_event abi) ep log = Some (Ok e) \<longrightarrow> ue_actual_gas_used e \<noteq> 0)
          \<and> (\<forall>err. match_and_parse (ea_revert_reason abi) ep log \<noteq> Some (Err err))"
    and "\<forall>x\<in>set xs. packed_well_formed (xo_user_op x)"
  shows "\<exists>us. il_parse_user_ops (indexer_v07 abi v07s v08s) receipt i ep calldata logs = Some (Ok us) \<and> length us = length xs
     \<and> (\<forall>k<length xs. u_index (us ! k) = as_u32 k \<and> call_fields o7_sender o7_nonce (xs ! k) (us ! k)
          \<and> backed_by_event (ea_user_operation_event abi) receipt (as_u32 i) ep logs (us ! k))"
  using v07.all_are_parsed[OF assms(1-3), where ?v08.0 = v08s and receipt = receipt and i = i] assms(4,5)
  by (simp add: indexer_v07_def)

text \<open>A bundle with one operation.\<close>

definition sample_op :: packed_user_operation where
  "sample_op =
     \<lparr>o7_sender = [1], o7_nonce = 5, o7_init_code = [], o7_call_data = [], o7_account_gas_limits = replicate 32 0,
      o7_pre_verification_gas = 0, o7_gas_fees = replicate 32 0, o7_paymaster_and_data = [], o7_signature = []\<rparr>"

definition sample_event :: user_operation_event where
  "sample_event =
     \<lparr>ue_user_op_hash = [8], ue_sender = [1], ue_nonce = 5, ue_success = True, ue_actual_gas_cost = 105, ue_actual_gas_used = 10\<rparr>"

definition sample_abi :: "packed_user_operation entry_point_abi" where
  "sample_abi =
     \<lparr>ea_decode_calls = (\<lambda>_. Ok (Handle_Ops [sample_op] [9])), ea_handle_ops_decodes = (\<lambda>_. True),
      ea_handle_aggregated_ops_decodes = (\<lambda>_. False),
      ea_user_operation_event = \<lparr>ed_signature_hash = [1], ed_decode = (\<lambda>_. Ok sample_event)\<rparr>,
      ea_revert_reason = \<lparr>ed_signature_hash = [2], ed_decode = (\<lambda>_. Ok [])\<rparr>,
      ea_deposited = \<lparr>ed_signature_hash = [3], ed_decode = (\<lambda>_. Ok [])\<rparr>,
      ea_before_execution_signature = [4]\<rparr>"

definition sample_log :: "bytes \<Rightarrow> nat \<Rightarrow> tx_log" where
  "sample_log topic i =
     \<lparr>lg_address = [7], lg_topics = [topic], lg_data = [], lg_index = Some i, lg_transaction_hash = Some [6],
      lg_block_hash = Some [5], lg_removed = False\<rparr>"

lemmas sample_defs = sample_op_def sample_event_def sample_abi_def sample_log_def

lemma operations_of_a_bundle_are_parsed_witness:
  "\<exists>us. il_parse_user_ops (indexer_v07 sample_abi [[7]] [])
       \<lparr>rc_transaction_hash = [6], rc_block_number = Some 3, rc_block_hash = Some [5], rc_logs = []\<rparr> 0 [7] [] [sample_log [1] 1]
     = Some (Ok us) \<and> length us = 1 \<and> u_hash (us ! 0) = [8] \<and> u_sender (us ! 0) = [1]"
proof -
  let ?r = "\<lparr>rc_transaction_hash = [6], rc_block_number = Some 3, rc_block_hash = Some [5], rc_logs = []\<rparr> :: transaction_receipt"
  let ?x = "\<lparr>xo_entry_point = [7], xo_user_op = sample_op, xo_bundler = [9], xo_aggregator = None, xo_aggregator_signature = None\<rparr>"
  have "try_bind (ea_decode_calls sample_abi []) (extended_user_ops [7]) = Ok [?x]"
    "list_all2 (op_accepts o7_sender o7_nonce sample_abi [7]) [?x] [sample_log [1] 1]" "subseq [sample_log [1] 1] [sample_log [1] 1]"
    "\<forall>log\<in>set [sample_log [1] 1].
       (\<forall>e. match_and_parse (ea_user_operation_event sample_abi) [7] log = Some (Ok e) \<longrightarrow> ue_actual_gas_used e \<noteq> 0)
       \<and> (\<forall>err. match_and_parse (ea_revert_reason sample_abi) [7] log \<noteq> Some (Err err))"
    "\<forall>x\<in>set [?x]. packed_well_formed (xo_user_op x)"
    by (auto simp: sample_defs extended_user_ops_def op_accepts_def ends_operation_def match_and_parse_def topic0_def
        packed_well_formed_def)
  from operations_of_a_bundle_are_parsed[OF this, where v07s = "[[7]]" and v08s = "[]" and receipt = ?r and i = 0]
  obtain us where us: "il_parse_user_ops (indexer_v07 sample_abi [[7]] []) ?r 0 [7] [] [sample_log [1] 1] = Some (Ok us)" "length us = 1"
    and row: "call_fields o7_sender o7_nonce ?x (us ! 0)"
      "backed_by_event (ea_user_operation_event sample_abi) ?r (as_u32 0) [7] [sample_log [1] 1] (us ! 0)"
    by auto
  from row have "u_hash (us ! 0) = [8]" "u_sender (us ! 0) = [1]"
    by (auto simp: backed_by_event_def call_fields_def event_fields_def match_and_parse_def sample_defs topic0_def)
  with us show ?thesis by blast
qed

end
