(* ===== verification/User_Handler.thy ===== *)
theory User_Handler
  imports User_Parsing
begin

text \<open>
  The rows of user operations (\<^verbatim>\<open>user-ops-indexer/user-ops-indexer-logic/src/types/user_op.rs\<close>,
  \<^verbatim>\<open>repository/user_op.rs\<close>) and the handling of one transaction with its retries (\<open>handle_tx\<close> and \<open>start\<close> of
  \<^verbatim>\<open>indexer/base_indexer.rs\<close>). A decimal of the database is a natural number, and the columns of times that the
  database fills itself are left out.
\<close>

section \<open>Rows\<close>

record user_op_model =
  m_hash :: bytes
  m_sender :: bytes
  m_nonce :: u256
  m_init_code :: "bytes option"
  m_call_data :: bytes
  m_call_gas_limit :: nat
  m_verification_gas_limit :: nat
  m_pre_verification_gas :: nat
  m_max_fee_per_gas :: nat
  m_max_priority_fee_per_gas :: nat
  m_paymaster_and_data :: "bytes option"
  m_signature :: bytes
  m_aggregator :: "bytes option"
  m_aggregator_signature :: "bytes option"
  m_entry_point :: bytes
  m_entry_point_version :: entry_point_version
  m_transaction_hash :: bytes
  m_block_number :: int
  m_block_hash :: bytes
  m_bundler :: bytes
  m_bundle_index :: int
  m_index :: int
  m_factory :: "bytes option"
  m_paymaster :: "bytes option"
  m_status :: bool
  m_revert_reason :: "bytes option"
  m_gas :: nat
  m_gas_price :: nat
  m_gas_used :: nat
  m_sponsor_type :: sponsor_type
  m_user_logs_start_index :: int
  m_user_logs_count :: int

definition u256_to_decimal :: "u256 \<Rightarrow> nat" where
  "u256_to_decimal n = unat n"

text \<open>\<open>as i32\<close>, \<open>as u32\<close> and \<open>as u64\<close> of a signed number.\<close>

definition as_i32 :: "nat \<Rightarrow> int" where
  "as_i32 n = sint (of_nat n :: 32 word)"

definition i32_as_u32 :: "int \<Rightarrow> nat" where
  "i32_as_u32 i = nat (i mod 2 ^ 32)"

definition i32_as_u64 :: "int \<Rightarrow> nat" where
  "i32_as_u64 i = nat (i mod 2 ^ 64)"

text \<open>\<open>to_u128().unwrap_or(0)\<close>\<close>

definition decimal_to_u256 :: "nat \<Rightarrow> u256" where
  "decimal_to_u256 n = (if n < 2 ^ 128 then of_nat n else 0)"

definition model_of_user_op :: "user_op \<Rightarrow> user_op_model" where
  "model_of_user_op v =
     \<lparr>m_hash = u_hash v, m_sender = u_sender v, m_nonce = u_nonce v, m_init_code = u_init_code v,
      m_call_data = u_call_data v, m_call_gas_limit = u256_to_decimal (u_call_gas_limit v),
      m_verification_gas_limit = u256_to_decimal (u_verification_gas_limit v),
      m_pre_verification_gas = u256_to_decimal (u_pre_verification_gas v),
      m_max_fee_per_gas = u256_to_decimal (u_max_fee_per_gas v),
      m_max_priority_fee_per_gas = u256_to_decimal (u_max_priority_fee_per_gas v),
      m_paymaster_and_data = u_paymaster_and_data v, m_signature = u_signature v, m_aggregator = u_aggregator v,
      m_aggregator_signature = u_aggregator_signature v, m_entry_point = u_entry_point v,
      m_entry_point_version = u_entry_point_version v, m_transaction_hash = u_transaction_hash v,
      m_block_number = as_i32 (u_block_number v), m_block_hash = u_block_hash v, m_bundler = u_bundler v,
      m_bundle_index = as_i32 (u_bundle_index v), m_index = as_i32 (u_index v), m_factory = u_factory v,
      m_paymaster = u_paymaster v, m_status = u_status v, m_revert_reason = u_revert_reason v,
      m_gas = u256_to_decimal (u_gas v), m_gas_price = u256_to_decimal (u_gas_price v),
      m_gas_used = u256_to_decimal (u_gas_used v), m_sponsor_type = u_sponsor_type v,
      m_user_logs_start_index = as_i32 (u_user_logs_start_index v), m_user_logs_count = as_i32 (u_user_logs_count v)\<rparr>"

definition user_op_of_model :: "user_op_model \<Rightarrow> user_op" where
  "user_op_of_model v =
     \<lparr>u_hash = m_hash v, u_sender = m_sender v, u_nonce = m_nonce v, u_init_code = m_init_code v,
      u_call_data = m_call_data v, u_call_gas_limit = decimal_to_u256 (m_call_gas_limit v),
      u_verification_gas_limit = decimal_to_u256 (m_verification_gas_limit v),
      u_pre_verification_gas = decimal_to_u256 (m_pre_verification_gas v),
      u_max_fee_per_gas = decimal_to_u256 (m_max_fee_per_gas v),
      u_max_priority_fee_per_gas = decimal_to_u256 (m_max_priority_fee_per_gas v),
      u_paymaster_and_data = m_paymaster_and_data v, u_signature = m_signature v, u_aggregator = m_aggregator v,
      u_aggregator_signature = m_aggregator_signature v, u_entry_point = m_entry_point v,
      u_entry_point_version = m_entry_point_version v, u_transaction_hash = m_transaction_hash v,
      u_block_number = i32_as_u64 (m_block_number v), u_block_hash = m_block_hash v, u_bundler = m_bundler v,
      u_bundle_index = i32_as_u32 (m_bundle_index v), u_index = i32_as_u32 (m_index v), u_factory = m_factory v,
      u_paymaster = m_paymaster v, u_status = m_status v, u_revert_reason = m_revert_reason v,
      u_gas = decimal_to_u256 (m_gas v), u_gas_price = decimal_to_u256 (m_gas_price v),
      u_gas_used = decimal_to_u256 (m_gas_used v), u_sponsor_type = m_sponsor_type v,
      u_user_logs_start_index = i32_as_u32 (m_user_logs_start_index v),
      u_user_logs_count = i32_as_u32 (m_user_logs_count v),
      u_fee = decimal_to_u256 (m_gas_price v * m_gas_used v), u_consensus = None, u_timestamp = None\<rparr>"

section \<open>What a row keeps\<close>

lemma i32_as_u64_small: "n < 2 ^ 31 \<Longrightarrow> i32_as_u64 (as_i32 n) = n"
proof -
  assume n: "n < 2 ^ 31"
  then have "as_i32 n = int n"
    by (simp add: as_i32_def signed_of_nat signed_take_bit_int_eq_self)
  with n show ?thesis by (simp add: i32_as_u64_def)
qed

lemma i32_as_u32_back: "n < 2 ^ 32 \<Longrightarrow> i32_as_u32 (as_i32 n) = n"
proof -
  assume n: "n < 2 ^ 32"
  have "take_bit 32 (as_i32 n) = take_bit 32 (int n)"
    by (simp add: as_i32_def signed_of_nat take_bit_signed_take_bit)
  moreover have "i32_as_u32 (as_i32 n) = nat (take_bit 32 (as_i32 n))"
    by (simp only: i32_as_u32_def take_bit_eq_mod)
  moreover have "take_bit 32 (int n) = int n" using n by (simp add: take_bit_int_eq_self)
  ultimately show ?thesis by simp
qed

lemma decimal_to_u256_back: "unat x < 2 ^ 128 \<Longrightarrow> decimal_to_u256 (u256_to_decimal x) = x"
  by (simp add: decimal_to_u256_def u256_to_decimal_def)

definition fits_columns :: "user_op \<Rightarrow> bool" where
  "fits_columns u \<longleftrightarrow>
     (\<forall>x\<in>{u_call_gas_limit u, u_verification_gas_limit u, u_pre_verification_gas u, u_max_fee_per_gas u,
         u_max_priority_fee_per_gas u, u_gas u, u_gas_price u, u_gas_used u, u_fee u}. unat x < 2 ^ 128)
     \<and> u_block_number u < 2 ^ 31 \<and> (\<forall>n\<in>{u_bundle_index u, u_index u, u_user_logs_start_index u, u_user_logs_count u}. n < 2 ^ 32)
     \<and> u_consensus u = None \<and> u_timestamp u = None"

lemma fee_read_back:
  assumes "unat cost < 2 ^ 128"
  shows "decimal_to_u256 (u256_to_decimal (cost div used) * u256_to_decimal used) = cost - cost mod used"
proof -
  have "cost mod used \<le> cost" by (simp add: word_le_nat_alt unat_mod_distrib)
  then have "unat (cost - cost mod used) = unat cost - unat cost mod unat used" by (simp add: unat_sub unat_mod_distrib)
  then have product: "unat (cost div used) * unat used = unat (cost - cost mod used)"
    by (simp add: unat_div_distrib minus_mod_eq_div_mult)
  have "unat (cost - cost mod used) \<le> unat cost" unfolding product[symmetric] by (simp add: unat_div_distrib)
  with assms have small: "unat (cost - cost mod used) < 2 ^ 128" by (rule le_less_trans[rotated])
  then show ?thesis unfolding decimal_to_u256_def u256_to_decimal_def product by simp
qed

text \<open>C31: 
  What the database keeps of an operation: an operation whose numbers fit the columns is read back as it was stored, but for
  its fee, which is computed from the rounded price of gas and lacks the remainder of that division.
\<close>

theorem stored_operation_is_read_back:
  assumes "fits_columns u" "event_fields e u"
  shows "user_op_of_model (model_of_user_op u) = u\<lparr>u_fee := ue_actual_gas_cost e - ue_actual_gas_cost e mod ue_actual_gas_used e\<rparr>"
proof -
  have "decimal_to_u256 (u256_to_decimal (u_gas_price u) * u256_to_decimal (u_gas_used u))
      = ue_actual_gas_cost e - ue_actual_gas_cost e mod ue_actual_gas_used e"
    using fee_read_back[of "ue_actual_gas_cost e"] assms by (simp add: event_fields_def fits_columns_def)
  with assms(1) show ?thesis
    by (simp add: user_op_of_model_def model_of_user_op_def fits_columns_def decimal_to_u256_back i32_as_u64_small i32_as_u32_back)
qed

text \<open>An operation whose cost is not a multiple of the gas it used.\<close>

definition sample_row :: user_op where
  "sample_row =
     \<lparr>u_hash = [8], u_sender = [1], u_nonce = 5, u_init_code = None, u_call_data = [], u_call_gas_limit = 0,
      u_verification_gas_limit = 0, u_pre_verification_gas = 0, u_max_fee_per_gas = 0, u_max_priority_fee_per_gas = 0,
      u_paymaster_and_data = None, u_signature = [], u_aggregator = None, u_aggregator_signature = None, u_entry_point = [7],
      u_entry_point_version = V07, u_transaction_hash = [6], u_block_number = 3, u_block_hash = [5], u_bundler = [9],
      u_bundle_index = 0, u_index = 0, u_factory = None, u_paymaster = None, u_status = True, u_revert_reason = None,
      u_gas = 0, u_gas_price = 10, u_gas_used = 10, u_sponsor_type = WalletBalance, u_user_logs_start_index = 1,
      u_user_logs_count = 0, u_fee = 105, u_consensus = None, u_timestamp = None\<rparr>"

lemma stored_operation_is_read_back_witness:
  "user_op_of_model (model_of_user_op sample_row) = sample_row\<lparr>u_fee := 100\<rparr>"
proof -
  have "fits_columns sample_row" "event_fields sample_event sample_row"
    by (simp_all add: fits_columns_def event_fields_def sample_row_def sample_event_def)
  from stored_operation_is_read_back[OF this] show ?thesis by (simp add: sample_event_def)
qed

section \<open>The table\<close>

text \<open>
  \<open>upsert_many\<close> is one statement: PostgreSQL refuses it when two of its rows have the same hash, and otherwise replaces or
  adds every row. \<open>reached\<close> is the error of a database that cannot be reached.
\<close>

type_synonym user_ops_table = "bytes \<Rightarrow> user_op_model option"

definition upsert_rows :: "user_op_model list \<Rightarrow> user_ops_table \<Rightarrow> user_ops_table" where
  "upsert_rows rows table = foldl (\<lambda>t row. t(m_hash row \<mapsto> row)) table rows"

definition upsert_many :: "(string, unit) result \<Rightarrow> user_op list \<Rightarrow> user_ops_table \<Rightarrow> (string, user_ops_table) result" where
  "upsert_many reached user_ops table =
     try_bind reached (\<lambda>_.
       let rows = map model_of_user_op user_ops
       in if distinct (map m_hash rows) then Ok (upsert_rows rows table)
          else Err ''ON CONFLICT DO UPDATE command cannot affect row a second time'')"

section \<open>A transaction\<close>

record tx =
  tx_to :: "bytes option"
  tx_input :: bytes

record provider =
  pv_transaction :: "bytes \<Rightarrow> (transport_error, tx option) result"
  pv_receipt :: "bytes \<Rightarrow> (transport_error, transaction_receipt option) result"
  pv_tracer :: tracer

datatype handle_error = Transport transport_error | Message string | Database string

definition transport :: "(transport_error, 'a) result \<Rightarrow> (handle_error, 'a) result" where
  "transport r = (case r of Inl e \<Rightarrow> Err (Transport e) | Inr x \<Rightarrow> Ok x)"

definition database :: "(string, 'a) result \<Rightarrow> (handle_error, 'a) result" where
  "database r = (case r of Inl e \<Rightarrow> Err (Database e) | Inr x \<Rightarrow> Ok x)"

definition ok_or :: "string \<Rightarrow> 'a option \<Rightarrow> (handle_error, 'a) result" where
  "ok_or m x = (case x of None \<Rightarrow> Err (Message m) | Some y \<Rightarrow> Ok y)"

text \<open>The logs after each event that starts a bundle, up to the end of the transaction.\<close>

fun vec_bundle_logs :: "(tx_log \<Rightarrow> bool) \<Rightarrow> tx_log list \<Rightarrow> tx_log list list" where
  "vec_bundle_logs starts [] = []"
| "vec_bundle_logs starts (log # logs) =
     (if starts log then logs # vec_bundle_logs starts logs else vec_bundle_logs starts logs)"

definition starts_bundle :: "indexer_logic \<Rightarrow> tx_log \<Rightarrow> bool" where
  "starts_bundle logic log \<longleftrightarrow>
     il_matches_entry_point logic (lg_address log) \<and> topic0 log = Some (il_before_execution_signature logic)"

definition calldatas ::
  "provider \<Rightarrow> indexer_logic \<Rightarrow> bytes \<Rightarrow> trace_client \<Rightarrow> tx \<Rightarrow> nat \<Rightarrow> (handle_error, (bytes \<times> bytes) list) result" where
  "calldatas client logic tx_hash trace_client tx bundles =
     (case tx_to tx of
        Some to \<Rightarrow>
          if bundles = 1 \<and> il_matches_entry_point logic to then Ok [(to, tx_input tx)]
          else try_bind (transport (common_trace_transaction (pv_tracer client) tx_hash trace_client)) (\<lambda>traces.
                 Ok (entry_point_calls (il_matches_entry_point logic) (il_matches_handler_calldata logic) traces))
      | None \<Rightarrow>
          try_bind (transport (common_trace_transaction (pv_tracer client) tx_hash trace_client)) (\<lambda>traces.
            Ok (entry_point_calls (il_matches_entry_point logic) (il_matches_handler_calldata logic) traces)))"

text \<open>The operations of all bundles; a bundle that cannot be parsed is left out.\<close>

fun parse_bundles ::
  "(nat \<Rightarrow> bytes \<Rightarrow> bytes \<Rightarrow> 'l \<Rightarrow> (string, 'u list) result option) \<Rightarrow> nat \<Rightarrow> ((bytes \<times> bytes) \<times> 'l) list \<Rightarrow> 'u list option" where
  "parse_bundles parse i [] = Some []"
| "parse_bundles parse i (((entry_point, calldata), bundle_logs) # rest) =
     (case parse i entry_point calldata bundle_logs of
        None \<Rightarrow> None
      | Some (Inl e) \<Rightarrow> parse_bundles parse (Suc i) rest
      | Some (Inr us) \<Rightarrow> map_option ((@) us) (parse_bundles parse (Suc i) rest))"

definition handle_tx ::
  "provider \<Rightarrow> (string, unit) result \<Rightarrow> indexer_logic \<Rightarrow> bytes \<Rightarrow> trace_client \<Rightarrow> user_ops_table
     \<Rightarrow> (handle_error, user_ops_table) result option" where
  "handle_tx client reached logic tx_hash trace_client table =
     (case try_bind (transport (pv_transaction client tx_hash)) (\<lambda>t.
           try_bind (ok_or ''empty transaction returned from rpc'' t) (\<lambda>tx.
           try_bind (transport (pv_receipt client tx_hash)) (\<lambda>r.
           try_bind (ok_or ''empty receipt returned from rpc'' r) (\<lambda>receipt.
             let bundles = vec_bundle_logs (starts_bundle logic) (rc_logs receipt)
             in try_bind (calldatas client logic tx_hash trace_client tx (length bundles)) (\<lambda>calls.
                if length calls \<noteq> length bundles
                then Err (Message ''number of calls to entrypoint and log batches don't match'')
                else Ok (receipt, zip calls bundles)))))) of
        Inl e \<Rightarrow> Some (Err e)
      | Inr (receipt, parts) \<Rightarrow>
          map_option (\<lambda>user_ops. if 0 < length user_ops then database (upsert_many reached user_ops table) else Ok table)
            (parse_bundles (il_parse_user_ops logic receipt) 0 parts))"

section \<open>Retries\<close>

datatype attempts = Handled | Skipped | Ended handle_error

text \<open>
  The loop of \<open>start\<close> around the handler: the delays that are left, the number of the attempt, and what the handler does at
  each attempt. It returns how the loop ends, the delays it waited and the table.
\<close>

fun attempt_loop ::
  "(nat \<Rightarrow> 't \<Rightarrow> (handle_error, 't) result option) \<Rightarrow> nat list \<Rightarrow> nat \<Rightarrow> 't \<Rightarrow> (attempts \<times> nat list \<times> 't) option" where
  "attempt_loop handle [] n table =
     (case handle n table of
        None \<Rightarrow> None
      | Some (Inr table') \<Rightarrow> Some (Handled, [], table')
      | Some (Inl e) \<Rightarrow> Some (if e = Transport Backend_Gone then Ended e else Skipped, [], table))"
| "attempt_loop handle (delay # backoff) n table =
     (case handle n table of
        None \<Rightarrow> None
      | Some (Inr table') \<Rightarrow> Some (Handled, [], table')
      | Some (Inl e) \<Rightarrow>
          if e = Transport Backend_Gone then Some (Ended e, [], table)
          else map_option (\<lambda>(r, waited, t). (r, delay # waited, t)) (attempt_loop handle backoff (Suc n) table))"

definition process_tx :: "(nat \<Rightarrow> 't \<Rightarrow> (handle_error, 't) result option) \<Rightarrow> 't \<Rightarrow> (attempts \<times> nat list \<times> 't) option" where
  "process_tx handle table = attempt_loop handle [5, 20, 120] 0 table"

section \<open>What a handled transaction leaves\<close>

definition rows_map :: "user_op_model list \<Rightarrow> user_ops_table" where
  "rows_map rows = map_of (rev (map (\<lambda>r. (m_hash r, r)) rows))"

lemma upsert_rows_map: "upsert_rows rows table = table ++ rows_map rows"
  unfolding upsert_rows_def rows_map_def
proof (induction rows rule: rev_induct)
  case (snoc row rows)
  then show ?case by (simp add: map_add_upd[symmetric] map_add_def fun_eq_iff split: option.splits)
qed simp

lemma rows_map_SomeD: "rows_map rows h = Some row \<Longrightarrow> row \<in> set rows \<and> m_hash row = h"
  by (auto simp: rows_map_def dest: map_of_SomeD)

lemma upsert_rows_twice: "upsert_rows rows (upsert_rows rows table) = upsert_rows rows table"
  by (simp add: upsert_rows_map map_add_def fun_eq_iff split: option.splits)

lemma upsert_rows_changed:
  "upsert_rows rows table h \<noteq> table h \<Longrightarrow> \<exists>row\<in>set rows. m_hash row = h \<and> upsert_rows rows table h = Some row"
  by (auto simp: upsert_rows_map map_add_def split: option.splits dest!: rows_map_SomeD)

lemma parse_bundles_sound:
  "parse_bundles parse i parts = Some us \<Longrightarrow> u \<in> set us \<Longrightarrow>
     \<exists>k vs. \<exists>part\<in>set parts. parse k (fst (fst part)) (snd (fst part)) (snd part) = Some (Ok vs) \<and> u \<in> set vs"
proof (induction parse i parts arbitrary: us rule: parse_bundles.induct)
  case (2 parse i entry_point calldata bundle_logs rest)
  show ?case
  proof (cases "parse i entry_point calldata bundle_logs")
    case None
    with 2 show ?thesis by simp
  next
    case (Some r)
    show ?thesis
    proof (cases r)
      case (Inl e)
      with 2(3) Some have "parse_bundles parse (Suc i) rest = Some us" by simp
      from 2(1)[OF Some Inl this 2(4)] show ?thesis by (meson list.set_intros(2))
    next
      case (Inr vs)
      with 2(3) Some obtain ws where ws: "parse_bundles parse (Suc i) rest = Some ws" "us = vs @ ws" by auto
      show ?thesis
      proof (cases "u \<in> set vs")
        case True
        with Some Inr show ?thesis by auto
      next
        case False
        with 2(4) ws(2) have "u \<in> set ws" by simp
        from 2(2)[OF Some Inr ws(1) this] show ?thesis by (meson list.set_intros(2))
      qed
    qed
  qed
qed simp

lemma vec_bundle_logs_subset: "logs' \<in> set (vec_bundle_logs starts logs) \<Longrightarrow> set logs' \<subseteq> set logs"
  by (induction logs) (auto split: if_splits)

lemma entry_point_calls_match: "(ep, cd) \<in> set (entry_point_calls P H traces) \<Longrightarrow> P ep"
  unfolding entry_point_calls_def
  by (induction traces) (auto simp: List.map_filter_simps split: option.splits if_splits)

lemma calldatas_match:
  "calldatas client logic h tc t n = Ok calls \<Longrightarrow> (ep, cd) \<in> set calls \<Longrightarrow> il_matches_entry_point logic ep"
  by (auto simp: calldatas_def try_bind_Ok_iff dest: entry_point_calls_match split: option.splits if_splits)

text \<open>The law of both versions on which the handler relies.\<close>

locale parsing_law =
  fixes logic :: indexer_logic and d :: "user_operation_event event_decoder"
  assumes parsed: "il_parse_user_ops logic receipt i ep calldata logs = Some (Ok us) \<Longrightarrow> u \<in> set us \<Longrightarrow>
      \<exists>b. backed_by_event d receipt b ep logs u"
begin

lemma handle_tx_Ok:
  assumes "handle_tx client reached logic h tc table = Some (Ok table')"
  shows "\<exists>receipt parts us. pv_receipt client h = Ok (Some receipt)
    \<and> (\<forall>ep cd logs. ((ep, cd), logs) \<in> set parts \<longrightarrow> il_matches_entry_point logic ep \<and> set logs \<subseteq> set (rc_logs receipt))
    \<and> parse_bundles (il_parse_user_ops logic receipt) 0 parts = Some us
    \<and> table' = upsert_rows (map model_of_user_op us) table
    \<and> (\<forall>t. handle_tx client reached logic h tc t = Some (Ok (upsert_rows (map model_of_user_op us) t)))"
proof -
  from assms obtain receipt parts where front: "(try_bind (transport (pv_transaction client h)) (\<lambda>t.
           try_bind (ok_or ''empty transaction returned from rpc'' t) (\<lambda>tx.
           try_bind (transport (pv_receipt client h)) (\<lambda>r.
           try_bind (ok_or ''empty receipt returned from rpc'' r) (\<lambda>receipt.
             let bundles = vec_bundle_logs (starts_bundle logic) (rc_logs receipt)
             in try_bind (calldatas client logic h tc tx (length bundles)) (\<lambda>calls.
                if length calls \<noteq> length bundles
                then Err (Message ''number of calls to entrypoint and log batches don't match'')
                else Ok (receipt, zip calls bundles)))))) = Ok (receipt, parts))"
    unfolding handle_tx_def by (auto split: sum.splits)
  then have front': "pv_receipt client h = Ok (Some receipt)"
    "\<exists>t. \<exists>calls. calldatas client logic h tc t (length (vec_bundle_logs (starts_bundle logic) (rc_logs receipt))) = Ok calls
       \<and> parts = zip calls (vec_bundle_logs (starts_bundle logic) (rc_logs receipt))"
    by (auto simp: try_bind_Ok_iff transport_def ok_or_def Let_def split: sum.splits option.splits if_splits)
  then have inside: "il_matches_entry_point logic ep \<and> set logs \<subseteq> set (rc_logs receipt)" if "((ep, cd), logs) \<in> set parts" for ep cd logs
    using front'(2) that by (meson calldatas_match vec_bundle_logs_subset set_zip_leftD set_zip_rightD)
  let ?run = "\<lambda>t. map_option (\<lambda>us. if 0 < length us then database (upsert_many reached us t) else Ok t)
      (parse_bundles (il_parse_user_ops logic receipt) 0 parts)"
  have run: "handle_tx client reached logic h tc t = ?run t" for t
    unfolding handle_tx_def front by simp
  from assms obtain us where us: "parse_bundles (il_parse_user_ops logic receipt) 0 parts = Some us"
    "(if 0 < length us then database (upsert_many reached us table) else Ok table) = Ok table'"
    unfolding run by auto
  have upsert: "(if 0 < length us then database (upsert_many reached us t) else Ok t) = Ok (upsert_rows (map model_of_user_op us) t)" for t
    using us(2) by (auto simp: database_def upsert_many_def try_bind_def Let_def upsert_rows_def split: sum.splits if_splits)
  have "table' = upsert_rows (map model_of_user_op us) table" using us(2) unfolding upsert by simp
  moreover have "handle_tx client reached logic h tc t = Some (Ok (upsert_rows (map model_of_user_op us) t))" for t
    unfolding run us(1) by (simp only: option.map upsert)
  ultimately show ?thesis using front'(1) inside us(1) by blast
qed

lemma stored:
  assumes "handle_tx client reached logic h tc table = Some (Ok table')" "table' key \<noteq> table key"
  shows "\<exists>receipt u b ep. pv_receipt client h = Ok (Some receipt) \<and> table' key = Some (model_of_user_op u) \<and> u_hash u = key
    \<and> il_matches_entry_point logic ep \<and> backed_by_event d receipt b ep (rc_logs receipt) u"
proof -
  from handle_tx_Ok[OF assms(1)] obtain receipt parts us where r: "pv_receipt client h = Ok (Some receipt)"
    and parts: "\<forall>ep cd logs. ((ep, cd), logs) \<in> set parts \<longrightarrow> il_matches_entry_point logic ep \<and> set logs \<subseteq> set (rc_logs receipt)"
    and us: "parse_bundles (il_parse_user_ops logic receipt) 0 parts = Some us"
    and table': "table' = upsert_rows (map model_of_user_op us) table"
    by (elim exE conjE) (rule that, assumption+)
  from upsert_rows_changed[OF assms(2)[unfolded table']] obtain u
    where u: "u \<in> set us" "u_hash u = key" "table' key = Some (model_of_user_op u)"
    unfolding table' by (auto simp: model_of_user_op_def)
  from parse_bundles_sound[OF us u(1)] obtain k ep cd logs vs
    where part: "((ep, cd), logs) \<in> set parts" "il_parse_user_ops logic receipt k ep cd logs = Some (Ok vs)" "u \<in> set vs"
    by (metis prod.collapse)
  from parsed[OF part(2,3)] obtain b where "backed_by_event d receipt b ep logs u" by blast
  then have "backed_by_event d receipt b ep (rc_logs receipt) u"
    using parts part(1) by (auto simp: backed_by_event_def) blast
  with r u parts part(1) show ?thesis by blast
qed

lemma handled_again:
  assumes "handle_tx client reached logic h tc table = Some (Ok table')"
  shows "handle_tx client reached logic h tc table' = Some (Ok table')"
proof -
  from handle_tx_Ok[OF assms] obtain rows where "table' = upsert_rows rows table"
    "\<forall>t. handle_tx client reached logic h tc t = Some (Ok (upsert_rows rows t))" by blast
  then show ?thesis by (simp add: upsert_rows_twice)
qed

end

interpretation v06_law: parsing_law "indexer_v06 abi entry_points" "ea_user_operation_event abi" for abi entry_points
  by unfold_locales (auto simp: indexer_v06_def dest!: v06.parsed_are_backed)

interpretation v07_law: parsing_law "indexer_v07 abi v07s v08s" "ea_user_operation_event abi" for abi v07s v08s
  by unfold_locales (auto simp: indexer_v07_def dest!: v07.parsed_are_backed)


text \<open>The transaction of the sample operation.\<close>

definition sample_provider :: provider where
  "sample_provider =
     \<lparr>pv_transaction = (\<lambda>_. Ok (Some \<lparr>tx_to = Some [7], tx_input = []\<rparr>)),
      pv_receipt = (\<lambda>_. Ok (Some \<lparr>rc_transaction_hash = [6], rc_block_number = Some 3, rc_block_hash = Some [5],
         rc_logs = [sample_log [4] 0, sample_log [1] 1]\<rparr>)),
      pv_tracer = \<lparr>tp_debug_trace = (\<lambda>_. Err Backend_Gone), tp_trace = (\<lambda>_. Err Backend_Gone)\<rparr>\<rparr>"

lemma sample_parsed:
  "\<exists>us. il_parse_user_ops (indexer_v07 sample_abi [[7]] []) receipt 0 [7] cd [sample_log [1] 1] = Some (Ok us) \<and> length us = 1"
proof -
  let ?x = "\<lparr>xo_entry_point = [7], xo_user_op = sample_op, xo_bundler = [9], xo_aggregator = None, xo_aggregator_signature = None\<rparr>"
  have "\<exists>us. parse_user_ops o7_sender o7_nonce (build_user_op_model_v07 [] sample_abi) sample_abi receipt 0 [7] cd [sample_log [1] 1]
      = Some (Ok us) \<and> length us = length [?x]
      \<and> (\<forall>k<length [?x]. u_index (us ! k) = as_u32 k \<and> call_fields o7_sender o7_nonce ([?x] ! k) (us ! k)
           \<and> backed_by_event (ea_user_operation_event sample_abi) receipt (as_u32 0) [7] [sample_log [1] 1] (us ! k))"
    by (rule v07.all_are_parsed[where ends = "[sample_log [1] 1]"])
       (simp_all add: sample_defs extended_user_ops_def op_accepts_def ends_operation_def match_and_parse_def topic0_def
          packed_well_formed_def, auto)
  then show ?thesis by (auto simp: indexer_v07_def)
qed

lemma sample_handled:
  "\<exists>u. handle_tx sample_provider (Ok ()) (indexer_v07 sample_abi [[7]] []) [6] Debug Map.empty
     = Some (Ok [u_hash u \<mapsto> model_of_user_op u])"
proof -
  let ?receipt = "\<lparr>rc_transaction_hash = [6], rc_block_number = Some 3, rc_block_hash = Some [5],
     rc_logs = [sample_log [4] 0, sample_log [1] 1]\<rparr>"
  obtain us where us: "il_parse_user_ops (indexer_v07 sample_abi [[7]] []) ?receipt 0 [7] [] [sample_log [1] 1] = Some (Ok us)"
    "length us = 1" using sample_parsed by blast
  then obtain u where u: "us = [u]" by (auto simp: length_Suc_conv)
  have "starts_bundle (indexer_v07 sample_abi [[7]] []) (sample_log [4] 0)"
    "\<not> starts_bundle (indexer_v07 sample_abi [[7]] []) (sample_log [1] 1)"
    by (simp_all add: starts_bundle_def indexer_v07_def sample_abi_def sample_log_def topic0_def)
  then show ?thesis using us(1) unfolding u
    by (intro exI[of _ u])
       (simp add: handle_tx_def sample_provider_def transport_def ok_or_def calldatas_def database_def upsert_many_def
          upsert_rows_def model_of_user_op_def Let_def, simp add: indexer_v07_def)
qed


section \<open>How often a transaction is tried\<close>

lemma attempt_loop_result:
  "attempt_loop handle backoff n table = Some (r, waited, t) \<Longrightarrow>
     prefix waited backoff
     \<and> (\<forall>i<length waited. \<exists>e. handle (n + i) table = Some (Err e) \<and> e \<noteq> Transport Backend_Gone)
     \<and> (case r of
          Handled \<Rightarrow> handle (n + length waited) table = Some (Ok t)
        | Skipped \<Rightarrow> t = table \<and> waited = backoff
            \<and> (\<exists>e. handle (n + length waited) table = Some (Err e) \<and> e \<noteq> Transport Backend_Gone)
        | Ended e \<Rightarrow> t = table \<and> e = Transport Backend_Gone \<and> handle (n + length waited) table = Some (Err e))"
proof (induction handle backoff n table arbitrary: r waited t rule: attempt_loop.induct)
  case (1 handle n table)
  then show ?case by (auto split: option.splits sum.splits if_splits)
next
  case (2 handle delay backoff n table)
  show ?case
  proof (cases "\<exists>e. handle n table = Some (Err e) \<and> e \<noteq> Transport Backend_Gone")
    case True
    then obtain e where e: "handle n table = Some (Err e)" "e \<noteq> Transport Backend_Gone" by blast
    with 2(2) obtain waited' where w: "waited = delay # waited'"
      and rest: "attempt_loop handle backoff (Suc n) table = Some (r, waited', t)"
      by (auto simp: map_option_case split: option.splits)
    have "\<exists>e. handle (n + i) table = Some (Err e) \<and> e \<noteq> Transport Backend_Gone" if "i < length waited" for i
    proof (cases i)
      case 0
      with e show ?thesis by simp
    next
      case (Suc j)
      with that w 2(1)[OF e(1) refl e(2) rest] show ?thesis by simp
    qed
    moreover have "prefix waited (delay # backoff)" using 2(1)[OF e(1) refl e(2) rest] w by simp
    moreover have "case r of
          Handled \<Rightarrow> handle (n + length waited) table = Some (Ok t)
        | Skipped \<Rightarrow> t = table \<and> waited = delay # backoff
            \<and> (\<exists>e. handle (n + length waited) table = Some (Err e) \<and> e \<noteq> Transport Backend_Gone)
        | Ended e \<Rightarrow> t = table \<and> e = Transport Backend_Gone \<and> handle (n + length waited) table = Some (Err e)"
      using 2(1)[OF e(1) refl e(2) rest] w by (cases r) auto
    ultimately show ?thesis by blast
  next
    case False
    with 2(2) show ?thesis by (auto split: option.splits sum.splits if_splits)
  qed
qed

text \<open>C30: 
  A transaction is given up only after four failures, with waits of 5, 20 and 120 seconds between them; a failure leaves the
  table as it was, and a lost connection ends the attempts at once. When no attempt panics, the loop returns.
\<close>

theorem transaction_is_tried_four_times:
  assumes "\<And>n. handle n table \<noteq> None"
  shows "\<exists>r waited t. process_tx handle table = Some (r, waited, t) \<and> prefix waited [5, 20, 120]
     \<and> (\<forall>i<length waited. \<exists>e. handle i table = Some (Err e) \<and> e \<noteq> Transport Backend_Gone)
     \<and> (case r of
          Handled \<Rightarrow> handle (length waited) table = Some (Ok t)
        | Skipped \<Rightarrow> t = table \<and> waited = [5, 20, 120] \<and> (\<exists>e. handle 3 table = Some (Err e) \<and> e \<noteq> Transport Backend_Gone)
        | Ended e \<Rightarrow> t = table \<and> e = Transport Backend_Gone \<and> handle (length waited) table = Some (Err e))"
proof -
  have "attempt_loop handle backoff n table \<noteq> None" for backoff n
  proof (induction backoff arbitrary: n)
    case Nil
    show ?case using assms[of n] by (auto split: sum.splits)
  next
    case (Cons delay backoff)
    show ?case using assms[of n] Cons.IH[of "Suc n"] by (auto split: sum.splits)
  qed
  then obtain r waited t where run: "attempt_loop handle [5, 20, 120] 0 table = Some (r, waited, t)"
    by (metis not_None_eq prod_cases3)
  from attempt_loop_result[OF run] show ?thesis
    by (intro exI[of _ r] exI[of _ waited] exI[of _ t])
       (cases r; auto simp: process_tx_def run numeral_3_eq_3 simp del: attempt_loop.simps)
qed

text \<open>A handler that succeeds at its third attempt.\<close>

lemma transaction_is_tried_four_times_witness:
  "process_tx (\<lambda>n t. if n < 2 then Some (Err (Message ''busy'')) else Some (Ok (Suc t))) 0 = Some (Handled, [5, 20], 1)"
proof -
  let ?h = "\<lambda>n t. if n < 2 then Some (Err (Message ''busy'')) else Some (Ok (Suc t))"
  have "?h n 0 \<noteq> None" for n by simp
  from transaction_is_tried_four_times[of ?h, OF this] obtain r waited t where run: "process_tx ?h 0 = Some (r, waited, t)" by blast
  then show ?thesis by (simp add: process_tx_def)
qed

end
