(* ===== verification/User_Polling.thy ===== *)
theory User_Polling
  imports User_Bundles
begin

text \<open>
  Where the transactions come from: jobs of logs, the ranges of blocks of the three sources and the polling for new blocks
  (\<^verbatim>\<open>user-ops-indexer/user-ops-indexer-logic/src/indexer/base_indexer.rs\<close>), the cache that drops jobs seen a short time
  ago, and the status of the indexer (\<^verbatim>\<open>status.rs\<close>).
\<close>

section \<open>Jobs\<close>

record job =
  jb_tx_hash :: bytes
  jb_block_hash :: bytes

definition job_of_tx_hash :: "bytes \<Rightarrow> job" where
  "job_of_tx_hash h = \<lparr>jb_tx_hash = h, jb_block_hash = zero_block_hash\<rparr>"

definition job_of_log :: "tx_log \<Rightarrow> (string, job) result" where
  "job_of_log log =
     (if lg_removed log then Err ''unexpected pending log''
      else case (lg_transaction_hash log, lg_block_hash log) of
             (Some t, Some b) \<Rightarrow> Ok \<lparr>jb_tx_hash = t, jb_block_hash = b\<rparr>
           | _ \<Rightarrow> Err ''unexpected pending log'')"

definition jobs_of_logs :: "tx_log list \<Rightarrow> job list" where
  "jobs_of_logs logs = List.map_filter (\<lambda>log. case job_of_log log of Inl e \<Rightarrow> None | Inr j \<Rightarrow> Some j) logs"

text \<open>A node answers with the logs of a range of blocks that match the filter, both ends included.\<close>

definition fetch_jobs_for_block_range ::
  "(nat \<Rightarrow> nat \<Rightarrow> (transport_error, tx_log list) result) \<Rightarrow> nat \<Rightarrow> nat \<Rightarrow> (transport_error, job list) result" where
  "fetch_jobs_for_block_range get_logs from_block to_block =
     try_bind (get_logs from_block to_block) (\<lambda>logs. Ok (jobs_of_logs logs))"

section \<open>Ranges of the past\<close>

definition rpc_refetch_block_number :: "nat \<Rightarrow> nat \<Rightarrow> nat" where
  "rpc_refetch_block_number block_number block_range = block_number - block_range"

definition saturating_add_signed :: "nat \<Rightarrow> int \<Rightarrow> nat" where
  "saturating_add_signed n i = min (nat (int n + i)) u64_max"

text \<open>A setting above zero is a block, another one counts back from the refetched block.\<close>

definition past_db_logs_block :: "int \<Rightarrow> nat \<Rightarrow> nat" where
  "past_db_logs_block setting refetch = (if 0 < setting then nat setting else saturating_add_signed refetch setting)"

definition past_rpc_logs_range :: "nat \<Rightarrow> nat \<Rightarrow> nat \<times> nat" where
  "past_rpc_logs_range block_number block_range = (rpc_refetch_block_number block_number block_range + 1, block_number)"

text \<open>With the end setting zero the two ranges of the past meet without a gap and end at the latest block.\<close>

lemma past_ranges_meet:
  assumes "block_number \<le> u64_max" "start \<le> 0"
  shows "{past_db_logs_block start (rpc_refetch_block_number block_number r) .. past_db_logs_block 0 (rpc_refetch_block_number block_number r)}
      \<union> {fst (past_rpc_logs_range block_number r) .. snd (past_rpc_logs_range block_number r)}
    = {past_db_logs_block start (rpc_refetch_block_number block_number r) .. block_number}"
  using assms by (auto simp: past_db_logs_block_def saturating_add_signed_def past_rpc_logs_range_def rpc_refetch_block_number_def)

section \<open>Polling\<close>

record polling_settings =
  ps_polling_block_range :: nat
  ps_max_block_range :: nat

text \<open>What the node answers during one round: the latest block, or the logs of a range.\<close>

record node_answer =
  na_block_number :: "(transport_error, nat) result"
  na_get_logs :: "nat \<Rightarrow> nat \<Rightarrow> (transport_error, tx_log list) result"

definition poll_for_realtime_jobs :: "polling_settings \<Rightarrow> node_answer \<Rightarrow> nat \<times> nat \<Rightarrow> job list \<times> (nat \<times> nat)" where
  "poll_for_realtime_jobs settings node state =
     (case state of (from_block, current_block) \<Rightarrow>
        (case (if current_block \<le> from_block
               then try_bind (na_block_number node) (\<lambda>current_block. Ok ([], (from_block, current_block)))
               else let from_block = from_block - ps_polling_block_range settings;
                        to_block = min (from_block + ps_max_block_range settings) current_block
                    in try_bind (fetch_jobs_for_block_range (na_get_logs node) from_block to_block) (\<lambda>jobs.
                       Ok (jobs, (to_block + 1, current_block)))) of
           Inl e \<Rightarrow> ([], (from_block, current_block))
         | Inr next_round \<Rightarrow> next_round))"

text \<open>The stream: the jobs of all rounds so far and the state.\<close>

fun poll_rounds :: "polling_settings \<Rightarrow> node_answer list \<Rightarrow> nat \<times> nat \<Rightarrow> job list \<times> (nat \<times> nat)" where
  "poll_rounds settings [] state = ([], state)"
| "poll_rounds settings (node # nodes) state =
     (case poll_for_realtime_jobs settings node state of (jobs, state') \<Rightarrow>
        case poll_rounds settings nodes state' of (rest, state'') \<Rightarrow> (jobs @ rest, state''))"

text \<open>A node is honest when it answers with the logs of the chain or with an error.\<close>

definition honest :: "(nat \<Rightarrow> tx_log list) \<Rightarrow> node_answer \<Rightarrow> bool" where
  "honest chain node \<longleftrightarrow>
     (\<forall>a b logs. na_get_logs node a b = Ok logs \<longrightarrow> (\<forall>n. a \<le> n \<and> n \<le> b \<longrightarrow> set (chain n) \<subseteq> set logs))"

definition reachable_node :: "node_answer \<Rightarrow> bool" where
  "reachable_node node \<longleftrightarrow> (\<forall>a b. \<exists>logs. na_get_logs node a b = Ok logs)"

lemma jobs_of_logs_mono: "set xs \<subseteq> set ys \<Longrightarrow> set (jobs_of_logs xs) \<subseteq> set (jobs_of_logs ys)"
  by (auto simp: jobs_of_logs_def List.map_filter_def)

lemma poll_covers:
  assumes "honest chain node" "poll_for_realtime_jobs settings node (f, c) = (jobs, (f', c'))" "n < f'"
  shows "n < f \<or> set (jobs_of_logs (chain n)) \<subseteq> set jobs"
proof (cases "c \<le> f")
  case True
  with assms show ?thesis by (auto simp: poll_for_realtime_jobs_def try_bind_Ok_iff split: sum.splits)
next
  case False
  let ?from = "f - ps_polling_block_range settings"
  let ?to = "min (?from + ps_max_block_range settings) c"
  show ?thesis
  proof (cases "na_get_logs node ?from ?to")
    case (Inl e)
    with False assms show ?thesis by (simp add: poll_for_realtime_jobs_def fetch_jobs_for_block_range_def Let_def)
  next
    case (Inr logs)
    with False assms(2) have jobs: "jobs = jobs_of_logs logs" "f' = ?to + 1"
      by (auto simp: poll_for_realtime_jobs_def fetch_jobs_for_block_range_def Let_def)
    show ?thesis
    proof (cases "n < f")
      case False
      then have "set (chain n) \<subseteq> set logs"
        using assms(1,3) Inr jobs(2) unfolding honest_def by (metis Suc_eq_plus1 diff_le_self le_trans less_Suc_eq_le not_less)
      then show ?thesis by (simp add: jobs jobs_of_logs_mono)
    qed simp
  qed
qed

lemma poll_rounds_cover:
  "\<forall>node\<in>set nodes. honest chain node \<Longrightarrow> poll_rounds settings nodes (f, c) = (jobs, (f', c')) \<Longrightarrow> n < f' \<Longrightarrow>
     n < f \<or> set (jobs_of_logs (chain n)) \<subseteq> set jobs"
proof (induction nodes arbitrary: f c jobs)
  case (Cons node nodes)
  obtain js f1 c1 where step: "poll_for_realtime_jobs settings node (f, c) = (js, (f1, c1))"
    by (metis prod.collapse)
  with Cons.prems(2) obtain rest where rest: "poll_rounds settings nodes (f1, c1) = (rest, (f', c'))" "jobs = js @ rest"
    by (auto split: prod.splits)
  from Cons.IH[OF _ rest(1) Cons.prems(3)] Cons.prems(1) have "n < f1 \<or> set (jobs_of_logs (chain n)) \<subseteq> set rest" by simp
  moreover have "n < f \<or> set (jobs_of_logs (chain n)) \<subseteq> set js" if "n < f1"
    using Cons.prems(1) by (intro poll_covers[OF _ step that]) simp
  ultimately show ?case unfolding rest(2) by auto
qed simp

text \<open>Progress needs a range that is not shorter than the stretch that is fetched again.\<close>

lemma poll_progress:
  assumes "reachable_node node" "ps_polling_block_range settings \<le> ps_max_block_range settings"
    and "poll_for_realtime_jobs settings node (f, c) = (jobs, (f', c'))"
  shows "if f < c then f < f' \<and> f' \<le> c + 1 \<and> c' = c else f' = f"
proof (cases "f < c")
  case True
  let ?from = "f - ps_polling_block_range settings"
  let ?to = "min (?from + ps_max_block_range settings) c"
  obtain logs where "na_get_logs node ?from ?to = Ok logs" using assms(1) unfolding reachable_node_def by blast
  with True assms(3) have "f' = ?to + 1" "c' = c"
    by (auto simp: poll_for_realtime_jobs_def fetch_jobs_for_block_range_def Let_def)
  moreover have "f \<le> ?to" using True assms(2) by auto
  ultimately show ?thesis using True by simp
next
  case False
  with assms(3) show ?thesis by (auto simp: poll_for_realtime_jobs_def try_bind_Ok_iff split: sum.splits)
qed

lemma poll_rounds_progress:
  assumes "ps_polling_block_range settings \<le> ps_max_block_range settings"
  shows "\<forall>node\<in>set nodes. reachable_node node \<Longrightarrow> poll_rounds settings nodes (f, c) = (jobs, (f', c')) \<Longrightarrow>
     f \<le> f' \<and> (c - f \<le> length nodes \<longrightarrow> c \<le> f')"
proof (induction nodes arbitrary: f c jobs)
  case (Cons node nodes)
  obtain js f1 c1 where step: "poll_for_realtime_jobs settings node (f, c) = (js, (f1, c1))"
    by (metis prod.collapse)
  with Cons.prems(2) obtain rest where rest: "poll_rounds settings nodes (f1, c1) = (rest, (f', c'))" by (auto split: prod.splits)
  from Cons.IH[OF _ rest] Cons.prems(1) have later: "f1 \<le> f'" "c1 - f1 \<le> length nodes \<longrightarrow> c1 \<le> f'" by simp_all
  have first: "if f < c then f < f1 \<and> f1 \<le> c + 1 \<and> c1 = c else f1 = f"
    using Cons.prems(1) by (intro poll_progress[OF _ assms step]) simp
  show ?case
  proof (cases "f < c")
    case True
    with first later show ?thesis by auto
  next
    case False
    with first later show ?thesis by auto
  qed
qed simp


text \<open>Two rounds for the blocks 10 and 11, each with one log.\<close>

definition sample_chain :: "nat \<Rightarrow> tx_log list" where
  "sample_chain n =
     [\<lparr>lg_address = [7], lg_topics = [], lg_data = [], lg_index = Some 0, lg_transaction_hash = Some [of_nat n],
       lg_block_hash = Some [of_nat n], lg_removed = False\<rparr>]"

definition sample_node :: node_answer where
  "sample_node = \<lparr>na_block_number = Ok 12, na_get_logs = (\<lambda>a b. Ok (concat (map sample_chain [a..<b + 1])))\<rparr>"


section \<open>When polling stands still\<close>

text \<open>The newest block waits for the next one, and a longer stretch than the range moves the polling back.\<close>

lemma newest_block_waits: "fst (poll_for_realtime_jobs settings node (n, n)) = []"
  by (auto simp: poll_for_realtime_jobs_def split: sum.splits prod.splits dest!: try_bind_Ok_iff[THEN iffD1])

lemma polling_moves_back:
  assumes "ps_max_block_range settings < ps_polling_block_range settings" "ps_polling_block_range settings \<le> f" "f < c"
    and "reachable_node node"
  shows "fst (snd (poll_for_realtime_jobs settings node (f, c))) \<le> f"
proof -
  let ?from = "f - ps_polling_block_range settings"
  let ?to = "min (?from + ps_max_block_range settings) c"
  obtain logs where "na_get_logs node ?from ?to = Ok logs" using assms(4) unfolding reachable_node_def by blast
  then have "fst (snd (poll_for_realtime_jobs settings node (f, c))) = ?to + 1"
    using assms(3) by (simp add: poll_for_realtime_jobs_def fetch_jobs_for_block_range_def Let_def)
  then show ?thesis using assms by simp
qed

section \<open>Dropping jobs seen a short time ago\<close>

text \<open>
  \<open>put\<close> is the operation of the LRU cache: it returns the time that was stored with the job, if any, and stores the new one. The
  stream maps each job, with the time at which it comes, to its transaction or to nothing, and then drops the nothings.
\<close>

fun scan_jobs :: "('c \<Rightarrow> job \<Rightarrow> nat \<Rightarrow> nat option \<times> 'c) \<Rightarrow> nat \<Rightarrow> 'c \<Rightarrow> (job \<times> nat) list \<Rightarrow> bytes option list" where
  "scan_jobs put interval cache [] = []"
| "scan_jobs put interval cache ((job, now) # jobs) =
     (case put cache job now of
        (Some ts, cache') \<Rightarrow> (if now < ts + interval then None else Some (jb_tx_hash job)) # scan_jobs put interval cache' jobs
      | (None, cache') \<Rightarrow> Some (jb_tx_hash job) # scan_jobs put interval cache' jobs)"

definition stream_txs :: "('c \<Rightarrow> job \<Rightarrow> nat \<Rightarrow> nat option \<times> 'c) \<Rightarrow> nat \<Rightarrow> 'c \<Rightarrow> (job \<times> nat) list \<Rightarrow> bytes list" where
  "stream_txs put interval cache jobs = List.map_filter id (scan_jobs put interval cache jobs)"

definition put_all :: "('c \<Rightarrow> job \<Rightarrow> nat \<Rightarrow> nat option \<times> 'c) \<Rightarrow> 'c \<Rightarrow> (job \<times> nat) list \<Rightarrow> 'c" where
  "put_all put cache jobs = foldl (\<lambda>c (j, t). snd (put c j t)) cache jobs"

lemma put_all_simps [simp]:
  "put_all put cache [] = cache"
  "put_all put cache (jobs @ [(j, t)]) = snd (put (put_all put cache jobs) j t)"
  by (simp_all add: put_all_def)

text \<open>The cache may forget a job, and what it returns has been put in with this job.\<close>

locale seen_cache =
  fixes empty_cache :: 'c and put :: "'c \<Rightarrow> job \<Rightarrow> nat \<Rightarrow> nat option \<times> 'c"
  assumes seen: "fst (put (put_all put empty_cache hs) j t) = Some ts \<Longrightarrow> (j, ts) \<in> set hs"
begin

lemma dropped_was_seen:
  "i < length jobs \<Longrightarrow>
     scan_jobs put interval (put_all put empty_cache hs) jobs ! i = Some (jb_tx_hash (fst (jobs ! i)))
     \<or> (\<exists>ts. (fst (jobs ! i), ts) \<in> set hs \<union> set (take i jobs) \<and> snd (jobs ! i) < ts + interval)"
proof (induction jobs arbitrary: hs i)
  case (Cons jt jobs)
  obtain j t where jt: "jt = (j, t)" by (cases jt)
  let ?c = "put_all put empty_cache hs"
  obtain old c' where step: "put ?c j t = (old, c')" by (cases "put ?c j t")
  have c': "c' = put_all put empty_cache (hs @ [(j, t)])" by (simp add: step)
  show ?case
  proof (cases i)
    case 0
    then show ?thesis using step seen[of hs j t] by (cases old) (auto simp: jt)
  next
    case (Suc k)
    have "scan_jobs put interval ?c (jt # jobs) ! i = scan_jobs put interval c' jobs ! k"
      by (simp add: jt step Suc split: option.split)
    with Cons.IH[of k "hs @ [(j, t)]"] Cons.prems show ?thesis by (auto simp: c' Suc jt)
  qed
qed simp

lemma first_is_kept:
  assumes "i < length jobs" "fst (jobs ! i) \<notin> fst ` set (take i jobs)"
  shows "jb_tx_hash (fst (jobs ! i)) \<in> set (stream_txs put interval empty_cache jobs)"
proof -
  have len: "length (scan_jobs put interval c js) = length js" for c js
    by (induction put interval c js rule: scan_jobs.induct) (auto split: prod.splits option.splits)
  have new: "(fst (jobs ! i), ts) \<notin> set (take i jobs)" for ts using assms(2) by (metis fst_conv imageI)
  from dropped_was_seen[of i jobs interval "[]"] assms(1)
  have "scan_jobs put interval empty_cache jobs ! i = Some (jb_tx_hash (fst (jobs ! i)))" by (simp add: new)
  then have "Some (jb_tx_hash (fst (jobs ! i))) \<in> set (scan_jobs put interval empty_cache jobs)"
    using assms(1) len by (metis nth_mem)
  then show ?thesis by (force simp: stream_txs_def List.map_filter_def)
qed

end

text \<open>A cache of some capacity with the job used last in front.\<close>

definition lru_put :: "nat \<Rightarrow> (job \<times> nat) list \<Rightarrow> job \<Rightarrow> nat \<Rightarrow> nat option \<times> (job \<times> nat) list" where
  "lru_put capacity cache j t =
     (map_of cache j, take capacity ((j, t) # filter (\<lambda>e. fst e \<noteq> j) cache))"

lemma lru_holds_puts: "set (put_all (lru_put capacity) [] hs) \<subseteq> set hs"
proof (induction hs rule: rev_induct)
  case (snoc e hs)
  then show ?case by (cases e) (auto simp: lru_put_def dest!: in_set_takeD)
qed simp

interpretation lru: seen_cache "[]" "lru_put capacity" for capacity
  by unfold_locales (use lru_holds_puts in \<open>fastforce simp: lru_put_def dest: map_of_SomeD\<close>)

section \<open>Status\<close>

record entry_point_indexer_status =
  st_enabled :: bool
  st_live :: bool
  st_past_db_logs_indexing_finished :: bool
  st_past_rpc_logs_indexing_finished :: bool

record indexer_status =
  st_v06 :: entry_point_indexer_status
  st_v07_v08 :: entry_point_indexer_status

datatype status_message = IndexerStarted | PastDbLogsIndexingFinished | PastRpcLogsIndexingFinished

definition finished_past_indexing :: "entry_point_indexer_status \<Rightarrow> bool" where
  "finished_past_indexing s \<longleftrightarrow>
     \<not> st_enabled s \<or> st_past_db_logs_indexing_finished s \<and> st_past_rpc_logs_indexing_finished s"

fun update_entry_point_status :: "status_message \<Rightarrow> entry_point_indexer_status \<Rightarrow> entry_point_indexer_status" where
  "update_entry_point_status IndexerStarted s = s\<lparr>st_live := True\<rparr>"
| "update_entry_point_status PastDbLogsIndexingFinished s = s\<lparr>st_past_db_logs_indexing_finished := True\<rparr>"
| "update_entry_point_status PastRpcLogsIndexingFinished s = s\<lparr>st_past_rpc_logs_indexing_finished := True\<rparr>"

definition update_status :: "string \<times> status_message \<Rightarrow> indexer_status \<Rightarrow> indexer_status" where
  "update_status message status =
     (if fst message = ''v0.6'' then status\<lparr>st_v06 := update_entry_point_status (snd message) (st_v06 status)\<rparr>
      else if fst message = ''v0.7-v0.8''
      then status\<lparr>st_v07_v08 := update_entry_point_status (snd message) (st_v07_v08 status)\<rparr>
      else status)"

text \<open>The messages that one run of an indexer sends, with the settings of the two indexers of the past.\<close>

definition run_messages :: "bool \<Rightarrow> bool \<Rightarrow> status_message list" where
  "run_messages past_db_enabled past_rpc_enabled =
     [IndexerStarted] @ (if past_db_enabled then [PastDbLogsIndexingFinished] else [])
     @ (if past_rpc_enabled then [PastRpcLogsIndexingFinished] else [])"

text \<open>Past indexing counts as finished only if both indexers of the past are switched on.\<close>

lemma finished_needs_both:
  assumes "st_enabled s" "\<not> st_past_db_logs_indexing_finished s" "\<not> st_past_rpc_logs_indexing_finished s"
  shows "finished_past_indexing (fold update_entry_point_status (run_messages db rpc) s) \<longleftrightarrow> db \<and> rpc"
  using assms by (simp add: run_messages_def finished_past_indexing_def)

end
