(* ===== verification/Spec2Isabelle.thy ===== *)
theory Spec2Isabelle
  imports Stats_Update Code_Verifier Bytecode_Db Tac_Pages Sig_Requests User_Handler User_Polling
begin

text \<open>
  A verification development for the Rust services of \<^verbatim>\<open>blockscout-rs\<close>, the programs that stand
  beside a block explorer. All paths below are relative to \<^verbatim>\<open>src/\<close>.

  \<^bold>\<open>The program.\<close> The repository is a collection of services. This development covers the ones
  with logic of their own:

  \<^item> \<^verbatim>\<open>stats\<close> computes charts (a value per day, week, month or year) from the explorer's database, stores
    them in a database of its own and serves them. A chart is a \<^emph>\<open>data source\<close> with
    dependencies; charts are updated in groups that share charts and lock them.
  \<^item> \<^verbatim>\<open>smart-contract-verifier\<close> decides whether a source text is the source of a contract on chain: it fetches
    a compiler, compiles the source (twice, to find the metadata sections) and matches the result with the code
    on chain up to metadata, libraries, immutables and constructor arguments.
  \<^item> \<^verbatim>\<open>eth-bytecode-db\<close> stores verified sources, split into parts of code, and searches them for a given code.

  \<^item> \<^verbatim>\<open>sig-provider\<close> asks databases of signatures, \<^verbatim>\<open>eth-bytecode-db\<close> among them, and decodes calls and logs with their answers.
  \<^item> \<^verbatim>\<open>tac-operation-lifecycle\<close> asks a remote service for cross-chain operations, interval by interval, keeps them with their
    stages in a database and lists them.
  \<^item> \<^verbatim>\<open>user-ops-indexer\<close> reads transactions that call an entry point, pairs the operations of the calls with the logs that they left and
    stores them.

  The first three meet as follows: the verifier's result (\<^verbatim>\<open>local_bytecode_parts\<close>) is what the database stores, and the
  statistics count what the explorer has verified. The chains of theories below are
  independent of each other.

  \<^bold>\<open>Conventions.\<close> A Rust \<open>Result<A, E>\<close> is the sum \<^typ>\<open>'e + 'a\<close>, written with \<^const>\<open>Err\<close> and
  \<^const>\<open>Ok\<close>. A panic, and a loop that does not return, is the value \<^const>\<open>None\<close> of an option around the result;
  loops whose end depends on the data are partial functions into the option type, and that they return is then a theorem of its own, so no fuel occurs
  anywhere. A struct is a record, an enumeration a datatype, an asynchronous function that
  shares state with others a step relation. SQL tables are lists of rows or functions; statements
  whose text is in the source are definitions on them. What is not in the repository is a
  parameter: a record of functions (the calendar crate \<^verbatim>\<open>chrono\<close>, the CBOR and hash libraries, the compiler binary, the
  remote list of compilers, the database driver). The laws a proof needs of a parameter are the assumptions of a
  locale, and each locale is interpreted on a concrete instance.

  \<^bold>\<open>Theories on the statistics.\<close>

  \<^item> \<open>Prelude\<close>: results, three-way comparison, binary search of slices, ranges and bounds, hexadecimal text and lemmas on lists.
  \<^item> \<open>Chrono\<close>, \<open>Civil\<close>: the interface of the calendar crate (locales \<open>chrono_days\<close>, \<open>chrono_calendar\<close>), and the proleptic Gregorian
    calendar that satisfies it.
  \<^item> \<open>Stats_Timespan\<close>, \<open>Stats_Calendar\<close>: the trait \<open>Timespan\<close> (\<^verbatim>\<open>charts/types/traits.rs\<close>) and its
    instances day, week, month and year. Locales \<open>discrete_timespan\<close> and \<open>calendar_timespan\<close> state what the rest relies
    on; every instance is shown lawful and the time ranges of its spans partition time.
  \<^item> \<open>Stats_Data\<close>, \<open>Stats_Missing\<close>: \<^verbatim>\<open>data_processing.rs\<close> and \<^verbatim>\<open>missing_date.rs\<close>. Running sums and differences are inverse, merging
    of two charts, a filled chart has exactly the requested spans with the values of the policy; the cases in which
    the code panics or does not return are theorems too.
  \<^item> \<open>Stats_Range\<close>: \<^verbatim>\<open>range.rs\<close>, conversions between ranges with excluded, included and missing ends and what each preserves.
  \<^item> \<open>Stats_Read\<close>: \<^verbatim>\<open>charts/db_interaction/read\<close>, what a client gets for a requested range, with the mark of approximate points.
  \<^item> \<open>Stats_Sources\<close>: \<^verbatim>\<open>data_source/kinds/data_manipulation\<close>, charts of a lower resolution by sum, last value and weighted average, and what each computes.
  \<^item> \<open>Stats_Batch\<close>, \<open>Stats_Store\<close>, \<open>Stats_Update\<close>: \<^verbatim>\<open>data_source/kinds/local_db\<close> and \<^verbatim>\<open>write.rs\<close>. The batches cover the update
    range without overlap, an update changes only its own chart, a second update at the same time is skipped, clearing and writing is atomic, and a
    batch update that returns has stored every due point. The locale \<open>chart_tables\<close> is the interface of the database.
  \<^item> \<open>Stats_Indexing\<close>, \<open>Stats_Groups\<close>: \<^verbatim>\<open>charts/indexing_status.rs\<close>, \<^verbatim>\<open>data_source/source.rs\<close>, \<^verbatim>\<open>update_group.rs\<close>. Dependencies are visited before
    dependants; operations of groups run as interleaved steps that lock mutexes in one order, never work on the
    same chart at once and always finish.

  \<^bold>\<open>Theories on contract verification.\<close>

  \<^item> \<open>Code_Match\<close>: \<^verbatim>\<open>verification-common/src/verifier_alliance\<close> and \<^verbatim>\<open>verify/verification.rs\<close>. A reported match is sound (applying its
    transformations to the compiled code gives the code on chain) and complete (code that differs in admissible places only is matched).
  \<^item> \<open>Code_Auxdata\<close>: \<^verbatim>\<open>verify/cbor_auxdata.rs\<close>, the metadata sections found cover every difference of the two compilations.
  \<^item> \<open>Code_Blueprint\<close>: \<^verbatim>\<open>blueprint_contracts.rs\<close>, reading a blueprint inverts the encoding of EIP-5202.
  \<^item> \<open>Code_Compilers\<close>: \<^verbatim>\<open>compiler/\<close>, order of versions, both fetchers, and the cache as a step relation: a
    compiler is fetched once, every request finishes, and no compiler with a wrong hash is handed out.
  \<^item> \<open>Code_Methods\<close>: \<^verbatim>\<open>lookup_methods/\<close>, disassembly loses nothing of the code, and a method is listed exactly when the code dispatches to it.
  \<^item> \<open>Code_Verifier\<close>: \<^verbatim>\<open>verify/verifier.rs\<close>, \<^verbatim>\<open>compilation.rs\<close>, \<^verbatim>\<open>evm_compilers.rs\<close>, the composition of the four theories above.
  \<^item> \<open>Bytecode_Db\<close>: \<^verbatim>\<open>eth-bytecode-db/src/verification/db\<close> and \<^verbatim>\<open>search\<close>, a stored source is found by its code, what is found
    agrees with the code, and insertions keep every reference of the tables valid.

  \<^bold>\<open>Theories on the lifecycle of operations\<close> (\<^verbatim>\<open>tac-operation-lifecycle/tac-operation-lifecycle-logic/src\<close>).

  \<^item> \<open>Tac_Database\<close>: \<^verbatim>\<open>database.rs\<close>, \<^verbatim>\<open>utils.rs\<close> and the tables. Every statement may fail, transactions are undone by an error.
  \<^item> \<open>Tac_Indexer\<close>: \<^verbatim>\<open>indexer.rs\<close>, \<^verbatim>\<open>client/mod.rs\<close>; the program as a step relation between its points of waiting: start, claims of the
    streams, jobs, realtime thread, kill and restart.
  \<^item> \<open>Tac_Runs\<close>: what the client gets from a service with pages; no operation up to the watermark is lost in any run; an interval has one job.
  \<^item> \<open>Tac_Rows\<close>: generated intervals partition past time; rows no stream picks up: the interval that ends at the boundary, settled
    operations; lost intervals after an ignored error.
  \<^item> \<open>Tac_Pages\<close>: pages list every operation; the steps of a job are the function of the source.

  \<^bold>\<open>Theories on signatures\<close> (\<^verbatim>\<open>sig-provider\<close>).

  \<^item> \<open>Sig_Provider\<close>: \<^verbatim>\<open>sig-provider/src/sources\<close>, \<^verbatim>\<open>aggregator.rs\<close> and \<^verbatim>\<open>sig-provider-server/src/service.rs\<close>. A source is a record of
    functions, made from an HTTP client as the code makes it; the ABI crate is a record of functions.
  \<^item> \<open>Sig_Requests\<close>: what is decoded of a call is exact, indexed fields are found within the limit on combinations (locale
    \<open>combination_law\<close> is the interface of the crate that enumerates them), names of arguments are distinct, pages of a source are followed to their
    end, a batch answers each log as a single request to the complete sources does, and the service reports bad arguments only.

  \<^bold>\<open>Theories on user operations\<close> (\<^verbatim>\<open>user-ops-indexer/user-ops-indexer-logic/src/indexer\<close>).

  \<^item> \<open>User_Traces\<close>: \<^verbatim>\<open>rpc_utils.rs\<close>. The two formats of traces lead to the same calls, and a call inside a reverted one counts as failed.
  \<^item> \<open>User_Splits\<close>: the loop that splits the logs of a bundle finds a part for every operation exactly when one exists.
  \<^item> \<open>User_Bundles\<close>: \<^verbatim>\<open>common.rs\<close>, \<^verbatim>\<open>v06/mod.rs\<close>, \<^verbatim>\<open>v07/mod.rs\<close>. From a call and the logs of its bundle to operations; the generated bindings are a
    record of functions, numbers of 256 bits are words.
  \<^item> \<open>User_Parsing\<close>: every operation of a call whose event is in the logs is found, and what is found is backed by an event (locale
    \<open>operation_builder\<close>, the contract of the builders of both versions).
  \<^item> \<open>User_Handler\<close>: \<^verbatim>\<open>types/user_op.rs\<close>, \<open>upsert_many\<close> and \<open>handle_tx\<close> with its retries. A handled transaction is stored, handling it again changes
    nothing, and a row is read back as it was stored but for its fee (locale \<open>parsing_law\<close>).
  \<^item> \<open>User_Polling\<close>: the ranges of blocks, polling and the cache of jobs of \<^verbatim>\<open>base_indexer.rs\<close> (locale \<open>seen_cache\<close>), and \<^verbatim>\<open>status.rs\<close>. Polling loses no block
    and catches up; the first of equal jobs is never dropped.

  \<^bold>\<open>Bounds.\<close> Lengths of byte strings and vectors are natural numbers (a \<open>usize\<close> cannot be exceeded by the length of a value in
  memory); widths are kept where the code can leave them: counters of timespans and
  the calendar's limits saturate or fail as in the source; conversions between \<open>u64\<close> and \<open>i64\<close> wrap; retry counters have sixteen bits. The
  statements on runs of the indexer assume times below \<open>2^62\<close> seconds, far beyond the range of dates of \<^verbatim>\<open>chrono\<close>.

  \<^bold>\<open>Not modelled.\<close> The listings of user operations, whose SQL joins tables of the explorer; network handlers, configuration, logging, metrics and protobuf conversions (no logic to state); the SQL of the individual
  charts, which reads tables of another program; the language front ends of the verifier, which are JSON formats of
  external compilers; the verifier alliance database, whose behaviour rests on triggers of an external schema; the services
  \<^verbatim>\<open>blockscout-ens\<close>, \<^verbatim>\<open>da-indexer\<close>, \<^verbatim>\<open>multichain-aggregator\<close>, \<^verbatim>\<open>proxy-verifier\<close>, \<^verbatim>\<open>stylus-verifier\<close>, \<^verbatim>\<open>fluent-verifier\<close>
  and \<^verbatim>\<open>visualizer\<close>, which mostly forward requests or run external tools.
\<close>

end
